(* ===== verification/Prelude.thy ===== *)
theory Prelude
  imports Complex_Main "HOL-Library.Word"
begin

text \<open>
  Shared vocabulary of the development: the outcome of a Go call that may panic, the string
  functions of Go's \<^verbatim>\<open>strings\<close> package that the sources call, Go's truncating integer
  division, and the generic lemmas on lists, options and maps that the component theories use.

  Go strings are byte strings and are modelled by \<^typ>\<open>string\<close> (one \<^typ>\<open>char\<close> per byte).
  \<^verbatim>\<open>float64\<close> values are modelled by \<^typ>\<open>real\<close>: rounding, NaN and the infinities are not
  represented.  Times and durations are \<^typ>\<open>int\<close> values (nanoseconds unless said otherwise).
\<close>

named_theorems go_string \<open>computation rules of the modelled string functions\<close>
named_theorems go_arith \<open>facts on truncating division and windows of time\<close>

type_synonym u32 = "32 word"
type_synonym u64 = "64 word"

text \<open>A call that returns or panics; \<^verbatim>\<open>Panic\<close> carries the runtime message.\<close>

datatype 'a go = Return 'a | Panic string

fun go_bind :: "'a go \<Rightarrow> ('a \<Rightarrow> 'b go) \<Rightarrow> 'b go" where
  "go_bind (Return a) f = f a"
| "go_bind (Panic m) f = Panic m"

fun returns :: "'a go \<Rightarrow> bool" where
  "returns (Return _) = True"
| "returns (Panic _) = False"

section \<open>Go's string functions\<close>

fun has_prefix :: "string \<Rightarrow> string \<Rightarrow> bool" where
  "has_prefix s [] = True"
| "has_prefix [] (p # ps) = False"
| "has_prefix (c # s) (p # ps) = (c = p \<and> has_prefix s ps)"

definition has_suffix :: "string \<Rightarrow> string \<Rightarrow> bool" where
  "has_suffix s p = has_prefix (rev s) (rev p)"

definition trim_prefix :: "string \<Rightarrow> string \<Rightarrow> string" where
  "trim_prefix s p = (if has_prefix s p then drop (length p) s else s)"

definition trim_suffix :: "string \<Rightarrow> string \<Rightarrow> string" where
  "trim_suffix s p = (if has_suffix s p then take (length s - length p) s else s)"

fun contains :: "string \<Rightarrow> string \<Rightarrow> bool" where
  "contains [] p = (p = [])"
| "contains (c # s) p = (has_prefix (c # s) p \<or> contains s p)"

text \<open>\<^verbatim>\<open>strings.Split(s, sep)\<close> for a separator of one byte.\<close>

fun split_on :: "char \<Rightarrow> string \<Rightarrow> string list" where
  "split_on d [] = [[]]"
| "split_on d (c # s) =
     (if c = d then [] # split_on d s
      else (case split_on d s of [] \<Rightarrow> [[c]] | w # ws \<Rightarrow> (c # w) # ws))"

text \<open>A path \<^verbatim>\<open>http.ServeMux\<close> does not redirect: no empty or dotted component.\<close>

definition clean_path :: "string \<Rightarrow> bool" where
  "clean_path p =
     (case split_on (CHR ''/'') p of
        [] # cs \<Rightarrow> list_all (\<lambda>c. c \<noteq> [] \<and> c \<noteq> ''.'' \<and> c \<noteq> ''..'') (butlast cs) \<and>
          cs \<noteq> [] \<and> last cs \<noteq> ''.'' \<and> last cs \<noteq> ''..''
      | _ \<Rightarrow> False)"

text \<open>
  The code points that \<^verbatim>\<open>unicode.IsSpace\<close> accepts, as UTF-8 byte sequences: the six ASCII
  blanks, U+0085, U+00A0, U+1680, U+2000 to U+200A, U+2028, U+2029, U+202F, U+205F, U+3000.
\<close>

definition space_runes :: "string list" where
  "space_runes =
     map (\<lambda>n. [char_of (n::nat)]) [9, 10, 11, 12, 13, 32] @
     map (map (char_of :: nat \<Rightarrow> char))
       ([[194, 133], [194, 160], [225, 154, 128]] @
        map (\<lambda>n. [226, 128, n]) [128, 129, 130, 131, 132, 133, 134, 135, 136, 137, 138] @
        [[226, 128, 168], [226, 128, 169], [226, 128, 175], [226, 129, 159], [227, 128, 128]])"

definition strip_one :: "string list \<Rightarrow> string \<Rightarrow> string option" where
  "strip_one rs s =
     (case filter (has_prefix s) rs of [] \<Rightarrow> None | r # _ \<Rightarrow> Some (drop (length r) s))"

function strip_left :: "string list \<Rightarrow> string \<Rightarrow> string" where
  "strip_left rs s =
     (case strip_one rs s of
        None \<Rightarrow> s
      | Some s' \<Rightarrow> if length s' < length s then strip_left rs s' else s)"
  by pat_completeness auto
termination
  by (relation "measure (\<lambda>(rs, s). length s)") auto

declare strip_left.simps [simp del]

text \<open>\<^verbatim>\<open>strings.TrimSpace\<close>: white space is removed on both sides.\<close>

definition trim_space :: "string \<Rightarrow> string" where
  "trim_space s =
     rev (strip_left (map rev space_runes) (rev (strip_left space_runes s)))"

section \<open>Go's integer division\<close>

text \<open>
  Division and remainder on signed integers truncate towards zero; a zero divisor panics,
  which the callers write out.
\<close>

definition tdiv :: "int \<Rightarrow> int \<Rightarrow> int" where
  "tdiv a b = sgn a * sgn b * (\<bar>a\<bar> div \<bar>b\<bar>)"

section \<open>Maps\<close>

text \<open>An order in which ranging over a Go map may visit its keys.\<close>

definition map_order :: "'k list \<Rightarrow> ('k \<rightharpoonup> 'v) \<Rightarrow> bool" where
  "map_order ks m \<longleftrightarrow> distinct ks \<and> set ks = dom m"

section \<open>Hashes\<close>

text \<open>\<^verbatim>\<open>fnv.New64a\<close>: exclusive-or with the byte, then multiplication by the prime.\<close>

definition fnv64a :: "string \<Rightarrow> u64" where
  "fnv64a s = foldl (\<lambda>h c. xor h (word_of_nat (of_char c)) * 1099511628211) 14695981039346656037 s"

section \<open>Lemmas\<close>

lemma go_bind_Return_iff:
  "go_bind x f = Return b \<longleftrightarrow> (\<exists>a. x = Return a \<and> f a = Return b)"
  by (cases x) auto

lemma returns_iff: "returns x \<longleftrightarrow> (\<exists>a. x = Return a)"
  by (cases x) auto

lemma has_prefix_iff [go_string]: "has_prefix s p \<longleftrightarrow> (\<exists>t. s = p @ t)"
  by (induction s p rule: has_prefix.induct) auto

lemma has_suffix_iff [go_string]: "has_suffix s p \<longleftrightarrow> (\<exists>t. s = t @ p)"
proof
  assume "has_suffix s p"
  then obtain t where "rev s = rev p @ t"
    by (auto simp: has_suffix_def has_prefix_iff)
  then have "s = rev t @ p"
    by (metis rev_append rev_rev_ident)
  then show "\<exists>t. s = t @ p" ..
qed (auto simp: has_suffix_def has_prefix_iff)

lemma trim_prefix_append [simp]: "trim_prefix (p @ s) p = s"
  by (simp add: trim_prefix_def has_prefix_iff)

lemma trim_suffix_append [simp]: "trim_suffix (s @ p) p = s"
  by (simp add: trim_suffix_def has_suffix_iff)

lemma contains_char_iff: "contains s [c] \<longleftrightarrow> c \<in> set s"
  by (induction s) auto

lemma split_on_nonempty [simp]: "split_on d s \<noteq> []"
  by (induction s) (auto split: list.splits)

lemma split_on_plain: "d \<notin> set s \<Longrightarrow> split_on d s = [s]"
  by (induction s) auto

lemma split_on_first: "d \<notin> set a \<Longrightarrow> split_on d (a @ d # b) = a # split_on d b"
  by (induction a) auto

lemma split_on_no_sep: "w \<in> set (split_on d s) \<Longrightarrow> d \<notin> set w"
  by (induction s arbitrary: w) (auto split: if_splits list.splits)

lemma tdiv_nonneg [go_arith]: "0 \<le> a \<Longrightarrow> 0 < b \<Longrightarrow> tdiv a b = a div b"
  by (cases "a = 0") (auto simp: tdiv_def)

lemma window_bounds [go_arith]:
  fixes a b :: int
  assumes "0 < b"
  shows "a div b * b \<le> a" "a < a div b * b + b"
proof -
  have "a = a div b * b + a mod b" by simp
  moreover have "0 \<le> a mod b" "a mod b < b" using assms by auto
  ultimately show "a div b * b \<le> a" "a < a div b * b + b" by linarith+
qed

text \<open>The value of an \<^verbatim>\<open>int64\<close> expression: arithmetic wraps around.\<close>

definition int64 :: "int \<Rightarrow> int" where
  "int64 x = (x + 2 ^ 63) mod 2 ^ 64 - 2 ^ 63"

lemma int64_id [go_arith]: "- (2 ^ 63) \<le> x \<Longrightarrow> x < 2 ^ 63 \<Longrightarrow> int64 x = x"
  by (simp add: int64_def)

lemma int64_range: "- (2 ^ 63) \<le> int64 x" "int64 x < 2 ^ 63"
  using pos_mod_bound [of "2 ^ 64 :: int" "x + 2 ^ 63"] by (simp_all add: int64_def)

section \<open>Decimal text\<close>

text \<open>\<^verbatim>\<open>strconv.Itoa\<close> and the verb \<^verbatim>\<open>%d\<close>.\<close>

definition digit :: "nat \<Rightarrow> char" where
  "digit n = char_of (48 + n)"

fun digits_of :: "nat \<Rightarrow> string" where
  "digits_of n = (if n < 10 then [digit n] else digits_of (n div 10) @ [digit (n mod 10)])"

definition itoa :: "int \<Rightarrow> string" where
  "itoa i = (if i < 0 then CHR ''-'' # digits_of (nat (- i)) else digits_of (nat i))"

definition undigits :: "string \<Rightarrow> nat" where
  "undigits s = foldl (\<lambda>a c. a * 10 + ((of_char c :: nat) - 48)) 0 s"

declare digits_of.simps [simp del]

lemma of_char_digit: "n < 10 \<Longrightarrow> (of_char (digit n) :: nat) = 48 + n"
  by (simp add: digit_def)

lemma undigits_digits: "undigits (digits_of n) = n"
proof (induction n rule: digits_of.induct)
  case (1 n)
  then show ?case
    by (cases "n < 10") (simp_all add: digits_of.simps [of n] undigits_def of_char_digit)
qed

lemma digits_of_range: "c \<in> set (digits_of n) \<Longrightarrow> 48 \<le> (of_char c :: nat) \<and> (of_char c :: nat) < 58"
proof (induction n rule: digits_of.induct)
  case (1 n)
  then show ?case
    by (cases "n < 10") (auto simp: digits_of.simps [of n] of_char_digit)
qed

lemma digits_of_nonempty [simp]: "digits_of n \<noteq> []"
  by (simp add: digits_of.simps)

lemma itoa_nonempty [simp]: "itoa i \<noteq> []"
  by (simp add: itoa_def)

lemma itoa_range: "c \<in> set (itoa i) \<Longrightarrow> c = CHR ''-'' \<or> 48 \<le> (of_char c :: nat) \<and> (of_char c :: nat) < 58"
  by (auto simp: itoa_def dest: digits_of_range split: if_splits)

lemma itoa_inject [simp]: "itoa i = itoa j \<longleftrightarrow> i = j"
proof
  assume eq: "itoa i = itoa j"
  have minus: "digits_of n \<noteq> CHR ''-'' # s" for n s
    using digits_of_range [of "CHR ''-''" n] by (auto dest: arg_cong [where f = set])
  have "nat (- i) = nat (- j) \<or> nat i = nat j"
    using eq minus minus [symmetric] undigits_digits unfolding itoa_def
    by (metis list.inject)
  moreover have "i < 0 \<longleftrightarrow> j < 0"
    using eq minus minus [symmetric] unfolding itoa_def by (auto split: if_splits)
  ultimately show "i = j"
    using eq undigits_digits unfolding itoa_def
    by (metis (no_types) int_nat_eq list.inject minus_minus neg_0_le_iff_le not_le order_less_imp_le nat_eq_iff2)
qed simp

end
