(* ===== verification/Circuit_Breaker.thy ===== *)
theory Circuit_Breaker
  imports Prelude
begin

text \<open>
  The circuit breaker of the consumer's ClickHouse writer
  (\<^verbatim>\<open>consumer/internal/clickhouse/breaker.go\<close>): a record with the fields of
  \<^verbatim>\<open>CircuitBreaker\<close> and one definition per method.  Every method that reads the clock takes
  the instant as an argument.  A run of calls is a list of events; the closed form of the
  breaker's answer in terms of the history is the main result.
\<close>

section \<open>State and methods\<close>

datatype breaker_state = BreakerClosed | BreakerOpen | BreakerHalfOpen

fun breaker_string :: "breaker_state \<Rightarrow> string" where
  "breaker_string BreakerOpen = ''open''"
| "breaker_string BreakerHalfOpen = ''halfopen''"
| "breaker_string BreakerClosed = ''closed''"

record circuit_breaker =
  cb_state :: breaker_state
  failure_count :: int
  failure_threshold :: int
  reset_timeout :: int
  last_opened :: int
  half_open_successes :: int

text \<open>The zero \<^verbatim>\<open>time.Time\<close> of \<open>lastOpened\<close> is never read before the breaker opens.\<close>

definition NewCircuitBreaker :: "int \<Rightarrow> int \<Rightarrow> circuit_breaker" where
  "NewCircuitBreaker threshold timeout =
     \<lparr>cb_state = BreakerClosed, failure_count = 0, failure_threshold = threshold,
      reset_timeout = timeout, last_opened = 0, half_open_successes = 0\<rparr>"

definition maybeHalfOpen :: "int \<Rightarrow> circuit_breaker \<Rightarrow> circuit_breaker" where
  "maybeHalfOpen now cb =
     (if cb_state cb = BreakerOpen \<and> now - last_opened cb \<ge> reset_timeout cb
      then cb\<lparr>cb_state := BreakerHalfOpen, half_open_successes := 0\<rparr> else cb)"

definition State :: "int \<Rightarrow> circuit_breaker \<Rightarrow> breaker_state \<times> circuit_breaker" where
  "State now cb = (let cb' = maybeHalfOpen now cb in (cb_state cb', cb'))"

definition AllowInsert :: "int \<Rightarrow> circuit_breaker \<Rightarrow> bool \<times> circuit_breaker" where
  "AllowInsert now cb =
     (let cb' = maybeHalfOpen now cb
      in (cb_state cb' = BreakerClosed \<or> cb_state cb' = BreakerHalfOpen, cb'))"

definition RecordSuccess :: "circuit_breaker \<Rightarrow> circuit_breaker" where
  "RecordSuccess cb =
     (let cb1 = (if cb_state cb = BreakerHalfOpen then cb\<lparr>cb_state := BreakerClosed\<rparr> else cb)
      in cb1\<lparr>failure_count := 0, cb_state := BreakerClosed\<rparr>)"

definition RecordFailure :: "int \<Rightarrow> circuit_breaker \<Rightarrow> circuit_breaker" where
  "RecordFailure now cb =
     (let cb1 = cb\<lparr>failure_count := failure_count cb + 1\<rparr>
      in if cb_state cb1 = BreakerHalfOpen
         then cb1\<lparr>cb_state := BreakerOpen, last_opened := now\<rparr>
         else if failure_count cb1 \<ge> failure_threshold cb1
         then cb1\<lparr>cb_state := BreakerOpen, last_opened := now\<rparr>
         else cb1)"

section \<open>Histories\<close>

text \<open>
  A history lists the calls made on one breaker, oldest first: \<open>Query\<close> stands for
  \<^const>\<open>State\<close> and \<^const>\<open>AllowInsert\<close>, which change the breaker in the same way.
\<close>

datatype breaker_event = Query int | Success int | Failure int

fun event_time :: "breaker_event \<Rightarrow> int" where
  "event_time (Query t) = t"
| "event_time (Success t) = t"
| "event_time (Failure t) = t"

fun breaker_step :: "circuit_breaker \<Rightarrow> breaker_event \<Rightarrow> circuit_breaker" where
  "breaker_step cb (Query t) = snd (AllowInsert t cb)"
| "breaker_step cb (Success t) = RecordSuccess cb"
| "breaker_step cb (Failure t) = RecordFailure t cb"

definition breaker_run :: "circuit_breaker \<Rightarrow> breaker_event list \<Rightarrow> circuit_breaker" where
  "breaker_run cb es = foldl breaker_step cb es"

text \<open>
  The specification reads the history only: the times of the failures since the last
  success, newest first.
\<close>

fun failures_since :: "int list \<Rightarrow> breaker_event \<Rightarrow> int list" where
  "failures_since fs (Query t) = fs"
| "failures_since fs (Success t) = []"
| "failures_since fs (Failure t) = t # fs"

definition recent_failures :: "breaker_event list \<Rightarrow> int list" where
  "recent_failures es = foldl failures_since [] es"

definition blocked_spec :: "int \<Rightarrow> int \<Rightarrow> breaker_event list \<Rightarrow> int \<Rightarrow> bool" where
  "blocked_spec threshold timeout es now =
     (case recent_failures es of
        [] \<Rightarrow> False
      | t # ts \<Rightarrow> int (length (t # ts)) \<ge> threshold \<and> now - t < timeout)"

section \<open>The invariant that ties the breaker to its history\<close>

text \<open>
  \<open>breaker_inv cb fs now\<close>: \<open>cb\<close> has seen the failures \<open>fs\<close> since its last success and no
  call later than \<open>now\<close>.
\<close>

definition breaker_inv :: "circuit_breaker \<Rightarrow> int list \<Rightarrow> int \<Rightarrow> bool" where
  "breaker_inv cb fs now \<longleftrightarrow>
     failure_count cb = int (length fs) \<and>
     (cb_state cb = BreakerClosed \<longleftrightarrow> int (length fs) < failure_threshold cb) \<and>
     (cb_state cb \<noteq> BreakerClosed \<longrightarrow> fs \<noteq> [] \<and> last_opened cb = hd fs) \<and>
     (cb_state cb = BreakerHalfOpen \<longrightarrow> now - hd fs \<ge> reset_timeout cb)"

lemmas breaker_defs =
  maybeHalfOpen_def State_def AllowInsert_def RecordSuccess_def RecordFailure_def Let_def

lemma breaker_step_params [simp]:
  "failure_threshold (breaker_step cb e) = failure_threshold cb"
  "reset_timeout (breaker_step cb e) = reset_timeout cb"
  by (cases e; simp add: breaker_defs)+

lemma breaker_run_params [simp]:
  "failure_threshold (breaker_run cb es) = failure_threshold cb"
  "reset_timeout (breaker_run cb es) = reset_timeout cb"
  unfolding breaker_run_def by (induction es arbitrary: cb) simp_all

lemma breaker_inv_new: "0 < threshold \<Longrightarrow> breaker_inv (NewCircuitBreaker threshold timeout) [] now"
  by (simp add: breaker_inv_def NewCircuitBreaker_def)

lemma breaker_inv_later: "breaker_inv cb fs now \<Longrightarrow> now \<le> now' \<Longrightarrow> breaker_inv cb fs now'"
  by (auto simp: breaker_inv_def)

lemma breaker_inv_step:
  assumes "breaker_inv cb fs now" "now \<le> event_time e" "0 < failure_threshold cb"
  shows "breaker_inv (breaker_step cb e) (failures_since fs e) (event_time e)"
  using assms by (cases e; cases "cb_state cb") (auto simp: breaker_inv_def breaker_defs)

lemma breaker_inv_run:
  assumes "breaker_inv cb fs now" "0 < failure_threshold cb"
    and "sorted (now # map event_time es)"
  shows "breaker_inv (breaker_run cb es) (foldl failures_since fs es)
           (last (now # map event_time es))"
  using assms
proof (induction es arbitrary: cb fs now)
  case Nil
  then show ?case by (simp add: breaker_run_def)
next
  case (Cons e es)
  have "breaker_inv (breaker_step cb e) (failures_since fs e) (event_time e)"
    using Cons.prems by (intro breaker_inv_step [where now = now]) auto
  then show ?case
    using Cons.IH [of "breaker_step cb e" "failures_since fs e" "event_time e"] Cons.prems
    by (simp add: breaker_run_def)
qed

text \<open>Whether an insert is refused is decided by the invariant alone.\<close>

lemma breaker_inv_blocked:
  assumes "breaker_inv cb fs now" "now \<le> t" "0 < failure_threshold cb"
  shows "\<not> fst (AllowInsert t cb) \<longleftrightarrow>
         (case fs of [] \<Rightarrow> False
          | f # fs' \<Rightarrow> int (length (f # fs')) \<ge> failure_threshold cb \<and> t - f < reset_timeout cb)"
  using assms by (cases "cb_state cb"; cases fs) (auto simp: breaker_inv_def breaker_defs)

section \<open>Properties\<close>

text \<open>
  C5. The breaker's answer is a function of its history alone: after any calls made at
  non-decreasing times on a fresh breaker with a positive threshold, \<open>AllowInsert\<close> refuses
  at time \<open>now\<close> exactly when the failures recorded since the last success are at least the
  threshold and the newest of them is less than the reset timeout old.
\<close>

theorem breaker_blocks_iff_history:
  assumes "0 < threshold" and "sorted (map event_time es @ [now])"
  shows "\<not> fst (AllowInsert now (breaker_run (NewCircuitBreaker threshold timeout) es))
         \<longleftrightarrow> blocked_spec threshold timeout es now"
proof -
  let ?cb = "NewCircuitBreaker threshold timeout"
  define t0 where "t0 = hd (map event_time es @ [now])"
  have "sorted (map event_time es)" and le: "\<forall>x \<in> set (map event_time es). x \<le> now"
    using assms(2) by (auto simp: sorted_append)
  then have s: "sorted (t0 # map event_time es)"
    unfolding t0_def by (cases es) auto
  have s2: "last (t0 # map event_time es) \<le> now"
    using le unfolding t0_def by (cases es) (auto simp: last_map)
  have th: "failure_threshold ?cb = threshold" "reset_timeout ?cb = timeout"
    by (simp_all add: NewCircuitBreaker_def)
  have inv: "breaker_inv (breaker_run ?cb es) (recent_failures es) (last (t0 # map event_time es))"
    unfolding recent_failures_def
    by (rule breaker_inv_run [OF breaker_inv_new [OF assms(1)] _ s]) (simp add: th assms(1))
  show ?thesis
    using breaker_inv_blocked [OF inv s2] assms(1)
    by (simp add: th blocked_spec_def split: list.splits)
qed

theorem breaker_blocks_iff_history_witness:
  "\<not> fst (AllowInsert 40 (breaker_run (NewCircuitBreaker 2 30)
      [Failure 1, Success 2, Failure 10, Query 11, Failure 20]))"
  using breaker_blocks_iff_history
    [of 2 "[Failure 1, Success 2, Failure 10, Query 11, Failure 20]" 40 30]
  by (simp add: blocked_spec_def recent_failures_def)

end
