(* ===== verification/Go_Json.thy ===== *)
theory Go_Json
  imports Prelude
begin

text \<open>
  What the sources use of \<^verbatim>\<open>encoding/json\<close>, at the level of JSON documents: a document is a
  tree, and a byte payload is \<open>Some\<close> tree, or \<open>None\<close> when the bytes are no JSON text.
  Decoding into a struct follows the library: the entries of an object are stored one after
  the other, a key matches a field up to case folding, an unknown key is skipped, \<open>null\<close>
  leaves a field unchanged, and a value of the wrong kind makes the decoding fail.
  Strings are valid UTF-8, as every string decoded by the library is.
\<close>

section \<open>Documents\<close>

text \<open>\<open>JInt\<close> is a number literal without fraction and exponent, \<open>JFlt\<close> any other one.\<close>

datatype json = JNull | JBool bool | JInt int | JFlt real | JStr string
  | JArr "json list" | JObj "(string \<times> json) list"

type_synonym payload = "json option"

text \<open>
  Case folding of keys: ASCII letters, and the two code points outside ASCII that fold to one
  (U+017F, the long s, and U+212A, the Kelvin sign).
\<close>

definition fold_char :: "char \<Rightarrow> char" where
  "fold_char c =
     (if 65 \<le> (of_char c :: nat) \<and> (of_char c :: nat) \<le> 90
      then char_of ((of_char c :: nat) + 32) else c)"

fun json_fold :: "string \<Rightarrow> string" where
  "json_fold (a # b # c # s) =
     (if [a, b, c] = map (char_of :: nat \<Rightarrow> char) [226, 132, 170] then CHR ''k'' # json_fold s
      else if [a, b] = map (char_of :: nat \<Rightarrow> char) [197, 191] then CHR ''s'' # json_fold (c # s)
      else fold_char a # json_fold (b # c # s))"
| "json_fold [a, b] =
     (if [a, b] = map (char_of :: nat \<Rightarrow> char) [197, 191] then ''s'' else [fold_char a, fold_char b])"
| "json_fold [a] = [fold_char a]"
| "json_fold [] = []"

section \<open>Decoding\<close>

text \<open>A decoder takes the document and the value already there, and returns the new value.\<close>

type_synonym 'a decoder = "json \<Rightarrow> 'a \<Rightarrow> 'a option"

fun dec_string :: "string decoder" where
  "dec_string JNull s = Some s"
| "dec_string (JStr t) s = Some t"
| "dec_string _ s = None"

fun dec_bool :: "bool decoder" where
  "dec_bool JNull b = Some b"
| "dec_bool (JBool c) b = Some c"
| "dec_bool _ b = None"

fun dec_float :: "real decoder" where
  "dec_float JNull x = Some x"
| "dec_float (JInt n) x = Some (of_int n)"
| "dec_float (JFlt y) x = Some y"
| "dec_float _ x = None"

text \<open>Integers: the literal must be an integer in the range of the field's type.\<close>

fun dec_int64 :: "int decoder" where
  "dec_int64 JNull x = Some x"
| "dec_int64 (JInt n) x = (if - (2 ^ 63) \<le> n \<and> n < 2 ^ 63 then Some n else None)"
| "dec_int64 _ x = None"

fun dec_uint :: "'a::len word decoder" where
  "dec_uint JNull x = Some x"
| "dec_uint (JInt n) x = (if 0 \<le> n \<and> n < 2 ^ LENGTH('a) then Some (word_of_int n) else None)"
| "dec_uint _ x = None"

text \<open>A pointer field: \<open>null\<close> sets it to nil, anything else is decoded into a fresh value.\<close>

fun dec_ptr :: "'a decoder \<Rightarrow> 'a \<Rightarrow> 'a option decoder" where
  "dec_ptr d z JNull p = Some None"
| "dec_ptr d z v p = map_option Some (d v (case p of None \<Rightarrow> z | Some x \<Rightarrow> x))"

fun dec_elems :: "'a decoder \<Rightarrow> 'a \<Rightarrow> json list \<Rightarrow> 'a list option" where
  "dec_elems d z [] = Some []"
| "dec_elems d z (v # vs) =
     (case d v z of None \<Rightarrow> None
      | Some x \<Rightarrow> map_option ((#) x) (dec_elems d z vs))"

fun dec_slice :: "'a decoder \<Rightarrow> 'a \<Rightarrow> 'a list decoder" where
  "dec_slice d z JNull xs = Some []"
| "dec_slice d z (JArr vs) xs = dec_elems d z vs"
| "dec_slice d z _ xs = None"

text \<open>A map with string keys: each value is decoded into a fresh element; the last entry of a key wins.\<close>

fun dec_map_entries :: "'a decoder \<Rightarrow> 'a \<Rightarrow> (string \<times> json) list \<Rightarrow> (string \<rightharpoonup> 'a) \<Rightarrow> (string \<rightharpoonup> 'a) option" where
  "dec_map_entries d z [] m = Some m"
| "dec_map_entries d z ((k, v) # kvs) m =
     (case d v z of None \<Rightarrow> None | Some x \<Rightarrow> dec_map_entries d z kvs (m(k \<mapsto> x)))"

fun dec_map :: "'a decoder \<Rightarrow> 'a \<Rightarrow> (string \<rightharpoonup> 'a) decoder" where
  "dec_map d z JNull m = Some Map.empty"
| "dec_map d z (JObj kvs) m = dec_map_entries d z kvs m"
| "dec_map d z _ m = None"

text \<open>A \<^verbatim>\<open>json.RawMessage\<close> keeps the value, \<open>null\<close> included; it is empty when the field is absent.\<close>

definition dec_raw :: "json option decoder" where
  "dec_raw v p = Some (Some v)"

text \<open>Structs: a table of field names with the decoder of the field inside the struct.\<close>

type_synonym 's fields = "(string \<times> 's decoder) list"

definition field_decoder :: "'s fields \<Rightarrow> string \<Rightarrow> 's decoder option" where
  "field_decoder fs k = map_option snd (find (\<lambda>(n, _). json_fold n = json_fold k) fs)"

fun dec_entries :: "'s fields \<Rightarrow> (string \<times> json) list \<Rightarrow> 's \<Rightarrow> 's option" where
  "dec_entries fs [] s = Some s"
| "dec_entries fs ((k, v) # kvs) s =
     (case field_decoder fs k of
        None \<Rightarrow> dec_entries fs kvs s
      | Some d \<Rightarrow> (case d v s of None \<Rightarrow> None | Some s' \<Rightarrow> dec_entries fs kvs s'))"

fun dec_struct :: "'s fields \<Rightarrow> 's decoder" where
  "dec_struct fs JNull s = Some s"
| "dec_struct fs (JObj kvs) s = dec_entries fs kvs s"
| "dec_struct fs _ s = None"

text \<open>\<open>lens get put d\<close>: the decoder \<open>d\<close> of a field inside its struct.\<close>

definition lens :: "('s \<Rightarrow> 'a) \<Rightarrow> ('a \<Rightarrow> 's \<Rightarrow> 's) \<Rightarrow> 'a decoder \<Rightarrow> 's decoder" where
  "lens get put d v s = map_option (\<lambda>x. put x s) (d v (get s))"

text \<open>\<^verbatim>\<open>json.Unmarshal\<close> of a payload: bytes that are no JSON text fail.\<close>

definition unmarshal :: "'a decoder \<Rightarrow> payload \<Rightarrow> 'a \<Rightarrow> 'a option" where
  "unmarshal d p z = (case p of None \<Rightarrow> None | Some v \<Rightarrow> d v z)"

section \<open>Encoding\<close>

text \<open>A float is printed without exponent below \<open>10\<^sup>2\<^sup>1\<close>, so an integral one reads as an integer.\<close>

definition enc_float :: "real \<Rightarrow> json" where
  "enc_float x = (if x = of_int \<lfloor>x\<rfloor> \<and> \<bar>x\<bar> < 10 ^ 21 then JInt \<lfloor>x\<rfloor> else JFlt x)"

definition enc_word :: "'a::len word \<Rightarrow> json" where
  "enc_word w = JInt (uint w)"

text \<open>A pointer field with \<^verbatim>\<open>omitempty\<close>: nil is left out.\<close>

definition enc_opt :: "string \<Rightarrow> ('a \<Rightarrow> json) \<Rightarrow> 'a option \<Rightarrow> (string \<times> json) list" where
  "enc_opt k f p = (case p of None \<Rightarrow> [] | Some x \<Rightarrow> [(k, f x)])"

text \<open>A string field with \<^verbatim>\<open>omitempty\<close>: the empty string is left out.\<close>

definition enc_str_omit :: "string \<Rightarrow> string \<Rightarrow> (string \<times> json) list" where
  "enc_str_omit k s = (if s = [] then [] else [(k, JStr s)])"

section \<open>Untyped values\<close>

text \<open>
  Decoding into \<^verbatim>\<open>any\<close> and encoding again: numbers become floats, the entries of an object a map,
  which is printed in the order of its keys.
\<close>

fun str_less :: "string \<Rightarrow> string \<Rightarrow> bool" where
  "str_less [] t = (t \<noteq> [])"
| "str_less (a # s) [] = False"
| "str_less (a # s) (b # t) =
     ((of_char a :: nat) < of_char b \<or> a = b \<and> str_less s t)"

fun put_entry :: "string \<Rightarrow> 'v \<Rightarrow> (string \<times> 'v) list \<Rightarrow> (string \<times> 'v) list" where
  "put_entry k v [] = [(k, v)]"
| "put_entry k v ((l, w) # kvs) =
     (if k = l then (k, v) # kvs
      else if str_less k l then (k, v) # (l, w) # kvs
      else (l, w) # put_entry k v kvs)"

fun any_norm :: "json \<Rightarrow> json"
  and any_list :: "json list \<Rightarrow> json list"
  and any_object :: "(string \<times> json) list \<Rightarrow> (string \<times> json) list \<Rightarrow> (string \<times> json) list" where
  "any_norm JNull = JNull"
| "any_norm (JBool b) = JBool b"
| "any_norm (JInt n) = enc_float (of_int n)"
| "any_norm (JFlt x) = enc_float x"
| "any_norm (JStr s) = JStr s"
| "any_norm (JArr vs) = JArr (any_list vs)"
| "any_norm (JObj kvs) = JObj (any_object kvs [])"
| "any_list [] = []"
| "any_list (v # vs) = any_norm v # any_list vs"
| "any_object [] m = m"
| "any_object ((k, v) # kvs) m = any_object kvs (put_entry k (any_norm v) m)"

lemma map_of_put_entry: "map_of (put_entry k v kvs) = (map_of kvs)(k \<mapsto> v)"
  by (induction k v kvs rule: put_entry.induct) (auto simp: fun_upd_twist)

lemma any_object_lookup:
  "map_of (any_object kvs m) k =
     (case map_of (rev kvs) k of None \<Rightarrow> map_of m k | Some v \<Rightarrow> Some (any_norm v))"
  by (induction kvs arbitrary: m) (auto simp: map_of_put_entry map_add_def split: option.splits)

section \<open>Lemmas\<close>

text \<open>
  Field names are written in lower case, so folding leaves them alone and the decoder of a
  field is found by its name.
\<close>

definition plain_name :: "string \<Rightarrow> bool" where
  "plain_name s = (\<forall>c \<in> set s. c \<in> set ''etaionsrldcmpuhgvwbykfxqjz_'')"

lemma plain_char_small:
  "c \<in> set ''etaionsrldcmpuhgvwbykfxqjz_'' \<Longrightarrow> (of_char c :: nat) < 128"
  by auto

lemma plain_char_fold: "c \<in> set ''etaionsrldcmpuhgvwbykfxqjz_'' \<Longrightarrow> fold_char c = c"
  unfolding fold_char_def by auto

lemma char_of_big: "(of_char c :: nat) < 128 \<Longrightarrow> 128 \<le> n \<Longrightarrow> n < 256 \<Longrightarrow> c \<noteq> char_of (n :: nat)"
  by auto

lemma json_fold_plain: "plain_name s \<Longrightarrow> json_fold s = s"
proof (induction s rule: json_fold.induct)
  case (1 a b c s)
  then show ?case
    using char_of_big [of a 226] char_of_big [of a 197] plain_char_small [of a]
    by (simp add: plain_name_def plain_char_fold)
next
  case (2 a b)
  then show ?case
    using char_of_big [of a 197] plain_char_small [of a]
    by (simp add: plain_name_def plain_char_fold)
qed (simp_all add: plain_name_def plain_char_fold)

lemma field_decoder_plain:
  assumes "plain_name k" "list_all plain_name (map fst fs)"
  shows "field_decoder fs k = map_of fs k"
  using assms(2)
  by (induction fs) (auto simp: field_decoder_def json_fold_plain assms(1))

lemma dec_float_enc [simp]: "dec_float (enc_float x) y = Some x"
  by (simp add: enc_float_def)

lemma dec_uint_enc [simp]: "dec_uint (enc_word w) y = Some w"
  using uint_bounded [of w] by (simp add: enc_word_def)

lemma enc_word_not_null [simp]: "enc_word w \<noteq> JNull"
  by (simp add: enc_word_def)

lemma dec_ptr_not_null: "v \<noteq> JNull \<Longrightarrow> dec_ptr d z v None = map_option Some (d v z)"
  by (cases v) auto

lemma dec_ptr_enc_word [simp]: "dec_ptr dec_uint z (enc_word w) None = Some (Some w)"
  by (simp add: dec_ptr_not_null)

lemma dec_entries_append:
  "dec_entries fs (xs @ ys) s = Option.bind (dec_entries fs xs s) (dec_entries fs ys)"
  by (induction fs xs s rule: dec_entries.induct) (auto split: option.splits)

lemma dec_elems_map:
  "(\<And>x. x \<in> set xs \<Longrightarrow> d (enc x) z = Some x) \<Longrightarrow> dec_elems d z (map enc xs) = Some xs"
  by (induction xs) auto

lemma dec_elems_length: "dec_elems d z vs = Some xs \<Longrightarrow> length xs = length vs"
  by (induction d z vs arbitrary: xs rule: dec_elems.induct) (auto split: option.splits)

text \<open>Storing the entry of a known field, and the entry of an optional one.\<close>

lemma dec_entries_known:
  "field_decoder fs k = Some d \<Longrightarrow> d v s = Some s' \<Longrightarrow>
   dec_entries fs ((k, v) # kvs) s = dec_entries fs kvs s'"
  by simp

lemma dec_entries_enc_opt:
  assumes "field_decoder fs k = Some (lens get put (dec_ptr d z))"
    and "get s = None" "put None s = s"
    and "\<And>x. p = Some x \<Longrightarrow> dec_ptr d z (f x) None = Some (Some x)"
  shows "dec_entries fs (enc_opt k f p @ kvs) s = dec_entries fs kvs (put p s)"
  using assms by (cases p) (auto simp: enc_opt_def lens_def)

lemmas dec_entries_enc_opt_last = dec_entries_enc_opt [where kvs = "[]", simplified]

end
