(* ===== verification/Inference_Event.thy ===== *)
theory Inference_Event
  imports Go_Json
begin

text \<open>
  The event model of the consumer (\<^verbatim>\<open>consumer/internal/model/event.go\<close>) with its JSON form,
  and the ClickHouse row built from an event (\<^verbatim>\<open>consumer/internal/clickhouse/row.go\<close>).
\<close>

section \<open>Events\<close>

record inference_event =
  ev_event_id :: "string option"
  ev_tenant_id :: string
  ev_model_id :: string
  ev_timestamp :: u64
  ev_latency :: u32
  ev_prefill :: "u32 option"
  ev_decode :: "u32 option"
  ev_prompt_tokens :: u32
  ev_completion_tokens :: u32
  ev_cost_usd :: real
  ev_status :: "string option"
  ev_error_code :: "string option"
  ev_request_id :: "string option"
  ev_trace_id :: "string option"
  ev_source :: "string option"

definition zero_event :: inference_event where
  "zero_event =
     \<lparr>ev_event_id = None, ev_tenant_id = [], ev_model_id = [], ev_timestamp = 0, ev_latency = 0,
      ev_prefill = None, ev_decode = None, ev_prompt_tokens = 0, ev_completion_tokens = 0,
      ev_cost_usd = 0, ev_status = None, ev_error_code = None, ev_request_id = None,
      ev_trace_id = None, ev_source = None\<rparr>"

text \<open>The struct tags of \<^verbatim>\<open>InferenceEvent\<close>, as a decoder table and as the encoder.\<close>

definition event_fields :: "inference_event fields" where
  "event_fields =
     [(''event_id'', lens ev_event_id (\<lambda>x e. e\<lparr>ev_event_id := x\<rparr>) (dec_ptr dec_string [])),
      (''tenant_id'', lens ev_tenant_id (\<lambda>x e. e\<lparr>ev_tenant_id := x\<rparr>) dec_string),
      (''model_id'', lens ev_model_id (\<lambda>x e. e\<lparr>ev_model_id := x\<rparr>) dec_string),
      (''timestamp_unix_ms'', lens ev_timestamp (\<lambda>x e. e\<lparr>ev_timestamp := x\<rparr>) dec_uint),
      (''latency_ms'', lens ev_latency (\<lambda>x e. e\<lparr>ev_latency := x\<rparr>) dec_uint),
      (''prefill_latency_ms'', lens ev_prefill (\<lambda>x e. e\<lparr>ev_prefill := x\<rparr>) (dec_ptr dec_uint 0)),
      (''decode_latency_ms'', lens ev_decode (\<lambda>x e. e\<lparr>ev_decode := x\<rparr>) (dec_ptr dec_uint 0)),
      (''prompt_tokens'', lens ev_prompt_tokens (\<lambda>x e. e\<lparr>ev_prompt_tokens := x\<rparr>) dec_uint),
      (''completion_tokens'',
         lens ev_completion_tokens (\<lambda>x e. e\<lparr>ev_completion_tokens := x\<rparr>) dec_uint),
      (''cost_usd'', lens ev_cost_usd (\<lambda>x e. e\<lparr>ev_cost_usd := x\<rparr>) dec_float),
      (''status'', lens ev_status (\<lambda>x e. e\<lparr>ev_status := x\<rparr>) (dec_ptr dec_string [])),
      (''error_code'', lens ev_error_code (\<lambda>x e. e\<lparr>ev_error_code := x\<rparr>) (dec_ptr dec_string [])),
      (''request_id'', lens ev_request_id (\<lambda>x e. e\<lparr>ev_request_id := x\<rparr>) (dec_ptr dec_string [])),
      (''trace_id'', lens ev_trace_id (\<lambda>x e. e\<lparr>ev_trace_id := x\<rparr>) (dec_ptr dec_string [])),
      (''source'', lens ev_source (\<lambda>x e. e\<lparr>ev_source := x\<rparr>) (dec_ptr dec_string []))]"

definition unmarshal_event :: "payload \<Rightarrow> inference_event option" where
  "unmarshal_event p = unmarshal (dec_struct event_fields) p zero_event"

definition marshal_event :: "inference_event \<Rightarrow> payload" where
  "marshal_event e = Some (JObj
     (enc_opt ''event_id'' JStr (ev_event_id e) @
      [(''tenant_id'', JStr (ev_tenant_id e)), (''model_id'', JStr (ev_model_id e)),
       (''timestamp_unix_ms'', enc_word (ev_timestamp e)),
       (''latency_ms'', enc_word (ev_latency e))] @
      enc_opt ''prefill_latency_ms'' enc_word (ev_prefill e) @
      enc_opt ''decode_latency_ms'' enc_word (ev_decode e) @
      [(''prompt_tokens'', enc_word (ev_prompt_tokens e)),
       (''completion_tokens'', enc_word (ev_completion_tokens e)),
       (''cost_usd'', enc_float (ev_cost_usd e))] @
      enc_opt ''status'' JStr (ev_status e) @
      enc_opt ''error_code'' JStr (ev_error_code e) @
      enc_opt ''request_id'' JStr (ev_request_id e) @
      enc_opt ''trace_id'' JStr (ev_trace_id e) @
      enc_opt ''source'' JStr (ev_source e)))"

text \<open>\<^verbatim>\<open>IngestBatch\<close>: the Kafka record envelope.\<close>

record ingest_batch =
  ib_events :: "inference_event list"

definition batch_fields :: "ingest_batch fields" where
  "batch_fields =
     [(''events'', lens ib_events (\<lambda>x b. b\<lparr>ib_events := x\<rparr>)
        (dec_slice (dec_struct event_fields) zero_event))]"

section \<open>ClickHouse rows\<close>

record ch_row =
  row_event_id :: string
  row_tenant_id :: string
  row_model_id :: string
  row_timestamp_ms :: int
  row_latency :: u32
  row_prefill :: "u32 option"
  row_decode :: "u32 option"
  row_prompt_tokens :: u32
  row_completion_tokens :: u32
  row_cost_usd :: real
  row_status :: string
  row_error_code :: "string option"
  row_request_id :: "string option"
  row_trace_id :: "string option"
  row_source :: string

text \<open>A pointer to a string that is nil or empty counts as absent.\<close>

definition str_or :: "string option \<Rightarrow> string \<Rightarrow> string" where
  "str_or p d = (case p of None \<Rightarrow> d | Some s \<Rightarrow> if s = [] then d else s)"

text \<open>
  \<^verbatim>\<open>google/uuid\<close> is a parameter: \<open>parse\<close> is \<^verbatim>\<open>uuid.Parse\<close> (\<open>Inl\<close> is the error text) and
  \<open>fresh n\<close> the \<open>n\<close>-th identifier drawn by \<^verbatim>\<open>uuid.New\<close>; the number of identifiers drawn so
  far is threaded through.  \<^verbatim>\<open>time.UnixMilli(int64(ms))\<close> reads the unsigned timestamp as a
  signed 64-bit integer.
\<close>

record uuid_lib =
  uuid_parse :: "string \<Rightarrow> string + string"
  uuid_new :: "nat \<Rightarrow> string"

definition RowFromEvent ::
  "uuid_lib \<Rightarrow> inference_event \<Rightarrow> nat \<Rightarrow> (string + ch_row) \<times> nat" where
  "RowFromEvent lib e n =
     (let (eid, n') =
        (if str_or (ev_event_id e) [] \<noteq> []
         then (uuid_parse lib (str_or (ev_event_id e) []), n)
         else (Inr (uuid_new lib n), Suc n))
      in case eid of
           Inl err \<Rightarrow> (Inl err, n')
         | Inr uid \<Rightarrow>
             (Inr \<lparr>row_event_id = uid, row_tenant_id = ev_tenant_id e,
                   row_model_id = ev_model_id e,
                   row_timestamp_ms = sint (ev_timestamp e), row_latency = ev_latency e,
                   row_prefill = ev_prefill e, row_decode = ev_decode e,
                   row_prompt_tokens = ev_prompt_tokens e,
                   row_completion_tokens = ev_completion_tokens e,
                   row_cost_usd = ev_cost_usd e,
                   row_status = str_or (ev_status e) ''success'',
                   row_error_code = ev_error_code e, row_request_id = ev_request_id e,
                   row_trace_id = ev_trace_id e,
                   row_source = str_or (ev_source e) ''inference''\<rparr>, n'))"

fun RowsFromEvents ::
  "uuid_lib \<Rightarrow> inference_event list \<Rightarrow> nat \<Rightarrow> (string + ch_row list) \<times> nat" where
  "RowsFromEvents lib [] n = (Inr [], n)"
| "RowsFromEvents lib (e # es) n =
     (case RowFromEvent lib e n of
        (Inl err, n') \<Rightarrow> (Inl err, n')
      | (Inr r, n') \<Rightarrow>
          (case RowsFromEvents lib es n' of
             (Inl err, n'') \<Rightarrow> (Inl err, n'')
           | (Inr rs, n'') \<Rightarrow> (Inr (r # rs), n'')))"

text \<open>\<open>row_of e r\<close>: the row \<open>r\<close> carries the data of the event \<open>e\<close>.\<close>

definition row_of :: "inference_event \<Rightarrow> ch_row \<Rightarrow> bool" where
  "row_of e r \<longleftrightarrow>
     row_tenant_id r = ev_tenant_id e \<and> row_model_id r = ev_model_id e \<and>
     row_timestamp_ms r = sint (ev_timestamp e) \<and> row_latency r = ev_latency e \<and>
     row_prompt_tokens r = ev_prompt_tokens e \<and>
     row_completion_tokens r = ev_completion_tokens e \<and> row_cost_usd r = ev_cost_usd e"

section \<open>Lemmas\<close>

lemma event_fields_plain: "list_all plain_name (map fst event_fields)"
  by (simp add: event_fields_def plain_name_def)

lemma event_field_decoders:
  "field_decoder event_fields ''event_id'' =
     Some (lens ev_event_id (\<lambda>x e. e\<lparr>ev_event_id := x\<rparr>) (dec_ptr dec_string []))"
  "field_decoder event_fields ''tenant_id'' =
     Some (lens ev_tenant_id (\<lambda>x e. e\<lparr>ev_tenant_id := x\<rparr>) dec_string)"
  "field_decoder event_fields ''model_id'' =
     Some (lens ev_model_id (\<lambda>x e. e\<lparr>ev_model_id := x\<rparr>) dec_string)"
  "field_decoder event_fields ''timestamp_unix_ms'' =
     Some (lens ev_timestamp (\<lambda>x e. e\<lparr>ev_timestamp := x\<rparr>) dec_uint)"
  "field_decoder event_fields ''latency_ms'' =
     Some (lens ev_latency (\<lambda>x e. e\<lparr>ev_latency := x\<rparr>) dec_uint)"
  "field_decoder event_fields ''prefill_latency_ms'' =
     Some (lens ev_prefill (\<lambda>x e. e\<lparr>ev_prefill := x\<rparr>) (dec_ptr dec_uint 0))"
  "field_decoder event_fields ''decode_latency_ms'' =
     Some (lens ev_decode (\<lambda>x e. e\<lparr>ev_decode := x\<rparr>) (dec_ptr dec_uint 0))"
  "field_decoder event_fields ''prompt_tokens'' =
     Some (lens ev_prompt_tokens (\<lambda>x e. e\<lparr>ev_prompt_tokens := x\<rparr>) dec_uint)"
  "field_decoder event_fields ''completion_tokens'' =
     Some (lens ev_completion_tokens (\<lambda>x e. e\<lparr>ev_completion_tokens := x\<rparr>) dec_uint)"
  "field_decoder event_fields ''cost_usd'' =
     Some (lens ev_cost_usd (\<lambda>x e. e\<lparr>ev_cost_usd := x\<rparr>) dec_float)"
  "field_decoder event_fields ''status'' =
     Some (lens ev_status (\<lambda>x e. e\<lparr>ev_status := x\<rparr>) (dec_ptr dec_string []))"
  "field_decoder event_fields ''error_code'' =
     Some (lens ev_error_code (\<lambda>x e. e\<lparr>ev_error_code := x\<rparr>) (dec_ptr dec_string []))"
  "field_decoder event_fields ''request_id'' =
     Some (lens ev_request_id (\<lambda>x e. e\<lparr>ev_request_id := x\<rparr>) (dec_ptr dec_string []))"
  "field_decoder event_fields ''trace_id'' =
     Some (lens ev_trace_id (\<lambda>x e. e\<lparr>ev_trace_id := x\<rparr>) (dec_ptr dec_string []))"
  "field_decoder event_fields ''source'' =
     Some (lens ev_source (\<lambda>x e. e\<lparr>ev_source := x\<rparr>) (dec_ptr dec_string []))"
  by (subst field_decoder_plain [OF _ event_fields_plain],
      simp add: plain_name_def, simp add: event_fields_def)+

lemma unmarshal_marshal_event: "unmarshal_event (marshal_event e) = Some e"
  unfolding unmarshal_event_def marshal_event_def unmarshal_def
  by (simp add: dec_entries_enc_opt dec_entries_enc_opt_last event_field_decoders lens_def zero_event_def)

lemma RowFromEvent_row_of: "RowFromEvent lib e n = (Inr r, n') \<Longrightarrow> row_of e r"
  by (auto simp: RowFromEvent_def row_of_def Let_def split: sum.splits if_splits prod.splits)

lemma RowsFromEvents_row_of:
  "RowsFromEvents lib es n = (Inr rs, n') \<Longrightarrow> list_all2 row_of es rs"
  by (induction lib es n arbitrary: rs n' rule: RowsFromEvents.induct)
     (auto split: prod.splits sum.splits dest: RowFromEvent_row_of)

end
