(* ===== verification/Overflow_Buffer.thy ===== *)
theory Overflow_Buffer
  imports Inference_Event
begin

text \<open>
  The Redis overflow buffer of the consumer (\<^verbatim>\<open>consumer/internal/redis/overflow.go\<close>).
  The Go interface \<^verbatim>\<open>OverflowBuffer\<close> is the locale \<open>overflow_buffer\<close>; \<^verbatim>\<open>ListOverflow\<close> is
  modelled on a Redis list and interprets it.
\<close>

section \<open>The contract of an overflow buffer\<close>

text \<open>
  A buffer holds a queue of events.  \<open>push\<close> reports whether it succeeded; on failure a
  prefix of the batch may have reached the queue.  \<open>popn\<close> returns events from the front,
  and a flag; an error may cost the element that was being read.
\<close>

locale overflow_buffer =
  fixes push :: "'e list \<Rightarrow> 's \<Rightarrow> bool \<times> 's"
    and popn :: "int \<Rightarrow> 's \<Rightarrow> ('e list \<times> bool) \<times> 's"
    and queue :: "'s \<Rightarrow> 'e list"
    and inv :: "'s \<Rightarrow> bool"
  assumes push_inv: "inv s \<Longrightarrow> inv (snd (push es s))"
    and push_ok: "inv s \<Longrightarrow> push es s = (True, s') \<Longrightarrow> queue s' = queue s @ es"
    and push_err: "inv s \<Longrightarrow> push es s = (False, s') \<Longrightarrow> \<exists>k. queue s' = queue s @ take k es"
    and popn_inv: "inv s \<Longrightarrow> inv (snd (popn n s))"
    and popn_ok: "inv s \<Longrightarrow> popn n s = ((out, True), s') \<Longrightarrow> queue s = out @ queue s'"
    and popn_progress: "inv s \<Longrightarrow> 0 < n \<Longrightarrow> popn n s = (([], True), s') \<Longrightarrow> queue s' = []"
    and popn_err: "inv s \<Longrightarrow> popn n s = ((out, False), s') \<Longrightarrow>
           \<exists>lost. queue s = out @ lost @ queue s' \<and> length lost \<le> 1"
begin

lemma push_keeps: "inv s \<Longrightarrow> set (queue s) \<subseteq> set (queue (snd (push es s)))"
proof -
  assume "inv s"
  moreover obtain ok s' where "push es s = (ok, s')" by force
  ultimately show ?thesis using push_ok [of s es s'] push_err [of s es s'] by (cases ok) auto
qed

lemma push_ok_member: "inv s \<Longrightarrow> push es s = (True, s') \<Longrightarrow> e \<in> set es \<Longrightarrow> e \<in> set (queue s')"
  using push_ok by fastforce

lemma pop_after_push:
  assumes "inv s" "queue s = []" "push es s = (True, s1)" "popn n s1 = ((out, True), s2)"
  shows "es = out @ queue s2"
proof -
  have "inv s1" using push_inv [OF assms(1), of es] assms(3) by simp
  then show ?thesis
    using popn_ok [OF _ assms(4)] push_ok [OF assms(1,3)] assms(2) by simp
qed

end

section \<open>Redis\<close>

text \<open>
  Redis is not part of the sources.  What the buffer observes of it is a list (index 0 is the
  head, where \<^verbatim>\<open>LPUSH\<close> adds and opposite to where \<^verbatim>\<open>RPOP\<close> removes) and, per round trip, an
  outcome given by the environment: \<open>IoErr k\<close> is an error reported to the client after the
  server executed the first \<open>k\<close> commands of the request.
\<close>

datatype io_outcome = IoOk | IoErr nat

type_synonym io_env = "nat \<Rightarrow> io_outcome"

record redis =
  r_list :: "payload list"
  r_calls :: nat
  r_depth_gauge :: int

definition lpush_all :: "payload list \<Rightarrow> payload list \<Rightarrow> payload list" where
  "lpush_all vs l = foldl (\<lambda>l v. v # l) l vs"

section \<open>ListOverflow\<close>

text \<open>\<^verbatim>\<open>Depth\<close>: \<^verbatim>\<open>LLEN\<close>, and the gauge is set when it succeeds.\<close>

definition Depth :: "io_env \<Rightarrow> redis \<Rightarrow> (int option) \<times> redis" where
  "Depth io r =
     (let r' = r\<lparr>r_calls := Suc (r_calls r)\<rparr>; n = int (length (r_list r))
      in case io (r_calls r) of
           IoErr _ \<Rightarrow> (None, r')
         | IoOk \<Rightarrow> (Some n, r'\<lparr>r_depth_gauge := n\<rparr>))"

definition refreshDepth :: "io_env \<Rightarrow> redis \<Rightarrow> bool \<times> redis" where
  "refreshDepth io r = (let (n, r') = Depth io r in (n \<noteq> None, r'))"

text \<open>
  \<^verbatim>\<open>Push\<close>: one pipelined round trip for the whole batch, then the depth is refreshed, and a
  failure of the refresh is returned as the failure of the push.
\<close>

definition Push :: "io_env \<Rightarrow> inference_event list \<Rightarrow> redis \<Rightarrow> bool \<times> redis" where
  "Push io events r =
     (if events = [] then (True, r)
      else
        let vals = map marshal_event events; r1 = r\<lparr>r_calls := Suc (r_calls r)\<rparr>
        in case io (r_calls r) of
             IoErr k \<Rightarrow> (False, r1\<lparr>r_list := lpush_all (take k vals) (r_list r)\<rparr>)
           | IoOk \<Rightarrow> refreshDepth io (r1\<lparr>r_list := lpush_all vals (r_list r)\<rparr>))"

datatype rpop_result = RVal payload | RNil | RErr

definition RPop :: "io_env \<Rightarrow> redis \<Rightarrow> rpop_result \<times> redis" where
  "RPop io r =
     (let r1 = r\<lparr>r_calls := Suc (r_calls r)\<rparr>
      in case io (r_calls r) of
           IoErr k \<Rightarrow> (RErr, if k = 0 then r1 else r1\<lparr>r_list := butlast (r_list r)\<rparr>)
         | IoOk \<Rightarrow> (if r_list r = [] then (RNil, r1)
                    else (RVal (last (r_list r)), r1\<lparr>r_list := butlast (r_list r)\<rparr>)))"

text \<open>The loop of \<^verbatim>\<open>PopN\<close>; the flag tells a normal end (\<open>break\<close> or \<open>i = n\<close>) from an error return.\<close>

fun pop_loop ::
  "io_env \<Rightarrow> nat \<Rightarrow> inference_event list \<Rightarrow> redis \<Rightarrow> (inference_event list \<times> bool) \<times> redis" where
  "pop_loop io 0 out r = ((out, True), r)"
| "pop_loop io (Suc n) out r =
     (case RPop io r of
        (RNil, r') \<Rightarrow> ((out, True), r')
      | (RErr, r') \<Rightarrow> ((out, False), r')
      | (RVal v, r') \<Rightarrow>
          (case unmarshal_event v of
             None \<Rightarrow> ((out, False), r')
           | Some e \<Rightarrow> pop_loop io n (out @ [e]) r'))"

definition PopN :: "io_env \<Rightarrow> int \<Rightarrow> redis \<Rightarrow> (inference_event list \<times> bool) \<times> redis" where
  "PopN io n r =
     (if n \<le> 0 then (([], True), r)
      else case pop_loop io (nat n) [] r of
             ((out, False), r') \<Rightarrow> ((out, False), r')
           | ((out, True), r') \<Rightarrow> ((out, True), snd (refreshDepth io r')))"

section \<open>Abstraction\<close>

text \<open>
  The queue of a buffer, front first, and the invariant that every stored value decodes
  (nothing but \<^const>\<open>Push\<close> writes to the list).
\<close>

definition overflow_queue :: "redis \<Rightarrow> inference_event list" where
  "overflow_queue r = map (the \<circ> unmarshal_event) (rev (r_list r))"

definition overflow_inv :: "redis \<Rightarrow> bool" where
  "overflow_inv r = (\<forall>v \<in> set (r_list r). unmarshal_event v \<noteq> None)"

section \<open>Lemmas\<close>

lemma lpush_all_rev: "lpush_all vs l = rev vs @ l"
  unfolding lpush_all_def by (induction vs arbitrary: l) auto

lemma refreshDepth_list [simp]: "r_list (snd (refreshDepth io r)) = r_list r"
  by (auto simp: refreshDepth_def Depth_def Let_def split: io_outcome.splits)

lemma refreshDepth_views [simp]:
  "overflow_queue (snd (refreshDepth io r)) = overflow_queue r"
  "overflow_inv (snd (refreshDepth io r)) = overflow_inv r"
  by (simp_all add: overflow_queue_def overflow_inv_def)

lemma overflow_after_lpush:
  assumes "r_list r' = lpush_all (map marshal_event es) (r_list r)"
  shows "overflow_queue r' = overflow_queue r @ es"
    and "overflow_inv r \<Longrightarrow> overflow_inv r'"
  using assms
  by (auto simp: overflow_queue_def overflow_inv_def lpush_all_rev unmarshal_marshal_event
      intro!: map_idI)

lemma Push_result:
  assumes "Push io es r = (ok, r')"
  obtains k where "r_list r' = lpush_all (map marshal_event (take k es)) (r_list r)"
    and "ok \<Longrightarrow> k = length es"
proof (cases "es = []")
  case True
  then show thesis using assms that [of 0] by (simp add: Push_def lpush_all_def)
next
  case False
  show thesis
  proof (cases "io (r_calls r)")
    case IoOk
    then have "r_list r' = lpush_all (map marshal_event es) (r_list r)"
      using assms False refreshDepth_list
      by (auto simp: Push_def Let_def dest: arg_cong [where f = "\<lambda>x. r_list (snd x)"])
    then show thesis using that [of "length es"] by simp
  next
    case (IoErr k)
    then show thesis
      using assms False that [of k] by (auto simp: Push_def Let_def take_map)
  qed
qed

lemma overflow_view_pop:
  assumes "r_list r = l @ [v]" "r_list r' = l" "overflow_inv r"
  shows "overflow_queue r = the (unmarshal_event v) # overflow_queue r'"
    and "overflow_inv r'" and "unmarshal_event v \<noteq> None"
  using assms by (auto simp: overflow_queue_def overflow_inv_def)

lemma RPop_cases:
  assumes "RPop io r = (res, r')" "overflow_inv r"
  shows "overflow_inv r' \<and>
    (case res of
       RNil \<Rightarrow> overflow_queue r = [] \<and> overflow_queue r' = []
     | RErr \<Rightarrow> (\<exists>lost. overflow_queue r = lost @ overflow_queue r' \<and> length lost \<le> 1)
     | RVal v \<Rightarrow> (\<exists>e. unmarshal_event v = Some e \<and> overflow_queue r = e # overflow_queue r'))"
proof (cases "r_list r" rule: rev_cases)
  case Nil
  then show ?thesis
    using assms
    by (auto simp: RPop_def Let_def overflow_queue_def overflow_inv_def
        split: io_outcome.splits if_splits)
next
  case (snoc l v)
  show ?thesis
  proof (cases "io (r_calls r)")
    case IoOk
    with snoc assms(1) have "res = RVal v" "r_list r' = l"
      by (auto simp: RPop_def Let_def)
    then show ?thesis
      using overflow_view_pop [OF snoc _ assms(2), of r'] by auto
  next
    case (IoErr k)
    with assms(1) have res: "res = RErr"
      and r': "r_list r' = (if k = 0 then r_list r else l)"
      using snoc by (auto simp: RPop_def Let_def)
    show ?thesis
    proof (cases "k = 0")
      case True
      then show ?thesis
        using res r' assms(2) by (auto simp: overflow_queue_def overflow_inv_def)
    next
      case False
      then show ?thesis
        using res r' overflow_view_pop [OF snoc _ assms(2), of r']
        by (auto intro!: exI [of _ "[the (unmarshal_event v)]"])
    qed
  qed
qed

lemma pop_loop_result:
  assumes "overflow_inv r" "pop_loop io n acc r = ((out, ok), r')"
  shows "overflow_inv r' \<and>
    (\<exists>new lost. out = acc @ new \<and> overflow_queue r = new @ lost @ overflow_queue r' \<and>
       length new \<le> n \<and>
       (if ok then lost = [] \<and> (length new < n \<longrightarrow> overflow_queue r' = []) else length lost \<le> 1))"
  using assms
proof (induction io n acc r rule: pop_loop.induct)
  case (1 io out r)
  then show ?case by auto
next
  case (2 io n acc r)
  obtain res r1 where rp: "RPop io r = (res, r1)" by force
  note view = RPop_cases [OF rp "2.prems"(1)]
  show ?case
  proof (cases res)
    case (RVal v)
    then obtain e where e: "unmarshal_event v = Some e"
      and q: "overflow_queue r = e # overflow_queue r1"
      using view by auto
    then have run: "pop_loop io n (acc @ [e]) r1 = ((out, ok), r')"
      using "2.prems"(2) rp RVal by simp
    from "2.IH" [OF rp [symmetric] RVal e _ run] view
    obtain new lost where "overflow_inv r'" and new: "out = acc @ e # new"
      "overflow_queue r1 = new @ lost @ overflow_queue r'" "length new \<le> n"
      "if ok then lost = [] \<and> (length new < n \<longrightarrow> overflow_queue r' = []) else length lost \<le> 1"
      by auto
    then show ?thesis
      using q by (intro conjI exI [of _ "e # new"] exI [of _ lost]) auto
  next
    case RNil
    then show ?thesis using "2.prems"(2) rp view by auto
  next
    case RErr
    then show ?thesis using "2.prems"(2) rp view by auto
  qed
qed

lemma PopN_result:
  assumes "overflow_inv r" "PopN io n r = ((out, ok), r')"
  shows "overflow_inv r' \<and>
    (\<exists>lost. overflow_queue r = out @ lost @ overflow_queue r' \<and>
       (if ok then lost = [] \<and> (int (length out) < n \<longrightarrow> overflow_queue r' = [])
        else length lost \<le> 1))"
proof (cases "n \<le> 0")
  case True
  then show ?thesis using assms by (auto simp: PopN_def)
next
  case False
  obtain out1 ok1 r1 where run: "pop_loop io (nat n) [] r = ((out1, ok1), r1)"
    by (metis surj_pair)
  then have "out = out1" "ok = ok1" "overflow_queue r' = overflow_queue r1"
    "overflow_inv r' = overflow_inv r1"
    using assms(2) False by (auto simp: PopN_def split: bool.splits)
  then show ?thesis
    using pop_loop_result [OF assms(1) run] False by (auto split: if_splits)
qed

interpretation list_overflow: overflow_buffer "Push io" "PopN io" overflow_queue overflow_inv
  for io :: io_env
proof (unfold_locales, goal_cases)
  case (1 s es)
  then show ?case
    by (metis Push_result overflow_after_lpush(2) prod.collapse)
next
  case (2 s es s')
  then show ?case
    by (metis Push_result overflow_after_lpush(1) order_refl take_all)
next
  case (3 s es s')
  then show ?case
    by (metis Push_result overflow_after_lpush(1))
next
  case (4 s n)
  then show ?case by (metis PopN_result prod.collapse)
next
  case (5 s n out s')
  then show ?case using PopN_result by fastforce
next
  case (6 s n s')
  then show ?case using PopN_result by fastforce
next
  case (7 s n out s')
  then show ?case using PopN_result by fastforce
qed

section \<open>Properties\<close>

text \<open>
  Observation. The overflow buffer is a first-in first-out queue whatever Redis does: if a batch is
  pushed onto an empty buffer and the push reports success, a later successful \<open>PopN\<close>
  returns a prefix of that batch in order, and the rest of the batch stays queued.
\<close>

theorem overflow_fifo:
  assumes "overflow_inv r" "overflow_queue r = []"
    and "Push io events r = (True, r1)"
    and "PopN io' n r1 = ((out, True), r2)"
  shows "events = out @ overflow_queue r2 \<and> (int (length out) < n \<longrightarrow> out = events)"
proof -
  have inv: "overflow_inv r1"
    using list_overflow.push_inv [OF assms(1), of io events] assms(3) by simp
  have "overflow_queue r1 = events"
    using list_overflow.push_ok [OF assms(1,3)] assms(2) by simp
  then show ?thesis using PopN_result [OF inv assms(4)] by auto
qed

definition redis_empty :: redis where
  "redis_empty = \<lparr>r_list = [], r_calls = 0, r_depth_gauge = 0\<rparr>"

theorem overflow_fifo_witness:
  "[zero_event] = [zero_event] @ overflow_queue
     (snd (PopN (\<lambda>_. IoOk) 2 (snd (Push (\<lambda>_. IoOk) [zero_event] redis_empty))))"
proof -
  let ?r1 = "snd (Push (\<lambda>_. IoOk) [zero_event] redis_empty)"
  let ?r2 = "snd (PopN (\<lambda>_. IoOk) 2 ?r1)"
  have inv: "overflow_inv redis_empty" "overflow_queue redis_empty = []"
    by (simp_all add: redis_empty_def overflow_inv_def overflow_queue_def)
  have p: "Push (\<lambda>_. IoOk) [zero_event] redis_empty = (True, ?r1)"
    by (simp add: Push_def refreshDepth_def Depth_def Let_def)
  have q: "PopN (\<lambda>_. IoOk) 2 ?r1 = (([zero_event], True), ?r2)"
    by (simp add: Push_def refreshDepth_def Depth_def PopN_def RPop_def lpush_all_def
        Let_def redis_empty_def unmarshal_marshal_event numeral_2_eq_2)
  show ?thesis
    using overflow_fifo [OF inv p q] by simp
qed

end
