(* ===== verification/Dead_Letter.thy ===== *)
theory Dead_Letter
  imports Overflow_Buffer
begin

text \<open>
  The dead-letter publisher of the consumer (\<^verbatim>\<open>consumer/internal/kafka/dlq.go\<close>).  The Go
  interface \<^verbatim>\<open>DLQHandoff\<close> of the writer is the locale \<open>dead_letter\<close>, interpreted by
  \<^verbatim>\<open>DLQPublisher\<close>.
\<close>

section \<open>The contract of a dead-letter sink\<close>

text \<open>
  The loop of \<^verbatim>\<open>insertWithRetries\<close> that publishes a batch event by event and stops at the
  first failure.
\<close>

fun publish_each ::
  "('e \<Rightarrow> string \<Rightarrow> int \<Rightarrow> 'd \<Rightarrow> bool \<times> 'd) \<Rightarrow> 'e list \<Rightarrow> string \<Rightarrow> int \<Rightarrow> 'd \<Rightarrow> bool \<times> 'd" where
  "publish_each publish [] msg n d = (True, d)"
| "publish_each publish (e # es) msg n d =
     (case publish e msg n d of
        (True, d') \<Rightarrow> publish_each publish es msg n d'
      | (False, d') \<Rightarrow> (False, d'))"

text \<open>A failed publish may still have reached the log: the producer times out after sending.\<close>

locale dead_letter =
  fixes publish :: "'e \<Rightarrow> string \<Rightarrow> int \<Rightarrow> 'd \<Rightarrow> bool \<times> 'd"
    and dead :: "'d \<Rightarrow> 'e list"
  assumes publish_ok: "publish e msg n d = (True, d') \<Longrightarrow> dead d' = dead d @ [e]"
    and publish_err: "publish e msg n d = (False, d') \<Longrightarrow> dead d' = dead d \<or> dead d' = dead d @ [e]"
begin

lemma publish_each_ok: "publish_each publish es msg n d = (True, d') \<Longrightarrow> dead d' = dead d @ es"
  by (induction es arbitrary: d) (auto split: prod.splits bool.splits dest: publish_ok)

lemma publish_each_err:
  "publish_each publish es msg n d = (False, d') \<Longrightarrow> \<exists>k \<le> length es. dead d' = dead d @ take k es"
proof (induction es arbitrary: d)
  case (Cons e es)
  obtain ok d1 where p: "publish e msg n d = (ok, d1)" by force
  show ?case
  proof (cases ok)
    case True
    then obtain k where "k \<le> length es" "dead d' = dead d1 @ take k es"
      using Cons.IH [of d1] Cons.prems p by auto
    then show ?thesis
      using publish_ok p True by (intro exI [of _ "Suc k"]) auto
  next
    case False
    then have "dead d' = dead d \<or> dead d' = dead d @ [e]"
      using Cons.prems p publish_err by auto
    then show ?thesis
      by (elim disjE) (auto intro: exI [of _ 0] exI [of _ "Suc 0"])
  qed
qed simp

end

section \<open>DLQPublisher\<close>

record dlq_message =
  dm_event :: inference_event
  dm_error :: string
  dm_retries :: int
  dm_timestamp :: int

text \<open>
  The Kafka client is not part of the sources: the topic is the list of its records, and each
  \<^verbatim>\<open>ProduceSync\<close> has an outcome of the environment (\<open>IoErr k\<close> with \<open>k > 0\<close> is an error
  reported although the broker appended the record).  Marshalling cannot fail: every field of
  the message is a string, an integer or a finite float.
\<close>

record dlq_topic =
  dt_records :: "dlq_message list"
  dt_calls :: nat
  dt_counter :: nat

definition DlqPublish ::
  "io_env \<Rightarrow> (nat \<Rightarrow> int) \<Rightarrow> inference_event \<Rightarrow> string \<Rightarrow> int \<Rightarrow> dlq_topic \<Rightarrow> bool \<times> dlq_topic" where
  "DlqPublish io now event errMsg retries p =
     (let msg = \<lparr>dm_event = event, dm_error = errMsg, dm_retries = retries,
                 dm_timestamp = now (dt_calls p)\<rparr>;
          p1 = p\<lparr>dt_calls := Suc (dt_calls p)\<rparr>;
          stored = p1\<lparr>dt_records := dt_records p @ [msg]\<rparr>
      in case io (dt_calls p) of
           IoErr k \<Rightarrow> (False, if k = 0 then p1 else stored)
         | IoOk \<Rightarrow> (True, stored\<lparr>dt_counter := Suc (dt_counter p)\<rparr>))"

definition dlq_events :: "dlq_topic \<Rightarrow> inference_event list" where
  "dlq_events p = map dm_event (dt_records p)"

interpretation dlq: dead_letter "DlqPublish io now" dlq_events
  for io :: io_env and now :: "nat \<Rightarrow> int"
  by unfold_locales
     (auto simp: DlqPublish_def dlq_events_def Let_def split: io_outcome.splits if_splits)

end
