(* ===== verification/Batch_Writer.thy ===== *)
theory Batch_Writer
  imports Circuit_Breaker Dead_Letter "HOL-Library.Multiset"
begin

text \<open>
  The batching writer of the consumer (\<^verbatim>\<open>consumer/internal/clickhouse/writer.go\<close>): the buffer,
  the hand-off to ClickHouse, the overflow buffer or the dead-letter topic, the completion
  signals and the drain loop.  The Go interfaces the writer depends on are the fields of
  \<open>writer_env\<close>; the overflow buffer and the dead-letter sink come with the contracts of the
  locales \<^const>\<open>overflow_buffer\<close> and \<^const>\<open>dead_letter\<close>, the ClickHouse driver and
  \<^verbatim>\<open>google/uuid\<close> are third-party code.
\<close>

section \<open>State\<close>

record writer_config =
  BatchSize :: int
  InsertRetries :: int
  DrainBatchSize :: int

record queued_event =
  qe_event :: inference_event
  qe_record_id :: u64

record ('o, 'd, 'c) writer_env =
  we_push :: "inference_event list \<Rightarrow> 'o \<Rightarrow> bool \<times> 'o"
  we_popn :: "int \<Rightarrow> 'o \<Rightarrow> (inference_event list \<times> bool) \<times> 'o"
  we_publish :: "inference_event \<Rightarrow> string \<Rightarrow> int \<Rightarrow> 'd \<Rightarrow> bool \<times> 'd"
  we_prepare :: "'c \<Rightarrow> string option \<times> 'c"
  we_append :: "ch_row \<Rightarrow> 'c \<Rightarrow> string option \<times> 'c"
  we_send :: "'c \<Rightarrow> string option \<times> 'c"
  we_uuid :: uuid_lib
  we_clock :: "nat \<Rightarrow> int"

text \<open>
  \<open>bw_signals\<close> is the map \<^verbatim>\<open>handoffSignals\<close> with the remaining count of each signal, and
  \<open>bw_done\<close> lists the identifiers whose \<^verbatim>\<open>done\<close> channel has been closed.  \<open>bw_ticks\<close> and
  \<open>bw_uuids\<close> count the readings of the clock and the identifiers drawn.
\<close>

record ('o, 'd, 'c) batch_writer =
  bw_cfg :: writer_config
  bw_overflow :: 'o
  bw_dlq :: 'd
  bw_conn :: 'c
  bw_cb :: circuit_breaker
  bw_buf :: "queued_event list"
  bw_signals :: "u64 \<rightharpoonup> int"
  bw_done :: "u64 list"
  bw_next :: u64
  bw_flight :: bool
  bw_ticks :: nat
  bw_uuids :: nat
  bw_gauge :: "string \<Rightarrow> real"
  bw_write_errors :: nat
  bw_batch_sizes :: "nat list"

text \<open>\<^verbatim>\<open>SetBreakerState\<close> of \<^verbatim>\<open>consumer/internal/metrics/metrics.go\<close>.\<close>

definition SetBreakerState :: "string \<Rightarrow> (string \<Rightarrow> real) \<Rightarrow> (string \<Rightarrow> real)" where
  "SetBreakerState st g =
     foldl (\<lambda>g s. g(s := (if s = st then 1 else 0))) g [''closed'', ''open'', ''halfopen'']"

text \<open>\<^verbatim>\<open>NewBatchWriter\<close> once the connection is open and has answered the ping.\<close>

definition NewBatchWriter ::
  "writer_config \<Rightarrow> int \<Rightarrow> int \<Rightarrow> 'o \<Rightarrow> 'd \<Rightarrow> 'c \<Rightarrow> ('o, 'd, 'c) batch_writer" where
  "NewBatchWriter cfg failures timeout ov dlq conn =
     \<lparr>bw_cfg = cfg, bw_overflow = ov, bw_dlq = dlq, bw_conn = conn,
      bw_cb = NewCircuitBreaker failures timeout, bw_buf = [], bw_signals = Map.empty,
      bw_done = [], bw_next = 0, bw_flight = False, bw_ticks = 0, bw_uuids = 0,
      bw_gauge = SetBreakerState ''closed'' (\<lambda>_. 0), bw_write_errors = 0, bw_batch_sizes = []\<rparr>"

section \<open>Signals\<close>

definition finishHandoffSignal ::
  "u64 \<Rightarrow> int \<Rightarrow> ('o, 'd, 'c) batch_writer \<Rightarrow> ('o, 'd, 'c) batch_writer" where
  "finishHandoffSignal i n w =
     (case bw_signals w i of
        None \<Rightarrow> w
      | Some remaining \<Rightarrow>
          let left = remaining - n
          in if left \<le> 0
             then w\<lparr>bw_done := bw_done w @ [i], bw_signals := (bw_signals w)(i := None)\<rparr>
             else w\<lparr>bw_signals := (bw_signals w)(i \<mapsto> left)\<rparr>)"

text \<open>
  The branch for \<^verbatim>\<open>len(recordIDs) != count\<close> groups the identifiers in a Go map; the order in
  which that map is visited does not matter, each identifier being finished once.
\<close>

definition signalHandoffSignals ::
  "u64 list \<Rightarrow> nat \<Rightarrow> ('o, 'd, 'c) batch_writer \<Rightarrow> ('o, 'd, 'c) batch_writer" where
  "signalHandoffSignals ids cnt w =
     (if ids = [] then w
      else if length ids \<noteq> cnt
      then foldl (\<lambda>w i. finishHandoffSignal i (int (count_list ids i)) w) w (remdups ids)
      else foldl (\<lambda>w i. finishHandoffSignal i 1 w) w ids)"

section \<open>Hand-off\<close>

fun append_rows ::
  "('o, 'd, 'c) writer_env \<Rightarrow> ch_row list \<Rightarrow> 'c \<Rightarrow> string option \<times> 'c" where
  "append_rows env [] c = (None, c)"
| "append_rows env (r # rs) c =
     (case we_append env r c of
        (Some err, c') \<Rightarrow> (Some err, c')
      | (None, c') \<Rightarrow> append_rows env rs c')"

definition batchInsert ::
  "('o, 'd, 'c) writer_env \<Rightarrow> inference_event list \<Rightarrow> ('o, 'd, 'c) batch_writer \<Rightarrow>
   string option \<times> ('o, 'd, 'c) batch_writer" where
  "batchInsert env events w =
     (case RowsFromEvents (we_uuid env) events (bw_uuids w) of
        (Inl err, n) \<Rightarrow> (Some err, w\<lparr>bw_uuids := n\<rparr>)
      | (Inr rows, n) \<Rightarrow>
          (case we_prepare env (bw_conn w) of
             (Some err, c1) \<Rightarrow> (Some err, w\<lparr>bw_uuids := n, bw_conn := c1\<rparr>)
           | (None, c1) \<Rightarrow>
               (case append_rows env rows c1 of
                  (Some err, c2) \<Rightarrow> (Some err, w\<lparr>bw_uuids := n, bw_conn := c2\<rparr>)
                | (None, c2) \<Rightarrow>
                    (let (err, c3) = we_send env c2
                     in (err, w\<lparr>bw_uuids := n, bw_conn := c3\<rparr>)))))"

text \<open>The retry loop; \<open>lastErr\<close> is nil until an attempt has failed.\<close>

fun insert_attempts ::
  "('o, 'd, 'c) writer_env \<Rightarrow> nat \<Rightarrow> string option \<Rightarrow> inference_event list \<Rightarrow>
   ('o, 'd, 'c) batch_writer \<Rightarrow> (bool \<times> string option) \<times> ('o, 'd, 'c) batch_writer" where
  "insert_attempts env 0 lastErr events w = ((False, lastErr), w)"
| "insert_attempts env (Suc n) lastErr events w =
     (case batchInsert env events w of
        (None, w') \<Rightarrow> ((True, None), w')
      | (Some err, w') \<Rightarrow> insert_attempts env n (Some err) events w')"

text \<open>
  \<^verbatim>\<open>insertWithRetries\<close>.  With no attempt made \<^verbatim>\<open>lastErr\<close> is nil, and \<^verbatim>\<open>lastErr.Error()\<close> in the
  dead-letter loop dereferences nil.
\<close>

definition insertWithRetries ::
  "('o, 'd, 'c) writer_env \<Rightarrow> inference_event list \<Rightarrow> ('o, 'd, 'c) batch_writer \<Rightarrow>
   (bool \<times> ('o, 'd, 'c) batch_writer) go" where
  "insertWithRetries env events w =
     (case insert_attempts env (nat (InsertRetries (bw_cfg w))) None events w of
        ((True, _), w1) \<Rightarrow> Return (True, w1)
      | ((False, None), w1) \<Rightarrow>
          (if events = [] then Return (True, w1)
           else Panic ''invalid memory address or nil pointer dereference'')
      | ((False, Some err), w1) \<Rightarrow>
          (let (ok, d) = publish_each (we_publish env) events err
                           (InsertRetries (bw_cfg w)) (bw_dlq w1)
           in Return (ok, w1\<lparr>bw_dlq := d\<rparr>)))"

definition tick ::
  "('o, 'd, 'c) writer_env \<Rightarrow> ('o, 'd, 'c) batch_writer \<Rightarrow> int \<times> ('o, 'd, 'c) batch_writer" where
  "tick env w = (we_clock env (bw_ticks w), w\<lparr>bw_ticks := Suc (bw_ticks w)\<rparr>)"

text \<open>\<^verbatim>\<open>w.m.SetBreakerState(w.cb.State().String())\<close>.\<close>

definition publish_breaker_state ::
  "('o, 'd, 'c) writer_env \<Rightarrow> ('o, 'd, 'c) batch_writer \<Rightarrow> ('o, 'd, 'c) batch_writer" where
  "publish_breaker_state env w =
     (let (now, w1) = tick env w; (st, cb) = State now (bw_cb w1)
      in w1\<lparr>bw_cb := cb, bw_gauge := SetBreakerState (breaker_string st) (bw_gauge w1)\<rparr>)"

definition push_overflow ::
  "('o, 'd, 'c) writer_env \<Rightarrow> inference_event list \<Rightarrow> ('o, 'd, 'c) batch_writer \<Rightarrow>
   bool \<times> ('o, 'd, 'c) batch_writer" where
  "push_overflow env events w =
     (let (ok, ov) = we_push env events (bw_overflow w) in (ok, w\<lparr>bw_overflow := ov\<rparr>))"

text \<open>The two ends of \<^verbatim>\<open>handoffEvents\<close> after the insert: lines 213 to 218, and 221 to 230.\<close>

definition handoff_handled ::
  "('o, 'd, 'c) writer_env \<Rightarrow> inference_event list \<Rightarrow> ('o, 'd, 'c) batch_writer \<Rightarrow>
   ('o, 'd, 'c) batch_writer" where
  "handoff_handled env events w =
     (let w1 = publish_breaker_state env (w\<lparr>bw_cb := RecordSuccess (bw_cb w)\<rparr>)
      in w1\<lparr>bw_batch_sizes := bw_batch_sizes w1 @ [length events]\<rparr>)"

definition handoff_failed ::
  "('o, 'd, 'c) writer_env \<Rightarrow> inference_event list \<Rightarrow> ('o, 'd, 'c) batch_writer \<Rightarrow>
   bool \<times> ('o, 'd, 'c) batch_writer" where
  "handoff_failed env events w =
     (let (t, w1) = tick env (w\<lparr>bw_write_errors := Suc (bw_write_errors w)\<rparr>)
      in push_overflow env events
           (publish_breaker_state env (w1\<lparr>bw_cb := RecordFailure t (bw_cb w1)\<rparr>)))"

text \<open>
  \<^verbatim>\<open>handoffEvents\<close> up to the completion signals: the flag says whether the call reaches
  \<^verbatim>\<open>signalHandoffSignals\<close>, which is the last action of each of its successful branches.
\<close>

definition handoff_core ::
  "('o, 'd, 'c) writer_env \<Rightarrow> inference_event list \<Rightarrow> ('o, 'd, 'c) batch_writer \<Rightarrow>
   (bool \<times> ('o, 'd, 'c) batch_writer) go" where
  "handoff_core env events w =
     (let (now, w1) = tick env w; (allow, cb) = AllowInsert now (bw_cb w1);
          w2 = w1\<lparr>bw_cb := cb\<rparr>
      in if \<not> allow
         then Return (push_overflow env events (publish_breaker_state env w2))
         else go_bind (insertWithRetries env events w2) (\<lambda>(handled, w3).
           Return (if handled then (True, handoff_handled env events w3)
                   else handoff_failed env events w3)))"

definition handoffEvents ::
  "('o, 'd, 'c) writer_env \<Rightarrow> inference_event list \<Rightarrow> u64 list \<Rightarrow> ('o, 'd, 'c) batch_writer \<Rightarrow>
   ('o, 'd, 'c) batch_writer go" where
  "handoffEvents env events ids w =
     (if events = [] then Return w
      else go_bind (handoff_core env events w) (\<lambda>(reached, w').
        Return (if reached then signalHandoffSignals ids (length events) w' else w')))"

definition handoffQueued ::
  "('o, 'd, 'c) writer_env \<Rightarrow> queued_event list \<Rightarrow> ('o, 'd, 'c) batch_writer \<Rightarrow>
   ('o, 'd, 'c) batch_writer go" where
  "handoffQueued env queued w = handoffEvents env (map qe_event queued) (map qe_record_id queued) w"

section \<open>Accept, Flush, drain\<close>

text \<open>
  \<^verbatim>\<open>Accept\<close> up to its \<^verbatim>\<open>select\<close>: \<open>None\<close> when there is nothing to hand off, otherwise the
  identifier whose \<^verbatim>\<open>done\<close> channel the caller waits on and whether a flush is started.
\<close>

definition Accept ::
  "inference_event list \<Rightarrow> ('o, 'd, 'c) batch_writer \<Rightarrow>
   (u64 \<times> bool) option \<times> ('o, 'd, 'c) batch_writer" where
  "Accept events w =
     (if events = [] then (None, w)
      else
        let i = bw_next w;
            buf = bw_buf w @ map (\<lambda>e. \<lparr>qe_event = e, qe_record_id = i\<rparr>) events
        in (Some (i, int (length buf) \<ge> BatchSize (bw_cfg w)),
            w\<lparr>bw_next := i + 1, bw_signals := (bw_signals w)(i \<mapsto> int (length events)),
              bw_buf := buf\<rparr>))"

text \<open>The two critical sections of \<^verbatim>\<open>Flush\<close> around the hand-off.\<close>

definition flush_begin ::
  "('o, 'd, 'c) batch_writer \<Rightarrow> queued_event list option \<times> ('o, 'd, 'c) batch_writer" where
  "flush_begin w =
     (if bw_flight w then (None, w)
      else if bw_buf w = [] then (None, w)
      else (Some (bw_buf w), w\<lparr>bw_flight := True, bw_buf := []\<rparr>))"

definition Flush ::
  "('o, 'd, 'c) writer_env \<Rightarrow> ('o, 'd, 'c) batch_writer \<Rightarrow> ('o, 'd, 'c) batch_writer go" where
  "Flush env w =
     (case flush_begin w of
        (None, w1) \<Rightarrow> Return w1
      | (Some queued, w1) \<Rightarrow>
          go_bind (handoffQueued env queued w1) (\<lambda>w2. Return (w2\<lparr>bw_flight := False\<rparr>)))"

text \<open>The loop of \<^verbatim>\<open>drainOverflow\<close> may not end, so it runs on fuel; \<open>None\<close> is "still running".\<close>

fun drain_loop ::
  "('o, 'd, 'c) writer_env \<Rightarrow> nat \<Rightarrow> ('o, 'd, 'c) batch_writer \<Rightarrow>
   ('o, 'd, 'c) batch_writer option go" where
  "drain_loop env 0 w = Return None"
| "drain_loop env (Suc fuel) w =
     (case we_popn env (DrainBatchSize (bw_cfg w)) (bw_overflow w) of
        ((events, False), ov) \<Rightarrow> Return (Some (w\<lparr>bw_overflow := ov\<rparr>))
      | ((events, True), ov) \<Rightarrow>
          (if events = [] then Return (Some (w\<lparr>bw_overflow := ov\<rparr>))
           else go_bind (handoffEvents env events [] (w\<lparr>bw_overflow := ov\<rparr>))
                  (drain_loop env fuel)))"

definition drainOverflow ::
  "('o, 'd, 'c) writer_env \<Rightarrow> nat \<Rightarrow> ('o, 'd, 'c) batch_writer \<Rightarrow>
   ('o, 'd, 'c) batch_writer option go" where
  "drainOverflow env fuel w =
     (let (now, w1) = tick env w; (st, cb) = State now (bw_cb w1); w2 = w1\<lparr>bw_cb := cb\<rparr>
      in if st \<noteq> BreakerClosed then Return (Some w2) else drain_loop env fuel w2)"

end
