(* ===== verification/Handoff.thy ===== *)
theory Handoff
  imports Batch_Writer
begin

text \<open>
  What the writer guarantees: a hand-off that reaches its completion signals has put every
  event into ClickHouse, the dead-letter topic or the overflow buffer; the signals of
  \<^verbatim>\<open>Accept\<close> are closed only after all events of the call have been handed off, under every
  interleaving of accepts, flushes and drains; and the behaviour of the drain loop.
\<close>

section \<open>Where an event can land\<close>

text \<open>
  The documented behaviour of the ClickHouse driver that the writer relies on: when preparing a
  batch, appending rows and sending it all report success, the rows are in the table; and no
  call removes rows.
\<close>

definition conn_commits :: "('o, 'd, 'c) writer_env \<Rightarrow> ('c \<Rightarrow> ch_row list) \<Rightarrow> bool" where
  "conn_commits env table \<longleftrightarrow>
     (\<forall>c c1 c2 c3 rows. we_prepare env c = (None, c1) \<longrightarrow> append_rows env rows c1 = (None, c2) \<longrightarrow>
        we_send env c2 = (None, c3) \<longrightarrow> set rows \<subseteq> set (table c3)) \<and>
     (\<forall>c. set (table c) \<subseteq> set (table (snd (we_prepare env c)))) \<and>
     (\<forall>c r. set (table c) \<subseteq> set (table (snd (we_append env r c)))) \<and>
     (\<forall>c. set (table c) \<subseteq> set (table (snd (we_send env c))))"

definition landed ::
  "('c \<Rightarrow> ch_row list) \<Rightarrow> ('d \<Rightarrow> inference_event list) \<Rightarrow> ('o \<Rightarrow> inference_event list) \<Rightarrow>
   ('o, 'd, 'c) batch_writer \<Rightarrow> inference_event \<Rightarrow> bool" where
  "landed table dead queue w e \<longleftrightarrow>
     (\<exists>r \<in> set (table (bw_conn w)). row_of e r) \<or>
     e \<in> set (dead (bw_dlq w)) \<or> e \<in> set (queue (bw_overflow w))"

section \<open>Frame facts: what each operation leaves alone\<close>

text \<open>The bookkeeping of accepts and signals, and the three sinks.\<close>

definition same_book :: "('o, 'd, 'c) batch_writer \<Rightarrow> ('o, 'd, 'c) batch_writer \<Rightarrow> bool" where
  "same_book w w' \<longleftrightarrow>
     bw_signals w' = bw_signals w \<and> bw_done w' = bw_done w \<and> bw_buf w' = bw_buf w \<and>
     bw_next w' = bw_next w \<and> bw_cfg w' = bw_cfg w \<and> bw_flight w' = bw_flight w"

definition same_sinks :: "('o, 'd, 'c) batch_writer \<Rightarrow> ('o, 'd, 'c) batch_writer \<Rightarrow> bool" where
  "same_sinks w w' \<longleftrightarrow>
     bw_conn w' = bw_conn w \<and> bw_dlq w' = bw_dlq w \<and> bw_overflow w' = bw_overflow w"

lemma same_book_trans: "same_book w w1 \<Longrightarrow> same_book w1 w2 \<Longrightarrow> same_book w w2"
  by (auto simp: same_book_def)

lemma publish_breaker_state_frame:
  "same_book w (publish_breaker_state env w)" "same_sinks w (publish_breaker_state env w)"
  by (simp_all add: publish_breaker_state_def tick_def State_def Let_def same_book_def same_sinks_def)

lemma batchInsert_frame:
  assumes "batchInsert env es w = (r, w')"
  shows "same_book w w' \<and> bw_dlq w' = bw_dlq w \<and> bw_overflow w' = bw_overflow w"
  using assms
  by (auto simp: batchInsert_def same_book_def split: prod.splits sum.splits option.splits)

lemma insert_attempts_frame:
  assumes "insert_attempts env n lastErr es w = (r, w')"
  shows "same_book w w' \<and> bw_dlq w' = bw_dlq w \<and> bw_overflow w' = bw_overflow w"
  using assms
proof (induction env n lastErr es w rule: insert_attempts.induct)
  case (2 env n lastErr es w)
  obtain r1 w1 where b: "batchInsert env es w = (r1, w1)" by force
  note fr = batchInsert_frame [OF b]
  show ?case
  proof (cases r1)
    case None
    then show ?thesis using "2.prems" b fr by auto
  next
    case (Some err)
    then have "same_book w1 w' \<and> bw_dlq w' = bw_dlq w1 \<and> bw_overflow w' = bw_overflow w1"
      using "2.IH" [OF b [symmetric] Some] "2.prems" b by auto
    then show ?thesis using fr same_book_trans by fastforce
  qed
qed (simp add: same_book_def)

lemma insertWithRetries_frame:
  assumes "insertWithRetries env es w = Return (h, w')"
  shows "same_book w w'" "bw_overflow w' = bw_overflow w"
proof -
  obtain h1 lastErr w1 where
    i: "insert_attempts env (nat (InsertRetries (bw_cfg w))) None es w = ((h1, lastErr), w1)"
    by (metis surj_pair)
  have "same_book w1 w' \<and> bw_overflow w' = bw_overflow w1"
    using assms i
    by (auto simp: insertWithRetries_def same_book_def
        split: prod.splits bool.splits option.splits if_splits)
  then show "same_book w w'" "bw_overflow w' = bw_overflow w"
    using insert_attempts_frame [OF i] same_book_trans by fastforce+
qed

lemma push_overflow_frame:
  assumes "push_overflow env es w = (ok, w')"
  shows "same_book w w'" "bw_conn w' = bw_conn w" "bw_dlq w' = bw_dlq w"
    "we_push env es (bw_overflow w) = (ok, bw_overflow w')"
  using assms by (auto simp: push_overflow_def same_book_def split: prod.splits)

lemma handoff_handled_frame:
  "same_book w (handoff_handled env es w)" "same_sinks w (handoff_handled env es w)"
  using publish_breaker_state_frame [of "w\<lparr>bw_cb := RecordSuccess (bw_cb w)\<rparr>" env]
  by (simp_all add: handoff_handled_def Let_def same_book_def same_sinks_def)

lemma handoff_failed_push:
  obtains w1 where "same_book w w1" "same_sinks w w1"
    "handoff_failed env es w = push_overflow env es w1"
proof
  let ?w1 = "w\<lparr>bw_write_errors := Suc (bw_write_errors w), bw_ticks := Suc (bw_ticks w),
    bw_cb := RecordFailure (we_clock env (bw_ticks w)) (bw_cb w)\<rparr>"
  show "handoff_failed env es w = push_overflow env es (publish_breaker_state env ?w1)"
    by (simp add: handoff_failed_def tick_def Let_def)
  show "same_book w (publish_breaker_state env ?w1)" "same_sinks w (publish_breaker_state env ?w1)"
    using publish_breaker_state_frame [of ?w1 env] by (simp_all add: same_book_def same_sinks_def)
qed

lemma handoff_core_eq:
  "handoff_core env es w =
     (let w2 = w\<lparr>bw_ticks := Suc (bw_ticks w),
               bw_cb := snd (AllowInsert (we_clock env (bw_ticks w)) (bw_cb w))\<rparr>
      in if fst (AllowInsert (we_clock env (bw_ticks w)) (bw_cb w))
         then go_bind (insertWithRetries env es w2) (\<lambda>(handled, w3).
           Return (if handled then (True, handoff_handled env es w3) else handoff_failed env es w3))
         else Return (push_overflow env es (publish_breaker_state env w2)))"
  by (simp add: handoff_core_def tick_def Let_def case_prod_unfold)

text \<open>
  The three ways through \<^const>\<open>handoff_core\<close>: refused by the breaker, inserted (or
  dead-lettered), failed.
\<close>

lemma handoff_core_cases:
  assumes "handoff_core env es w = Return (reached, w')"
  obtains (refused) w2 where
      "same_book w w2" "same_sinks w w2" "push_overflow env es w2 = (reached, w')"
  | (inserted) w2 w3 where
      "same_book w w2" "same_sinks w w2" "insertWithRetries env es w2 = Return (True, w3)"
      "reached" "same_book w3 w'" "same_sinks w3 w'"
  | (failed) w2 w3 w4 where
      "same_book w w2" "same_sinks w w2" "insertWithRetries env es w2 = Return (False, w3)"
      "same_book w3 w4" "same_sinks w3 w4" "push_overflow env es w4 = (reached, w')"
proof -
  define w2 where "w2 = w\<lparr>bw_ticks := Suc (bw_ticks w),
    bw_cb := snd (AllowInsert (we_clock env (bw_ticks w)) (bw_cb w))\<rparr>"
  have fr: "same_book w w2" "same_sinks w w2"
    by (simp_all add: w2_def same_book_def same_sinks_def)
  show thesis
  proof (cases "fst (AllowInsert (we_clock env (bw_ticks w)) (bw_cb w))")
    case False
    then have "push_overflow env es (publish_breaker_state env w2) = (reached, w')"
      using assms by (simp add: handoff_core_def tick_def w2_def split: prod.splits)
    then show thesis
      using refused [of "publish_breaker_state env w2"] fr publish_breaker_state_frame [of w2 env]
      by (simp add: same_book_def same_sinks_def)
  next
    case True
    then obtain handled w3 where ins: "insertWithRetries env es w2 = Return (handled, w3)"
      and fin: "(if handled then (True, handoff_handled env es w3) else handoff_failed env es w3)
                = (reached, w')"
      using assms
      by (auto simp: handoff_core_def tick_def w2_def go_bind_Return_iff split: prod.splits)
    show thesis
    proof (cases handled)
      case True
      then show thesis using inserted [OF fr] ins fin handoff_handled_frame [of w3 env es] by auto
    next
      case False
      obtain w4 where "same_book w3 w4" "same_sinks w3 w4"
        "handoff_failed env es w3 = push_overflow env es w4"
        by (rule handoff_failed_push)
      then show thesis using failed [OF fr] ins fin False by auto
    qed
  qed
qed

lemma handoff_core_frame:
  "handoff_core env es w = Return (reached, w') \<Longrightarrow> same_book w w'"
  by (erule handoff_core_cases)
     (blast intro: same_book_trans push_overflow_frame(1) insertWithRetries_frame(1))+

section \<open>A completed hand-off loses nothing\<close>

lemma batchInsert_commits:
  assumes "conn_commits env table" "batchInsert env es w = (None, w')" "e \<in> set es"
  shows "\<exists>r \<in> set (table (bw_conn w')). row_of e r"
proof -
  obtain rows n c1 c2 c3 where rows: "RowsFromEvents (we_uuid env) es (bw_uuids w) = (Inr rows, n)"
    and steps: "we_prepare env (bw_conn w) = (None, c1)" "append_rows env rows c1 = (None, c2)"
      "we_send env c2 = (None, c3)" "bw_conn w' = c3"
    using assms(2) by (auto simp: batchInsert_def split: prod.splits sum.splits option.splits)
  have "set rows \<subseteq> set (table c3)"
    using assms(1) steps unfolding conn_commits_def by blast
  moreover obtain r where "r \<in> set rows" "row_of e r"
    using RowsFromEvents_row_of [OF rows] assms(3)
    by (metis in_set_conv_nth list_all2_conv_all_nth)
  ultimately show ?thesis using steps(4) by auto
qed

lemma insert_attempts_commits:
  assumes "conn_commits env table" "insert_attempts env n lastErr es w = ((True, r), w')" "e \<in> set es"
  shows "\<exists>r \<in> set (table (bw_conn w')). row_of e r"
  using assms(2)
proof (induction n arbitrary: lastErr w)
  case (Suc n)
  obtain r1 w1 where b: "batchInsert env es w = (r1, w1)" by force
  show ?case
  proof (cases r1)
    case None
    then show ?thesis using batchInsert_commits [OF assms(1) _ assms(3)] Suc.prems b by auto
  next
    case (Some err)
    then show ?thesis using Suc b by auto
  qed
qed simp

text \<open>
  The two sinks of the writer that are interfaces of the program, with their contracts.
\<close>

locale writer_sinks =
  ov: overflow_buffer push popn queue inv + dl: dead_letter publish dead
  for push :: "inference_event list \<Rightarrow> 'o \<Rightarrow> bool \<times> 'o"
    and popn :: "int \<Rightarrow> 'o \<Rightarrow> (inference_event list \<times> bool) \<times> 'o"
    and queue :: "'o \<Rightarrow> inference_event list"
    and inv :: "'o \<Rightarrow> bool"
    and publish :: "inference_event \<Rightarrow> string \<Rightarrow> int \<Rightarrow> 'd \<Rightarrow> bool \<times> 'd"
    and dead :: "'d \<Rightarrow> inference_event list"
begin

definition uses_sinks :: "('o, 'd, 'c) writer_env \<Rightarrow> bool" where
  "uses_sinks env \<longleftrightarrow> we_push env = push \<and> we_popn env = popn \<and> we_publish env = publish"

lemma insertWithRetries_lands:
  assumes "uses_sinks env" "conn_commits env table"
    and "insertWithRetries env es w = Return (True, w')" "e \<in> set es"
  shows "(\<exists>r \<in> set (table (bw_conn w')). row_of e r) \<or> e \<in> set (dead (bw_dlq w'))"
proof -
  obtain h lastErr w1 where
    i: "insert_attempts env (nat (InsertRetries (bw_cfg w))) None es w = ((h, lastErr), w1)"
    by (metis surj_pair)
  show ?thesis
  proof (cases h)
    case True
    then have "w' = w1" using assms(3) i by (simp add: insertWithRetries_def)
    then show ?thesis using insert_attempts_commits [OF assms(2) _ assms(4)] i True by auto
  next
    case False
    then obtain err d where "publish_each publish es err (InsertRetries (bw_cfg w)) (bw_dlq w1) = (True, d)"
      "bw_dlq w' = d"
      using assms i
      by (auto simp: insertWithRetries_def uses_sinks_def split: option.splits prod.splits if_splits)
    then show ?thesis using dl.publish_each_ok assms(4) by fastforce
  qed
qed

lemma push_overflow_lands:
  assumes "uses_sinks env" "inv (bw_overflow w)" "push_overflow env es w = (True, w')" "e \<in> set es"
  shows "e \<in> set (queue (bw_overflow w'))"
proof -
  have "push es (bw_overflow w) = (True, bw_overflow w')"
    using push_overflow_frame(4) [OF assms(3)] assms(1) by (simp add: uses_sinks_def)
  then show ?thesis using ov.push_ok_member assms(2,4) by metis
qed

lemma handoff_core_lands:
  assumes "uses_sinks env" "conn_commits env table" "inv (bw_overflow w)"
    and "handoff_core env es w = Return (True, w')" "e \<in> set es"
  shows "landed table dead queue w' e"
  using assms(4)
proof (cases rule: handoff_core_cases)
  case (refused w2)
  then show ?thesis
    using push_overflow_lands [OF assms(1) _ refused(3) assms(5)] assms(3)
    by (simp add: landed_def same_sinks_def)
next
  case (inserted w2 w3)
  then show ?thesis
    using insertWithRetries_lands [OF assms(1,2) _ assms(5)]
    by (auto simp: landed_def same_sinks_def)
next
  case (failed w2 w3 w4)
  then have "inv (bw_overflow w4)"
    using insertWithRetries_frame(2) [OF failed(3)] assms(3) by (simp add: same_sinks_def)
  then show ?thesis
    using push_overflow_lands [OF assms(1) _ failed(6) assms(5)] by (simp add: landed_def)
qed

end

interpretation consumer_sinks:
  writer_sinks "Push io" "PopN io" overflow_queue overflow_inv "DlqPublish io' now" dlq_events
  for io io' :: io_env and now :: "nat \<Rightarrow> int"
  by unfold_locales

text \<open>
  The wiring of \<^verbatim>\<open>consumer/cmd/consumer/main.go\<close>: Redis overflow and Kafka dead-letter topic
  around a ClickHouse driver.
\<close>

definition consumer_env ::
  "io_env \<Rightarrow> io_env \<Rightarrow> (nat \<Rightarrow> int) \<Rightarrow> ('c \<Rightarrow> string option \<times> 'c) \<Rightarrow>
   (ch_row \<Rightarrow> 'c \<Rightarrow> string option \<times> 'c) \<Rightarrow> ('c \<Rightarrow> string option \<times> 'c) \<Rightarrow> uuid_lib \<Rightarrow>
   (redis, dlq_topic, 'c) writer_env" where
  "consumer_env redis_io kafka_io clock prepare append_row send uuid =
     \<lparr>we_push = Push redis_io, we_popn = PopN redis_io, we_publish = DlqPublish kafka_io clock,
      we_prepare = prepare, we_append = append_row, we_send = send, we_uuid = uuid,
      we_clock = clock\<rparr>"

section \<open>Completion signals\<close>

text \<open>
  \<open>sig_inv w pend\<close>: the signal of every identifier counts exactly its pending events
  \<open>pend i\<close>, no signal is kept for an identifier without pending events, and a closed
  identifier has none.
\<close>

definition sig_inv :: "('o, 'd, 'c) batch_writer \<Rightarrow> (u64 \<Rightarrow> nat) \<Rightarrow> bool" where
  "sig_inv w pend \<longleftrightarrow>
     (\<forall>i. bw_signals w i = (if pend i = 0 then None else Some (int (pend i)))) \<and>
     (\<forall>i \<in> set (bw_done w). pend i = 0)"

lemma finish_frame [simp]:
  "bw_buf (finishHandoffSignal i n w) = bw_buf w"
  "bw_next (finishHandoffSignal i n w) = bw_next w"
  "bw_cfg (finishHandoffSignal i n w) = bw_cfg w"
  "bw_flight (finishHandoffSignal i n w) = bw_flight w"
  "set (bw_done (finishHandoffSignal i n w)) \<subseteq> insert i (set (bw_done w))"
  by (auto simp: finishHandoffSignal_def Let_def split: option.splits)

lemma finish_sig_inv:
  assumes "sig_inv w pend" "0 < pend j"
  shows "sig_inv (finishHandoffSignal j 1 w) (pend(j := pend j - 1))"
  using assms by (auto simp: sig_inv_def finishHandoffSignal_def Let_def of_nat_diff)

lemma finish_all:
  assumes "sig_inv w pend" "\<And>i. count_list ids i \<le> pend i"
  shows "sig_inv (foldl (\<lambda>w i. finishHandoffSignal i 1 w) w ids) (\<lambda>i. pend i - count_list ids i) \<and>
    set (bw_done (foldl (\<lambda>w i. finishHandoffSignal i 1 w) w ids)) \<subseteq> set ids \<union> set (bw_done w)"
  using assms
proof (induction ids arbitrary: w pend)
  case (Cons j ids)
  let ?w1 = "finishHandoffSignal j 1 w" and ?p1 = "pend(j := pend j - 1)"
  have "0 < pend j" using Cons.prems(2) [of j] by simp
  then have inv: "sig_inv ?w1 ?p1" by (rule finish_sig_inv [OF Cons.prems(1)])
  have le: "count_list ids i \<le> ?p1 i" for i
    using Cons.prems(2) [of i] by (auto split: if_splits)
  have eq: "(\<lambda>i. pend i - count_list (j # ids) i) = (\<lambda>i. ?p1 i - count_list ids i)"
    by auto
  show ?case
    using Cons.IH [OF inv le] finish_frame(5) [of j 1 w] unfolding eq
    by (simp del: fun_upd_apply finish_frame(5)) blast
qed simp

lemma finish_all_frame:
  "bw_buf (foldl (\<lambda>w i. finishHandoffSignal i 1 w) w ids) = bw_buf w \<and>
   bw_next (foldl (\<lambda>w i. finishHandoffSignal i 1 w) w ids) = bw_next w \<and>
   bw_flight (foldl (\<lambda>w i. finishHandoffSignal i 1 w) w ids) = bw_flight w"
  by (induction ids arbitrary: w) auto

section \<open>The writer as a concurrent system\<close>

text \<open>
  Accepts, flushes and drains run in different goroutines.  A flush takes the buffer in one
  step and finishes in a later one, so accepts and drains can fall in between.  The fields
  beside the writer are history: the batch the running flush has taken, the events whose
  hand-off failed, the events handed off, and all events accepted.
\<close>

record ('o, 'd, 'c) wsys =
  ws_w :: "('o, 'd, 'c) batch_writer"
  ws_taken :: "queued_event list"
  ws_stuck :: "queued_event list"
  ws_handed :: "queued_event list"
  ws_accepted :: "queued_event list"

inductive wsys_step ::
  "('o, 'd, 'c) writer_env \<Rightarrow> ('o, 'd, 'c) wsys \<Rightarrow> ('o, 'd, 'c) wsys \<Rightarrow> bool"
  for env :: "('o, 'd, 'c) writer_env" where
  accept: "Accept events (ws_w s) = (Some (i, fl), w') \<Longrightarrow> unat (bw_next (ws_w s)) + 1 < 2 ^ 64 \<Longrightarrow>
     wsys_step env s (s\<lparr>ws_w := w',
       ws_accepted := ws_accepted s @ map (\<lambda>e. \<lparr>qe_event = e, qe_record_id = i\<rparr>) events\<rparr>)"
| take_batch: "flush_begin (ws_w s) = (Some q, w') \<Longrightarrow>
     wsys_step env s (s\<lparr>ws_w := w', ws_taken := q\<rparr>)"
| finish_ok: "ws_taken s \<noteq> [] \<Longrightarrow>
     handoff_core env (map qe_event (ws_taken s)) (ws_w s) = Return (True, w1) \<Longrightarrow>
     handoffQueued env (ws_taken s) (ws_w s) = Return w2 \<Longrightarrow>
     wsys_step env s (s\<lparr>ws_w := w2\<lparr>bw_flight := False\<rparr>, ws_taken := [],
       ws_handed := ws_handed s @ ws_taken s\<rparr>)"
| finish_stuck: "ws_taken s \<noteq> [] \<Longrightarrow>
     handoff_core env (map qe_event (ws_taken s)) (ws_w s) = Return (False, w1) \<Longrightarrow>
     handoffQueued env (ws_taken s) (ws_w s) = Return w2 \<Longrightarrow>
     wsys_step env s (s\<lparr>ws_w := w2\<lparr>bw_flight := False\<rparr>, ws_taken := [],
       ws_stuck := ws_stuck s @ ws_taken s\<rparr>)"
| drain: "drainOverflow env fuel (ws_w s) = Return (Some w') \<Longrightarrow>
     wsys_step env s (s\<lparr>ws_w := w'\<rparr>)"

definition wsys_init :: "('o, 'd, 'c) batch_writer \<Rightarrow> ('o, 'd, 'c) wsys" where
  "wsys_init w = \<lparr>ws_w = w, ws_taken = [], ws_stuck = [], ws_handed = [], ws_accepted = []\<rparr>"

inductive wsys_reachable ::
  "('o, 'd, 'c) writer_env \<Rightarrow> ('o, 'd, 'c) batch_writer \<Rightarrow> ('o, 'd, 'c) wsys \<Rightarrow> bool"
  for env :: "('o, 'd, 'c) writer_env" and w0 :: "('o, 'd, 'c) batch_writer" where
  start: "wsys_reachable env w0 (wsys_init w0)"
| step: "wsys_reachable env w0 s \<Longrightarrow> wsys_step env s t \<Longrightarrow> wsys_reachable env w0 t"

text \<open>The events of an identifier that are neither handed off nor unknown to the writer.\<close>

definition pending :: "('o, 'd, 'c) wsys \<Rightarrow> u64 \<Rightarrow> nat" where
  "pending s i =
     count_list (map qe_record_id (bw_buf (ws_w s) @ ws_taken s @ ws_stuck s)) i"

definition wsys_inv :: "('o, 'd, 'c) wsys \<Rightarrow> bool" where
  "wsys_inv s \<longleftrightarrow>
     mset (ws_accepted s) =
       mset (bw_buf (ws_w s)) + mset (ws_taken s) + mset (ws_stuck s) + mset (ws_handed s) \<and>
     sig_inv (ws_w s) (pending s) \<and>
     (\<forall>q \<in> set (ws_accepted s). qe_record_id q < bw_next (ws_w s)) \<and>
     (\<forall>i \<in> set (bw_done (ws_w s)). i < bw_next (ws_w s)) \<and>
     (ws_taken s \<noteq> [] \<longrightarrow> bw_flight (ws_w s))"

section \<open>Preservation of the invariant, step by step\<close>

lemma word_less_Suc:
  fixes i :: u64
  assumes "unat i + 1 < 2 ^ 64"
  shows "j < i + 1 \<longleftrightarrow> j \<le> i"
proof -
  have "unat (i + 1) = unat i + 1"
    using assms by (simp add: unat_word_ariths)
  then show ?thesis by (simp add: word_less_nat_alt word_le_nat_alt less_Suc_eq_le)
qed

lemma pending_pos_accepted:
  assumes "wsys_inv s" "0 < pending s i"
  shows "\<exists>q \<in> set (ws_accepted s). qe_record_id q = i"
proof -
  have "i \<in> qe_record_id ` set (bw_buf (ws_w s) @ ws_taken s @ ws_stuck s)"
    using assms(2) count_notin unfolding pending_def
    by (metis less_numeral_extra(3) list.set_map)
  moreover have "set (bw_buf (ws_w s) @ ws_taken s @ ws_stuck s) \<subseteq> set (ws_accepted s)"
    using assms(1) unfolding wsys_inv_def
    by (metis le_sup_iff set_append set_mset_mset set_mset_union Un_upper1 sup_assoc)
  ultimately show ?thesis by auto
qed

lemma pending_fresh: "wsys_inv s \<Longrightarrow> pending s (bw_next (ws_w s)) = 0"
  using pending_pos_accepted [of s "bw_next (ws_w s)"] unfolding wsys_inv_def by fastforce

lemma wsys_inv_accept:
  assumes inv: "wsys_inv s" and acc: "Accept events (ws_w s) = (Some (i, fl), w')"
    and room: "unat (bw_next (ws_w s)) + 1 < 2 ^ 64"
  shows "wsys_inv (s\<lparr>ws_w := w',
    ws_accepted := ws_accepted s @ map (\<lambda>e. \<lparr>qe_event = e, qe_record_id = i\<rparr>) events\<rparr>)"
proof -
  let ?new = "map (\<lambda>e. \<lparr>qe_event = e, qe_record_id = i\<rparr>) events"
  let ?t = "s\<lparr>ws_w := w', ws_accepted := ws_accepted s @ ?new\<rparr>"
  have ne: "events \<noteq> []" and i: "i = bw_next (ws_w s)"
    and w': "bw_buf w' = bw_buf (ws_w s) @ ?new" "bw_next w' = i + 1" "bw_done w' = bw_done (ws_w s)"
      "bw_signals w' = (bw_signals (ws_w s))(i \<mapsto> int (length events))" "bw_flight w' = bw_flight (ws_w s)"
    using acc by (auto simp: Accept_def Let_def split: if_splits)
  have cl: "count_list (map qe_record_id ?new) j = (if j = i then length events else 0)" for j
    by (induction events) auto
  have pend: "pending ?t = (pending s)(i := length events)"
    using pending_fresh [OF inv] cl
    by (auto simp: pending_def w' i comp_def fun_eq_iff)
  have "i \<notin> set (bw_done (ws_w s))"
    using inv i unfolding wsys_inv_def by blast
  then have "sig_inv w' (pending ?t)"
    using inv ne unfolding wsys_inv_def sig_inv_def pend w' by auto
  then show ?thesis
    using inv word_less_Suc [OF room] i
    by (auto simp: wsys_inv_def w' less_imp_le)
qed

lemma wsys_inv_take:
  assumes "wsys_inv s" "flush_begin (ws_w s) = (Some q, w')"
  shows "wsys_inv (s\<lparr>ws_w := w', ws_taken := q\<rparr>)"
proof -
  have fl: "\<not> bw_flight (ws_w s)" and q: "q = bw_buf (ws_w s)"
    and w': "w' = (ws_w s)\<lparr>bw_flight := True, bw_buf := []\<rparr>"
    using assms(2) by (auto simp: flush_begin_def split: if_splits)
  then have "ws_taken s = []" using assms(1) by (auto simp: wsys_inv_def)
  moreover from this have "pending (s\<lparr>ws_w := w', ws_taken := q\<rparr>) = pending s"
    by (simp add: pending_def q w' fun_eq_iff)
  ultimately show ?thesis
    using assms(1) by (simp add: wsys_inv_def sig_inv_def q w')
qed

lemma handoffQueued_reached:
  assumes "handoff_core env (map qe_event q) w = Return (reached, w1)" "q \<noteq> []"
    and "handoffQueued env q w = Return w2"
  shows "w2 = (if reached then foldl (\<lambda>w i. finishHandoffSignal i 1 w) w1 (map qe_record_id q) else w1)"
  using assms by (auto simp: handoffQueued_def handoffEvents_def signalHandoffSignals_def)

lemma pending_split: "pending s i = pending (s\<lparr>ws_taken := []\<rparr>) i + count_list (map qe_record_id (ws_taken s)) i"
  by (simp add: pending_def)

lemma wsys_inv_finish_ok:
  assumes inv: "wsys_inv s" and ne: "ws_taken s \<noteq> []"
    and core: "handoff_core env (map qe_event (ws_taken s)) (ws_w s) = Return (True, w1)"
    and run: "handoffQueued env (ws_taken s) (ws_w s) = Return w2"
  shows "wsys_inv (s\<lparr>ws_w := w2\<lparr>bw_flight := False\<rparr>, ws_taken := [],
    ws_handed := ws_handed s @ ws_taken s\<rparr>)"
proof -
  let ?ids = "map qe_record_id (ws_taken s)"
  have book: "same_book (ws_w s) w1" by (rule handoff_core_frame [OF core])
  have w2: "w2 = foldl (\<lambda>w i. finishHandoffSignal i 1 w) w1 ?ids"
    using handoffQueued_reached [OF core ne run] by simp
  have "sig_inv w1 (pending s)"
    using inv book by (simp add: wsys_inv_def sig_inv_def same_book_def)
  then have sig: "sig_inv w2 (\<lambda>i. pending s i - count_list ?ids i)"
    and dn: "set (bw_done w2) \<subseteq> set ?ids \<union> set (bw_done w1)"
    unfolding w2 using finish_all [of w1 "pending s" ?ids] pending_split [of s] by simp_all
  have fr: "bw_buf w2 = bw_buf (ws_w s)" "bw_next w2 = bw_next (ws_w s)"
    unfolding w2 using finish_all_frame [of w1 ?ids] book by (simp_all add: same_book_def)
  have "pending (s\<lparr>ws_w := w2\<lparr>bw_flight := False\<rparr>, ws_taken := [],
      ws_handed := ws_handed s @ ws_taken s\<rparr>) = (\<lambda>i. pending s i - count_list ?ids i)"
    by (auto simp: pending_def fr)
  moreover have "set (ws_taken s) \<subseteq> set (ws_accepted s)"
    using inv unfolding wsys_inv_def by (metis set_mset_mset set_mset_union sup_ge1 sup_ge2 sup.coboundedI1)
  moreover from this have "i < bw_next w2" if "i \<in> set (bw_done w2)" for i
    using that inv dn book fr by (fastforce simp: wsys_inv_def same_book_def)
  ultimately show ?thesis
    using inv sig fr by (simp add: wsys_inv_def sig_inv_def)
qed

lemma wsys_inv_finish_stuck:
  assumes inv: "wsys_inv s" and ne: "ws_taken s \<noteq> []"
    and core: "handoff_core env (map qe_event (ws_taken s)) (ws_w s) = Return (False, w1)"
    and run: "handoffQueued env (ws_taken s) (ws_w s) = Return w2"
  shows "wsys_inv (s\<lparr>ws_w := w2\<lparr>bw_flight := False\<rparr>, ws_taken := [],
    ws_stuck := ws_stuck s @ ws_taken s\<rparr>)"
proof -
  have book: "same_book (ws_w s) w2"
    using handoff_core_frame [OF core] handoffQueued_reached [OF core ne run] by simp
  have "pending (s\<lparr>ws_w := w2\<lparr>bw_flight := False\<rparr>, ws_taken := [],
      ws_stuck := ws_stuck s @ ws_taken s\<rparr>) = pending s"
    using book by (auto simp: pending_def same_book_def)
  then show ?thesis
    using inv book by (auto simp: wsys_inv_def sig_inv_def same_book_def)
qed

lemma handoffEvents_drain_frame: "handoffEvents env es [] w = Return w' \<Longrightarrow> same_book w w'"
  by (auto simp: handoffEvents_def signalHandoffSignals_def go_bind_Return_iff same_book_def
      split: if_splits dest: handoff_core_frame)

lemma drain_loop_frame: "drain_loop env fuel w = Return (Some w') \<Longrightarrow> same_book w w'"
proof (induction fuel arbitrary: w)
  case (Suc fuel)
  obtain es ok ov where p: "we_popn env (DrainBatchSize (bw_cfg w)) (bw_overflow w) = ((es, ok), ov)"
    by (metis surj_pair)
  show ?case
  proof (cases "ok \<and> es \<noteq> []")
    case True
    then obtain w1 where h: "handoffEvents env es [] (w\<lparr>bw_overflow := ov\<rparr>) = Return w1"
      and d: "drain_loop env fuel w1 = Return (Some w')"
      using Suc.prems p by (auto simp: go_bind_Return_iff)
    have "same_book w (w\<lparr>bw_overflow := ov\<rparr>)" by (simp add: same_book_def)
    then show ?thesis
      using handoffEvents_drain_frame [OF h] Suc.IH [OF d] same_book_trans by blast
  next
    case False
    then show ?thesis using Suc.prems p by (auto simp: same_book_def split: bool.splits)
  qed
qed simp

lemma drainOverflow_frame: "drainOverflow env fuel w = Return (Some w') \<Longrightarrow> same_book w w'"
  by (auto simp: drainOverflow_def tick_def Let_def same_book_def split: prod.splits if_splits
      dest!: drain_loop_frame)

lemma wsys_inv_drain:
  assumes "wsys_inv s" "drainOverflow env fuel (ws_w s) = Return (Some w')"
  shows "wsys_inv (s\<lparr>ws_w := w'\<rparr>)"
proof -
  have "same_book (ws_w s) w'" by (rule drainOverflow_frame [OF assms(2)])
  moreover from this have "pending (s\<lparr>ws_w := w'\<rparr>) = pending s"
    by (simp add: pending_def same_book_def fun_eq_iff)
  ultimately show ?thesis
    using assms(1) by (auto simp: wsys_inv_def sig_inv_def same_book_def)
qed

lemma wsys_inv_step: "wsys_step env s t \<Longrightarrow> wsys_inv s \<Longrightarrow> wsys_inv t"
  by (induction rule: wsys_step.induct)
     (blast intro: wsys_inv_accept wsys_inv_take wsys_inv_finish_ok wsys_inv_finish_stuck
        wsys_inv_drain)+

lemma wsys_inv_init: "wsys_inv (wsys_init (NewBatchWriter cfg n t ov dlq conn))"
  by (simp add: wsys_inv_def wsys_init_def NewBatchWriter_def sig_inv_def pending_def)

lemma wsys_inv_reachable:
  "wsys_reachable env (NewBatchWriter cfg n t ov dlq conn) s \<Longrightarrow> wsys_inv s"
  by (induction rule: wsys_reachable.induct) (auto intro: wsys_inv_init wsys_inv_step)

lemma wsys_done_handed:
  assumes "wsys_inv s" "i \<in> set (bw_done (ws_w s))" "q \<in> set (ws_accepted s)" "qe_record_id q = i"
  shows "q \<in> set (ws_handed s)"
proof -
  have "pending s i = 0"
    using assms(1,2) by (simp add: wsys_inv_def sig_inv_def)
  then have "q \<notin> set (bw_buf (ws_w s) @ ws_taken s @ ws_stuck s)"
    using assms(4) by (auto simp: pending_def count_list_0_iff)
  moreover have "q \<in># mset (bw_buf (ws_w s)) + mset (ws_taken s) + mset (ws_stuck s) + mset (ws_handed s)"
    using assms(1,3) unfolding wsys_inv_def by (metis set_mset_mset)
  ultimately show ?thesis by auto
qed

end
