(* ===== verification/Drain.thy ===== *)
theory Drain
  imports Handoff
begin

text \<open>
  The drain loop of the writer on the wiring of the consumer: it empties the overflow buffer
  into ClickHouse and the dead-letter topic when one of them accepts everything, it does not end while neither ClickHouse nor the
  dead-letter topic accepts anything, and it drops what was popped when a pop fails half-way.
\<close>

section \<open>Redis without faults\<close>

lemma RPop_ok: "io (r_calls r) = IoOk \<Longrightarrow> fst (RPop io r) \<noteq> RErr"
  by (simp add: RPop_def Let_def)

lemma pop_loop_no_fault:
  assumes "\<forall>k. io k = IoOk" "overflow_inv r"
  shows "snd (fst (pop_loop io n acc r))"
  using assms(2)
proof (induction n arbitrary: acc r)
  case (Suc n)
  obtain res r' where rp: "RPop io r = (res, r')" by force
  then have "res \<noteq> RErr" using RPop_ok [of io r] assms(1) by simp
  then show ?case
    using RPop_cases [OF rp Suc.prems] Suc.IH rp by (cases res) auto
qed simp

lemma PopN_no_fault:
  fixes n :: int
  assumes "\<forall>k. io k = IoOk" "overflow_inv r" "0 < n"
  shows "\<exists>out r'. PopN io n r = ((out, True), r') \<and> overflow_inv r' \<and>
    overflow_queue r = out @ overflow_queue r' \<and> (out = [] \<longleftrightarrow> overflow_queue r = [])"
proof -
  obtain out ok r' where p: "PopN io n r = ((out, ok), r')" by (metis surj_pair)
  moreover have "ok"
    using pop_loop_no_fault [OF assms(1,2), of "nat n" "[]"] p
    by (auto simp: PopN_def split: if_splits prod.splits bool.splits)
  ultimately show ?thesis using PopN_result [OF assms(2) p] assms(3) by fastforce
qed

lemma Push_no_fault:
  assumes "\<forall>k. io k = IoOk" "overflow_inv r"
  obtains r' where "Push io es r = (True, r')" "overflow_inv r'"
    "overflow_queue r' = overflow_queue r @ es"
proof -
  obtain ok r' where p: "Push io es r = (ok, r')" by force
  moreover have "ok"
    using p by (auto simp: Push_def refreshDepth_def Depth_def Let_def assms(1) split: if_splits)
  ultimately show thesis
    using that list_overflow.push_ok [OF assms(2), of io es] list_overflow.push_inv [OF assms(2), of io es]
    by auto
qed

section \<open>Sinks that accept\<close>

text \<open>ClickHouse is healthy when none of its three calls fails.\<close>

definition healthy_conn :: "('o, 'd, 'c) writer_env \<Rightarrow> bool" where
  "healthy_conn env \<longleftrightarrow>
     (\<forall>c. fst (we_prepare env c) = None) \<and> (\<forall>r c. fst (we_append env r c) = None) \<and>
     (\<forall>c. fst (we_send env c) = None)"

text \<open>An event whose identifier makes a row: none, or one that \<^verbatim>\<open>uuid.Parse\<close> accepts.\<close>

definition usable_id :: "uuid_lib \<Rightarrow> inference_event \<Rightarrow> bool" where
  "usable_id lib e \<longleftrightarrow>
     str_or (ev_event_id e) [] = [] \<or> (case uuid_parse lib (str_or (ev_event_id e) []) of Inl _ \<Rightarrow> False | Inr _ \<Rightarrow> True)"

lemma RowsFromEvents_usable:
  "list_all (usable_id lib) es \<Longrightarrow> \<exists>rs n'. RowsFromEvents lib es n = (Inr rs, n')"
proof (induction es arbitrary: n)
  case (Cons e es)
  obtain r n' where "RowFromEvent lib e n = (Inr r, n')"
    using Cons.prems
    by (cases "str_or (ev_event_id e) [] = []"; cases "uuid_parse lib (str_or (ev_event_id e) [])")
      (auto simp: usable_id_def RowFromEvent_def Let_def)
  then show ?case using Cons.IH [of n'] Cons.prems by auto
qed simp

lemma append_rows_healthy: "healthy_conn env \<Longrightarrow> fst (append_rows env rows c) = None"
  by (induction rows arbitrary: c)
     (auto simp: healthy_conn_def split: prod.splits option.splits, metis fst_conv option.distinct(1))

lemma append_rows_keep:
  assumes "conn_commits env table"
  shows "set (table c) \<subseteq> set (table (snd (append_rows env rows c)))"
proof (induction rows arbitrary: c)
  case (Cons r rows)
  have "set (table c) \<subseteq> set (table (snd (we_append env r c)))"
    using assms by (simp add: conn_commits_def)
  then show ?case
    using Cons.IH [of "snd (we_append env r c)"] by (auto split: prod.splits option.splits)
qed simp

lemma batchInsert_healthy:
  assumes "healthy_conn env" "list_all (usable_id (we_uuid env)) es"
  obtains w' where "batchInsert env es w = (None, w')"
proof -
  obtain rows n where rows: "RowsFromEvents (we_uuid env) es (bw_uuids w) = (Inr rows, n)"
    using RowsFromEvents_usable [OF assms(2)] by blast
  obtain c1 where c1: "we_prepare env (bw_conn w) = (None, c1)"
    using assms(1) unfolding healthy_conn_def by (metis prod.collapse)
  obtain c2 where c2: "append_rows env rows c1 = (None, c2)"
    using append_rows_healthy [OF assms(1)] by (metis prod.collapse)
  obtain c3 where c3: "we_send env c2 = (None, c3)"
    using assms(1) unfolding healthy_conn_def by (metis prod.collapse)
  show thesis
    using that [of "w\<lparr>bw_uuids := n, bw_conn := c3\<rparr>"] rows c1 c2 c3 by (simp add: batchInsert_def)
qed

text \<open>Nothing is taken out of the table or of the dead-letter topic.\<close>

lemma batchInsert_keeps:
  assumes "conn_commits env table" "batchInsert env es w = (err, w')"
  shows "set (table (bw_conn w)) \<subseteq> set (table (bw_conn w'))"
proof -
  have prep: "set (table c) \<subseteq> set (table c1)" if "we_prepare env c = (e, c1)" for c c1 e
    using assms(1) that unfolding conn_commits_def by (metis snd_conv)
  have send: "set (table c) \<subseteq> set (table c1)" if "we_send env c = (e, c1)" for c c1 e
    using assms(1) that unfolding conn_commits_def by (metis snd_conv)
  have app: "set (table c) \<subseteq> set (table c1)" if "append_rows env rows c = (e, c1)" for c c1 e rows
    using append_rows_keep [OF assms(1), of c rows] that by simp
  show ?thesis
    using assms(2)
    by (auto simp: batchInsert_def split: prod.splits sum.splits option.splits dest!: prep send app) (meson subsetD)+
qed

lemma insert_attempts_keeps:
  assumes "conn_commits env table"
  shows "insert_attempts env n lastErr es w = (r, w') \<Longrightarrow> set (table (bw_conn w)) \<subseteq> set (table (bw_conn w'))"
proof (induction n arbitrary: lastErr w)
  case (Suc n)
  obtain r1 w1 where b: "batchInsert env es w = (r1, w1)" by force
  from batchInsert_keeps [OF assms b] Suc b show ?case by (cases r1) fastforce+
qed simp

lemma insertWithRetries_keeps:
  assumes "conn_commits env table" "we_publish env = DlqPublish kafka_io clock" "insertWithRetries env es w = Return (h, w')"
  shows "set (table (bw_conn w)) \<subseteq> set (table (bw_conn w'))" "set (dlq_events (bw_dlq w)) \<subseteq> set (dlq_events (bw_dlq w'))"
proof -
  obtain h1 lastErr w1 where
    i: "insert_attempts env (nat (InsertRetries (bw_cfg w))) None es w = ((h1, lastErr), w1)"
    by (metis surj_pair)
  have dead: "set (dlq_events d) \<subseteq> set (dlq_events d')" if "publish_each (DlqPublish kafka_io clock) es m k d = (ok, d')" for d d' m k ok
    using that dlq.publish_each_ok dlq.publish_each_err by (cases ok) fastforce+
  have "set (table (bw_conn w1)) \<subseteq> set (table (bw_conn w')) \<and> set (dlq_events (bw_dlq w1)) \<subseteq> set (dlq_events (bw_dlq w'))"
    using assms(2,3) i
    by (auto simp: insertWithRetries_def split: prod.splits bool.splits option.splits if_splits dest!: dead)
  then show "set (table (bw_conn w)) \<subseteq> set (table (bw_conn w'))" "set (dlq_events (bw_dlq w)) \<subseteq> set (dlq_events (bw_dlq w'))"
    using insert_attempts_keeps [OF assms(1) i] insert_attempts_frame [OF i] by auto
qed

text \<open>
  A batch the sinks accept: the dead-letter topic takes every record, or ClickHouse is healthy and
  the identifiers of the batch are usable.
\<close>

definition accepts :: "io_env \<Rightarrow> (redis, dlq_topic, 'c) writer_env \<Rightarrow> inference_event list \<Rightarrow> bool" where
  "accepts kafka_io env es \<longleftrightarrow>
     (\<forall>k. kafka_io k = IoOk) \<or> healthy_conn env \<and> list_all (usable_id (we_uuid env)) es"

lemma publish_each_accepted: "\<forall>k. kafka_io k = IoOk \<Longrightarrow> fst (publish_each (DlqPublish kafka_io clock) es m n d)"
  by (induction es arbitrary: d) (auto simp: DlqPublish_def Let_def split: prod.splits)

lemma insert_attempts_error: "insert_attempts env (Suc n) lastErr es w = ((False, r), w') \<Longrightarrow> r \<noteq> None"
proof (induction n arbitrary: lastErr w)
  case 0
  then show ?case by (auto split: prod.splits option.splits)
next
  case (Suc n)
  obtain r1 w1 where b: "batchInsert env es w = (r1, w1)" by force
  with Suc show ?case by (cases r1) auto
qed

lemma insertWithRetries_accepted:
  assumes "accepts kafka_io env es" "we_publish env = DlqPublish kafka_io clock" "0 < InsertRetries (bw_cfg w)"
  obtains w' where "insertWithRetries env es w = Return (True, w')"
    "healthy_conn env \<Longrightarrow> list_all (usable_id (we_uuid env)) es \<Longrightarrow> batchInsert env es w = (None, w')"
proof -
  obtain n where n: "nat (InsertRetries (bw_cfg w)) = Suc n"
    using assms(3) by (cases "nat (InsertRetries (bw_cfg w))") auto
  show thesis
  proof (cases "healthy_conn env \<and> list_all (usable_id (we_uuid env)) es")
    case True
    then obtain w' where "batchInsert env es w = (None, w')" using batchInsert_healthy by blast
    then show thesis using that [of w'] by (simp add: insertWithRetries_def n)
  next
    case False
    then have kafka: "\<forall>k. kafka_io k = IoOk" using assms(1) by (auto simp: accepts_def)
    obtain h r w1 where i: "insert_attempts env (Suc n) None es w = ((h, r), w1)" by (metis surj_pair)
    have "\<exists>w'. insertWithRetries env es w = Return (True, w')"
    proof (cases h)
      case True
      then show ?thesis using i by (simp add: insertWithRetries_def n)
    next
      case False
      then obtain err where "r = Some err" using insert_attempts_error [of env n None es w r w1] i by auto
      then show ?thesis
        using publish_each_accepted [OF kafka] i False assms(2)
        by (auto simp: insertWithRetries_def n split: prod.splits simp del: insert_attempts.simps) (metis fst_conv)
    qed
    then show thesis using that False by blast
  qed
qed

text \<open>With a closed breaker and at least one attempt, an accepted hand-off ends in the table or the topic.\<close>

lemma handoff_accepted:
  assumes env: "env = consumer_env redis_io kafka_io clock prepare append_row send uuid"
    and "accepts kafka_io env es" "conn_commits env table" "0 < InsertRetries (bw_cfg w)"
    and "cb_state (bw_cb w) = BreakerClosed" "es \<noteq> []"
  obtains w' where "handoffEvents env es [] w = Return w'" "cb_state (bw_cb w') = BreakerClosed"
    "bw_cfg w' = bw_cfg w" "bw_overflow w' = bw_overflow w"
    "set (table (bw_conn w)) \<subseteq> set (table (bw_conn w'))" "set (dlq_events (bw_dlq w)) \<subseteq> set (dlq_events (bw_dlq w'))"
    "\<forall>e \<in> set es. (\<exists>r \<in> set (table (bw_conn w')). row_of e r) \<or> e \<in> set (dlq_events (bw_dlq w'))"
    "healthy_conn env \<Longrightarrow> list_all (usable_id (we_uuid env)) es \<Longrightarrow> \<forall>e \<in> set es. \<exists>r \<in> set (table (bw_conn w')). row_of e r"
proof -
  have pub: "we_publish env = DlqPublish kafka_io clock" by (simp add: env consumer_env_def)
  have sinks: "consumer_sinks.uses_sinks redis_io kafka_io clock env"
    by (simp add: env consumer_sinks.uses_sinks_def consumer_env_def)
  define w2 where "w2 = w\<lparr>bw_ticks := Suc (bw_ticks w)\<rparr>"
  have pos: "0 < InsertRetries (bw_cfg w2)" using assms(4) by (simp add: w2_def)
  obtain w3 where ins: "insertWithRetries env es w2 = Return (True, w3)"
    and rows: "healthy_conn env \<Longrightarrow> list_all (usable_id (we_uuid env)) es \<Longrightarrow> batchInsert env es w2 = (None, w3)"
    by (rule insertWithRetries_accepted [OF assms(2) pub pos]) blast
  let ?w' = "handoff_handled env es w3"
  have run: "handoffEvents env es [] w = Return ?w'"
    using assms(5,6) ins
    by (simp add: handoffEvents_def handoff_core_def tick_def AllowInsert_def maybeHalfOpen_def
        signalHandoffSignals_def Let_def w2_def)
  have fr: "same_sinks w3 ?w'" "same_book w3 ?w'" by (rule handoff_handled_frame)+
  have "cb_state (bw_cb ?w') = BreakerClosed"
    by (simp add: handoff_handled_def publish_breaker_state_def tick_def State_def RecordSuccess_def
        maybeHalfOpen_def Let_def)
  moreover have "bw_cfg ?w' = bw_cfg w" "bw_overflow ?w' = bw_overflow w"
    using fr insertWithRetries_frame [OF ins] by (simp_all add: same_sinks_def same_book_def w2_def)
  moreover have "set (table (bw_conn w)) \<subseteq> set (table (bw_conn ?w'))" "set (dlq_events (bw_dlq w)) \<subseteq> set (dlq_events (bw_dlq ?w'))"
    using insertWithRetries_keeps [OF assms(3) pub ins] fr by (simp_all add: same_sinks_def w2_def)
  moreover have "\<forall>e \<in> set es. (\<exists>r \<in> set (table (bw_conn ?w')). row_of e r) \<or> e \<in> set (dlq_events (bw_dlq ?w'))"
    using consumer_sinks.insertWithRetries_lands [OF sinks assms(3) ins] fr by (simp add: same_sinks_def)
  moreover have "\<forall>e \<in> set es. \<exists>r \<in> set (table (bw_conn ?w')). row_of e r"
    if "healthy_conn env" "list_all (usable_id (we_uuid env)) es"
    using batchInsert_commits [OF assms(3) rows [OF that]] fr by (simp add: same_sinks_def)
  ultimately show thesis using that run by blast
qed

text \<open>What the loop has to achieve for the events of the overflow queue.\<close>

definition drained ::
  "(redis, dlq_topic, 'c) writer_env \<Rightarrow> ('c \<Rightarrow> ch_row list) \<Rightarrow> inference_event list \<Rightarrow>
   (redis, dlq_topic, 'c) batch_writer \<Rightarrow> bool" where
  "drained env table es w \<longleftrightarrow>
     (\<forall>e \<in> set es. (\<exists>r \<in> set (table (bw_conn w)). row_of e r) \<or> e \<in> set (dlq_events (bw_dlq w))) \<and>
     (healthy_conn env \<and> list_all (usable_id (we_uuid env)) es \<longrightarrow>
        (\<forall>e \<in> set es. \<exists>r \<in> set (table (bw_conn w)). row_of e r))"

lemma drained_later:
  assumes "drained env table es w" "set (table (bw_conn w)) \<subseteq> set (table (bw_conn w'))"
    "set (dlq_events (bw_dlq w)) \<subseteq> set (dlq_events (bw_dlq w'))"
  shows "drained env table es w'"
  using assms unfolding drained_def by (meson subset_iff)

lemma drained_append: "drained env table es w \<Longrightarrow> drained env table fs w \<Longrightarrow> drained env table (es @ fs) w"
  by (auto simp: drained_def)

lemma drain_loop_accepted:
  assumes env: "env = consumer_env redis_io kafka_io clock prepare append_row send uuid"
    and "conn_commits env table" "\<forall>k. redis_io k = IoOk"
  shows "accepts kafka_io env (overflow_queue (bw_overflow w)) \<Longrightarrow>
    overflow_inv (bw_overflow w) \<Longrightarrow> cb_state (bw_cb w) = BreakerClosed \<Longrightarrow>
    0 < InsertRetries (bw_cfg w) \<Longrightarrow> 0 < DrainBatchSize (bw_cfg w) \<Longrightarrow>
    length (overflow_queue (bw_overflow w)) < fuel \<Longrightarrow>
    \<exists>w'. drain_loop env fuel w = Return (Some w') \<and> overflow_queue (bw_overflow w') = [] \<and>
      set (table (bw_conn w)) \<subseteq> set (table (bw_conn w')) \<and> set (dlq_events (bw_dlq w)) \<subseteq> set (dlq_events (bw_dlq w')) \<and>
      drained env table (overflow_queue (bw_overflow w)) w'"
proof (induction fuel arbitrary: w)
  case (Suc fuel)
  have popn: "we_popn env = PopN redis_io" by (simp add: env consumer_env_def)
  obtain out ov where pop: "PopN redis_io (DrainBatchSize (bw_cfg w)) (bw_overflow w) = ((out, True), ov)"
    and ov: "overflow_inv ov" "overflow_queue (bw_overflow w) = out @ overflow_queue ov"
    and nil: "out = [] \<longleftrightarrow> overflow_queue (bw_overflow w) = []"
    using PopN_no_fault [OF assms(3) Suc.prems(2,5)] by blast
  show ?case
  proof (cases "out = []")
    case True
    then have empty: "overflow_queue (bw_overflow w) = []" using nil by blast
    have "drain_loop env (Suc fuel) w = Return (Some (w\<lparr>bw_overflow := ov\<rparr>))"
      using pop True popn by simp
    then show ?thesis using empty ov(2) by (auto simp: drained_def)
  next
    case False
    let ?w = "w\<lparr>bw_overflow := ov\<rparr>"
    have acc: "accepts kafka_io env out" "accepts kafka_io env (overflow_queue ov)"
      using Suc.prems(1) ov(2) by (auto simp: accepts_def)
    obtain w1 where h: "handoffEvents env out [] ?w = Return w1" "cb_state (bw_cb w1) = BreakerClosed"
      "bw_cfg w1 = bw_cfg w" "bw_overflow w1 = ov"
      "set (table (bw_conn w)) \<subseteq> set (table (bw_conn w1))" "set (dlq_events (bw_dlq w)) \<subseteq> set (dlq_events (bw_dlq w1))"
      "drained env table out w1"
      by (rule handoff_accepted [OF env acc(1) assms(2), of ?w]) (use Suc.prems False in \<open>auto simp: drained_def\<close>)
    have "length (overflow_queue ov) < fuel"
      using Suc.prems(6) ov(2) False by (cases out) auto
    then obtain w' where w': "drain_loop env fuel w1 = Return (Some w')"
      "overflow_queue (bw_overflow w') = []" "set (table (bw_conn w1)) \<subseteq> set (table (bw_conn w'))"
      "set (dlq_events (bw_dlq w1)) \<subseteq> set (dlq_events (bw_dlq w'))" "drained env table (overflow_queue ov) w'"
      using Suc.IH [of w1] Suc.prems(4,5) h ov(1) acc(2) by auto
    have "drain_loop env (Suc fuel) w = Return (Some w')"
      using pop h(1) w'(1) popn False by simp
    moreover have "drained env table (overflow_queue (bw_overflow w)) w'"
      unfolding ov(2) by (rule drained_append [OF drained_later [OF h(7) w'(3,4)] w'(5)])
    ultimately show ?thesis using w' h(5,6) by blast
  qed
qed simp

section \<open>Neither ClickHouse nor the dead-letter topic available\<close>

lemma batchInsert_down:
  assumes "\<And>c. fst (we_prepare env c) \<noteq> None"
  shows "\<exists>err w'. batchInsert env es w = (Some err, w')"
proof -
  obtain err c1 where "we_prepare env (bw_conn w) = (Some err, c1)"
    using assms [of "bw_conn w"] by (cases "we_prepare env (bw_conn w)") auto
  then show ?thesis by (auto simp: batchInsert_def split: prod.splits sum.splits)
qed

lemma insert_attempts_down:
  assumes "\<And>c. fst (we_prepare env c) \<noteq> None"
  shows "\<exists>err w'. insert_attempts env (Suc n) lastErr es w = ((False, Some err), w')"
proof (induction n arbitrary: lastErr w)
  case 0
  then show ?case using batchInsert_down [OF assms, of es w] by auto
next
  case (Suc n)
  obtain err w1 where "batchInsert env es w = (Some err, w1)"
    using batchInsert_down [OF assms] by blast
  then show ?case using Suc.IH [of "Some err" w1] by simp
qed

lemma insertWithRetries_down:
  assumes "\<And>c. fst (we_prepare env c) \<noteq> None" "\<And>e m k d. \<not> fst (we_publish env e m k d)"
    and "0 < InsertRetries (bw_cfg w)" "es \<noteq> []"
  shows "\<exists>w'. insertWithRetries env es w = Return (False, w')"
proof -
  obtain n where n: "nat (InsertRetries (bw_cfg w)) = Suc n"
    using assms(3) by (cases "nat (InsertRetries (bw_cfg w))") auto
  obtain err w1 where i: "insert_attempts env (Suc n) None es w = ((False, Some err), w1)"
    using insert_attempts_down [OF assms(1)] by blast
  obtain e es' where es: "es = e # es'" using assms(4) by (cases es) auto
  obtain ok d where p: "publish_each (we_publish env) es err (InsertRetries (bw_cfg w)) (bw_dlq w1) = (ok, d)"
    by force
  moreover have "\<not> ok"
    using assms(2) [of e err "InsertRetries (bw_cfg w)" "bw_dlq w1"] p
    by (auto simp: es split: prod.splits bool.splits)
  ultimately show ?thesis
    by (simp add: insertWithRetries_def n i del: insert_attempts.simps)
qed

text \<open>The events of a hand-off come back to the overflow buffer.\<close>

lemma handoff_down:
  assumes "\<And>c. fst (we_prepare env c) \<noteq> None" "\<And>e m k d. \<not> fst (we_publish env e m k d)"
    and "we_push env = Push io" "\<forall>k. io k = IoOk" "overflow_inv (bw_overflow w)"
    and "0 < InsertRetries (bw_cfg w)" "es \<noteq> []"
  obtains w' where "handoffEvents env es [] w = Return w'" "overflow_inv (bw_overflow w')"
    "overflow_queue (bw_overflow w') = overflow_queue (bw_overflow w) @ es" "bw_cfg w' = bw_cfg w"
proof -
  define w2 where "w2 = w\<lparr>bw_ticks := Suc (bw_ticks w),
    bw_cb := snd (AllowInsert (we_clock env (bw_ticks w)) (bw_cb w))\<rparr>"
  obtain w3 where ins: "insertWithRetries env es w2 = Return (False, w3)"
    using insertWithRetries_down [OF assms(1,2), of w2 es] assms(6,7) by (auto simp: w2_def)
  obtain w4 where w4: "same_book w w4" "bw_overflow w4 = bw_overflow w"
    "handoff_core env es w = Return (push_overflow env es w4)"
  proof (cases "fst (AllowInsert (we_clock env (bw_ticks w)) (bw_cb w))")
    case True
    obtain w4 where "same_book w3 w4" "same_sinks w3 w4"
      "handoff_failed env es w3 = push_overflow env es w4"
      by (rule handoff_failed_push)
    moreover have "same_book w2 w3" "bw_overflow w3 = bw_overflow w2"
      by (rule insertWithRetries_frame [OF ins])+
    ultimately show thesis
      using that [of w4] True ins
      by (simp add: handoff_core_eq w2_def same_book_def same_sinks_def)
  next
    case False
    then show thesis
      using that [of "publish_breaker_state env w2"] publish_breaker_state_frame [of w2 env]
      by (simp add: handoff_core_eq w2_def same_book_def same_sinks_def)
  qed
  obtain ov where p: "Push io es (bw_overflow w) = (True, ov)" "overflow_inv ov"
    "overflow_queue ov = overflow_queue (bw_overflow w) @ es"
    by (rule Push_no_fault [OF assms(4,5)])
  then have "handoffEvents env es [] w = Return (w4\<lparr>bw_overflow := ov\<rparr>)"
    using w4 assms(3,7)
    by (simp add: handoffEvents_def push_overflow_def signalHandoffSignals_def)
  then show thesis using that p w4 by (simp add: same_book_def)
qed

lemma drain_loop_down:
  assumes "\<And>c. fst (we_prepare env c) \<noteq> None" "\<And>e m k d. \<not> fst (we_publish env e m k d)"
    and "we_push env = Push io" "we_popn env = PopN io" "\<forall>k. io k = IoOk"
  shows "overflow_inv (bw_overflow w) \<Longrightarrow> overflow_queue (bw_overflow w) \<noteq> [] \<Longrightarrow>
    0 < InsertRetries (bw_cfg w) \<Longrightarrow> 0 < DrainBatchSize (bw_cfg w) \<Longrightarrow>
    drain_loop env fuel w = Return None"
proof (induction fuel arbitrary: w)
  case (Suc fuel)
  obtain out ov where pop: "PopN io (DrainBatchSize (bw_cfg w)) (bw_overflow w) = ((out, True), ov)"
    and ov: "overflow_inv ov" and ne: "out \<noteq> []"
    using PopN_no_fault [OF assms(5) Suc.prems(1,4)] Suc.prems(2) by blast
  obtain w1 where "handoffEvents env out [] (w\<lparr>bw_overflow := ov\<rparr>) = Return w1"
    "overflow_inv (bw_overflow w1)" "overflow_queue (bw_overflow w1) = overflow_queue ov @ out"
    "bw_cfg w1 = bw_cfg w"
    using handoff_down [OF assms(1,2,3,5), of "w\<lparr>bw_overflow := ov\<rparr>" out] ov ne Suc.prems by auto
  then show ?case using pop ne Suc.IH [of w1] Suc.prems assms(4) by simp
qed simp

section \<open>Properties\<close>

text \<open>A concrete ClickHouse driver for the witnesses: a pending batch and the table.\<close>

definition demo_uuid :: uuid_lib where
  "demo_uuid = \<lparr>uuid_parse = (\<lambda>s. if length s = 36 then Inr s else Inl ''invalid UUID length''), uuid_new = (\<lambda>n. ''u'')\<rparr>"

definition demo_env :: "io_env \<Rightarrow> io_env \<Rightarrow> (redis, dlq_topic, ch_row list \<times> ch_row list) writer_env" where
  "demo_env redis_io kafka_io = consumer_env redis_io kafka_io int
     (\<lambda>(b, t). (None, ([], t))) (\<lambda>r (b, t). (None, (b @ [r], t))) (\<lambda>(b, t). (None, ([], t @ b)))
     demo_uuid"

definition demo_writer :: "'c \<Rightarrow> (redis, dlq_topic, 'c) batch_writer" where
  "demo_writer c = NewBatchWriter \<lparr>BatchSize = 10, InsertRetries = 3, DrainBatchSize = 5\<rparr> 5 30
     redis_empty \<lparr>dt_records = [], dt_calls = 0, dt_counter = 0\<rparr> c"

lemma demo_append_rows: "append_rows (demo_env ri ki) rows (b, t) = (None, (b @ rows, t))"
  by (induction rows arbitrary: b) (auto simp: demo_env_def consumer_env_def)

lemma demo_commits: "conn_commits (demo_env ri ki) snd"
  unfolding conn_commits_def
  by (auto simp: demo_append_rows split: prod.splits) (auto simp: demo_env_def consumer_env_def)

lemma demo_healthy: "healthy_conn (demo_env ri ki)"
  by (simp add: healthy_conn_def demo_env_def consumer_env_def demo_uuid_def split: prod.splits)

lemma redis_empty_views: "overflow_inv redis_empty" "overflow_queue redis_empty = []"
  by (simp_all add: redis_empty_def overflow_inv_def overflow_queue_def)

lemmas demo_defs = demo_env_def demo_writer_def consumer_env_def NewBatchWriter_def demo_uuid_def

lemma demo_core:
  assumes "bw_cb w = NewCircuitBreaker 5 30" "InsertRetries (bw_cfg w) = 3"
  shows "\<exists>w'. handoff_core (demo_env ri ki) [zero_event] w = Return (True, w')"
  using assms
  by (simp add: handoff_core_eq demo_env_def consumer_env_def demo_uuid_def NewCircuitBreaker_def
      AllowInsert_def maybeHalfOpen_def insertWithRetries_def batchInsert_def RowFromEvent_def
      zero_event_def str_or_def Let_def eval_nat_numeral split: prod.splits)

text \<open>
  C2. A hand-off that reaches its completion signals has lost no event, whatever Redis, Kafka
  and ClickHouse did: each event of the batch is a row of the ClickHouse table, a record of the
  dead-letter topic or an element of the overflow queue.
\<close>

theorem handoff_durable:
  assumes "conn_commits env table"
    and "env = consumer_env redis_io kafka_io clock prepare append_row send uuid"
    and "overflow_inv (bw_overflow w)"
    and "handoff_core env events w = Return (True, w')"
  shows "\<forall>e \<in> set events. landed table dlq_events overflow_queue w' e"
proof -
  have "consumer_sinks.uses_sinks redis_io kafka_io clock env"
    by (simp add: assms(2) consumer_sinks.uses_sinks_def consumer_env_def)
  then show ?thesis
    using consumer_sinks.handoff_core_lands assms(1,3,4) by blast
qed

theorem handoff_durable_witness:
  "landed snd dlq_events overflow_queue
     (snd (case handoff_core (demo_env (\<lambda>_. IoOk) (\<lambda>_. IoOk)) [zero_event] (demo_writer ([], [])) of
        Return x \<Rightarrow> x)) zero_event"
proof -
  let ?env = "demo_env (\<lambda>_. IoOk) (\<lambda>_. IoOk)" and ?w = "demo_writer ([], [])"
  have inv: "overflow_inv (bw_overflow ?w)"
    by (simp add: demo_defs redis_empty_views)
  obtain w' where w': "handoff_core ?env [zero_event] ?w = Return (True, w')"
    using demo_core [of ?w] by (auto simp: demo_writer_def NewBatchWriter_def)
  show ?thesis
    using handoff_durable [OF demo_commits demo_env_def inv w'] w' by simp
qed

text \<open>
  C3. A caller of \<open>Accept\<close> is released only after all its events were handed off: in every
  state reachable by accepts, flushes and drains in any order, if the signal of an identifier
  is closed then every event accepted under that identifier is among the events of completed
  hand-offs, none is still buffered, in a running flush, or stuck after a failed hand-off.
\<close>

theorem accept_released_after_handoff:
  assumes "wsys_reachable env (NewBatchWriter cfg failures timeout ov dlq conn) s"
    and "i \<in> set (bw_done (ws_w s))"
  shows "{q \<in> set (ws_accepted s). qe_record_id q = i} \<subseteq> set (ws_handed s) \<and>
         pending s i = 0 \<and> bw_signals (ws_w s) i = None"
proof -
  have inv: "wsys_inv s" by (rule wsys_inv_reachable [OF assms(1)])
  then have "sig_inv (ws_w s) (pending s)" by (simp add: wsys_inv_def)
  then have "pending s i = 0" "bw_signals (ws_w s) i = None"
    using assms(2) unfolding sig_inv_def by auto
  then show ?thesis using wsys_done_handed [OF inv assms(2)] by auto
qed

theorem accept_released_after_handoff_witness:
  "\<exists>s. wsys_reachable (demo_env (\<lambda>_. IoOk) (\<lambda>_. IoOk)) (demo_writer ([], [])) s \<and>
     0 \<in> set (bw_done (ws_w s)) \<and> ws_accepted s = [\<lparr>qe_event = zero_event, qe_record_id = 0\<rparr>] \<and>
     \<lparr>qe_event = zero_event, qe_record_id = 0\<rparr> \<in> set (ws_handed s)"
proof -
  let ?env = "demo_env (\<lambda>_. IoOk) (\<lambda>_. IoOk)" and ?w0 = "demo_writer ([] :: ch_row list, [] :: ch_row list)"
  let ?q = "\<lparr>qe_event = zero_event, qe_record_id = 0\<rparr>"
  define w1 where "w1 = ?w0\<lparr>bw_next := 1, bw_signals := [0 \<mapsto> 1], bw_buf := [?q]\<rparr>"
  define w2 where "w2 = w1\<lparr>bw_flight := True, bw_buf := []\<rparr>"
  define s1 where "s1 = (wsys_init ?w0)\<lparr>ws_w := w1, ws_accepted := [?q]\<rparr>"
  define s2 where "s2 = s1\<lparr>ws_w := w2, ws_taken := [?q]\<rparr>"
  have "Accept [zero_event] ?w0 = (Some (0, False), w1)"
    by (simp add: Accept_def w1_def demo_writer_def NewBatchWriter_def)
  then have "wsys_step ?env (wsys_init ?w0) s1"
    using wsys_step.accept [of "[zero_event]" "wsys_init ?w0" 0 False w1 ?env]
    by (simp add: wsys_init_def s1_def demo_writer_def NewBatchWriter_def)
  moreover have "wsys_step ?env s1 s2"
    using wsys_step.take_batch [of s1 "[?q]" w2 ?env]
    by (simp add: s2_def s1_def flush_begin_def w1_def w2_def demo_writer_def NewBatchWriter_def)
  ultimately have r2: "wsys_reachable ?env ?w0 s2"
    by (blast intro: wsys_reachable.intros)
  have w2: "bw_cb w2 = NewCircuitBreaker 5 30" "InsertRetries (bw_cfg w2) = 3" "bw_signals w2 = [0 \<mapsto> 1]"
    by (simp_all add: w2_def w1_def demo_writer_def NewBatchWriter_def)
  then obtain w3 where core: "handoff_core ?env [zero_event] w2 = Return (True, w3)"
    using demo_core by blast
  define w4 where "w4 = finishHandoffSignal 0 1 w3"
  have run: "handoffQueued ?env [?q] w2 = Return w4"
    by (simp add: handoffQueued_def handoffEvents_def core signalHandoffSignals_def w4_def)
  define s3 where "s3 = s2\<lparr>ws_w := w4\<lparr>bw_flight := False\<rparr>, ws_taken := [], ws_handed := ws_handed s2 @ ws_taken s2\<rparr>"
  have "wsys_step ?env s2 s3"
    unfolding s3_def
    by (rule wsys_step.finish_ok [where ?w1.0 = w3]) (simp_all add: s2_def core run)
  then have r3: "wsys_reachable ?env ?w0 s3" using r2 by (blast intro: wsys_reachable.step)
  have "bw_signals w3 0 = Some 1"
    using handoff_core_frame [OF core] w2(3) by (simp add: same_book_def)
  then have dn: "0 \<in> set (bw_done (ws_w s3))"
    by (simp add: s3_def w4_def finishHandoffSignal_def)
  have acc: "ws_accepted s3 = [?q]" by (simp add: s3_def s2_def s1_def)
  then have "?q \<in> set (ws_handed s3)"
    using accept_released_after_handoff [OF r3 [unfolded demo_writer_def] dn] by auto
  then show ?thesis using r3 dn acc by blast
qed

text \<open>
  C23. Draining ends and loses nothing.  With a closed breaker, a Redis without faults, at least one
  insert attempt and a positive drain batch size, and when the dead-letter topic takes every record or
  ClickHouse is healthy and no queued event has an invalid identifier, the drain loop returns after
  at most one round per queued event plus one; the overflow queue is then empty, and every event it
  held is a row of the table or a record of the dead-letter topic; in the second case all of them are
  rows.
\<close>

theorem drain_completes:
  assumes "env = consumer_env (\<lambda>_. IoOk) kafka_io clock prepare append_row send uuid"
    and "conn_commits env table"
    and "(\<forall>k. kafka_io k = IoOk) \<or> healthy_conn env \<and> list_all (usable_id uuid) (overflow_queue (bw_overflow w))"
    and "overflow_inv (bw_overflow w)" "cb_state (bw_cb w) = BreakerClosed"
    and "0 < InsertRetries (bw_cfg w)" "0 < DrainBatchSize (bw_cfg w)"
    and "length (overflow_queue (bw_overflow w)) < fuel"
  shows "\<exists>w'. drainOverflow env fuel w = Return (Some w') \<and> overflow_queue (bw_overflow w') = [] \<and>
    (\<forall>e \<in> set (overflow_queue (bw_overflow w)).
       (\<exists>r \<in> set (table (bw_conn w')). row_of e r) \<or> e \<in> set (dlq_events (bw_dlq w'))) \<and>
    (healthy_conn env \<and> list_all (usable_id uuid) (overflow_queue (bw_overflow w)) \<longrightarrow>
       (\<forall>e \<in> set (overflow_queue (bw_overflow w)). \<exists>r \<in> set (table (bw_conn w')). row_of e r))"
proof -
  let ?w2 = "w\<lparr>bw_ticks := Suc (bw_ticks w), bw_cb := bw_cb w\<rparr>"
  have run: "drainOverflow env fuel w = drain_loop env fuel ?w2"
    using assms(5) by (simp add: drainOverflow_def tick_def State_def maybeHalfOpen_def Let_def)
  have uuid: "we_uuid env = uuid" by (simp add: assms(1) consumer_env_def)
  have "accepts kafka_io env (overflow_queue (bw_overflow ?w2))" using assms(3) by (simp add: accepts_def uuid)
  from drain_loop_accepted [OF assms(1,2) _ this, of fuel] assms(4-8) run show ?thesis
    unfolding drained_def uuid by auto
qed

text \<open>The writer of the next witnesses: one event waits in the overflow list.\<close>

definition demo_backlog :: "'c \<Rightarrow> (redis, dlq_topic, 'c) batch_writer" where
  "demo_backlog c = (demo_writer c)\<lparr>bw_overflow := redis_empty\<lparr>r_list := [marshal_event zero_event]\<rparr>\<rparr>"

lemma demo_backlog_views:
  "overflow_inv (bw_overflow (demo_backlog c))"
  "overflow_queue (bw_overflow (demo_backlog c)) = [zero_event]"
  "cb_state (bw_cb (demo_backlog c)) = BreakerClosed"
  "InsertRetries (bw_cfg (demo_backlog c)) = 3" "DrainBatchSize (bw_cfg (demo_backlog c)) = 5"
  by (simp_all add: demo_backlog_def demo_writer_def NewBatchWriter_def NewCircuitBreaker_def
      overflow_inv_def overflow_queue_def unmarshal_marshal_event)

theorem drain_completes_witness:
  "\<exists>w'. drainOverflow (demo_env (\<lambda>_. IoOk) (\<lambda>_. IoErr 0)) 2 (demo_backlog ([], [])) = Return (Some w') \<and>
     overflow_queue (bw_overflow w') = [] \<and> (\<exists>r \<in> set (snd (bw_conn w')). row_of zero_event r)"
proof -
  have usable: "list_all (usable_id demo_uuid) (overflow_queue (bw_overflow (demo_backlog ([], []))))"
    by (simp add: demo_backlog_views usable_id_def zero_event_def str_or_def)
  from drain_completes [OF demo_env_def demo_commits disjI2 [OF conjI [OF demo_healthy this]], of 2]
  show ?thesis using demo_healthy usable by (simp add: demo_backlog_views) blast
qed

text \<open>
  Observation. Draining does not end while neither ClickHouse nor the dead-letter topic accepts
  anything: if every batch preparation fails, every dead-letter record is refused and Redis
  works, then a non-empty overflow queue keeps \<open>drainOverflow\<close> running for ever, because each
  round pushes back what it popped and the loop never looks at the breaker again.
\<close>

theorem drain_never_ends_when_sinks_down:
  assumes "env = consumer_env (\<lambda>_. IoOk) (\<lambda>_. IoErr 0) clock prepare append_row send uuid"
    and "\<forall>c. fst (prepare c) \<noteq> None"
    and "overflow_inv (bw_overflow w)" "overflow_queue (bw_overflow w) \<noteq> []"
    and "cb_state (bw_cb w) = BreakerClosed"
    and "0 < InsertRetries (bw_cfg w)" "0 < DrainBatchSize (bw_cfg w)"
  shows "drainOverflow env fuel w = Return None"
proof -
  have "drain_loop env fuel (w\<lparr>bw_ticks := Suc (bw_ticks w)\<rparr>) = Return None"
  proof (rule drain_loop_down [where io = "\<lambda>_. IoOk"])
    show "fst (we_prepare env c) \<noteq> None" for c using assms(1,2) by (simp add: consumer_env_def)
    show "\<not> fst (we_publish env e m k d)" for e m k d
      by (simp add: assms(1) consumer_env_def DlqPublish_def Let_def)
  qed (use assms in \<open>simp_all add: consumer_env_def\<close>)
  then show ?thesis
    using assms(5) by (simp add: drainOverflow_def tick_def State_def maybeHalfOpen_def Let_def)
qed

theorem drain_never_ends_when_sinks_down_witness:
  "\<forall>fuel. drainOverflow (consumer_env (\<lambda>_. IoOk) (\<lambda>_. IoErr 0) int (\<lambda>c. (Some ''refused'', c))
     (\<lambda>r c. (None, c)) (\<lambda>c. (None, c)) demo_uuid) fuel (demo_backlog ()) = Return None"
proof
  fix fuel
  show "drainOverflow (consumer_env (\<lambda>_. IoOk) (\<lambda>_. IoErr 0) int (\<lambda>c. (Some ''refused'', c))
     (\<lambda>r c. (None, c)) (\<lambda>c. (None, c)) demo_uuid) fuel (demo_backlog ()) = Return None"
    by (rule drain_never_ends_when_sinks_down [OF refl]) (simp_all add: demo_backlog_views)
qed

text \<open>
  C29. Events are lost when a pop fails half-way: if \<open>PopN\<close> reports an error after having
  removed some events, the drain returns without handing those events to any sink; they are
  no longer in the overflow queue, and the table and the dead-letter topic are unchanged.
\<close>

theorem drain_drops_popped_on_error:
  assumes "we_popn env = PopN redis_io" "overflow_inv (bw_overflow w)"
    and "PopN redis_io (DrainBatchSize (bw_cfg w)) (bw_overflow w) = ((popped, False), ov)"
  shows "\<exists>w' lost. drain_loop env (Suc fuel) w = Return (Some w') \<and>
    bw_conn w' = bw_conn w \<and> bw_dlq w' = bw_dlq w \<and>
    overflow_queue (bw_overflow w) = popped @ lost @ overflow_queue (bw_overflow w')"
  using assms list_overflow.popn_err [OF assms(2,3)] by auto

theorem drain_drops_popped_on_error_witness:
  "\<exists>w' lost. drain_loop (demo_env (\<lambda>n. if n = 1 then IoErr 0 else IoOk) (\<lambda>_. IoOk)) 1
       (demo_backlog ([], [])) = Return (Some w') \<and>
     snd (bw_conn w') = [] \<and> dt_records (bw_dlq w') = [] \<and>
     [zero_event] = [zero_event] @ lost @ overflow_queue (bw_overflow w')"
proof -
  let ?io = "\<lambda>n. if n = 1 then IoErr 0 else IoOk" and ?w = "demo_backlog ([], [])"
  have p: "we_popn (demo_env ?io (\<lambda>_. IoOk)) = PopN ?io"
    by (simp add: demo_env_def consumer_env_def)
  have n: "(5 :: nat) = Suc (Suc (Suc (Suc (Suc 0))))" by simp
  have pop: "PopN ?io (DrainBatchSize (bw_cfg ?w)) (bw_overflow ?w) =
    (([zero_event], False), snd (PopN ?io (DrainBatchSize (bw_cfg ?w)) (bw_overflow ?w)))"
    by (simp add: demo_backlog_def demo_writer_def NewBatchWriter_def PopN_def n RPop_def Let_def
        redis_empty_def unmarshal_marshal_event)
  show ?thesis
    using drain_drops_popped_on_error [OF p demo_backlog_views(1) pop, of 0]
    by (simp add: demo_backlog_views) (auto simp: demo_backlog_def demo_writer_def NewBatchWriter_def)
qed

text \<open>
  Observation. A configuration without insert attempts crashes the consumer: when \<open>InsertRetries\<close> is
  not positive and the breaker lets the batch through, handing off any non-empty batch
  dereferences the nil error of the retry loop.
\<close>

theorem handoff_panics_without_retries:
  assumes "InsertRetries (bw_cfg w) \<le> 0" "events \<noteq> []"
    and "fst (AllowInsert (we_clock env (bw_ticks w)) (bw_cb w))"
  shows "\<exists>msg. handoffEvents env events ids w = Panic msg"
  using assms by (simp add: handoffEvents_def handoff_core_eq insertWithRetries_def Let_def)

theorem handoff_panics_without_retries_witness:
  "\<exists>msg. handoffEvents (demo_env (\<lambda>_. IoOk) (\<lambda>_. IoOk)) [zero_event] []
     ((demo_writer ([], []))\<lparr>bw_cfg := \<lparr>BatchSize = 10, InsertRetries = 0, DrainBatchSize = 5\<rparr>\<rparr>) = Panic msg"
  by (rule handoff_panics_without_retries)
     (simp_all add: demo_writer_def NewBatchWriter_def NewCircuitBreaker_def AllowInsert_def maybeHalfOpen_def Let_def)

end
