(* ===== verification/Latency_Anomaly.thy ===== *)
theory Latency_Anomaly
  imports Inference_Event
begin

text \<open>
  The latency anomaly detector of the consumer (\<^verbatim>\<open>consumer/internal/anomaly/zscore.go\<close>).  The
  detector keeps, per tenant and model, a ring buffer with running sums; the specification is
  stated on the plain list of past latencies, and the two are proved equal.
\<close>

section \<open>Detector\<close>

record latency_key =
  lk_tenant_id :: string
  lk_model_id :: string

definition key_of :: "inference_event \<Rightarrow> latency_key" where
  "key_of e = \<lparr>lk_tenant_id = ev_tenant_id e, lk_model_id = ev_model_id e\<rparr>"

record window_stats =
  wn_values :: "real list"
  wn_idx :: nat
  wn_count :: nat
  wn_sum :: real
  wn_sumsq :: real

record detected_anomaly =
  an_tenant_id :: string
  an_model_id :: string
  an_event_id :: "string option"
  an_timestamp :: u64
  an_latency :: u32
  an_zscore :: real
  an_mean :: real
  an_std :: real

record zscore_detector =
  zd_threshold :: real
  zd_window :: nat
  zd_min_samples :: nat
  zd_epsilon :: real
  zd_stats :: "latency_key \<rightharpoonup> window_stats"

text \<open>The constructor clamps its arguments; after clamping both sizes are at least 2.\<close>

definition NewZScoreLatencyDetector :: "real \<Rightarrow> int \<Rightarrow> int \<Rightarrow> zscore_detector" where
  "NewZScoreLatencyDetector threshold windowSize minSamples =
     (let windowSize = (if windowSize < 2 then 2 else windowSize);
          minSamples = (if minSamples < 2 then 2 else minSamples);
          minSamples = (if minSamples > windowSize then windowSize else minSamples);
          threshold = (if threshold \<le> 0 then 3 else threshold)
      in \<lparr>zd_threshold = threshold, zd_window = nat windowSize, zd_min_samples = nat minSamples,
          zd_epsilon = 1 / 10 ^ 9, zd_stats = Map.empty\<rparr>)"

definition new_window :: "nat \<Rightarrow> window_stats" where
  "new_window n = \<lparr>wn_values = replicate n 0, wn_idx = 0, wn_count = 0, wn_sum = 0, wn_sumsq = 0\<rparr>"

text \<open>The check against the existing window (lines 89 to 114).\<close>

definition check_window ::
  "zscore_detector \<Rightarrow> window_stats \<Rightarrow> inference_event \<Rightarrow> detected_anomaly option" where
  "check_window d s e =
     (if wn_count s \<ge> zd_min_samples d
      then
        let mean = wn_sum s / real (wn_count s);
            variance0 = wn_sumsq s / real (wn_count s) - mean * mean;
            variance = (if variance0 < 0 then 0 else variance0);
            std = sqrt variance
        in if std > zd_epsilon d
           then
             let z = (real (unat (ev_latency e)) - mean) / std
             in if z \<ge> zd_threshold d
                then Some \<lparr>an_tenant_id = ev_tenant_id e, an_model_id = ev_model_id e,
                  an_event_id = ev_event_id e, an_timestamp = ev_timestamp e,
                  an_latency = ev_latency e, an_zscore = z, an_mean = mean, an_std = std\<rparr>
                else None
           else None
      else None)"

text \<open>The update of the ring buffer (lines 116 to 133).\<close>

definition push_window :: "nat \<Rightarrow> real \<Rightarrow> window_stats \<Rightarrow> window_stats" where
  "push_window n x s =
     (if wn_count s < n
      then s\<lparr>wn_values := (wn_values s)[wn_idx s := x], wn_sum := wn_sum s + x,
             wn_sumsq := wn_sumsq s + x * x, wn_count := Suc (wn_count s),
             wn_idx := Suc (wn_idx s) mod n\<rparr>
      else
        let old = wn_values s ! wn_idx s
        in s\<lparr>wn_sum := wn_sum s - old + x, wn_sumsq := wn_sumsq s - old * old + x * x,
             wn_values := (wn_values s)[wn_idx s := x], wn_idx := Suc (wn_idx s) mod n\<rparr>)"

definition ObserveEvent ::
  "inference_event \<Rightarrow> zscore_detector \<Rightarrow> detected_anomaly option \<times> zscore_detector" where
  "ObserveEvent e d =
     (let key = key_of e;
          s = (case zd_stats d key of None \<Rightarrow> new_window (zd_window d) | Some s \<Rightarrow> s)
      in (check_window d s e,
          d\<lparr>zd_stats := (zd_stats d)(key \<mapsto> push_window (zd_window d) (real (unat (ev_latency e))) s)\<rparr>))"

definition observe_all :: "inference_event list \<Rightarrow> zscore_detector \<Rightarrow> zscore_detector" where
  "observe_all es d = foldl (\<lambda>d e. snd (ObserveEvent e d)) d es"

section \<open>Specification on the history\<close>

definition latencies :: "latency_key \<Rightarrow> inference_event list \<Rightarrow> real list" where
  "latencies k es =
     map (\<lambda>e. real (unat (ev_latency e))) (filter (\<lambda>e. key_of e = k) es)"

definition last_n :: "nat \<Rightarrow> 'a list \<Rightarrow> 'a list" where
  "last_n n xs = drop (length xs - n) xs"

definition mean_of :: "real list \<Rightarrow> real" where
  "mean_of xs = sum_list xs / real (length xs)"

text \<open>The population standard deviation, from the squared distances to the mean.\<close>

definition std_of :: "real list \<Rightarrow> real" where
  "std_of xs = sqrt (sum_list (map (\<lambda>x. (x - mean_of xs)\<^sup>2) xs) / real (length xs))"

definition anomaly_spec ::
  "real \<Rightarrow> nat \<Rightarrow> real \<Rightarrow> real list \<Rightarrow> inference_event \<Rightarrow> detected_anomaly option" where
  "anomaly_spec threshold minSamples eps ys e =
     (let x = real (unat (ev_latency e)); z = (x - mean_of ys) / std_of ys
      in if minSamples \<le> length ys \<and> eps < std_of ys \<and> threshold \<le> z
         then Some \<lparr>an_tenant_id = ev_tenant_id e, an_model_id = ev_model_id e,
           an_event_id = ev_event_id e, an_timestamp = ev_timestamp e, an_latency = ev_latency e,
           an_zscore = z, an_mean = mean_of ys, an_std = std_of ys\<rparr>
         else None)"

section \<open>The ring buffer represents the last values\<close>

definition window_rep :: "nat \<Rightarrow> window_stats \<Rightarrow> real list \<Rightarrow> bool" where
  "window_rep n s xs \<longleftrightarrow>
     length (wn_values s) = n \<and> wn_count s = min (length xs) n \<and> wn_idx s = length xs mod n \<and>
     (\<forall>j. length xs - n \<le> j \<and> j < length xs \<longrightarrow> wn_values s ! (j mod n) = xs ! j) \<and>
     wn_sum s = sum_list (last_n n xs) \<and>
     wn_sumsq s = sum_list (map (\<lambda>x. x * x) (last_n n xs))"

lemma last_n_snoc_short: "length xs < n \<Longrightarrow> last_n n (xs @ [x]) = last_n n xs @ [x]"
  by (simp add: last_n_def)

lemma last_n_snoc_full:
  assumes "n \<le> length xs" "0 < n"
  shows "last_n n xs = xs ! (length xs - n) # tl (last_n n xs)"
    and "last_n n (xs @ [x]) = tl (last_n n xs) @ [x]"
proof -
  have "length xs - n < length xs" using assms by simp
  then show "last_n n xs = xs ! (length xs - n) # tl (last_n n xs)"
    unfolding last_n_def by (metis Cons_nth_drop_Suc list.sel(3))
  have "length (xs @ [x]) - n = Suc (length xs - n)" using assms by simp
  then show "last_n n (xs @ [x]) = tl (last_n n xs) @ [x]"
    using assms by (simp add: last_n_def drop_Suc tl_drop)
qed

lemma last_n_length [simp]: "length (last_n n xs) = min (length xs) n"
  by (simp add: last_n_def)

lemma mod_window_inj:
  fixes i j n :: nat
  assumes "i < j" "j < i + n"
  shows "i mod n \<noteq> j mod n"
proof
  assume "i mod n = j mod n"
  then have "(j - i) mod n = 0" using assms(1) by (metis less_imp_le_nat mod_eq_dvd_iff_nat mod_0_imp_dvd dvd_imp_mod_0)
  then show False using assms by auto
qed

lemma window_rep_new: "window_rep n (new_window n) []"
  by (simp add: window_rep_def new_window_def last_n_def)

lemma window_values_push:
  assumes "window_rep n s xs" "0 < n"
    and "Suc (length xs) - n \<le> j" "j < Suc (length xs)"
  shows "((wn_values s)[wn_idx s := x]) ! (j mod n) = (xs @ [x]) ! j"
proof (cases "j = length xs")
  case True
  then show ?thesis using assms(1,2) by (simp add: window_rep_def)
next
  case False
  then have "j < length xs" using assms(4) by simp
  moreover from this have "length xs mod n \<noteq> j mod n"
    using mod_window_inj [of j "length xs" n] assms(3) by linarith
  ultimately show ?thesis
    using assms by (auto simp: window_rep_def nth_append)
qed

lemma window_rep_push:
  assumes rep: "window_rep n s xs" and n: "0 < n"
  shows "window_rep n (push_window n x s) (xs @ [x])"
proof (cases "length xs < n")
  case True
  then show ?thesis
    using rep window_values_push [OF rep n, of _ x]
    by (auto simp: window_rep_def push_window_def last_n_snoc_short mod_Suc_eq)
next
  case False
  then have full: "n \<le> length xs" by simp
  note split = last_n_snoc_full [OF full n]
  have idx: "length xs mod n = (length xs - n) mod n" using full by (simp add: le_mod_geq)
  have "wn_values s ! ((length xs - n) mod n) = xs ! (length xs - n)"
    using rep full n unfolding window_rep_def by simp
  then have old: "wn_values s ! wn_idx s = xs ! (length xs - n)"
    using rep idx by (simp add: window_rep_def)
  have sums: "sum_list (last_n n xs) = xs ! (length xs - n) + sum_list (tl (last_n n xs))"
    "sum_list (map (\<lambda>x. x * x) (last_n n xs)) =
       xs ! (length xs - n) * xs ! (length xs - n) + sum_list (map (\<lambda>x. x * x) (tl (last_n n xs)))"
    by (subst split(1), simp)+
  have "\<not> wn_count s < n" using rep full by (simp add: window_rep_def)
  then show ?thesis
    using rep full old window_values_push [OF rep n, of _ x] sums
    by (auto simp: window_rep_def push_window_def Let_def split(2) mod_Suc_eq)
qed

section \<open>Running sums against the definition of the standard deviation\<close>

lemma variance_running:
  assumes "xs \<noteq> []"
  shows "sum_list (map (\<lambda>x. (x - mean_of xs)\<^sup>2) xs) / real (length xs) =
         sum_list (map (\<lambda>x. x * x) xs) / real (length xs) - mean_of xs * mean_of xs"
proof -
  let ?m = "mean_of xs" and ?n = "real (length xs)"
  have "sum_list (map (\<lambda>x. (x - m)\<^sup>2) xs) =
    sum_list (map (\<lambda>x. x * x) xs) - 2 * m * sum_list xs + real (length xs) * (m * m)" for m
    by (induction xs) (auto simp: algebra_simps power2_eq_square)
  note this [of ?m]
  moreover have "sum_list xs = ?n * ?m" "?n \<noteq> 0"
    using assms by (simp_all add: mean_of_def)
  ultimately have "sum_list (map (\<lambda>x. (x - ?m)\<^sup>2) xs) =
    sum_list (map (\<lambda>x. x * x) xs) - ?n * (?m * ?m)"
    by (simp add: algebra_simps)
  then show ?thesis using \<open>?n \<noteq> 0\<close> by (simp add: diff_divide_distrib)
qed

lemma variance_nonneg: "0 \<le> sum_list (map (\<lambda>x. (x - mean_of xs)\<^sup>2) xs) / real (length xs)"
  by (intro divide_nonneg_nonneg sum_list_nonneg) auto

lemma check_window_spec:
  assumes rep: "window_rep (zd_window d) s xs" and "0 < zd_min_samples d" "0 < zd_window d"
  shows "check_window d s e =
    anomaly_spec (zd_threshold d) (zd_min_samples d) (zd_epsilon d) (last_n (zd_window d) xs) e"
proof (cases "wn_count s \<ge> zd_min_samples d")
  case False
  moreover have "wn_count s = length (last_n (zd_window d) xs)"
    using rep by (simp add: window_rep_def)
  ultimately show ?thesis
    by (simp add: check_window_def anomaly_spec_def del: last_n_length)
next
  case True
  let ?ys = "last_n (zd_window d) xs"
  have len: "length ?ys = wn_count s"
    using rep by (simp add: window_rep_def)
  then have ne: "?ys \<noteq> []"
    using True assms(2) by (metis le_zero_eq less_numeral_extra(3) list.size(3))
  have m: "wn_sum s / real (wn_count s) = mean_of ?ys"
    using rep len by (simp add: mean_of_def window_rep_def del: last_n_length)
  have "wn_sumsq s / real (wn_count s) - mean_of ?ys * mean_of ?ys =
      sum_list (map (\<lambda>x. (x - mean_of ?ys)\<^sup>2) ?ys) / real (length ?ys)"
    using variance_running [OF ne] rep len by (simp add: window_rep_def del: last_n_length)
  then show ?thesis
    using True variance_nonneg [of ?ys] len
    by (simp add: check_window_def anomaly_spec_def m std_of_def Let_def del: last_n_length)
qed

section \<open>Detector invariant\<close>

definition detector_rep :: "zscore_detector \<Rightarrow> inference_event list \<Rightarrow> bool" where
  "detector_rep d es \<longleftrightarrow>
     0 < zd_window d \<and> 0 < zd_min_samples d \<and>
     (\<forall>k. case zd_stats d k of
            None \<Rightarrow> latencies k es = []
          | Some s \<Rightarrow> window_rep (zd_window d) s (latencies k es))"

lemma latencies_snoc:
  "latencies k (es @ [e]) =
     (if key_of e = k then latencies k es @ [real (unat (ev_latency e))]
      else latencies k es)"
  by (simp add: latencies_def)

lemma detector_rep_window:
  assumes "detector_rep d es"
  shows "window_rep (zd_window d)
    (case zd_stats d k of None \<Rightarrow> new_window (zd_window d) | Some s \<Rightarrow> s) (latencies k es)"
proof -
  have "case zd_stats d k of None \<Rightarrow> latencies k es = []
        | Some s \<Rightarrow> window_rep (zd_window d) s (latencies k es)"
    using assms by (simp add: detector_rep_def)
  then show ?thesis using window_rep_new by (auto split: option.splits)
qed

lemma detector_rep_observe:
  assumes rep: "detector_rep d es"
  shows "detector_rep (snd (ObserveEvent e d)) (es @ [e])"
proof -
  let ?k = "key_of e" and ?d = "snd (ObserveEvent e d)"
  have pos: "0 < zd_window d" "0 < zd_min_samples d"
    using rep by (simp_all add: detector_rep_def)
  have "window_rep (zd_window d) (push_window (zd_window d) (real (unat (ev_latency e)))
      (case zd_stats d ?k of None \<Rightarrow> new_window (zd_window d) | Some s \<Rightarrow> s)) (latencies ?k (es @ [e]))"
    using window_rep_push [OF detector_rep_window [OF rep, of ?k] pos(1)] by (simp add: latencies_snoc)
  moreover have "case zd_stats d k of None \<Rightarrow> latencies k (es @ [e]) = []
      | Some s \<Rightarrow> window_rep (zd_window d) s (latencies k (es @ [e]))" if "k \<noteq> ?k" for k
  proof -
    have "case zd_stats d k of None \<Rightarrow> latencies k es = []
        | Some s \<Rightarrow> window_rep (zd_window d) s (latencies k es)"
      using rep by (simp add: detector_rep_def)
    then show ?thesis using that by (auto simp: latencies_snoc split: option.splits)
  qed
  ultimately have "case zd_stats ?d k of None \<Rightarrow> latencies k (es @ [e]) = []
      | Some s \<Rightarrow> window_rep (zd_window d) s (latencies k (es @ [e]))" for k
    by (cases "k = ?k") (simp_all add: ObserveEvent_def Let_def)
  moreover have "zd_window ?d = zd_window d" "zd_min_samples ?d = zd_min_samples d"
    by (simp_all add: ObserveEvent_def Let_def)
  ultimately show ?thesis using pos unfolding detector_rep_def by metis
qed

lemma observe_all_params [simp]:
  "zd_threshold (observe_all es d) = zd_threshold d"
  "zd_window (observe_all es d) = zd_window d"
  "zd_min_samples (observe_all es d) = zd_min_samples d"
  "zd_epsilon (observe_all es d) = zd_epsilon d"
  unfolding observe_all_def by (induction es arbitrary: d) (simp_all add: ObserveEvent_def Let_def)

lemma detector_rep_all: "detector_rep d [] \<Longrightarrow> detector_rep (observe_all es d) es"
  unfolding observe_all_def
  by (induction es rule: rev_induct) (auto intro: detector_rep_observe)

lemma detector_rep_new: "detector_rep (NewZScoreLatencyDetector th w ms) []"
  by (auto simp: detector_rep_def NewZScoreLatencyDetector_def latencies_def Let_def)

section \<open>Properties\<close>

text \<open>
  C9. The ring buffer with running sums computes the reference z-score test: after any events,
  \<open>ObserveEvent\<close> reports an anomaly for the next event exactly as the specification does on
  the last \<open>windowSize\<close> latencies seen for the same tenant and model before it, with the
  population mean and standard deviation of those latencies.
\<close>

theorem observe_matches_reference:
  "let d0 = NewZScoreLatencyDetector threshold windowSize minSamples
   in fst (ObserveEvent e (observe_all es d0)) =
        anomaly_spec (zd_threshold d0) (zd_min_samples d0) (zd_epsilon d0)
          (last_n (zd_window d0) (latencies (key_of e) es)) e"
proof -
  let ?d0 = "NewZScoreLatencyDetector threshold windowSize minSamples"
  have rep: "detector_rep (observe_all es ?d0) es"
    by (intro detector_rep_all detector_rep_new)
  then show ?thesis
    using check_window_spec [OF detector_rep_window [OF rep]]
    by (simp add: ObserveEvent_def Let_def detector_rep_def)
qed

end
