(* ===== verification/Kafka_Reader.thy ===== *)
theory Kafka_Reader
  imports Drain Latency_Anomaly
begin

text \<open>
  The Kafka reader of the consumer (\<^verbatim>\<open>consumer/internal/kafka/reader.go\<close>) and the anomaly
  publisher (\<^verbatim>\<open>consumer/internal/kafka/anomalies.go\<close>).  The Go interface \<^verbatim>\<open>EventSink\<close> is the
  locale \<open>event_sink\<close>; the batching writer, with the other goroutines of the consumer
  running between the calls in any order, interprets it.  The Kafka client is third-party:
  what it fetches, whether a produce succeeds and what a commit does are parameters.
\<close>

section \<open>Anomaly publisher\<close>

record anomaly_message =
  am_event_id :: "string option"
  am_tenant_id :: string
  am_model_id :: string
  am_timestamp :: u64
  am_latency :: u32
  am_zscore :: real
  am_mean :: real
  am_std :: real
  am_detected_at :: int

record anomaly_topic =
  at_records :: "anomaly_message list"
  at_calls :: nat
  at_counter :: "(string \<times> string) list"

definition anomaly_message_of :: "int \<Rightarrow> detected_anomaly \<Rightarrow> anomaly_message" where
  "anomaly_message_of now a =
     \<lparr>am_event_id = an_event_id a, am_tenant_id = an_tenant_id a, am_model_id = an_model_id a,
      am_timestamp = an_timestamp a, am_latency = an_latency a, am_zscore = an_zscore a,
      am_mean = an_mean a, am_std = an_std a, am_detected_at = now\<rparr>"

text \<open>
  \<^verbatim>\<open>Publish\<close>: one \<^verbatim>\<open>ProduceSync\<close> with all records; \<open>io n i\<close> is the outcome of record \<open>i\<close> of
  the \<open>n\<close>-th call, and \<open>IoErr (Suc k)\<close> an error reported although the broker has the record.
  Marshalling does not fail, all numbers being finite.
\<close>

definition AnomalyPublish ::
  "(nat \<Rightarrow> nat \<Rightarrow> io_outcome) \<Rightarrow> (nat \<Rightarrow> int) \<Rightarrow> detected_anomaly list \<Rightarrow> anomaly_topic \<Rightarrow>
   bool \<times> anomaly_topic" where
  "AnomalyPublish io now anomalies p =
     (if anomalies = [] then (True, p)
      else
        let n = at_calls p;
            msgs = map (anomaly_message_of (now n)) anomalies;
            outcome = io n;
            kept = map snd (filter (\<lambda>(i, _). outcome i \<noteq> IoErr 0) (enumerate 0 msgs));
            p1 = p\<lparr>at_calls := Suc n, at_records := at_records p @ kept\<rparr>
        in if list_all (\<lambda>i. outcome i = IoOk) [0..<length msgs]
           then (True, p1\<lparr>at_counter := at_counter p @
                   map (\<lambda>a. (an_tenant_id a, an_model_id a)) anomalies\<rparr>)
           else (False, p1))"

section \<open>Reader\<close>

record krecord =
  kr_partition :: int
  kr_offset :: int
  kr_value :: payload

text \<open>
  What one pass of \<^verbatim>\<open>Run\<close> gets from the client: the fetch (partition errors, or the records
  partition by partition) and the two admin answers of \<^verbatim>\<open>reportConsumerLag\<close>.
\<close>

datatype fetch = FetchErrors | Fetched "krecord list list"

record lag_view =
  lv_ends :: "(int \<times> int option) list option"
  lv_committed :: "(int \<Rightarrow> int option) option"

record ('s, 'g) reader_env =
  ke_accept :: "inference_event list \<Rightarrow> 's \<Rightarrow> string option \<times> 's"
  ke_commit :: "krecord list \<Rightarrow> 'g \<Rightarrow> bool \<times> 'g"
  ke_json_err :: "payload \<Rightarrow> string"
  ke_produce :: "nat \<Rightarrow> nat \<Rightarrow> io_outcome"
  ke_now :: "nat \<Rightarrow> int"

text \<open>\<open>rd_commits\<close> records the arguments of \<^verbatim>\<open>CommitRecords\<close>, oldest first.\<close>

record ('s, 'g) reader =
  rd_sink :: 's
  rd_group :: 'g
  rd_detector :: "zscore_detector option"
  rd_publisher :: "anomaly_topic option"
  rd_commits :: "krecord list"
  rd_deserialize_errors :: nat
  rd_handoff_errors :: nat
  rd_processed :: nat
  rd_lag :: "int \<rightharpoonup> real"

definition NewReader ::
  "'s \<Rightarrow> 'g \<Rightarrow> zscore_detector option \<Rightarrow> anomaly_topic option \<Rightarrow> ('s, 'g) reader" where
  "NewReader sink grp detector publisher =
     \<lparr>rd_sink = sink, rd_group = grp, rd_detector = detector, rd_publisher = publisher,
      rd_commits = [], rd_deserialize_errors = 0, rd_handoff_errors = 0, rd_processed = 0,
      rd_lag = Map.empty\<rparr>"

definition DeserializeBatch :: "(payload \<Rightarrow> string) \<Rightarrow> payload \<Rightarrow> string + ingest_batch" where
  "DeserializeBatch json_err value =
     (case unmarshal (dec_struct batch_fields) value \<lparr>ib_events = []\<rparr> of
        None \<Rightarrow> Inl (''unmarshal ingest batch: '' @ json_err value)
      | Some batch \<Rightarrow> Inr batch)"

definition isDeserializeErr :: "string \<Rightarrow> bool" where
  "isDeserializeErr err = contains err ''unmarshal ingest batch''"

text \<open>The loop over the events that feeds the detector and collects the anomalies.\<close>

fun detect ::
  "inference_event list \<Rightarrow> zscore_detector \<Rightarrow> detected_anomaly list \<times> zscore_detector" where
  "detect [] d = ([], d)"
| "detect (e # es) d =
     (let (a, d1) = ObserveEvent e d; (as, d2) = detect es d1
      in (case a of None \<Rightarrow> as | Some x \<Rightarrow> x # as, d2))"

definition detect_and_publish ::
  "('s, 'g) reader_env \<Rightarrow> inference_event list \<Rightarrow> ('s, 'g) reader \<Rightarrow> ('s, 'g) reader" where
  "detect_and_publish env events r =
     (case (rd_detector r, rd_publisher r) of
        (Some d, Some p) \<Rightarrow>
          (let (detected, d') = detect events d;
               (ok, p') = AnomalyPublish (ke_produce env) (ke_now env) detected p
           in r\<lparr>rd_detector := Some d', rd_publisher := Some p'\<rparr>)
      | _ \<Rightarrow> r)"

definition handleRecord ::
  "('s, 'g) reader_env \<Rightarrow> krecord \<Rightarrow> ('s, 'g) reader \<Rightarrow> string option \<times> ('s, 'g) reader" where
  "handleRecord env rec r =
     (case DeserializeBatch (ke_json_err env) (kr_value rec) of
        Inl err \<Rightarrow> (Some err, r)
      | Inr batch \<Rightarrow>
          (case ke_accept env (ib_events batch) (rd_sink r) of
             (Some err, s) \<Rightarrow> (Some err, r\<lparr>rd_sink := s\<rparr>)
           | (None, s) \<Rightarrow>
               (let r1 = detect_and_publish env (ib_events batch) (r\<lparr>rd_sink := s\<rparr>)
                in (None, r1\<lparr>rd_processed := rd_processed r1 + length (ib_events batch)\<rparr>))))"

text \<open>The two nested loops over partitions and records, with the accumulated \<^verbatim>\<open>toCommit\<close>.\<close>

fun handle_records ::
  "('s, 'g) reader_env \<Rightarrow> krecord list \<Rightarrow> krecord list \<Rightarrow> ('s, 'g) reader \<Rightarrow>
   krecord list \<times> ('s, 'g) reader" where
  "handle_records env [] toCommit r = (toCommit, r)"
| "handle_records env (rec # recs) toCommit r =
     (case handleRecord env rec r of
        (Some err, r1) \<Rightarrow>
          handle_records env recs toCommit
            (if isDeserializeErr err
             then r1\<lparr>rd_deserialize_errors := Suc (rd_deserialize_errors r1)\<rparr>
             else r1\<lparr>rd_handoff_errors := Suc (rd_handoff_errors r1)\<rparr>)
      | (None, r1) \<Rightarrow> handle_records env recs (toCommit @ [rec]) r1)"

fun handle_partitions ::
  "('s, 'g) reader_env \<Rightarrow> krecord list list \<Rightarrow> krecord list \<Rightarrow> ('s, 'g) reader \<Rightarrow>
   krecord list \<times> ('s, 'g) reader" where
  "handle_partitions env [] toCommit r = (toCommit, r)"
| "handle_partitions env (p # ps) toCommit r =
     (let (toCommit1, r1) = handle_records env p toCommit r
      in handle_partitions env ps toCommit1 r1)"

definition commit_records ::
  "('s, 'g) reader_env \<Rightarrow> krecord list \<Rightarrow> ('s, 'g) reader \<Rightarrow> ('s, 'g) reader" where
  "commit_records env toCommit r =
     (if toCommit = [] then r
      else r\<lparr>rd_group := snd (ke_commit env toCommit (rd_group r)),
             rd_commits := rd_commits r @ toCommit\<rparr>)"

definition PartitionLag :: "int \<Rightarrow> int \<Rightarrow> real" where
  "PartitionLag endOffset committedOffset =
     (let lag = int64 (endOffset - committedOffset) in if lag < 0 then 0 else of_int lag)"

fun report_parts ::
  "(int \<times> int option) list \<Rightarrow> (int \<Rightarrow> int option) \<Rightarrow> (int \<rightharpoonup> real) \<Rightarrow> (int \<rightharpoonup> real)" where
  "report_parts [] committed g = g"
| "report_parts ((part, endOff) # rest) committed g =
     (case (endOff, committed part) of
        (Some e, Some c) \<Rightarrow> report_parts rest committed (g(part \<mapsto> PartitionLag e c))
      | _ \<Rightarrow> report_parts rest committed g)"

definition reportConsumerLag :: "lag_view \<Rightarrow> ('s, 'g) reader \<Rightarrow> ('s, 'g) reader" where
  "reportConsumerLag v r =
     (case (lv_ends v, lv_committed v) of
        (Some parts, Some committed) \<Rightarrow> r\<lparr>rd_lag := report_parts parts committed (rd_lag r)\<rparr>
      | _ \<Rightarrow> r)"

text \<open>One pass of the loop of \<^verbatim>\<open>Run\<close>, and the passes until the context is cancelled.\<close>

definition run_pass ::
  "('s, 'g) reader_env \<Rightarrow> fetch \<times> lag_view \<Rightarrow> ('s, 'g) reader \<Rightarrow> ('s, 'g) reader" where
  "run_pass env pass r =
     (case pass of
        (FetchErrors, v) \<Rightarrow> r
      | (Fetched ps, v) \<Rightarrow>
          (let (toCommit, r1) = handle_partitions env ps [] r
           in reportConsumerLag v (commit_records env toCommit r1)))"

definition Run ::
  "('s, 'g) reader_env \<Rightarrow> (fetch \<times> lag_view) list \<Rightarrow> ('s, 'g) reader \<Rightarrow> ('s, 'g) reader" where
  "Run env passes r = foldl (\<lambda>r p. run_pass env p r) r passes"

section \<open>The contract of an event sink\<close>

text \<open>
  \<open>accept\<close> returns nil only when every event is stored, and nothing stored is given up by a
  later call.  The reader relies on this alone.
\<close>

locale event_sink =
  fixes accept :: "inference_event list \<Rightarrow> 's \<Rightarrow> string option \<times> 's"
    and stored :: "'s \<Rightarrow> inference_event \<Rightarrow> bool"
    and inv :: "'s \<Rightarrow> bool"
  assumes accept_inv: "inv s \<Longrightarrow> accept es s = (err, s') \<Longrightarrow> inv s'"
    and accept_ok: "inv s \<Longrightarrow> accept es s = (None, s') \<Longrightarrow> e \<in> set es \<Longrightarrow> stored s' e"
    and accept_keeps: "inv s \<Longrightarrow> accept es s = (err, s') \<Longrightarrow> stored s e \<Longrightarrow> stored s' e"
begin

definition record_stored :: "(payload \<Rightarrow> string) \<Rightarrow> 's \<Rightarrow> krecord \<Rightarrow> bool" where
  "record_stored json_err s rec \<longleftrightarrow>
     (\<exists>b. DeserializeBatch json_err (kr_value rec) = Inr b \<and> (\<forall>e \<in> set (ib_events b). stored s e))"

definition extends :: "'s \<Rightarrow> 's \<Rightarrow> bool" where
  "extends s s' \<longleftrightarrow> inv s' \<and> (\<forall>e. stored s e \<longrightarrow> stored s' e)"

lemma extends_trans: "extends s s1 \<Longrightarrow> extends s1 s2 \<Longrightarrow> extends s s2"
  by (simp add: extends_def)

lemma record_stored_extends: "record_stored je s rec \<Longrightarrow> extends s s' \<Longrightarrow> record_stored je s' rec"
  by (auto simp: record_stored_def extends_def)

lemma detect_and_publish_frame:
  "rd_sink (detect_and_publish env es r) = rd_sink r"
  "rd_commits (detect_and_publish env es r) = rd_commits r"
  by (simp_all add: detect_and_publish_def Let_def split: option.splits prod.splits)

lemma handleRecord_sound:
  assumes "ke_accept env = accept" "inv (rd_sink r)" "handleRecord env rec r = (err, r')"
  shows "extends (rd_sink r) (rd_sink r') \<and> rd_commits r' = rd_commits r \<and>
    (err = None \<longrightarrow> record_stored (ke_json_err env) (rd_sink r') rec)"
proof (cases "DeserializeBatch (ke_json_err env) (kr_value rec)")
  case (Inl e)
  then show ?thesis using assms by (auto simp: handleRecord_def extends_def)
next
  case (Inr b)
  obtain a s' where a: "accept (ib_events b) (rd_sink r) = (a, s')" by force
  have ext: "extends (rd_sink r) s'"
    using accept_inv [OF assms(2) a] accept_keeps [OF assms(2) a] by (simp add: extends_def)
  have run: "handleRecord env rec r = (case a of Some e \<Rightarrow> (Some e, r\<lparr>rd_sink := s'\<rparr>)
     | None \<Rightarrow> (let r1 = detect_and_publish env (ib_events b) (r\<lparr>rd_sink := s'\<rparr>)
          in (None, r1\<lparr>rd_processed := rd_processed r1 + length (ib_events b)\<rparr>)))"
    using Inr a assms(1) by (simp add: handleRecord_def split: option.splits)
  show ?thesis
  proof (cases a)
    case None
    then have "\<forall>e \<in> set (ib_events b). stored s' e" using accept_ok [OF assms(2)] a by blast
    then show ?thesis
      using run None assms(3) ext Inr
      by (auto simp: Let_def detect_and_publish_frame record_stored_def)
  qed (use run assms(3) ext in auto)
qed

lemma handle_records_sound:
  assumes "ke_accept env = accept" "inv (rd_sink r)"
    and "\<forall>rec \<in> set toCommit. record_stored (ke_json_err env) (rd_sink r) rec"
    and "handle_records env recs toCommit r = (out, r')"
  shows "extends (rd_sink r) (rd_sink r') \<and> rd_commits r' = rd_commits r \<and>
    (\<forall>rec \<in> set out. record_stored (ke_json_err env) (rd_sink r') rec)"
  using assms(2-)
proof (induction recs arbitrary: toCommit r)
  case Nil
  then show ?case by (simp add: extends_def)
next
  case (Cons rec recs)
  obtain err r1 where h: "handleRecord env rec r = (err, r1)" by force
  note s1 = handleRecord_sound [OF assms(1) Cons.prems(1) h]
  define r2 where "r2 = (case err of None \<Rightarrow> r1 | Some e \<Rightarrow>
    if isDeserializeErr e then r1\<lparr>rd_deserialize_errors := Suc (rd_deserialize_errors r1)\<rparr>
    else r1\<lparr>rd_handoff_errors := Suc (rd_handoff_errors r1)\<rparr>)"
  define tc where "tc = (if err = None then toCommit @ [rec] else toCommit)"
  have sink: "rd_sink r2 = rd_sink r1" "rd_commits r2 = rd_commits r1"
    by (simp_all add: r2_def split: option.splits)
  have "handle_records env recs tc r2 = (out, r')"
    using Cons.prems(3) h by (auto simp: r2_def tc_def split: option.splits)
  moreover have "\<forall>rec \<in> set tc. record_stored (ke_json_err env) (rd_sink r2) rec"
    using Cons.prems(2) s1 sink record_stored_extends by (auto simp: tc_def split: if_splits)
  moreover have "inv (rd_sink r2)" using s1 sink by (simp add: extends_def)
  ultimately have "extends (rd_sink r2) (rd_sink r') \<and> rd_commits r' = rd_commits r2 \<and>
    (\<forall>rec \<in> set out. record_stored (ke_json_err env) (rd_sink r') rec)"
    by (intro Cons.IH)
  then show ?case using s1 sink extends_trans by metis
qed

lemma handle_partitions_sound:
  assumes "ke_accept env = accept" "inv (rd_sink r)"
    and "\<forall>rec \<in> set toCommit. record_stored (ke_json_err env) (rd_sink r) rec"
    and "handle_partitions env ps toCommit r = (out, r')"
  shows "extends (rd_sink r) (rd_sink r') \<and> rd_commits r' = rd_commits r \<and>
    (\<forall>rec \<in> set out. record_stored (ke_json_err env) (rd_sink r') rec)"
  using assms(2-)
proof (induction ps arbitrary: toCommit r)
  case Nil
  then show ?case by (simp add: extends_def)
next
  case (Cons p ps)
  obtain tc r1 where h: "handle_records env p toCommit r = (tc, r1)" by force
  note s1 = handle_records_sound [OF assms(1) Cons.prems(1,2) h]
  have rest: "handle_partitions env ps tc r1 = (out, r')" using Cons.prems(3) h by simp
  have "inv (rd_sink r1)" using s1 by (simp add: extends_def)
  then show ?case using Cons.IH [of r1 tc] s1 rest extends_trans by metis
qed

definition reader_ok :: "('s, 'g) reader_env \<Rightarrow> ('s, 'g) reader \<Rightarrow> bool" where
  "reader_ok env r \<longleftrightarrow>
     inv (rd_sink r) \<and> (\<forall>rec \<in> set (rd_commits r). record_stored (ke_json_err env) (rd_sink r) rec)"

lemma run_pass_ok:
  assumes "ke_accept env = accept" "reader_ok env r"
  shows "reader_ok env (run_pass env p r)"
proof (cases p)
  case (Pair f v)
  show ?thesis
  proof (cases f)
    case FetchErrors
    then show ?thesis using assms(2) Pair by (simp add: run_pass_def)
  next
    case (Fetched ps)
    obtain out r1 where h: "handle_partitions env ps [] r = (out, r1)" by force
    have inv: "inv (rd_sink r)" using assms(2) by (simp add: reader_ok_def)
    have s1: "extends (rd_sink r) (rd_sink r1)" "rd_commits r1 = rd_commits r"
      "\<forall>rec \<in> set out. record_stored (ke_json_err env) (rd_sink r1) rec"
      using handle_partitions_sound [OF assms(1) inv _ h] by simp_all
    then have "reader_ok env (commit_records env out r1)"
      using assms(2) record_stored_extends
      by (auto simp: reader_ok_def commit_records_def extends_def)
    then show ?thesis
      using Pair Fetched h
      by (auto simp: run_pass_def reportConsumerLag_def reader_ok_def split: option.splits)
  qed
qed

lemma Run_ok: "ke_accept env = accept \<Longrightarrow> reader_ok env r \<Longrightarrow> reader_ok env (Run env passes r)"
  unfolding Run_def by (induction passes arbitrary: r) (simp_all add: run_pass_ok)

end

section \<open>The batching writer as an event sink\<close>

text \<open>
  While \<^verbatim>\<open>Accept\<close> blocks, the goroutines of the writer run: a flush takes a batch or finishes,
  a drain runs.  A schedule lists what they do during each call, and whether the caller's
  context wins the \<^verbatim>\<open>select\<close>; the call returns nil when its signal is closed.
\<close>

datatype waction = TakeBatch | FinishBatch | DrainRun nat

fun wsys_act ::
  "('o, 'd, 'c) writer_env \<Rightarrow> waction \<Rightarrow> ('o, 'd, 'c) wsys \<Rightarrow> ('o, 'd, 'c) wsys" where
  "wsys_act env TakeBatch s =
     (case flush_begin (ws_w s) of
        (None, _) \<Rightarrow> s
      | (Some q, w) \<Rightarrow> s\<lparr>ws_w := w, ws_taken := q\<rparr>)"
| "wsys_act env FinishBatch s =
     (if ws_taken s = [] then s
      else (case (handoff_core env (map qe_event (ws_taken s)) (ws_w s),
                  handoffQueued env (ws_taken s) (ws_w s)) of
              (Return (True, _), Return w) \<Rightarrow>
                s\<lparr>ws_w := w\<lparr>bw_flight := False\<rparr>, ws_taken := [],
                  ws_handed := ws_handed s @ ws_taken s\<rparr>
            | (Return (False, _), Return w) \<Rightarrow>
                s\<lparr>ws_w := w\<lparr>bw_flight := False\<rparr>, ws_taken := [],
                  ws_stuck := ws_stuck s @ ws_taken s\<rparr>
            | _ \<Rightarrow> s))"
| "wsys_act env (DrainRun fuel) s =
     (case drainOverflow env fuel (ws_w s) of Return (Some w) \<Rightarrow> s\<lparr>ws_w := w\<rparr> | _ \<Rightarrow> s)"

record ('o, 'd, 'c) writer_sink =
  sk_sys :: "('o, 'd, 'c) wsys"
  sk_calls :: nat

definition sink_accept ::
  "('o, 'd, 'c) writer_env \<Rightarrow> (nat \<Rightarrow> waction list \<times> bool) \<Rightarrow> inference_event list \<Rightarrow>
   ('o, 'd, 'c) writer_sink \<Rightarrow> string option \<times> ('o, 'd, 'c) writer_sink" where
  "sink_accept env sched events k =
     (case Accept events (ws_w (sk_sys k)) of
        (None, _) \<Rightarrow> (None, k)
      | (Some (i, _), w) \<Rightarrow>
          if unat (bw_next (ws_w (sk_sys k))) + 1 < 2 ^ 64
          then
            let s = sk_sys k;
                s1 = s\<lparr>ws_w := w, ws_accepted := ws_accepted s @
                       map (\<lambda>e. \<lparr>qe_event = e, qe_record_id = i\<rparr>) events\<rparr>;
                (acts, cancelled) = sched (sk_calls k);
                s2 = foldl (\<lambda>s a. wsys_act env a s) s1 acts
            in (if i \<in> set (bw_done (ws_w s2)) \<and> \<not> cancelled then None else Some ''context canceled'',
                \<lparr>sk_sys = s2, sk_calls = Suc (sk_calls k)\<rparr>)
          else (Some ''context canceled'', k))"

definition handed_event :: "('o, 'd, 'c) writer_sink \<Rightarrow> inference_event \<Rightarrow> bool" where
  "handed_event k e \<longleftrightarrow> e \<in> qe_event ` set (ws_handed (sk_sys k))"

definition new_sink :: "('o, 'd, 'c) batch_writer \<Rightarrow> ('o, 'd, 'c) writer_sink" where
  "new_sink w = \<lparr>sk_sys = wsys_init w, sk_calls = 0\<rparr>"

lemma wsys_act_step: "wsys_act env a s = s \<or> wsys_step env s (wsys_act env a s)"
proof (cases a)
  case TakeBatch
  then show ?thesis by (auto split: prod.splits option.splits intro: wsys_step.take_batch)
next
  case FinishBatch
  then show ?thesis
    by (auto split: prod.splits go.splits bool.splits intro: wsys_step.finish_ok wsys_step.finish_stuck)
next
  case (DrainRun fuel)
  then show ?thesis by (auto split: go.splits option.splits intro: wsys_step.drain)
qed

lemma wsys_act_grows:
  "set (ws_handed s) \<subseteq> set (ws_handed (wsys_act env a s))"
  "ws_accepted (wsys_act env a s) = ws_accepted s"
  by (cases a; auto split: prod.splits go.splits bool.splits option.splits)+

lemma wsys_acts:
  assumes "wsys_inv s"
  shows "wsys_inv (foldl (\<lambda>s a. wsys_act env a s) s acts) \<and>
    set (ws_handed s) \<subseteq> set (ws_handed (foldl (\<lambda>s a. wsys_act env a s) s acts)) \<and>
    ws_accepted (foldl (\<lambda>s a. wsys_act env a s) s acts) = ws_accepted s"
  using assms
proof (induction acts arbitrary: s)
  case (Cons a acts)
  have "wsys_inv (wsys_act env a s)"
    using wsys_act_step [of env a s] wsys_inv_step Cons.prems by metis
  from Cons.IH [OF this] show ?case
    using wsys_act_grows [where s = s and env = env and a = a] by (simp add: subset_trans)
qed simp

lemma sink_accept_sound:
  assumes inv: "wsys_inv (sk_sys k)" and run: "sink_accept env sched es k = (err, k')"
  shows "wsys_inv (sk_sys k')" "handed_event k e \<Longrightarrow> handed_event k' e"
    "err = None \<Longrightarrow> e \<in> set es \<Longrightarrow> handed_event k' e"
proof -
  let ?w = "ws_w (sk_sys k)" and ?i = "bw_next (ws_w (sk_sys k))"
  have "wsys_inv (sk_sys k') \<and> (handed_event k e \<longrightarrow> handed_event k' e) \<and>
    (err = None \<and> e \<in> set es \<longrightarrow> handed_event k' e)"
  proof (cases "es = [] \<or> \<not> unat ?i + 1 < 2 ^ 64")
    case True
    then show ?thesis
      using inv run by (auto simp: sink_accept_def Accept_def Let_def split: if_splits)
  next
    case False
    obtain fl w where acc: "Accept es ?w = (Some (?i, fl), w)"
      using False by (auto simp: Accept_def Let_def)
    obtain acts cancelled where sch: "sched (sk_calls k) = (acts, cancelled)" by force
    define s1 where "s1 = (sk_sys k)\<lparr>ws_w := w, ws_accepted := ws_accepted (sk_sys k) @
      map (\<lambda>e. \<lparr>qe_event = e, qe_record_id = ?i\<rparr>) es\<rparr>"
    define s2 where "s2 = foldl (\<lambda>s a. wsys_act env a s) s1 acts"
    have k': "k' = \<lparr>sk_sys = s2, sk_calls = Suc (sk_calls k)\<rparr>"
      and ok: "err = None \<Longrightarrow> ?i \<in> set (bw_done (ws_w s2))"
      using run acc False sch
      by (auto simp: sink_accept_def s1_def s2_def Let_def split: if_splits)
    have "wsys_inv s1" unfolding s1_def using wsys_inv_accept inv acc False by blast
    from wsys_acts [OF this, of env acts] have acts: "wsys_inv s2"
      "set (ws_handed s1) \<subseteq> set (ws_handed s2)" "ws_accepted s2 = ws_accepted s1"
      by (simp_all add: s2_def)
    have "handed_event k' e" if "err = None" "e \<in> set es"
    proof -
      have "\<lparr>qe_event = e, qe_record_id = ?i\<rparr> \<in> set (ws_accepted s2)"
        using that(2) acts(3) by (simp add: s1_def)
      then have "\<lparr>qe_event = e, qe_record_id = ?i\<rparr> \<in> set (ws_handed s2)"
        using wsys_done_handed [OF acts(1) ok [OF that(1)]] by simp
      then show ?thesis by (force simp: handed_event_def k')
    qed
    then show ?thesis
      using acts k' by (auto simp: handed_event_def s1_def)
  qed
  then show "wsys_inv (sk_sys k')" "handed_event k e \<Longrightarrow> handed_event k' e"
    "err = None \<Longrightarrow> e \<in> set es \<Longrightarrow> handed_event k' e"
    by blast+
qed

interpretation writer_sink:
  event_sink "sink_accept env sched" handed_event "\<lambda>k. wsys_inv (sk_sys k)"
  for env :: "('o, 'd, 'c) writer_env" and sched :: "nat \<Rightarrow> waction list \<times> bool"
  by unfold_locales (use sink_accept_sound in blast)+

section \<open>Properties\<close>

text \<open>
  C1. Offsets are committed only for handed-off data: whatever the client fetches and however
  the writer's goroutines are scheduled, every record the reader has passed to
  \<^verbatim>\<open>CommitRecords\<close> decodes, and each of its events is among the events of completed hand-offs.
\<close>

theorem committed_records_handed_off:
  assumes "ke_accept kenv = sink_accept wenv sched"
    and "r = Run kenv passes (NewReader (new_sink (NewBatchWriter cfg failures timeout ov dlq conn)) grp det pub)"
    and "rec \<in> set (rd_commits r)"
  shows "\<exists>batch. DeserializeBatch (ke_json_err kenv) (kr_value rec) = Inr batch \<and>
    set (ib_events batch) \<subseteq> qe_event ` set (ws_handed (sk_sys (rd_sink r)))"
proof -
  let ?w = "NewBatchWriter cfg failures timeout ov dlq conn"
  have "writer_sink.reader_ok kenv (NewReader (new_sink ?w) grp det pub)"
    by (simp add: writer_sink.reader_ok_def NewReader_def new_sink_def wsys_inv_init)
  from writer_sink.Run_ok [OF assms(1) this, of passes] show ?thesis
    using assms(2,3)
    by (auto simp: writer_sink.reader_ok_def writer_sink.record_stored_def handed_event_def subset_iff)
qed

definition demo_record :: krecord where
  "demo_record = \<lparr>kr_partition = 0, kr_offset = 7,
     kr_value = Some (JObj [(''events'', JArr [JObj []])])\<rparr>"

lemma demo_record_decodes:
  "DeserializeBatch je (kr_value demo_record) = Inr \<lparr>ib_events = [zero_event]\<rparr>"
  by (simp add: DeserializeBatch_def demo_record_def unmarshal_def batch_fields_def
      field_decoder_def lens_def)

lemma demo_accept:
  "\<exists>k. sink_accept (demo_env ri ki) (\<lambda>_. ([TakeBatch, FinishBatch], False)) [zero_event]
     (new_sink (demo_writer ([], []))) = (None, k)"
proof -
  let ?w0 = "demo_writer ([] :: ch_row list, [] :: ch_row list)"
  let ?q = "\<lparr>qe_event = zero_event, qe_record_id = 0\<rparr>"
  define w1 where "w1 = ?w0\<lparr>bw_next := 1, bw_signals := [0 \<mapsto> 1], bw_buf := [?q]\<rparr>"
  define w2 where "w2 = w1\<lparr>bw_flight := True, bw_buf := []\<rparr>"
  have acc: "Accept [zero_event] ?w0 = (Some (0, False), w1)" "bw_next ?w0 = 0"
    by (simp_all add: Accept_def w1_def demo_writer_def NewBatchWriter_def)
  have beg: "flush_begin w1 = (Some [?q], w2)"
    by (simp add: flush_begin_def w1_def w2_def demo_writer_def NewBatchWriter_def)
  obtain w3 where core: "handoff_core (demo_env ri ki) [zero_event] w2 = Return (True, w3)"
    using demo_core [of w2] by (auto simp: w2_def w1_def demo_writer_def NewBatchWriter_def)
  have "bw_signals w3 0 = Some 1"
    using handoff_core_frame [OF core] by (simp add: same_book_def w2_def w1_def)
  then have "0 \<in> set (bw_done (signalHandoffSignals [0] 1 w3))"
    by (simp add: signalHandoffSignals_def finishHandoffSignal_def)
  then show ?thesis
    using acc beg core
    by (simp add: sink_accept_def new_sink_def wsys_init_def handoffQueued_def handoffEvents_def)
qed

text \<open>A commit for the witnesses: the position moves to the highest offset plus one.\<close>

fun demo_commit :: "krecord list \<Rightarrow> (int \<Rightarrow> int) \<Rightarrow> (int \<Rightarrow> int)" where
  "demo_commit [] g = g"
| "demo_commit (c # cs) g =
     demo_commit cs (g(kr_partition c := max (g (kr_partition c)) (kr_offset c + 1)))"

lemma demo_commit_mono: "g p \<le> demo_commit cs g p"
proof (induction cs arbitrary: g)
  case (Cons c cs)
  have "g p \<le> (g(kr_partition c := max (g (kr_partition c)) (kr_offset c + 1))) p" by simp
  then show ?case using Cons.IH order_trans by (simp only: demo_commit.simps) blast
qed simp

lemma demo_commit_past: "c \<in> set cs \<Longrightarrow> kr_offset c < demo_commit cs g (kr_partition c)"
proof (induction cs arbitrary: g)
  case (Cons d cs)
  show ?case
  proof (cases "c = d")
    case True
    then show ?thesis
      using demo_commit_mono [of "g(kr_partition d := max (g (kr_partition d)) (kr_offset d + 1))"
          "kr_partition d" cs] by simp
  qed (use Cons in simp)
qed simp

definition demo_reader_env :: "((redis, dlq_topic, ch_row list \<times> ch_row list) writer_sink, int \<Rightarrow> int) reader_env" where
  "demo_reader_env =
     \<lparr>ke_accept = sink_accept (demo_env (\<lambda>_. IoOk) (\<lambda>_. IoOk)) (\<lambda>_. ([TakeBatch, FinishBatch], False)),
      ke_commit = (\<lambda>recs g. (True, demo_commit recs g)),
      ke_json_err = (\<lambda>_. ''invalid character''), ke_produce = (\<lambda>_ _. IoOk), ke_now = int\<rparr>"

definition demo_reader :: "((redis, dlq_topic, ch_row list \<times> ch_row list) writer_sink, int \<Rightarrow> int) reader" where
  "demo_reader = NewReader (new_sink (demo_writer ([], []))) (\<lambda>_. 0) None None"

lemma demo_handle:
  "\<exists>k. handleRecord demo_reader_env demo_record demo_reader =
     (None, demo_reader\<lparr>rd_sink := k, rd_processed := 1\<rparr>)"
  using demo_accept [of "\<lambda>_. IoOk" "\<lambda>_. IoOk"]
  by (auto simp: handleRecord_def demo_record_decodes demo_reader_env_def demo_reader_def
      NewReader_def detect_and_publish_def)

theorem committed_records_handed_off_witness:
  "\<exists>v. let r = Run demo_reader_env [(Fetched [[demo_record]], v)] demo_reader
    in rd_commits r = [demo_record] \<and> zero_event \<in> qe_event ` set (ws_handed (sk_sys (rd_sink r)))"
proof -
  let ?v = "\<lparr>lv_ends = None, lv_committed = None\<rparr>"
  let ?r = "Run demo_reader_env [(Fetched [[demo_record]], ?v)] demo_reader"
  have c: "rd_commits ?r = [demo_record]"
    using demo_handle
    by (auto simp: Run_def run_pass_def reportConsumerLag_def commit_records_def demo_reader_def
        NewReader_def)
  have "ke_accept demo_reader_env =
    sink_accept (demo_env (\<lambda>_. IoOk) (\<lambda>_. IoOk)) (\<lambda>_. ([TakeBatch, FinishBatch], False))"
    by (simp add: demo_reader_env_def)
  from committed_records_handed_off [OF this, of ?r "[(Fetched [[demo_record]], ?v)]"
      "\<lparr>BatchSize = 10, InsertRetries = 3, DrainBatchSize = 5\<rparr>" 5 30 redis_empty
      "\<lparr>dt_records = [], dt_calls = 0, dt_counter = 0\<rparr>" "([], [])" "\<lambda>_. 0" None None demo_record]
  have "zero_event \<in> qe_event ` set (ws_handed (sk_sys (rd_sink ?r)))"
    using c demo_record_decodes by (simp add: demo_reader_def demo_writer_def)
  with c show ?thesis by (intro exI [of _ ?v]) (simp add: Let_def)
qed

text \<open>
  Observation. A record that cannot be decoded is committed past: when a partition delivers it before
  one that is handed off, the pass counts a deserialization error for it and moves the group's
  position beyond its offset, so it is never delivered again.  The hypothesis on the client is
  the documented effect of a successful \<^verbatim>\<open>CommitRecords\<close>.
\<close>

theorem undecodable_record_committed_past:
  assumes "\<forall>recs g g' c. ke_commit env recs g = (True, g') \<and> c \<in> set recs \<longrightarrow>
      kr_offset c < position g' (kr_partition c)"
    and "fst (ke_commit env [good] (rd_group r))"
    and "kr_partition bad = kr_partition good" "kr_offset bad < kr_offset good"
    and "kr_value bad = None"
    and "fst (handleRecord env good (r\<lparr>rd_deserialize_errors := Suc (rd_deserialize_errors r)\<rparr>)) = None"
  shows "let r' = run_pass env (Fetched [[bad, good]], v) r
    in kr_offset bad < position (rd_group r') (kr_partition bad) \<and>
       rd_deserialize_errors r' = Suc (rd_deserialize_errors r) \<and>
       rd_commits r' = rd_commits r @ [good]"
proof -
  let ?r1 = "r\<lparr>rd_deserialize_errors := Suc (rd_deserialize_errors r)\<rparr>"
  have bad: "handleRecord env bad r =
      (Some (''unmarshal ingest batch: '' @ ke_json_err env (kr_value bad)), r)"
    by (simp add: handleRecord_def DeserializeBatch_def unmarshal_def assms(5))
  have cls: "isDeserializeErr (''unmarshal ingest batch: '' @ m)" for m
    by (simp add: isDeserializeErr_def)
  obtain r2 where good: "handleRecord env good ?r1 = (None, r2)"
    using assms(6) by (metis prod.collapse)
  have frame: "rd_group r2 = rd_group r" "rd_commits r2 = rd_commits r"
    "rd_deserialize_errors r2 = Suc (rd_deserialize_errors r)"
    using good by (auto simp: handleRecord_def detect_and_publish_def Let_def
        split: sum.splits prod.splits option.splits)
  obtain g where g: "ke_commit env [good] (rd_group r) = (True, g)"
    using assms(2) by (metis prod.collapse)
  then have "kr_offset bad < position g (kr_partition bad)"
    using assms(1,3,4) by fastforce
  then show ?thesis
    using bad cls good frame g
    by (simp add: run_pass_def commit_records_def reportConsumerLag_def split: option.splits)
qed

theorem undecodable_record_committed_past_witness:
  "let bad = \<lparr>kr_partition = 0, kr_offset = 6, kr_value = None\<rparr>;
       r' = run_pass demo_reader_env (Fetched [[bad, demo_record]],
              \<lparr>lv_ends = None, lv_committed = None\<rparr>) demo_reader
   in 6 < rd_group r' 0 \<and> rd_deserialize_errors r' = 1"
proof -
  let ?bad = "\<lparr>kr_partition = 0, kr_offset = 6, kr_value = None\<rparr>"
  have "\<forall>recs g g' c. ke_commit demo_reader_env recs g = (True, g') \<and> c \<in> set recs \<longrightarrow>
      kr_offset c < g' (kr_partition c)"
    by (auto simp: demo_reader_env_def intro: demo_commit_past)
  moreover have "fst (ke_commit demo_reader_env [demo_record] (rd_group demo_reader))"
    by (simp add: demo_reader_env_def)
  moreover have "fst (handleRecord demo_reader_env demo_record
      (demo_reader\<lparr>rd_deserialize_errors := Suc (rd_deserialize_errors demo_reader)\<rparr>)) = None"
    using demo_accept [of "\<lambda>_. IoOk" "\<lambda>_. IoOk"]
    by (auto simp: handleRecord_def demo_record_decodes demo_reader_env_def demo_reader_def
      NewReader_def detect_and_publish_def)
  ultimately show ?thesis
    using undecodable_record_committed_past [of demo_reader_env "\<lambda>g. g" demo_record demo_reader ?bad
        "\<lparr>lv_ends = None, lv_committed = None\<rparr>"]
    by (simp add: demo_record_def demo_reader_def NewReader_def Let_def)
qed

end
