(* ===== verification/Go_Flag.thy ===== *)
theory Go_Flag
  imports Prelude
begin

text \<open>
  What the command lines of the repository use of Go's standard library: the parser of the \<^verbatim>\<open>flag\<close>
  package for flags that take a value, \<^verbatim>\<open>os.Getenv\<close>, \<^verbatim>\<open>strconv.Atoi\<close> and \<^verbatim>\<open>strings.Index\<close>.
\<close>

section \<open>Flags\<close>

text \<open>
  A flag set names each flag with the function that stores its value, which fails on a value that
  does not parse.  The first parser is for flag sets without boolean flags.
\<close>

type_synonym 'a flag_set = "(string \<times> (string \<Rightarrow> 'a \<Rightarrow> 'a option)) list"

text \<open>The part before the first equals sign after the first character, and what follows it.\<close>

fun cut_equals :: "string \<Rightarrow> string \<times> string option" where
  "cut_equals [] = ([], None)"
| "cut_equals (c # s) =
     (if c = CHR ''='' then ([], Some s) else let (n, v) = cut_equals s in (c # n, v))"

text \<open>
  \<^verbatim>\<open>FlagSet.Parse\<close>: parsing stops at the first argument that is not a flag and after \<^verbatim>\<open>--\<close>; the result
  is \<open>None\<close> for bad syntax, an unknown flag (\<^verbatim>\<open>-h\<close> and \<^verbatim>\<open>-help\<close> included), a missing value or a value
  that does not parse.
\<close>

fun parse_flags :: "'a flag_set \<Rightarrow> string list \<Rightarrow> 'a \<Rightarrow> 'a option" where
  "parse_flags fs [] a = Some a"
| "parse_flags fs (s # rest) a =
     (if length s < 2 \<or> hd s \<noteq> CHR ''-'' \<or> s = ''--'' then Some a
      else
        let name = (if s ! 1 = CHR ''-'' then drop 2 s else drop 1 s) in
        if name = [] \<or> hd name = CHR ''-'' \<or> hd name = CHR ''='' then None
        else
          let (n, v) = cut_equals name in
          case map_of fs n of
            None \<Rightarrow> None
          | Some store \<Rightarrow>
              (case v of
                 Some x \<Rightarrow> (case store x a of None \<Rightarrow> None | Some b \<Rightarrow> parse_flags fs rest b)
               | None \<Rightarrow>
                   (case rest of
                      [] \<Rightarrow> None
                    | x # rest' \<Rightarrow> (case store x a of None \<Rightarrow> None | Some b \<Rightarrow> parse_flags fs rest' b))))"

text \<open>A flag of type string accepts every value.\<close>

definition string_flag :: "(string \<Rightarrow> 'a \<Rightarrow> 'a) \<Rightarrow> string \<Rightarrow> 'a \<Rightarrow> 'a option" where
  "string_flag upd v a = Some (upd v a)"

definition parsed_flag :: "(string \<Rightarrow> 'v option) \<Rightarrow> ('v \<Rightarrow> 'a \<Rightarrow> 'a) \<Rightarrow> string \<Rightarrow> 'a \<Rightarrow> 'a option" where
  "parsed_flag parse upd v a = map_option (\<lambda>x. upd x a) (parse v)"

definition flag_name :: "string \<Rightarrow> bool" where
  "flag_name n \<longleftrightarrow> n \<noteq> [] \<and> hd n \<noteq> CHR ''-'' \<and> CHR ''='' \<notin> set n"

lemma cut_equals_plain: "CHR ''='' \<notin> set n \<Longrightarrow> cut_equals n = (n, None)"
  by (induction n) auto

lemma cut_equals_value: "CHR ''='' \<notin> set n \<Longrightarrow> cut_equals (n @ CHR ''='' # v) = (n, Some v)"
  by (induction n) auto

lemma flag_name_hd: "flag_name n \<Longrightarrow> \<exists>c s. n = c # s \<and> c \<noteq> CHR ''-'' \<and> c \<noteq> CHR ''=''"
  by (cases n) (auto simp: flag_name_def)

text \<open>The four ways to write a flag and its value are the same.\<close>

lemma parse_flag_spellings:
  assumes "flag_name n" "map_of fs n = Some store"
  shows "parse_flags fs ((''--'' @ n) # v # rest) a = (case store v a of None \<Rightarrow> None | Some b \<Rightarrow> parse_flags fs rest b)"
    and "parse_flags fs ((''-'' @ n) # v # rest) a = (case store v a of None \<Rightarrow> None | Some b \<Rightarrow> parse_flags fs rest b)"
    and "parse_flags fs ((''--'' @ n @ ''='' @ v) # rest) a = (case store v a of None \<Rightarrow> None | Some b \<Rightarrow> parse_flags fs rest b)"
    and "parse_flags fs ((''-'' @ n @ ''='' @ v) # rest) a = (case store v a of None \<Rightarrow> None | Some b \<Rightarrow> parse_flags fs rest b)"
proof -
  obtain c s where n: "n = c # s" "c \<noteq> CHR ''-''" "c \<noteq> CHR ''=''" using flag_name_hd [OF assms(1)] by blast
  have eq: "CHR ''='' \<notin> set s" using assms(1) n by (auto simp: flag_name_def)
  have "cut_equals s = (s, None)" "cut_equals (s @ CHR ''='' # v) = (s, Some v)"
    using cut_equals_plain [OF eq] cut_equals_value [OF eq] by auto
  with assms(2) n show
    "parse_flags fs ((''--'' @ n) # v # rest) a = (case store v a of None \<Rightarrow> None | Some b \<Rightarrow> parse_flags fs rest b)"
    "parse_flags fs ((''-'' @ n) # v # rest) a = (case store v a of None \<Rightarrow> None | Some b \<Rightarrow> parse_flags fs rest b)"
    "parse_flags fs ((''--'' @ n @ ''='' @ v) # rest) a = (case store v a of None \<Rightarrow> None | Some b \<Rightarrow> parse_flags fs rest b)"
    "parse_flags fs ((''-'' @ n @ ''='' @ v) # rest) a = (case store v a of None \<Rightarrow> None | Some b \<Rightarrow> parse_flags fs rest b)"
    by simp_all
qed

declare parse_flags.simps(2) [simp del]

text \<open>
  The same parser for flag sets with boolean flags, which take a value only after an equals sign, and
  with the error for \<^verbatim>\<open>-h\<close> and \<^verbatim>\<open>-help\<close> told apart, as a flag set that exits on errors does.
\<close>

datatype flag_error = HelpRequested | BadUsage

fun parse_args :: "string list \<Rightarrow> 'a flag_set \<Rightarrow> string list \<Rightarrow> 'a \<Rightarrow> flag_error + 'a" where
  "parse_args bools fs [] a = Inr a"
| "parse_args bools fs (s # rest) a =
     (if length s < 2 \<or> hd s \<noteq> CHR ''-'' \<or> s = ''--'' then Inr a
      else
        let name = (if s ! 1 = CHR ''-'' then drop 2 s else drop 1 s) in
        if name = [] \<or> hd name = CHR ''-'' \<or> hd name = CHR ''='' then Inl BadUsage
        else
          let (n, v) = cut_equals name in
          case map_of fs n of
            None \<Rightarrow> Inl (if n = ''help'' \<or> n = ''h'' then HelpRequested else BadUsage)
          | Some store \<Rightarrow>
              (case v of
                 Some x \<Rightarrow> (case store x a of None \<Rightarrow> Inl BadUsage | Some b \<Rightarrow> parse_args bools fs rest b)
               | None \<Rightarrow>
                   if n \<in> set bools
                   then (case store ''true'' a of None \<Rightarrow> Inl BadUsage | Some b \<Rightarrow> parse_args bools fs rest b)
                   else
                   (case rest of
                      [] \<Rightarrow> Inl BadUsage
                    | x # rest' \<Rightarrow> (case store x a of None \<Rightarrow> Inl BadUsage | Some b \<Rightarrow> parse_args bools fs rest' b))))"

lemma parse_args_no_bools:
  "parse_flags fs args a = (case parse_args [] fs args a of Inl _ \<Rightarrow> None | Inr b \<Rightarrow> Some b)"
proof (induction "length args" arbitrary: args a rule: less_induct)
  case less
  show ?case
  proof (cases args)
    case (Cons s rest)
    have IH: "parse_flags fs r b = (case parse_args [] fs r b of Inl _ \<Rightarrow> None | Inr c \<Rightarrow> Some c)" if "length r \<le> length rest" for r b
      using less that Cons by simp
    have store: "(case x of None \<Rightarrow> None | Some b \<Rightarrow> parse_flags fs r b) =
        (case (case x of None \<Rightarrow> Inl BadUsage | Some b \<Rightarrow> parse_args [] fs r b) of Inl _ \<Rightarrow> None | Inr c \<Rightarrow> Some c)"
      if "length r \<le> length rest" for x r
      using IH [OF that] by (cases x) simp_all
    let ?name = "if s ! 1 = CHR ''-'' then drop 2 s else drop 1 s"
    obtain n v where cut: "cut_equals ?name = (n, v)" by fastforce
    show ?thesis
    proof (cases "length s < 2 \<or> hd s \<noteq> CHR ''-'' \<or> s = ''--'' \<or> ?name = [] \<or> hd ?name = CHR ''-'' \<or> hd ?name = CHR ''='' \<or> map_of fs n = None")
      case True
      then show ?thesis using cut by (auto simp: Cons parse_flags.simps(2) Let_def)
    next
      case False
      then obtain st where "map_of fs n = Some st" by auto
      with False cut show ?thesis
        by (cases v; cases rest) (simp_all add: Cons parse_flags.simps(2) Let_def store)
    qed
  qed simp
qed

text \<open>A value written after its flag, a value after an equals sign, and a boolean flag alone.\<close>

lemma parse_args_spellings:
  assumes "flag_name n" "map_of fs n = Some store"
  shows "n \<notin> set bools \<Longrightarrow> parse_args bools fs ((''--'' @ n) # v # rest) a =
      (case store v a of None \<Rightarrow> Inl BadUsage | Some b \<Rightarrow> parse_args bools fs rest b)"
    and "parse_args bools fs ((''--'' @ n @ ''='' @ v) # rest) a =
      (case store v a of None \<Rightarrow> Inl BadUsage | Some b \<Rightarrow> parse_args bools fs rest b)"
    and "n \<in> set bools \<Longrightarrow> parse_args bools fs ((''--'' @ n) # rest) a =
      (case store ''true'' a of None \<Rightarrow> Inl BadUsage | Some b \<Rightarrow> parse_args bools fs rest b)"
proof -
  obtain c s where n: "n = c # s" "c \<noteq> CHR ''-''" "c \<noteq> CHR ''=''" using flag_name_hd [OF assms(1)] by blast
  have eq: "CHR ''='' \<notin> set s" using assms(1) n by (auto simp: flag_name_def)
  have "cut_equals s = (s, None)" "cut_equals (s @ CHR ''='' # v) = (s, Some v)"
    using cut_equals_plain [OF eq] cut_equals_value [OF eq] by auto
  with assms(2) n show
    "n \<notin> set bools \<Longrightarrow> parse_args bools fs ((''--'' @ n) # v # rest) a =
      (case store v a of None \<Rightarrow> Inl BadUsage | Some b \<Rightarrow> parse_args bools fs rest b)"
    "parse_args bools fs ((''--'' @ n @ ''='' @ v) # rest) a =
      (case store v a of None \<Rightarrow> Inl BadUsage | Some b \<Rightarrow> parse_args bools fs rest b)"
    "n \<in> set bools \<Longrightarrow> parse_args bools fs ((''--'' @ n) # rest) a =
      (case store ''true'' a of None \<Rightarrow> Inl BadUsage | Some b \<Rightarrow> parse_args bools fs rest b)"
    by simp_all
qed

declare parse_args.simps(2) [simp del]

text \<open>\<^verbatim>\<open>strconv.ParseBool\<close>.\<close>

definition ParseBool :: "string \<Rightarrow> bool option" where
  "ParseBool s =
     (if s \<in> {''1'', ''t'', ''T'', ''TRUE'', ''true'', ''True''} then Some True
      else if s \<in> {''0'', ''f'', ''F'', ''FALSE'', ''false'', ''False''} then Some False
      else None)"

section \<open>The environment\<close>

type_synonym environ = "string \<rightharpoonup> string"

definition Getenv :: "environ \<Rightarrow> string \<Rightarrow> string" where
  "Getenv vars key = (case vars key of None \<Rightarrow> [] | Some v \<Rightarrow> v)"

section \<open>Numbers\<close>

definition all_digits :: "string \<Rightarrow> bool" where
  "all_digits s \<longleftrightarrow> s \<noteq> [] \<and> list_all (\<lambda>c. 48 \<le> (of_char c :: nat) \<and> (of_char c :: nat) < 58) s"

text \<open>\<^verbatim>\<open>strconv.Atoi\<close>: an optional sign and decimal digits, in the range of a 64-bit integer.\<close>

definition Atoi :: "string \<Rightarrow> int option" where
  "Atoi s =
     (let neg = (s \<noteq> [] \<and> hd s = CHR ''-'');
          ds = (if s \<noteq> [] \<and> (hd s = CHR ''-'' \<or> hd s = CHR ''+'') then tl s else s);
          n = (if neg then - int (undigits ds) else int (undigits ds))
      in if all_digits ds \<and> - (2 ^ 63) \<le> n \<and> n < 2 ^ 63 then Some n else None)"

lemma all_digits_digits_of: "all_digits (digits_of n)"
  by (auto simp: all_digits_def list_all_iff dest: digits_of_range)

lemma Atoi_itoa: "- (2 ^ 63) \<le> i \<Longrightarrow> i < 2 ^ 63 \<Longrightarrow> Atoi (itoa i) = Some i"
proof -
  assume i: "- (2 ^ 63) \<le> i" "i < 2 ^ 63"
  have "hd (digits_of n) \<noteq> CHR ''-'' \<and> hd (digits_of n) \<noteq> CHR ''+''" for n
    using digits_of_range [OF hd_in_set [OF digits_of_nonempty], of n] by auto
  with i show ?thesis
    by (auto simp: Atoi_def itoa_def Let_def undigits_digits all_digits_digits_of)
qed

lemma Atoi_range: "Atoi s = Some n \<Longrightarrow> - (2 ^ 63) \<le> n \<and> n < 2 ^ 63"
  by (auto simp: Atoi_def Let_def split: if_splits)

section \<open>Searching\<close>

text \<open>\<^verbatim>\<open>strings.Index\<close>; \<open>None\<close> stands for the result -1.\<close>

fun str_index :: "string \<Rightarrow> string \<Rightarrow> nat option" where
  "str_index [] p = (if p = [] then Some 0 else None)"
| "str_index (c # s) p = (if has_prefix (c # s) p then Some 0 else map_option Suc (str_index s p))"

lemma str_index_char: "c \<notin> set a \<Longrightarrow> str_index (a @ c # b) [c] = Some (length a)"
  by (induction a) auto

lemma str_index_char_None: "str_index s [c] = None \<longleftrightarrow> c \<notin> set s"
  by (induction s) auto

lemma str_index_Some: "str_index s p = Some i \<Longrightarrow> has_prefix (drop i s) p \<and> i \<le> length s"
  by (induction s arbitrary: i) (auto split: if_splits)

end
