(* ===== verification/Consumer_Config.thy ===== *)
theory Consumer_Config
  imports Kafka_Reader Go_Flag
begin

text \<open>
  The consumer as a process: its settings from the environment
  (\<^verbatim>\<open>consumer/internal/config/config.go\<close>), the start-up of \<^verbatim>\<open>consumer/cmd/consumer/main.go\<close>, and the loop
  of tickers \<^verbatim>\<open>BatchWriter.Start\<close> that runs beside the reader
  (\<^verbatim>\<open>consumer/internal/clickhouse/writer.go\<close>).

  \<^verbatim>\<open>strconv.ParseFloat\<close> and \<^verbatim>\<open>time.ParseDuration\<close> are the arguments \<open>pf\<close> and \<open>pdur\<close>; durations are
  nanoseconds.
\<close>

section \<open>Settings\<close>

record consumer_config =
  cf_kafka_brokers :: string
  cf_kafka_topic :: string
  cf_kafka_group :: string
  cf_dlq_topic :: string
  cf_anomalies_topic :: string
  cf_redis_url :: string
  cf_overflow_key :: string
  cf_clickhouse_dsn :: string
  cf_metrics_port :: int
  cf_log_level :: string
  cf_batch_size :: int
  cf_flush_interval :: int
  cf_cb_failures :: int
  cf_cb_reset :: int
  cf_insert_retries :: int
  cf_drain_interval :: int
  cf_drain_batch :: int
  cf_z_threshold :: real
  cf_window_size :: int
  cf_min_samples :: int

definition envOr :: "environ \<Rightarrow> string \<Rightarrow> string \<Rightarrow> string" where
  "envOr vars key fallback = (let v = trim_space (Getenv vars key) in if v \<noteq> [] then v else fallback)"

definition envIntOr :: "environ \<Rightarrow> string \<Rightarrow> int \<Rightarrow> int" where
  "envIntOr vars key fallback =
     (let v = trim_space (Getenv vars key) in
      if v = [] then fallback else case Atoi v of None \<Rightarrow> fallback | Some n \<Rightarrow> n)"

definition envFloatOr :: "(string \<Rightarrow> real option) \<Rightarrow> environ \<Rightarrow> string \<Rightarrow> real \<Rightarrow> real" where
  "envFloatOr pf vars key fallback =
     (let v = trim_space (Getenv vars key) in
      if v = [] then fallback else case pf v of None \<Rightarrow> fallback | Some n \<Rightarrow> n)"

definition envDurationOr :: "(string \<Rightarrow> int option) \<Rightarrow> environ \<Rightarrow> string \<Rightarrow> int \<Rightarrow> int" where
  "envDurationOr pdur vars key fallback =
     (let v = trim_space (Getenv vars key) in
      if v = [] then fallback else case pdur v of None \<Rightarrow> fallback | Some d \<Rightarrow> d)"

definition LoadFromEnv :: "(string \<Rightarrow> real option) \<Rightarrow> (string \<Rightarrow> int option) \<Rightarrow> environ \<Rightarrow> consumer_config" where
  "LoadFromEnv pf pdur vars =
     \<lparr>cf_kafka_brokers = envOr vars ''KAFKA_BROKERS'' ''127.0.0.1:9092'',
      cf_kafka_topic = envOr vars ''KAFKA_TOPIC'' ''ai_inference_events'',
      cf_kafka_group = envOr vars ''KAFKA_GROUP_ID'' ''ai-inference-consumer-dev'',
      cf_dlq_topic = envOr vars ''KAFKA_DLQ_TOPIC'' ''ai_inference_dlq'',
      cf_anomalies_topic = envOr vars ''KAFKA_ANOMALIES_TOPIC'' ''ai_anomalies'',
      cf_redis_url = envOr vars ''REDIS_URL'' ''redis://127.0.0.1:6379'',
      cf_overflow_key = envOr vars ''REDIS_OVERFLOW_KEY'' ''ai_inference:overflow'',
      cf_clickhouse_dsn = envOr vars ''CLICKHOUSE_DSN'' ''clickhouse://127.0.0.1:9000/infra_ai'',
      cf_metrics_port = envIntOr vars ''METRICS_PORT'' 9091,
      cf_log_level = envOr vars ''LOG_LEVEL'' ''info'',
      cf_batch_size = envIntOr vars ''BATCH_SIZE'' 1000,
      cf_flush_interval = envDurationOr pdur vars ''FLUSH_INTERVAL'' (500 * 10 ^ 6),
      cf_cb_failures = envIntOr vars ''CB_FAILURE_THRESHOLD'' 5,
      cf_cb_reset = envDurationOr pdur vars ''CB_RESET_TIMEOUT'' (30 * 10 ^ 9),
      cf_insert_retries = envIntOr vars ''CLICKHOUSE_INSERT_RETRIES'' 3,
      cf_drain_interval = envDurationOr pdur vars ''OVERFLOW_DRAIN_INTERVAL'' (5 * 10 ^ 9),
      cf_drain_batch = envIntOr vars ''OVERFLOW_DRAIN_BATCH'' 5000,
      cf_z_threshold = envFloatOr pf vars ''ANOMALY_Z_THRESHOLD'' (envFloatOr pf vars ''ANOMALY_ZSCORE_THRESHOLD'' 3),
      cf_window_size = envIntOr vars ''ANOMALY_WINDOW_SIZE'' 100,
      cf_min_samples = envIntOr vars ''ANOMALY_MIN_SAMPLES'' 20\<rparr>"


section \<open>The ticker loop\<close>


text \<open>
  What happens around the \<^verbatim>\<open>select\<close> loop before the context is cancelled: the two tickers, the calls of
  \<^verbatim>\<open>Accept\<close> by the reader's goroutine, and the goroutines \<^verbatim>\<open>go w.Flush(ctx)\<close> that an \<^verbatim>\<open>Accept\<close> starts when the
  buffer has reached the batch size.  The critical sections of such a flush are events of their own, so
  that everything else may happen between them: \<open>BackFlag\<close> tests and sets the flag, \<open>BackTake\<close> takes the
  buffer, \<open>BackEnd\<close> hands off and releases the flag.  \<open>BackSkip\<close> is a goroutine that found the flag set by
  a flush of the loop itself.
\<close>

datatype ticker_event = FlushTick | DrainTick nat | AcceptCall "inference_event list" | BackFlag | BackTake | BackEnd | BackSkip

datatype back_flush = NoFlush | Flagged | Holding "queued_event list"

text \<open>The writer, the number of goroutines started and not yet run, and how far a running one is.\<close>

record ('o, 'd, 'c) writer_loop =
  wl_writer :: "('o, 'd, 'c) batch_writer"
  wl_spawned :: nat
  wl_back :: back_flush

definition back_flag :: "('o, 'd, 'c) writer_loop \<Rightarrow> ('o, 'd, 'c) writer_loop" where
  "back_flag s =
     (if wl_spawned s = 0 then s
      else if bw_flight (wl_writer s) then s\<lparr>wl_spawned := wl_spawned s - 1\<rparr>
      else s\<lparr>wl_writer := (wl_writer s)\<lparr>bw_flight := True\<rparr>, wl_spawned := wl_spawned s - 1, wl_back := Flagged\<rparr>)"

definition back_take :: "('o, 'd, 'c) writer_loop \<Rightarrow> ('o, 'd, 'c) writer_loop" where
  "back_take s =
     (if wl_back s \<noteq> Flagged then s
      else if bw_buf (wl_writer s) = [] then s\<lparr>wl_writer := (wl_writer s)\<lparr>bw_flight := False\<rparr>, wl_back := NoFlush\<rparr>
      else s\<lparr>wl_writer := (wl_writer s)\<lparr>bw_buf := []\<rparr>, wl_back := Holding (bw_buf (wl_writer s))\<rparr>)"

definition back_end :: "('o, 'd, 'c) writer_env \<Rightarrow> ('o, 'd, 'c) writer_loop \<Rightarrow> ('o, 'd, 'c) writer_loop go" where
  "back_end env s =
     (case wl_back s of
        Holding queued \<Rightarrow>
          go_bind (handoffQueued env queued (wl_writer s))
            (\<lambda>w. Return (s\<lparr>wl_writer := w\<lparr>bw_flight := False\<rparr>, wl_back := NoFlush\<rparr>))
      | _ \<Rightarrow> Return s)"

definition loop_accept :: "inference_event list \<Rightarrow> ('o, 'd, 'c) writer_loop \<Rightarrow> ('o, 'd, 'c) writer_loop" where
  "loop_accept events s =
     (let (r, w) = Accept events (wl_writer s)
      in s\<lparr>wl_writer := w, wl_spawned := wl_spawned s + (case r of Some (_, True) \<Rightarrow> 1 | _ \<Rightarrow> 0)\<rparr>)"

text \<open>
  The loop over the events before the cancellation and the last flush after it, which returns at once
  while another is in flight.  A drain carries the fuel of its loop and \<open>None\<close> says that one did not end.
\<close>

fun ticker_loop ::
  "('o, 'd, 'c) writer_env \<Rightarrow> ticker_event list \<Rightarrow> ('o, 'd, 'c) writer_loop \<Rightarrow> ('o, 'd, 'c) writer_loop option go" where
  "ticker_loop env [] s = go_bind (Flush env (wl_writer s)) (\<lambda>w. Return (Some (s\<lparr>wl_writer := w\<rparr>)))"
| "ticker_loop env (FlushTick # ts) s = go_bind (Flush env (wl_writer s)) (\<lambda>w. ticker_loop env ts (s\<lparr>wl_writer := w\<rparr>))"
| "ticker_loop env (DrainTick fuel # ts) s =
     go_bind (drainOverflow env fuel (wl_writer s))
       (\<lambda>r. case r of None \<Rightarrow> Return None | Some w \<Rightarrow> ticker_loop env ts (s\<lparr>wl_writer := w\<rparr>))"
| "ticker_loop env (AcceptCall events # ts) s = ticker_loop env ts (loop_accept events s)"
| "ticker_loop env (BackFlag # ts) s = ticker_loop env ts (back_flag s)"
| "ticker_loop env (BackTake # ts) s = ticker_loop env ts (back_take s)"
| "ticker_loop env (BackSkip # ts) s = ticker_loop env ts (s\<lparr>wl_spawned := wl_spawned s - 1\<rparr>)"
| "ticker_loop env (BackEnd # ts) s = go_bind (back_end env s) (ticker_loop env ts)"


section \<open>Start-up\<close>




section \<open>Hand-offs with at least one attempt return\<close>












lemma Accept_keeps: "bw_cfg (snd (Accept es w)) = bw_cfg w" "bw_flight (snd (Accept es w)) = bw_flight w"
  by (simp_all add: Accept_def Let_def)

lemma Flush_in_flight: "bw_flight w \<Longrightarrow> Flush env w = Return w"
  by (simp add: Flush_def flush_begin_def)








text \<open>
  Observation.  A cancellation during a background flush: whatever was accepted since the flush took
  the buffer is still there when the loop returns, and nothing will hand it off.
\<close>

theorem shutdown_skips_last_flush:
  assumes "wl_back s \<noteq> NoFlush" "bw_flight (wl_writer s)"
  shows "ticker_loop env [AcceptCall events] s = Return (Some (loop_accept events s)) \<and>
    bw_buf (wl_writer (loop_accept events s)) = bw_buf (wl_writer s) @ map (\<lambda>e. \<lparr>qe_event = e, qe_record_id = bw_next (wl_writer s)\<rparr>) events"
proof -
  have "wl_writer (loop_accept events s) = snd (Accept events (wl_writer s))" by (simp add: loop_accept_def split: prod.splits)
  then have "bw_flight (wl_writer (loop_accept events s))" using Accept_keeps(2) [of events "wl_writer s"] assms(2) by simp
  then have "ticker_loop env [AcceptCall events] s = Return (Some (loop_accept events s))" by (simp add: Flush_in_flight)
  moreover have "bw_buf (snd (Accept events (wl_writer s))) =
      bw_buf (wl_writer s) @ map (\<lambda>e. \<lparr>qe_event = e, qe_record_id = bw_next (wl_writer s)\<rparr>) events"
    by (simp add: Accept_def Let_def)
  ultimately show ?thesis by (simp add: loop_accept_def split: prod.splits)
qed

lemma trim_space_empty [simp]: "trim_space [] = []"
  by (simp add: trim_space_def strip_left.simps strip_one_def space_runes_def)




section \<open>Settings survive the environment\<close>

text \<open>The environment that sets every variable; the texts of float and durations are arguments.\<close>

definition config_vars :: "string \<Rightarrow> string \<Rightarrow> string \<Rightarrow> string \<Rightarrow> consumer_config \<Rightarrow> environ" where
  "config_vars zt ft ct dt cfg = map_of
     [(''KAFKA_BROKERS'', cf_kafka_brokers cfg), (''KAFKA_TOPIC'', cf_kafka_topic cfg), (''KAFKA_GROUP_ID'', cf_kafka_group cfg),
      (''KAFKA_DLQ_TOPIC'', cf_dlq_topic cfg), (''KAFKA_ANOMALIES_TOPIC'', cf_anomalies_topic cfg), (''REDIS_URL'', cf_redis_url cfg),
      (''REDIS_OVERFLOW_KEY'', cf_overflow_key cfg), (''CLICKHOUSE_DSN'', cf_clickhouse_dsn cfg),
      (''METRICS_PORT'', itoa (cf_metrics_port cfg)), (''LOG_LEVEL'', cf_log_level cfg), (''BATCH_SIZE'', itoa (cf_batch_size cfg)),
      (''FLUSH_INTERVAL'', ft), (''CB_FAILURE_THRESHOLD'', itoa (cf_cb_failures cfg)), (''CB_RESET_TIMEOUT'', ct),
      (''CLICKHOUSE_INSERT_RETRIES'', itoa (cf_insert_retries cfg)), (''OVERFLOW_DRAIN_INTERVAL'', dt),
      (''OVERFLOW_DRAIN_BATCH'', itoa (cf_drain_batch cfg)), (''ANOMALY_Z_THRESHOLD'', zt),
      (''ANOMALY_WINDOW_SIZE'', itoa (cf_window_size cfg)), (''ANOMALY_MIN_SAMPLES'', itoa (cf_min_samples cfg))]"

definition trimmed :: "string \<Rightarrow> bool" where
  "trimmed s \<longleftrightarrow> s \<noteq> [] \<and> trim_space s = s"

definition config_texts :: "consumer_config \<Rightarrow> string list" where
  "config_texts cfg =
     [cf_kafka_brokers cfg, cf_kafka_topic cfg, cf_kafka_group cfg, cf_dlq_topic cfg, cf_anomalies_topic cfg, cf_redis_url cfg,
      cf_overflow_key cfg, cf_clickhouse_dsn cfg, cf_log_level cfg]"

definition config_ints :: "consumer_config \<Rightarrow> int list" where
  "config_ints cfg =
     [cf_metrics_port cfg, cf_batch_size cfg, cf_cb_failures cfg, cf_insert_retries cfg, cf_drain_batch cfg,
      cf_window_size cfg, cf_min_samples cfg]"

text \<open>No white space starts or ends with a printable ASCII character.\<close>

lemma strip_left_stop: "\<forall>r \<in> set rs. r \<noteq> [] \<and> hd r \<noteq> c \<Longrightarrow> strip_left rs (c # s) = c # s"
proof -
  assume a: "\<forall>r \<in> set rs. r \<noteq> [] \<and> hd r \<noteq> c"
  have "\<not> has_prefix (c # s) r" if "r \<in> set rs" for r using a that by (cases r) auto
  then have "filter (has_prefix (c # s)) rs = []" by (simp add: filter_empty_conv)
  then show ?thesis by (simp add: strip_left.simps strip_one_def)
qed

lemma space_runes_ends:
  "\<forall>r \<in> set space_runes. r \<noteq> [] \<and> \<not> (33 \<le> (of_char (hd r) :: nat) \<and> (of_char (hd r) :: nat) < 127)"
  "\<forall>r \<in> set (map rev space_runes). r \<noteq> [] \<and> \<not> (33 \<le> (of_char (hd r) :: nat) \<and> (of_char (hd r) :: nat) < 127)"
  by (simp_all add: space_runes_def)

lemma trim_printable:
  assumes "s \<noteq> []" "list_all (\<lambda>c. 33 \<le> (of_char c :: nat) \<and> (of_char c :: nat) < 127) s"
  shows "trim_space s = s"
proof -
  have stop: "strip_left rs t = t" if "t \<noteq> []" "set t \<subseteq> set s"
    "\<forall>r \<in> set rs. r \<noteq> [] \<and> \<not> (33 \<le> (of_char (hd r) :: nat) \<and> (of_char (hd r) :: nat) < 127)" for rs t
  proof -
    obtain c u where "t = c # u" using \<open>t \<noteq> []\<close> by (cases t) auto
    then show ?thesis using that(2,3) assms(2) by (auto simp: list_all_iff intro!: strip_left_stop)
  qed
  have "strip_left space_runes s = s" by (rule stop) (use assms(1) space_runes_ends(1) in auto)
  moreover have "strip_left (map rev space_runes) (rev s) = rev s" by (rule stop) (use assms(1) space_runes_ends(2) in auto)
  ultimately show ?thesis by (simp add: trim_space_def)
qed

lemma trim_itoa [simp]: "trim_space (itoa i) = itoa i"
  by (rule trim_printable) (auto simp: list_all_iff dest: itoa_range)

lemma envOr_set: "vars key = Some v \<Longrightarrow> trimmed v \<Longrightarrow> envOr vars key fallback = v"
  by (simp add: envOr_def Getenv_def trimmed_def)

lemma envIntOr_set:
  "vars key = Some (itoa n) \<Longrightarrow> - (2 ^ 63) \<le> n \<and> n < 2 ^ 63 \<Longrightarrow> envIntOr vars key fallback = n"
  by (simp add: envIntOr_def Getenv_def Atoi_itoa)

lemma envFloatOr_set: "vars key = Some v \<Longrightarrow> trimmed v \<Longrightarrow> pf v = Some x \<Longrightarrow> envFloatOr pf vars key fallback = x"
  by (simp add: envFloatOr_def Getenv_def trimmed_def)

lemma envDurationOr_set: "vars key = Some v \<Longrightarrow> trimmed v \<Longrightarrow> pdur v = Some x \<Longrightarrow> envDurationOr pdur vars key fallback = x"
  by (simp add: envDurationOr_def Getenv_def trimmed_def)

lemma config_vars_lookup:
  "config_vars zt ft ct dt cfg ''KAFKA_BROKERS'' = Some (cf_kafka_brokers cfg)"
  "config_vars zt ft ct dt cfg ''KAFKA_TOPIC'' = Some (cf_kafka_topic cfg)"
  "config_vars zt ft ct dt cfg ''KAFKA_GROUP_ID'' = Some (cf_kafka_group cfg)"
  "config_vars zt ft ct dt cfg ''KAFKA_DLQ_TOPIC'' = Some (cf_dlq_topic cfg)"
  "config_vars zt ft ct dt cfg ''KAFKA_ANOMALIES_TOPIC'' = Some (cf_anomalies_topic cfg)"
  "config_vars zt ft ct dt cfg ''REDIS_URL'' = Some (cf_redis_url cfg)"
  "config_vars zt ft ct dt cfg ''REDIS_OVERFLOW_KEY'' = Some (cf_overflow_key cfg)"
  "config_vars zt ft ct dt cfg ''CLICKHOUSE_DSN'' = Some (cf_clickhouse_dsn cfg)"
  "config_vars zt ft ct dt cfg ''METRICS_PORT'' = Some (itoa (cf_metrics_port cfg))"
  "config_vars zt ft ct dt cfg ''LOG_LEVEL'' = Some (cf_log_level cfg)"
  "config_vars zt ft ct dt cfg ''BATCH_SIZE'' = Some (itoa (cf_batch_size cfg))"
  "config_vars zt ft ct dt cfg ''FLUSH_INTERVAL'' = Some (ft)"
  "config_vars zt ft ct dt cfg ''CB_FAILURE_THRESHOLD'' = Some (itoa (cf_cb_failures cfg))"
  "config_vars zt ft ct dt cfg ''CB_RESET_TIMEOUT'' = Some (ct)"
  "config_vars zt ft ct dt cfg ''CLICKHOUSE_INSERT_RETRIES'' = Some (itoa (cf_insert_retries cfg))"
  "config_vars zt ft ct dt cfg ''OVERFLOW_DRAIN_INTERVAL'' = Some (dt)"
  "config_vars zt ft ct dt cfg ''OVERFLOW_DRAIN_BATCH'' = Some (itoa (cf_drain_batch cfg))"
  "config_vars zt ft ct dt cfg ''ANOMALY_Z_THRESHOLD'' = Some (zt)"
  "config_vars zt ft ct dt cfg ''ANOMALY_WINDOW_SIZE'' = Some (itoa (cf_window_size cfg))"
  "config_vars zt ft ct dt cfg ''ANOMALY_MIN_SAMPLES'' = Some (itoa (cf_min_samples cfg))"
  by (simp_all add: config_vars_def)

text \<open>
  C35.  Every setting can be given through the environment: for settings whose texts are not empty and
  have no white space around them, whose numbers are 64-bit integers and whose threshold and durations
  have texts that parse to them, the process started with these variables has exactly these settings.
\<close>

theorem settings_roundtrip:
  assumes "list_all trimmed (config_texts cfg)" "list_all (\<lambda>n. - (2 ^ 63) \<le> n \<and> n < 2 ^ 63) (config_ints cfg)"
    and "list_all trimmed [zt, ft, ct, dt]"
    and "pf zt = Some (cf_z_threshold cfg)" "pdur ft = Some (cf_flush_interval cfg)"
    and "pdur ct = Some (cf_cb_reset cfg)" "pdur dt = Some (cf_drain_interval cfg)"
  shows "LoadFromEnv pf pdur (config_vars zt ft ct dt cfg) = cfg"
  unfolding LoadFromEnv_def
  by (rule consumer_config.equality)
    (use assms in \<open>simp_all add: config_vars_lookup envOr_set envIntOr_set envFloatOr_set envDurationOr_set config_texts_def config_ints_def\<close>)

theorem settings_roundtrip_witness:
  "LoadFromEnv (\<lambda>s. if s = ''2.5'' then Some (5 / 2) else None) (\<lambda>s. if s = ''1s'' then Some (10 ^ 9) else None)
     (config_vars ''2.5'' ''1s'' ''1s'' ''1s''
       \<lparr>cf_kafka_brokers = ''k'', cf_kafka_topic = ''t'', cf_kafka_group = ''g'', cf_dlq_topic = ''d'', cf_anomalies_topic = ''a'',
        cf_redis_url = ''r'', cf_overflow_key = ''o'', cf_clickhouse_dsn = ''c'', cf_metrics_port = 9091, cf_log_level = ''info'',
        cf_batch_size = 7, cf_flush_interval = 10 ^ 9, cf_cb_failures = 5, cf_cb_reset = 10 ^ 9, cf_insert_retries = 3,
        cf_drain_interval = 10 ^ 9, cf_drain_batch = 50, cf_z_threshold = 5 / 2, cf_window_size = 100, cf_min_samples = - 1\<rparr>) =
   \<lparr>cf_kafka_brokers = ''k'', cf_kafka_topic = ''t'', cf_kafka_group = ''g'', cf_dlq_topic = ''d'', cf_anomalies_topic = ''a'',
    cf_redis_url = ''r'', cf_overflow_key = ''o'', cf_clickhouse_dsn = ''c'', cf_metrics_port = 9091, cf_log_level = ''info'',
    cf_batch_size = 7, cf_flush_interval = 10 ^ 9, cf_cb_failures = 5, cf_cb_reset = 10 ^ 9, cf_insert_retries = 3,
    cf_drain_interval = 10 ^ 9, cf_drain_batch = 50, cf_z_threshold = 5 / 2, cf_window_size = 100, cf_min_samples = - 1\<rparr>"
proof (rule settings_roundtrip, goal_cases)
  case 1
  have "trimmed ''k'' \<and> trimmed ''t'' \<and> trimmed ''g'' \<and> trimmed ''d'' \<and> trimmed ''a'' \<and> trimmed ''r'' \<and> trimmed ''o'' \<and>
      trimmed ''c'' \<and> trimmed ''info''"
    by (simp add: trimmed_def trim_printable)
  then show ?case by (simp add: config_texts_def)
next
  case 3
  have "trimmed ''2.5'' \<and> trimmed ''1s''"
    by (simp add: trimmed_def trim_printable)
  then show ?case by simp
qed (simp_all add: config_ints_def)

end
