(* ===== verification/Budget_Config.thy ===== *)
theory Budget_Config
  imports Go_Json
begin

text \<open>
  Tenant budget configuration of the cost-budget-enforcer (\<^verbatim>\<open>pkg/config/config.go\<close> and
  \<^verbatim>\<open>pkg/config/live.go\<close>): loading with defaults, lookup per tenant, validation and the live
  store the admin API patches.  The thresholds are real numbers.
\<close>

section \<open>Tenant configuration\<close>

record tenant_config =
  BudgetTokens :: int
  WindowSeconds :: int
  FallbackModel :: string
  AlertWebhookURL :: string
  AlertThreshold :: real
  SoftThreshold :: real
  HardThreshold :: real
  FailClosed :: bool

definition zero_tenant :: tenant_config where
  "zero_tenant = \<lparr>BudgetTokens = 0, WindowSeconds = 0, FallbackModel = [], AlertWebhookURL = [],
     AlertThreshold = 0, SoftThreshold = 0, HardThreshold = 0, FailClosed = False\<rparr>"

definition DefaultWindowSeconds :: int where "DefaultWindowSeconds = 86400"
definition DefaultAlertThreshold :: real where "DefaultAlertThreshold = 8 / 10"
definition DefaultSoftThreshold :: real where "DefaultSoftThreshold = 1"
definition DefaultHardThreshold :: real where "DefaultHardThreshold = 12 / 10"

definition tenant_fields :: "tenant_config fields" where
  "tenant_fields =
     [(''budget_tokens'', lens BudgetTokens (\<lambda>x c. c\<lparr>BudgetTokens := x\<rparr>) dec_int64),
      (''window_seconds'', lens WindowSeconds (\<lambda>x c. c\<lparr>WindowSeconds := x\<rparr>) dec_int64),
      (''fallback_model'', lens FallbackModel (\<lambda>x c. c\<lparr>FallbackModel := x\<rparr>) dec_string),
      (''alert_webhook_url'', lens AlertWebhookURL (\<lambda>x c. c\<lparr>AlertWebhookURL := x\<rparr>) dec_string),
      (''alert_threshold'', lens AlertThreshold (\<lambda>x c. c\<lparr>AlertThreshold := x\<rparr>) dec_float),
      (''soft_threshold'', lens SoftThreshold (\<lambda>x c. c\<lparr>SoftThreshold := x\<rparr>) dec_float),
      (''hard_threshold'', lens HardThreshold (\<lambda>x c. c\<lparr>HardThreshold := x\<rparr>) dec_float),
      (''fail_closed'', lens FailClosed (\<lambda>x c. c\<lparr>FailClosed := x\<rparr>) dec_bool)]"

record budget_config =
  cfg_default :: tenant_config
  cfg_tenants :: "string \<rightharpoonup> tenant_config"

definition config_fields :: "budget_config fields" where
  "config_fields =
     [(''default'', lens cfg_default (\<lambda>x c. c\<lparr>cfg_default := x\<rparr>) (dec_struct tenant_fields)),
      (''tenants'', lens cfg_tenants (\<lambda>x c. c\<lparr>cfg_tenants := x\<rparr>)
         (dec_map (dec_struct tenant_fields) zero_tenant))]"

definition applyDefaults :: "tenant_config \<Rightarrow> tenant_config" where
  "applyDefaults tc =
     (let tc = (if WindowSeconds tc = 0 then tc\<lparr>WindowSeconds := DefaultWindowSeconds\<rparr> else tc);
          tc = (if AlertThreshold tc = 0 then tc\<lparr>AlertThreshold := DefaultAlertThreshold\<rparr> else tc);
          tc = (if SoftThreshold tc = 0 then tc\<lparr>SoftThreshold := DefaultSoftThreshold\<rparr> else tc);
          tc = (if HardThreshold tc = 0 then tc\<lparr>HardThreshold := DefaultHardThreshold\<rparr> else tc)
      in tc)"

text \<open>\<^verbatim>\<open>Load\<close>: \<open>None\<close> for the file is a read error.\<close>

datatype load_error = ReadError | ParseError

definition Load :: "payload option \<Rightarrow> load_error + budget_config" where
  "Load file =
     (case file of
        None \<Rightarrow> Inl ReadError
      | Some data \<Rightarrow>
          (case unmarshal (dec_struct config_fields) data
                  \<lparr>cfg_default = zero_tenant, cfg_tenants = Map.empty\<rparr> of
             None \<Rightarrow> Inl ParseError
           | Some cfg \<Rightarrow> Inr (cfg\<lparr>cfg_default := applyDefaults (cfg_default cfg),
               cfg_tenants := map_option applyDefaults \<circ> cfg_tenants cfg\<rparr>)))"

definition ForTenant :: "string \<Rightarrow> budget_config \<Rightarrow> tenant_config" where
  "ForTenant tenantID c =
     (case cfg_tenants c tenantID of
        Some tc \<Rightarrow> tc
      | None \<Rightarrow>
          if BudgetTokens (cfg_default c) \<noteq> 0 then cfg_default c else applyDefaults zero_tenant)"

datatype config_error = BadBudget | BadWindow | ErrInvalidThresholds

definition Validate :: "tenant_config \<Rightarrow> config_error option" where
  "Validate tc =
     (if BudgetTokens tc \<le> 0 then Some BadBudget
      else if WindowSeconds tc \<le> 0 then Some BadWindow
      else if \<not> (0 < AlertThreshold tc \<and> AlertThreshold tc < SoftThreshold tc \<and>
                 SoftThreshold tc < HardThreshold tc)
      then Some ErrInvalidThresholds else None)"

section \<open>Live store\<close>

record tenant_patch =
  p_budget_tokens :: "int option"
  p_window_seconds :: "int option"
  p_fallback_model :: "string option"
  p_alert_webhook_url :: "string option"
  p_alert_threshold :: "real option"
  p_soft_threshold :: "real option"
  p_hard_threshold :: "real option"

definition empty_patch :: tenant_patch where
  "empty_patch = \<lparr>p_budget_tokens = None, p_window_seconds = None, p_fallback_model = None,
     p_alert_webhook_url = None, p_alert_threshold = None, p_soft_threshold = None,
     p_hard_threshold = None\<rparr>"

definition patch_fields :: "tenant_patch fields" where
  "patch_fields =
     [(''budget_tokens'', lens p_budget_tokens (\<lambda>x c. c\<lparr>p_budget_tokens := x\<rparr>) (dec_ptr dec_int64 0)),
      (''window_seconds'', lens p_window_seconds (\<lambda>x c. c\<lparr>p_window_seconds := x\<rparr>) (dec_ptr dec_int64 0)),
      (''fallback_model'', lens p_fallback_model (\<lambda>x c. c\<lparr>p_fallback_model := x\<rparr>) (dec_ptr dec_string [])),
      (''alert_webhook_url'', lens p_alert_webhook_url (\<lambda>x c. c\<lparr>p_alert_webhook_url := x\<rparr>) (dec_ptr dec_string [])),
      (''alert_threshold'', lens p_alert_threshold (\<lambda>x c. c\<lparr>p_alert_threshold := x\<rparr>) (dec_ptr dec_float 0)),
      (''soft_threshold'', lens p_soft_threshold (\<lambda>x c. c\<lparr>p_soft_threshold := x\<rparr>) (dec_ptr dec_float 0)),
      (''hard_threshold'', lens p_hard_threshold (\<lambda>x c. c\<lparr>p_hard_threshold := x\<rparr>) (dec_ptr dec_float 0))]"

definition apply_patch :: "tenant_patch \<Rightarrow> tenant_config \<Rightarrow> tenant_config" where
  "apply_patch p base =
     (let base = (case p_budget_tokens p of None \<Rightarrow> base | Some x \<Rightarrow> base\<lparr>BudgetTokens := x\<rparr>);
          base = (case p_window_seconds p of None \<Rightarrow> base | Some x \<Rightarrow> base\<lparr>WindowSeconds := x\<rparr>);
          base = (case p_fallback_model p of None \<Rightarrow> base | Some x \<Rightarrow> base\<lparr>FallbackModel := x\<rparr>);
          base = (case p_alert_webhook_url p of None \<Rightarrow> base | Some x \<Rightarrow> base\<lparr>AlertWebhookURL := x\<rparr>);
          base = (case p_alert_threshold p of None \<Rightarrow> base | Some x \<Rightarrow> base\<lparr>AlertThreshold := x\<rparr>);
          base = (case p_soft_threshold p of None \<Rightarrow> base | Some x \<Rightarrow> base\<lparr>SoftThreshold := x\<rparr>);
          base = (case p_hard_threshold p of None \<Rightarrow> base | Some x \<Rightarrow> base\<lparr>HardThreshold := x\<rparr>)
      in base)"

text \<open>
  \<^verbatim>\<open>LiveStore\<close> is the configuration behind a mutex: each method is one atomic step on it.  The
  first components of the results are \<^verbatim>\<open>before\<close> and \<^verbatim>\<open>after\<close>.
\<close>

definition Patch ::
  "string \<Rightarrow> tenant_patch \<Rightarrow> budget_config \<Rightarrow>
   (tenant_config \<times> tenant_config \<times> config_error option) \<times> budget_config" where
  "Patch tenantID patch s =
     (let before = ForTenant tenantID s; candidate = apply_patch patch before
      in case Validate candidate of
           Some err \<Rightarrow> ((before, zero_tenant, Some err), s)
         | None \<Rightarrow> ((before, candidate, None), s\<lparr>cfg_tenants := (cfg_tenants s)(tenantID \<mapsto> candidate)\<rparr>))"

definition Set :: "string \<Rightarrow> tenant_config \<Rightarrow> budget_config \<Rightarrow> budget_config" where
  "Set tenantID tc s = s\<lparr>cfg_tenants := (cfg_tenants s)(tenantID \<mapsto> tc)\<rparr>"

section \<open>Lemmas\<close>

lemma Validate_None_iff:
  "Validate tc = None \<longleftrightarrow> 0 < BudgetTokens tc \<and> 0 < WindowSeconds tc \<and> 0 < AlertThreshold tc \<and>
     AlertThreshold tc < SoftThreshold tc \<and> SoftThreshold tc < HardThreshold tc"
  by (auto simp: Validate_def)

lemma ForTenant_Set: "ForTenant t (Set u tc s) = (if t = u then tc else ForTenant t s)"
  by (simp add: ForTenant_def Set_def split: option.splits)

lemma Patch_ok:
  assumes "Patch u p s = ((before, after, None), s')"
  shows "before = ForTenant u s" "after = apply_patch p before" "Validate after = None" "s' = Set u after s"
  using assms by (auto simp: Patch_def Set_def Let_def split: option.splits)

lemma Patch_err:
  assumes "Patch u p s = ((before, after, Some err), s')"
  shows "s' = s" "Validate (apply_patch p (ForTenant u s)) = Some err"
  using assms by (auto simp: Patch_def Let_def split: option.splits)

text \<open>\<^verbatim>\<open>Load\<close> never leaves a window or a threshold at zero.\<close>

lemma applyDefaults_nonzero:
  "WindowSeconds (applyDefaults tc) \<noteq> 0" "AlertThreshold (applyDefaults tc) \<noteq> 0"
  "SoftThreshold (applyDefaults tc) \<noteq> 0" "HardThreshold (applyDefaults tc) \<noteq> 0"
  by (simp_all add: applyDefaults_def DefaultWindowSeconds_def DefaultAlertThreshold_def
      DefaultSoftThreshold_def DefaultHardThreshold_def Let_def)

lemma applyDefaults_idem: "applyDefaults (applyDefaults tc) = applyDefaults tc"
  using applyDefaults_nonzero [of tc] by (simp add: applyDefaults_def [of "applyDefaults tc"])

lemma Load_ForTenant_defaults:
  "Load file = Inr c \<Longrightarrow> applyDefaults (ForTenant t c) = ForTenant t c"
  by (auto simp: Load_def ForTenant_def applyDefaults_idem split: option.splits)

end
