(* ===== verification/Budget_Store.thy ===== *)
theory Budget_Store
  imports Prelude
begin

text \<open>
  The sliding-window token counter of the cost-budget-enforcer (\<^verbatim>\<open>pkg/store/store.go\<close> and
  \<^verbatim>\<open>pkg/store/redisstore.go\<close>).  The Go interface \<^verbatim>\<open>Store\<close> is the locale \<open>budget_store\<close>,
  whose laws speak of the history of recorded tokens; \<^verbatim>\<open>RedisStore\<close> (the Lua script, the alert
  flags, key expiry) interprets it.
\<close>

section \<open>Windows\<close>

text \<open>Instants are nanoseconds since the epoch; \<^verbatim>\<open>Unix\<close> gives the seconds.\<close>

definition Unix :: "int \<Rightarrow> int" where
  "Unix t = t div 10 ^ 9"

definition WindowIndex :: "int \<Rightarrow> int \<Rightarrow> int" where
  "WindowIndex now windowSeconds = tdiv (Unix now) windowSeconds"

definition WindowStart :: "int \<Rightarrow> int \<Rightarrow> int" where
  "WindowStart windowIndex windowSeconds = windowIndex * windowSeconds * 10 ^ 9"

lemma WindowIndex_div: "0 \<le> now \<Longrightarrow> 0 < W \<Longrightarrow> WindowIndex now W = Unix now div W"
  by (simp add: WindowIndex_def Unix_def tdiv_nonneg)

section \<open>The specification: usage of a history\<close>

text \<open>A history lists the recorded calls: the second of the call and its tokens.\<close>

type_synonym history = "(int \<times> int) list"

definition window_sum :: "int \<Rightarrow> int \<Rightarrow> history \<Rightarrow> int" where
  "window_sum W i h = sum_list (map snd (filter (\<lambda>(t, _). t div W = i) h))"

text \<open>
  The weighted count: the tokens of the window of \<open>now\<close>, plus those of the window before it
  weighted by the part of the current window still to come.
\<close>

definition usage :: "int \<Rightarrow> int \<Rightarrow> history \<Rightarrow> real" where
  "usage W now h =
     of_int (window_sum W (now div W) h) +
     of_int (window_sum W (now div W - 1) h) * (1 - of_int (now mod W) / of_int W)"

lemma window_sum_snoc [simp]:
  "window_sum W i (h @ [(t, n)]) = window_sum W i h + (if t div W = i then n else 0)"
  by (simp add: window_sum_def)

lemma usage_snoc:
  "0 < W \<Longrightarrow> usage W now (h @ [(now, n)]) = usage W now h + of_int n"
  by (simp add: usage_def)

section \<open>The contract of a budget store\<close>

text \<open>
  \<open>rep win now s h\<close>: at second \<open>now\<close> the store \<open>s\<close> stands for the histories \<open>h\<close>, with
  windows of \<open>win t\<close> seconds for tenant \<open>t\<close>.  A failed call may or may not have been recorded.
\<close>

locale budget_store =
  fixes check :: "string \<Rightarrow> int \<Rightarrow> int \<Rightarrow> int \<Rightarrow> 's \<Rightarrow> real option \<times> 's"
    and mark :: "string \<Rightarrow> int \<Rightarrow> int \<Rightarrow> 's \<Rightarrow> bool option \<times> 's"
    and rep :: "(string \<Rightarrow> int) \<Rightarrow> int \<Rightarrow> 's \<Rightarrow> (string \<Rightarrow> history) \<Rightarrow> bool"
  assumes check_ok: "rep win t0 s h \<Longrightarrow> t0 \<le> Unix now \<Longrightarrow> 0 < win t \<Longrightarrow>
      check t n (win t) now s = (Some w, s') \<Longrightarrow>
      w = usage (win t) (Unix now) (h t @ [(Unix now, n)]) \<and>
      rep win (Unix now) s' (h(t := h t @ [(Unix now, n)]))"
    and check_err: "rep win t0 s h \<Longrightarrow> t0 \<le> Unix now \<Longrightarrow> 0 < win t \<Longrightarrow>
      check t n (win t) now s = (None, s') \<Longrightarrow>
      rep win (Unix now) s' h \<or> rep win (Unix now) s' (h(t := h t @ [(Unix now, n)]))"
    and mark_rep: "rep win t0 s h \<Longrightarrow> t0 \<le> Unix now \<Longrightarrow> 0 < win t \<Longrightarrow>
      mark t (win t) now s = (r, s') \<Longrightarrow> rep win (Unix now) s' h"
begin

lemma check_rep:
  assumes "rep win t0 s h" "t0 \<le> Unix now" "0 < win t" "check t n (win t) now s = (r, s')"
  obtains h' where "rep win (Unix now) s' h'"
  using assms check_ok check_err by (cases r) blast+

end

section \<open>RedisStore\<close>

text \<open>
  Redis is third-party: what the store observes is one key space with expiry times, and per
  request an outcome of the environment: \<open>RFail False\<close> is an error before the server ran the
  request, \<open>RFail True\<close> one after it.  Client and server read the same clock, in seconds.  A key
  has an optional deadline.
  Counters are exact numbers (Lua prints doubles with 14 digits).
\<close>

record bucket =
  bk_index :: int
  bk_current :: int
  bk_previous :: int

datatype redis_value = RHash bucket | RFlag

datatype redis_outcome = ROk | RFail bool

record redis_store =
  rs_keys :: "string \<rightharpoonup> redis_value \<times> int option"
  rs_calls :: nat

definition live :: "int \<Rightarrow> redis_store \<Rightarrow> string \<Rightarrow> redis_value option" where
  "live now s k =
     (case rs_keys s k of
        None \<Rightarrow> None
      | Some (v, None) \<Rightarrow> Some v
      | Some (v, Some dl) \<Rightarrow> if now < dl then Some v else None)"

text \<open>The arithmetic of the Lua script, for a positive window: the new bucket and the result.\<close>

definition script_roll :: "int \<Rightarrow> bucket \<Rightarrow> bucket" where
  "script_roll window_index b =
     (if window_index > bk_index b
      then \<lparr>bk_index = window_index, bk_current = 0,
            bk_previous = (if window_index = bk_index b + 1 then bk_current b else 0)\<rparr>
      else b)"

definition checkAndIncrementScript ::
  "int \<Rightarrow> int \<Rightarrow> int \<Rightarrow> bucket option \<Rightarrow> bucket \<times> real" where
  "checkAndIncrementScript tokens window_seconds now stored =
     (let window_index = now div window_seconds;
          b = script_roll window_index
                (case stored of
                   None \<Rightarrow> \<lparr>bk_index = window_index, bk_current = 0, bk_previous = 0\<rparr>
                 | Some b \<Rightarrow> b);
          elapsed = now - bk_index b * window_seconds;
          weighted = of_int (bk_current b) +
            of_int (bk_previous b) * (1 - of_int elapsed / of_int window_seconds)
      in (b\<lparr>bk_current := bk_current b + tokens\<rparr>, weighted + of_int tokens))"

definition budget_key :: "string \<Rightarrow> string" where
  "budget_key tenantID = ''budget:'' @ tenantID"

definition alert_key :: "string \<Rightarrow> int \<Rightarrow> string" where
  "alert_key tenantID idx = ''budget:'' @ tenantID @ '':alerted:'' @ itoa idx"

text \<open>The script run on the server: a key that holds a flag makes \<^verbatim>\<open>HGET\<close> fail.\<close>

definition eval_script ::
  "string \<Rightarrow> int \<Rightarrow> int \<Rightarrow> int \<Rightarrow> redis_store \<Rightarrow> real option \<times> redis_store" where
  "eval_script key tokens W now s =
     (let run = (\<lambda>stored. let (b, w) = checkAndIncrementScript tokens W now stored
                 in (Some w, s\<lparr>rs_keys := (rs_keys s)(key \<mapsto> (RHash b, Some (now + W * 2)))\<rparr>))
      in case live now s key of
           Some RFlag \<Rightarrow> (None, s)
         | Some (RHash b) \<Rightarrow> run (Some b)
         | None \<Rightarrow> run None)"

definition CheckAndIncrement ::
  "(nat \<Rightarrow> redis_outcome) \<Rightarrow> string \<Rightarrow> int \<Rightarrow> int \<Rightarrow> int \<Rightarrow> redis_store \<Rightarrow>
   real option \<times> redis_store" where
  "CheckAndIncrement io tenantID tokens W now s =
     (let s1 = s\<lparr>rs_calls := Suc (rs_calls s)\<rparr>
      in case io (rs_calls s) of
           RFail False \<Rightarrow> (None, s1)
         | RFail True \<Rightarrow> (None, snd (eval_script (budget_key tenantID) tokens W (Unix now) s1))
         | ROk \<Rightarrow> eval_script (budget_key tenantID) tokens W (Unix now) s1)"

text \<open>
  \<^verbatim>\<open>SetNX\<close> with an expiration in nanoseconds: none for zero, refused by the server when negative,
  and otherwise the key is gone at the first second of the clock after it.
\<close>

definition set_nx :: "string \<Rightarrow> int \<Rightarrow> int \<Rightarrow> redis_store \<Rightarrow> bool option \<times> redis_store" where
  "set_nx key expiration now s =
     (if expiration < 0 then (None, s)
      else case live now s key of
        Some _ \<Rightarrow> (Some False, s)
      | None \<Rightarrow>
          (Some True, s\<lparr>rs_keys := (rs_keys s)(key \<mapsto>
             (RFlag, if expiration = 0 then None else Some (now - (- expiration) div 10 ^ 9)))\<rparr>))"

text \<open>\<^verbatim>\<open>time.Duration(windowSeconds)*time.Second\<close>, an \<^verbatim>\<open>int64\<close>.\<close>

definition alert_ttl :: "int \<Rightarrow> int" where
  "alert_ttl windowSeconds = int64 (windowSeconds * 10 ^ 9)"

definition MarkAlerted ::
  "(nat \<Rightarrow> redis_outcome) \<Rightarrow> string \<Rightarrow> int \<Rightarrow> int \<Rightarrow> redis_store \<Rightarrow> bool option \<times> redis_store" where
  "MarkAlerted io tenantID W now s =
     (let key = alert_key tenantID (WindowIndex now W);
          s1 = s\<lparr>rs_calls := Suc (rs_calls s)\<rparr>;
          (ok, s2) = set_nx key (alert_ttl W) (Unix now) s1
      in case io (rs_calls s) of
           RFail False \<Rightarrow> (None, s1)
         | RFail True \<Rightarrow> (None, s2)
         | ROk \<Rightarrow> (ok, s2))"

lemma alert_ttl_small: "0 < W \<Longrightarrow> W * 10 ^ 9 < 2 ^ 63 \<Longrightarrow> alert_ttl W = W * 10 ^ 9"
  unfolding alert_ttl_def by (rule int64_id) auto

lemma set_nx_small:
  "0 < W \<Longrightarrow> W * 10 ^ 9 < 2 ^ 63 \<Longrightarrow> set_nx key (alert_ttl W) now s =
     (case live now s key of
        Some _ \<Rightarrow> (Some False, s)
      | None \<Rightarrow> (Some True, s\<lparr>rs_keys := (rs_keys s)(key \<mapsto> (RFlag, Some (now + W)))\<rparr>))"
proof -
  assume W: "0 < W" "W * 10 ^ 9 < 2 ^ 63"
  have "(- (W * 10 ^ 9)) div 10 ^ 9 = - W"
    using nonzero_mult_div_cancel_right [of "10 ^ 9 :: int" "- W"] by simp
  then show ?thesis using W by (simp add: set_nx_def alert_ttl_small split: option.split)
qed

section \<open>The script implements the specification\<close>

text \<open>
  \<open>bucket_rep W now b h\<close>: the bucket holds the sums of its window and of the one before,
  nothing was recorded in a later window, and the window of the bucket has begun.
\<close>

definition bucket_rep :: "int \<Rightarrow> int \<Rightarrow> bucket \<Rightarrow> history \<Rightarrow> bool" where
  "bucket_rep W now b h \<longleftrightarrow>
     bk_index b \<le> now div W \<and>
     bk_current b = window_sum W (bk_index b) h \<and>
     bk_previous b = window_sum W (bk_index b - 1) h \<and>
     (\<forall>i > bk_index b. window_sum W i h = 0)"

definition quiet :: "int \<Rightarrow> int \<Rightarrow> history \<Rightarrow> bool" where
  "quiet W now h \<longleftrightarrow> (\<forall>i \<ge> now div W - 1. window_sum W i h = 0)"

definition key_rep :: "int \<Rightarrow> int \<Rightarrow> (redis_value \<times> int option) option \<Rightarrow> history \<Rightarrow> bool" where
  "key_rep W now v h \<longleftrightarrow>
     (case v of
        Some (RHash b, dl) \<Rightarrow>
          bucket_rep W now b h \<and> (case dl of None \<Rightarrow> True | Some d \<Rightarrow> (bk_index b + 2) * W \<le> d)
      | _ \<Rightarrow> quiet W now h)"

definition store_rep :: "(string \<Rightarrow> int) \<Rightarrow> int \<Rightarrow> redis_store \<Rightarrow> (string \<Rightarrow> history) \<Rightarrow> bool" where
  "store_rep win now s h \<longleftrightarrow>
     (\<forall>t. 0 < win t \<longrightarrow> key_rep (win t) now (rs_keys s (budget_key t)) (h t))"

lemma key_rep_later:
  assumes "key_rep W t0 v h" "t0 \<le> now" "0 < W"
  shows "key_rep W now v h"
proof -
  have "t0 div W \<le> now div W" using assms by (simp add: zdiv_mono1)
  then show ?thesis
    using assms(1) by (auto simp: key_rep_def bucket_rep_def quiet_def split: option.splits redis_value.splits)
qed

lemma key_rep_not_hash:
  assumes "key_rep W now v h" "\<nexists>b dl. v = Some (RHash b, dl)"
  shows "quiet W now h"
proof (cases v)
  case (Some p)
  then obtain x dl where "v = Some (x, dl)" by (cases p) auto
  then show ?thesis using assms by (cases x) (auto simp: key_rep_def)
qed (use assms in \<open>auto simp: key_rep_def\<close>)

text \<open>Expiry is invisible: an expired hash stands for a history that no longer counts.\<close>

lemma bucket_expired_quiet:
  assumes "bucket_rep W now b h" "(bk_index b + 2) * W \<le> dl" "dl \<le> now" "0 < W"
  shows "quiet W now h"
proof -
  have "(bk_index b + 2) * W \<le> now" using assms by linarith
  then have "(bk_index b + 2) * W div W \<le> now div W" using assms(4) by (intro zdiv_mono1)
  then have "bk_index b + 2 \<le> now div W" using assms(4) by simp
  then show ?thesis using assms(1) by (auto simp: quiet_def bucket_rep_def)
qed

lemma key_rep_dead:
  assumes "key_rep W now (rs_keys s k) h" "live now s k = None" "0 < W"
  shows "quiet W now h"
proof (cases "\<exists>b dl. rs_keys s k = Some (RHash b, dl)")
  case True
  then show ?thesis
    using assms bucket_expired_quiet [of W now _ h]
    by (auto simp: key_rep_def live_def split: if_splits option.splits)
next
  case False
  then show ?thesis using key_rep_not_hash [OF assms(1)] by blast
qed

lemma script_spec:
  assumes W: "0 < W" and stored: "case stored of None \<Rightarrow> quiet W now h | Some b \<Rightarrow> bucket_rep W now b h"
    and run: "checkAndIncrementScript n W now stored = (b', w)"
  shows "w = usage W now (h @ [(now, n)])" "bucket_rep W now b' (h @ [(now, n)])" "bk_index b' = now div W"
proof -
  define b where "b = script_roll (now div W) (case stored of
      None \<Rightarrow> \<lparr>bk_index = now div W, bk_current = 0, bk_previous = 0\<rparr> | Some b \<Rightarrow> b)"
  have b: "bk_index b = now div W" "bk_current b = window_sum W (now div W) h"
    "bk_previous b = window_sum W (now div W - 1) h" "\<forall>i > now div W. window_sum W i h = 0"
    using stored by (auto simp: b_def script_roll_def bucket_rep_def quiet_def split: option.splits)
  have "now - now div W * W = now mod W" by (simp add: minus_div_mult_eq_mod)
  then have elapsed: "real_of_int now - real_of_int (now div W) * real_of_int W = real_of_int (now mod W)"
    by (metis of_int_diff of_int_mult)
  have "b' = b\<lparr>bk_current := bk_current b + n\<rparr>"
    and w: "w = usage W now h + of_int n"
    using run b elapsed by (auto simp: checkAndIncrementScript_def b_def [symmetric] Let_def usage_def)
  then show "w = usage W now (h @ [(now, n)])" "bk_index b' = now div W"
    "bucket_rep W now b' (h @ [(now, n)])"
    using b W by (auto simp: usage_snoc bucket_rep_def)
qed

lemma budget_key_inject [simp]: "budget_key t = budget_key u \<longleftrightarrow> t = u"
  by (simp add: budget_key_def)

lemma store_rep_upd:
  assumes "store_rep win now s h"
    and "\<And>u. budget_key u = k \<Longrightarrow> 0 < win u \<Longrightarrow> key_rep (win u) now (Some v) (h' u)"
    and "\<And>u. budget_key u \<noteq> k \<Longrightarrow> h' u = h u"
  shows "store_rep win now (s\<lparr>rs_keys := (rs_keys s)(k \<mapsto> v)\<rparr>) h'"
  using assms by (auto simp: store_rep_def)

lemma store_rep_later: "store_rep win t0 s h \<Longrightarrow> t0 \<le> now \<Longrightarrow> store_rep win now s h"
  by (auto simp: store_rep_def intro: key_rep_later)

lemma store_rep_calls [simp]: "store_rep win now (s\<lparr>rs_calls := c\<rparr>) h = store_rep win now s h"
  by (simp add: store_rep_def)

lemma live_calls [simp]: "live now (s\<lparr>rs_calls := c\<rparr>) k = live now s k"
  by (simp add: live_def)

lemma eval_script_spec:
  assumes rep: "store_rep win now s h" and W: "0 < win t"
    and run: "eval_script (budget_key t) n (win t) now s = (r, s')"
  shows "case r of
      None \<Rightarrow> s' = s
    | Some w \<Rightarrow> w = usage (win t) now (h t @ [(now, n)]) \<and>
        store_rep win now s' (h(t := h t @ [(now, n)]))"
proof (cases "live now s (budget_key t) = Some RFlag")
  case True
  then show ?thesis using run by (auto simp: eval_script_def Let_def)
next
  case False
  let ?k = "budget_key t" and ?W = "win t"
  define stored where "stored = (case live now s ?k of Some (RHash b) \<Rightarrow> Some b | _ \<Rightarrow> None)"
  have key: "key_rep ?W now (rs_keys s ?k) (h t)" using rep W by (simp add: store_rep_def)
  have "case stored of None \<Rightarrow> quiet ?W now (h t) | Some b \<Rightarrow> bucket_rep ?W now b (h t)"
    using key_rep_dead [OF key _ W] key False
    by (auto simp: stored_def live_def key_rep_def
        split: option.splits redis_value.splits prod.splits if_splits)
  moreover obtain b w where scr: "checkAndIncrementScript n ?W now stored = (b, w)" by force
  ultimately have "w = usage ?W now (h t @ [(now, n)])" "bucket_rep ?W now b (h t @ [(now, n)])"
    and idx: "bk_index b = now div ?W"
    using script_spec [OF W _ scr] by blast+
  moreover have "(bk_index b + 2) * ?W \<le> now + ?W * 2"
    using window_bounds(1) [OF W, of now] idx by (simp add: algebra_simps)
  moreover have "(r, s') = (Some w, s\<lparr>rs_keys := (rs_keys s)(?k \<mapsto> (RHash b, Some (now + ?W * 2)))\<rparr>)"
    using run False scr
    by (auto simp: eval_script_def stored_def Let_def split: option.splits redis_value.splits)
  ultimately show ?thesis
    using store_rep_upd [OF rep, of ?k "(RHash b, Some (now + ?W * 2))" "h(t := h t @ [(now, n)])"]
    by (auto simp: key_rep_def)
qed

lemma set_nx_spec:
  assumes rep: "store_rep win now s h" and run: "set_nx k ttl now s = (r, s')"
  shows "store_rep win now s' h"
proof (cases "live now s k")
  case None
  have "key_rep (win u) now (Some (RFlag, dl)) (h u)" if "budget_key u = k" "0 < win u" for u dl
    using rep that None key_rep_dead [of "win u" now s k "h u"]
    by (auto simp: store_rep_def key_rep_def)
  then have "store_rep win now (s\<lparr>rs_keys := (rs_keys s)(k \<mapsto> (RFlag, dl))\<rparr>) h" for dl
    using store_rep_upd [OF rep, of k "(RFlag, dl)" h] by blast
  then show ?thesis using run None rep by (auto simp: set_nx_def split: if_splits)
qed (use rep run in \<open>auto simp: set_nx_def split: if_splits\<close>)

lemma CheckAndIncrement_spec:
  assumes rep: "store_rep win t0 s h" and le: "t0 \<le> Unix now" and W: "0 < win t"
    and run: "CheckAndIncrement io t n (win t) now s = (r, s')"
  shows "case r of
      None \<Rightarrow> store_rep win (Unix now) s' h \<or> store_rep win (Unix now) s' (h(t := h t @ [(Unix now, n)]))
    | Some w \<Rightarrow> w = usage (win t) (Unix now) (h t @ [(Unix now, n)]) \<and>
        store_rep win (Unix now) s' (h(t := h t @ [(Unix now, n)]))"
proof -
  let ?s1 = "s\<lparr>rs_calls := Suc (rs_calls s)\<rparr>"
  have rep1: "store_rep win (Unix now) ?s1 h" using store_rep_later [OF rep le] by simp
  obtain r1 s1 where ev: "eval_script (budget_key t) n (win t) (Unix now) ?s1 = (r1, s1)" by force
  show ?thesis
    using run eval_script_spec [OF rep1 W ev] rep1 ev
    by (auto simp: CheckAndIncrement_def Let_def split: redis_outcome.splits bool.splits option.splits)
qed

lemma MarkAlerted_rep:
  assumes rep: "store_rep win t0 s h" and le: "t0 \<le> Unix now"
    and run: "MarkAlerted io t W now s = (r, s')"
  shows "store_rep win (Unix now) s' h"
proof -
  have rep1: "store_rep win (Unix now) (s\<lparr>rs_calls := Suc (rs_calls s)\<rparr>) h"
    using store_rep_later [OF rep le] by simp
  then show ?thesis
    using run set_nx_spec [OF rep1]
    by (auto simp: MarkAlerted_def Let_def split: redis_outcome.splits bool.splits prod.splits)
qed

interpretation redis: budget_store "CheckAndIncrement io" "MarkAlerted io" store_rep
  for io :: "nat \<Rightarrow> redis_outcome"
  by unfold_locales (use CheckAndIncrement_spec MarkAlerted_rep in \<open>fastforce+\<close>)

section \<open>Alert flags\<close>

text \<open>A sequence of calls on the store, by any tenants, and the answers to \<^verbatim>\<open>MarkAlerted\<close>.\<close>

datatype store_call =
    CallCheck (call_tenant: string) int (call_window: int) (call_now: int)
  | CallMark (call_tenant: string) (call_window: int) (call_now: int)

fun run_call ::
  "(nat \<Rightarrow> redis_outcome) \<Rightarrow> store_call \<Rightarrow> redis_store \<Rightarrow> bool option \<times> redis_store" where
  "run_call io (CallCheck t n W now) s = (None, snd (CheckAndIncrement io t n W now s))"
| "run_call io (CallMark t W now) s = MarkAlerted io t W now s"

fun run_calls ::
  "(nat \<Rightarrow> redis_outcome) \<Rightarrow> store_call list \<Rightarrow> redis_store \<Rightarrow> bool option list" where
  "run_calls io [] s = []"
| "run_calls io (c # cs) s = (let (r, s') = run_call io c s in r # run_calls io cs s')"

definition fires :: "string \<Rightarrow> int \<Rightarrow> int \<Rightarrow> store_call \<times> bool option \<Rightarrow> bool" where
  "fires t W idx cr \<longleftrightarrow>
     (case cr of
        (CallMark u V now, Some True) \<Rightarrow> u = t \<and> V = W \<and> WindowIndex now W = idx
      | _ \<Rightarrow> False)"

lemma run_call_keeps_flag:
  assumes "rs_keys s k = Some (RFlag, Some dl)" "Unix (call_now c) < dl" "run_call io c s = (r, s')"
  shows "rs_keys s' k = Some (RFlag, Some dl)"
  using assms
  by (cases c)
     (auto simp: CheckAndIncrement_def MarkAlerted_def eval_script_def set_nx_def live_def Let_def
        split: redis_outcome.splits bool.splits option.splits redis_value.splits prod.splits if_splits)

lemma run_call_fires:
  assumes "fires t W idx (c, r)" "run_call io c s = (r, s')" "0 \<le> call_now c" "0 < W" "W * 10 ^ 9 < 2 ^ 63"
  shows "rs_keys s (alert_key t idx) \<noteq> Some (RFlag, Some dl) \<or> dl \<le> Unix (call_now c)"
    and "\<exists>dl. rs_keys s' (alert_key t idx) = Some (RFlag, Some dl) \<and> (idx + 1) * W \<le> dl"
proof -
  obtain now where c: "c = CallMark t W now" "r = Some True" "WindowIndex now W = idx"
    using assms(1) by (auto simp: fires_def split: store_call.splits option.splits bool.splits)
  then have "idx = Unix now div W" using assms(3,4) by (simp add: WindowIndex_div)
  then have "idx * W \<le> Unix now" using window_bounds(1) [OF assms(4)] by simp
  then show "rs_keys s (alert_key t idx) \<noteq> Some (RFlag, Some dl) \<or> dl \<le> Unix (call_now c)"
    and "\<exists>dl. rs_keys s' (alert_key t idx) = Some (RFlag, Some dl) \<and> (idx + 1) * W \<le> dl"
    using assms(2) c
    by (auto simp: MarkAlerted_def set_nx_small [OF assms(4,5)] live_def Let_def algebra_simps
        split: redis_outcome.splits bool.splits option.splits prod.splits if_splits)
qed

lemma fires_window:
  assumes "fires t W idx (c, r)" "0 \<le> call_now c" "0 < W"
  shows "Unix (call_now c) < (idx + 1) * W"
proof -
  have "idx = Unix (call_now c) div W"
    using assms by (auto simp: fires_def WindowIndex_div split: store_call.splits option.splits bool.splits)
  then show ?thesis using window_bounds(2) [OF assms(3), of "Unix (call_now c)"] by (simp add: algebra_simps)
qed

lemma no_fire_while_flagged:
  assumes "rs_keys s (alert_key t idx) = Some (RFlag, Some dl)" "(idx + 1) * W \<le> dl"
    and "sorted (map call_now cs)" "\<forall>c \<in> set cs. 0 \<le> call_now c" "0 < W" "W * 10 ^ 9 < 2 ^ 63"
  shows "filter (fires t W idx) (zip cs (run_calls io cs s)) = []"
  using assms(1,3,4)
proof (induction cs arbitrary: s)
  case (Cons c cs)
  obtain r s' where run: "run_call io c s = (r, s')" by force
  show ?case
  proof (cases "Unix (call_now c) < (idx + 1) * W")
    case True
    have "\<not> fires t W idx (c, r)"
      using run_call_fires(1) [OF _ run, of t W idx dl] Cons.prems True assms(2,5,6) by force
    moreover have "rs_keys s' (alert_key t idx) = Some (RFlag, Some dl)"
      using run_call_keeps_flag [OF Cons.prems(1) _ run] True assms(2) by simp
    ultimately show ?thesis using Cons.IH [of s'] Cons.prems run by simp
  next
    case False
    have "\<not> fires t W idx cr" if "cr \<in> set (zip (c # cs) (run_calls io (c # cs) s))" for cr
    proof
      assume fire: "fires t W idx cr"
      have in_cs: "fst cr \<in> set (c # cs)" using that by (metis set_zip_leftD prod.collapse)
      then have "call_now c \<le> call_now (fst cr)" "0 \<le> call_now (fst cr)"
        using Cons.prems(2,3) by auto
      moreover from this have "Unix (call_now c) \<le> Unix (call_now (fst cr))"
        by (simp add: Unix_def zdiv_mono1)
      ultimately show False
        using fires_window [of t W idx "fst cr" "snd cr"] fire assms(5) False by simp
    qed
    then show ?thesis by (metis filter_False)
  qed
qed simp

section \<open>Properties\<close>

text \<open>
  C24. The alert flag debounces: however the calls of all tenants interleave and whatever Redis
  answers, as long as the instants of the calls do not go back and the window fits a
  \<^verbatim>\<open>time.Duration\<close>, \<open>MarkAlerted\<close> answers true at most once for a tenant and a window.
\<close>

theorem alert_once_per_window:
  assumes "sorted (map call_now cs)" "\<forall>c \<in> set cs. 0 \<le> call_now c" "0 < W" "W * 10 ^ 9 < 2 ^ 63"
  shows "length (filter (fires t W idx) (zip cs (run_calls io cs s))) \<le> 1"
  using assms(1,2)
proof (induction cs arbitrary: s)
  case (Cons c cs)
  obtain r s' where run: "run_call io c s = (r, s')" by force
  show ?case
  proof (cases "fires t W idx (c, r)")
    case True
    then obtain dl where "rs_keys s' (alert_key t idx) = Some (RFlag, Some dl)" "(idx + 1) * W \<le> dl"
      using run_call_fires(2) [OF True run _ assms(3,4)] Cons.prems by auto
    from no_fire_while_flagged [OF this, of cs io] show ?thesis
      using Cons.prems run assms(3,4) by simp
  qed (use Cons run in simp)
qed simp

theorem alert_once_per_window_witness:
  "let cs = [CallMark ''acme'' 60 (10 ^ 9), CallMark ''acme'' 60 (2 * 10 ^ 9)];
       rs = run_calls (\<lambda>_. ROk) cs \<lparr>rs_keys = Map.empty, rs_calls = 0\<rparr>
   in rs = [Some True, Some False] \<and> length (filter (fires ''acme'' 60 0) (zip cs rs)) \<le> 1"
proof -
  let ?cs = "[CallMark ''acme'' 60 (10 ^ 9), CallMark ''acme'' 60 (2 * 10 ^ 9)]"
  let ?s = "\<lparr>rs_keys = Map.empty, rs_calls = 0\<rparr>"
  have "run_calls (\<lambda>_. ROk) ?cs ?s = [Some True, Some False]"
    by (simp add: MarkAlerted_def set_nx_small live_def Unix_def WindowIndex_def tdiv_def)
  moreover have "length (filter (fires ''acme'' 60 0) (zip ?cs (run_calls (\<lambda>_. ROk) ?cs ?s))) \<le> 1"
    by (rule alert_once_per_window) simp_all
  ultimately show ?thesis by (simp add: Let_def)
qed

text \<open>
  Observation.  The expiration of a longer window wraps around: for a window of 18446744074 seconds
  it is 290448384 nanoseconds, and the same window is alerted again a second later.
\<close>

theorem alert_ttl_wraps:
  "alert_ttl 18446744074 = 290448384 \<and>
   run_calls (\<lambda>_. ROk) [CallMark ''acme'' 18446744074 (10 ^ 9), CallMark ''acme'' 18446744074 (2 * 10 ^ 9)]
     \<lparr>rs_keys = Map.empty, rs_calls = 0\<rparr> = [Some True, Some True]"
proof -
  have ttl: "alert_ttl 18446744074 = 290448384" by (simp add: alert_ttl_def int64_def)
  then show ?thesis
    by (simp add: MarkAlerted_def set_nx_def live_def Unix_def WindowIndex_def tdiv_def)
qed

end
