(* ===== verification/Budget_Enforcer.thy ===== *)
theory Budget_Enforcer
  imports Budget_Config Budget_Store
begin

text \<open>
  The decision of the cost-budget-enforcer (\<^verbatim>\<open>pkg/enforcer/enforcer.go\<close>): \<^verbatim>\<open>Check\<close> records
  the tokens, classifies the weighted count by the three thresholds and fires the alert webhook.
  It is written against the operations of a store; its lemma is proved from the contract
  \<^const>\<open>budget_store\<close> and used through the Redis interpretation.
\<close>

section \<open>Check\<close>

datatype action = Pass | Alert | Degrade | Block

fun action_string :: "action \<Rightarrow> string" where
  "action_string Pass = ''pass''"
| "action_string Alert = ''alert''"
| "action_string Degrade = ''degrade''"
| "action_string Block = ''block''"

record decision =
  d_action :: action
  d_fallback_model :: string
  d_retry_after :: int
  d_fire_webhook :: bool
  d_percent :: real
  d_weighted :: real

definition zero_decision :: decision where
  "zero_decision = \<lparr>d_action = Pass, d_fallback_model = [], d_retry_after = 0,
     d_fire_webhook = False, d_percent = 0, d_weighted = 0\<rparr>"

record alert_payload =
  ap_tenant_id :: string
  ap_window_start :: int
  ap_window_seconds :: int
  ap_budget_tokens :: int
  ap_consumed_tokens :: real
  ap_percent_consumed :: real
  ap_threshold_crossed :: string
  ap_timestamp :: int

datatype check_error = StoreError | MarkError | WebhookError

text \<open>
  The webhook is \<open>None\<close> when not configured; otherwise it tells for each send whether it
  succeeds.  \<open>en_sent\<close> lists the payloads handed to it.
\<close>

record 's enforcer_env =
  ee_check :: "string \<Rightarrow> int \<Rightarrow> int \<Rightarrow> int \<Rightarrow> 's \<Rightarrow> real option \<times> 's"
  ee_mark :: "string \<Rightarrow> int \<Rightarrow> int \<Rightarrow> 's \<Rightarrow> bool option \<times> 's"
  ee_webhook :: "(nat \<Rightarrow> bool) option"

record 's enforcer =
  en_store :: 's
  en_sent :: "alert_payload list"

text \<open>\<^verbatim>\<open>windowEnd.Sub(now)\<close> in nanoseconds; the duration of the window is an \<^verbatim>\<open>int64\<close>.\<close>

definition retry_after :: "int \<Rightarrow> int \<Rightarrow> int" where
  "retry_after now W = WindowStart (WindowIndex now W) W + int64 (W * 10 ^ 9) - now"

definition alert_payload_of ::
  "string \<Rightarrow> tenant_config \<Rightarrow> int \<Rightarrow> real \<Rightarrow> real \<Rightarrow> alert_payload" where
  "alert_payload_of tenantID cfg now weighted percent =
     \<lparr>ap_tenant_id = tenantID,
      ap_window_start = Unix (WindowStart (WindowIndex now (WindowSeconds cfg)) (WindowSeconds cfg)),
      ap_window_seconds = WindowSeconds cfg, ap_budget_tokens = BudgetTokens cfg,
      ap_consumed_tokens = weighted, ap_percent_consumed = percent,
      ap_threshold_crossed = ''alert'', ap_timestamp = Unix now\<rparr>"

definition alert_branch ::
  "'s enforcer_env \<Rightarrow> string \<Rightarrow> tenant_config \<Rightarrow> int \<Rightarrow> decision \<Rightarrow> 's enforcer \<Rightarrow>
   (check_error + decision) \<times> 's enforcer" where
  "alert_branch env tenantID cfg now d e =
     (case ee_mark env tenantID (WindowSeconds cfg) now (en_store e) of
        (None, s) \<Rightarrow> (Inl MarkError, e\<lparr>en_store := s\<rparr>)
      | (Some fired, s) \<Rightarrow>
          let e1 = e\<lparr>en_store := s\<rparr>; d1 = d\<lparr>d_action := Alert, d_fire_webhook := fired\<rparr>
          in case (fired, ee_webhook env) of
               (True, Some send) \<Rightarrow>
                 let e2 = e1\<lparr>en_sent := en_sent e1 @
                       [alert_payload_of tenantID cfg now (d_weighted d) (d_percent d)]\<rparr>
                 in if send (length (en_sent e1)) then (Inr d1, e2) else (Inl WebhookError, e2)
             | _ \<Rightarrow> (Inr d1, e1))"

definition Check ::
  "'s enforcer_env \<Rightarrow> string \<Rightarrow> int \<Rightarrow> tenant_config \<Rightarrow> int \<Rightarrow> 's enforcer \<Rightarrow>
   (check_error + decision) \<times> 's enforcer" where
  "Check env tenantID tokensEstimate cfg now e =
     (if BudgetTokens cfg \<le> 0 then (Inr zero_decision, e)
      else
        case ee_check env tenantID tokensEstimate (WindowSeconds cfg) now (en_store e) of
          (None, s) \<Rightarrow> (Inl StoreError, e\<lparr>en_store := s\<rparr>)
        | (Some weighted, s) \<Rightarrow>
            let percent = weighted / of_int (BudgetTokens cfg);
                d = zero_decision\<lparr>d_percent := percent, d_weighted := weighted\<rparr>;
                e1 = e\<lparr>en_store := s\<rparr>
            in if percent \<ge> HardThreshold cfg
               then (Inr (d\<lparr>d_action := Block, d_retry_after := retry_after now (WindowSeconds cfg)\<rparr>), e1)
               else if percent \<ge> SoftThreshold cfg
               then (Inr (d\<lparr>d_action := Degrade, d_fallback_model := FallbackModel cfg\<rparr>), e1)
               else if percent \<ge> AlertThreshold cfg
               then alert_branch env tenantID cfg now d e1
               else (Inr d, e1))"

section \<open>What the decision depends on\<close>

definition classify :: "tenant_config \<Rightarrow> real \<Rightarrow> action" where
  "classify cfg used =
     (let budget = of_int (BudgetTokens cfg)
      in if HardThreshold cfg * budget \<le> used then Block
         else if SoftThreshold cfg * budget \<le> used then Degrade
         else if AlertThreshold cfg * budget \<le> used then Alert else Pass)"

lemma percent_ge: "0 < b \<Longrightarrow> (w / of_int b \<ge> x) \<longleftrightarrow> x * of_int b \<le> (w :: real)"
  by (simp add: pos_le_divide_eq)

lemma retry_after_bounds:
  assumes "0 \<le> now" "0 < W" "W * 10 ^ 9 < 2 ^ 63"
  shows "0 < retry_after now W" "retry_after now W \<le> W * 10 ^ 9"
proof -
  let ?g = "10 ^ 9 :: int"
  have "WindowStart (WindowIndex now W) W = Unix now div W * W * ?g"
    using assms by (simp add: WindowStart_def WindowIndex_div)
  moreover have "Unix now div W * W \<le> Unix now" "Unix now < Unix now div W * W + W"
    using window_bounds [OF assms(2)] by simp_all
  moreover have "Unix now * ?g \<le> now" "now < (Unix now + 1) * ?g"
    using window_bounds [of ?g now] by (simp_all add: Unix_def algebra_simps)
  moreover have "int64 (W * ?g) = W * ?g" using assms by (intro int64_id) auto
  ultimately show "0 < retry_after now W" "retry_after now W \<le> W * ?g"
    unfolding retry_after_def by (simp_all add: algebra_simps)
qed

text \<open>The instant \<^verbatim>\<open>Retry-After\<close> points at is the first of the next window.\<close>

lemma retry_instant:
  assumes "0 \<le> now" "0 < W" "W * 10 ^ 9 < 2 ^ 63"
  shows "Unix (now + retry_after now W) = (Unix now div W + 1) * W"
proof -
  have "int64 (W * 10 ^ 9) = W * 10 ^ 9" using assms by (intro int64_id) auto
  then have "now + retry_after now W = (Unix now div W + 1) * W * 10 ^ 9"
    using assms by (simp add: retry_after_def WindowStart_def WindowIndex_div algebra_simps)
  then show ?thesis by (simp add: Unix_def)
qed

context budget_store
begin

lemma Check_sound:
  assumes "ee_check env = check" "ee_mark env = mark"
    and rep: "rep win t0 (en_store e) h" and le: "t0 \<le> Unix now"
    and cfg: "0 < BudgetTokens cfg" "0 < WindowSeconds cfg" "win t = WindowSeconds cfg"
    and run: "Check env t n cfg now e = (Inr d, e')"
  defines "h' \<equiv> h t @ [(Unix now, n)]"
  shows "d_action d = classify cfg (usage (win t) (Unix now) h') \<and>
    rep win (Unix now) (en_store e') (h(t := h'))"
proof -
  have W: "0 < win t" using cfg by simp
  obtain w s where chk: "check t n (win t) now (en_store e) = (Some w, s)"
    using run assms(1) cfg by (auto simp: Check_def split: prod.splits option.splits)
  from check_ok [OF rep le W chk] have w: "w = usage (win t) (Unix now) h'"
    and rep1: "rep win (Unix now) s (h(t := h'))" by (simp_all add: h'_def)
  have mark_keeps: "rep win (Unix now) s' (h(t := h'))" if "mark t (win t) now s = (r, s')" for r s'
    using mark_rep [OF rep1 _ W that] by simp
  show ?thesis
    using run chk assms(1,2) cfg w rep1 mark_keeps
    by (auto simp: Check_def alert_branch_def classify_def percent_ge Let_def zero_decision_def
        split: if_splits prod.splits option.splits bool.splits)
qed

end

section \<open>Properties\<close>

definition redis_enforcer_env ::
  "(nat \<Rightarrow> redis_outcome) \<Rightarrow> (nat \<Rightarrow> bool) option \<Rightarrow> redis_store enforcer_env" where
  "redis_enforcer_env io hook =
     \<lparr>ee_check = CheckAndIncrement io, ee_mark = MarkAlerted io, ee_webhook = hook\<rparr>"

text \<open>
  C6. The decision is the one of the specification: on a Redis store that stands for the
  histories \<open>h\<close>, whatever Redis does, a check that returns a decision has recorded its tokens,
  and its action is the classification of the weighted usage of the tenant's history including
  this call; a block asks to retry after a positive time of at most one window.
\<close>

theorem check_decides_by_usage:
  assumes "store_rep win t0 (en_store e) h" "0 \<le> now" "t0 \<le> Unix now"
    and "Validate cfg = None" "win t = WindowSeconds cfg" "WindowSeconds cfg * 10 ^ 9 < 2 ^ 63"
    and "Check (redis_enforcer_env io hook) t n cfg now e = (Inr d, e')"
  shows "d_action d = classify cfg (usage (WindowSeconds cfg) (Unix now) (h t @ [(Unix now, n)])) \<and>
    store_rep win (Unix now) (en_store e') (h(t := h t @ [(Unix now, n)])) \<and>
    (d_action d = Block \<longrightarrow> 0 < d_retry_after d \<and> d_retry_after d \<le> WindowSeconds cfg * 10 ^ 9)"
proof -
  have cfg: "0 < BudgetTokens cfg" "0 < WindowSeconds cfg"
    using assms(4) by (simp_all add: Validate_None_iff)
  have "ee_check (redis_enforcer_env io hook) = CheckAndIncrement io"
    "ee_mark (redis_enforcer_env io hook) = MarkAlerted io"
    by (simp_all add: redis_enforcer_env_def)
  from redis.Check_sound [OF this assms(1,3) cfg assms(5,7)]
  have "d_action d = classify cfg (usage (WindowSeconds cfg) (Unix now) (h t @ [(Unix now, n)]))"
    "store_rep win (Unix now) (en_store e') (h(t := h t @ [(Unix now, n)]))"
    by (simp_all add: assms(5))
  moreover have "d_retry_after d = retry_after now (WindowSeconds cfg)" if "d_action d = Block"
    using assms(7) that cfg
    by (auto simp: Check_def alert_branch_def Let_def zero_decision_def
        split: if_splits prod.splits option.splits bool.splits)
  ultimately show ?thesis
    using retry_after_bounds [OF assms(2) cfg(2) assms(6)] by simp
qed

definition demo_tenant :: tenant_config where
  "demo_tenant = (applyDefaults zero_tenant)\<lparr>BudgetTokens := 100\<rparr>"

definition empty_enforcer :: "redis_store enforcer" where
  "empty_enforcer = \<lparr>en_store = \<lparr>rs_keys = Map.empty, rs_calls = 0\<rparr>, en_sent = []\<rparr>"

lemma empty_store_rep: "store_rep win t0 (en_store empty_enforcer) (\<lambda>_. [])"
  by (simp add: store_rep_def key_rep_def quiet_def window_sum_def empty_enforcer_def)

lemma demo_tenant_fields:
  "BudgetTokens demo_tenant = 100" "WindowSeconds demo_tenant = 86400"
  "AlertThreshold demo_tenant = 8 / 10" "SoftThreshold demo_tenant = 1" "HardThreshold demo_tenant = 12 / 10"
  by (simp_all add: demo_tenant_def applyDefaults_def zero_tenant_def DefaultWindowSeconds_def
      DefaultAlertThreshold_def DefaultSoftThreshold_def DefaultHardThreshold_def Let_def)

theorem check_decides_by_usage_witness:
  "\<exists>d e'. Check (redis_enforcer_env (\<lambda>_. ROk) None) ''acme'' 130 demo_tenant (10 ^ 9) empty_enforcer = (Inr d, e') \<and>
     d_action d = Block \<and> 0 < d_retry_after d \<and> d_retry_after d \<le> 86400 * 10 ^ 9"
proof -
  let ?env = "redis_enforcer_env (\<lambda>_. ROk) None"
  have "\<exists>d e'. Check ?env ''acme'' 130 demo_tenant (10 ^ 9) empty_enforcer = (Inr d, e')"
    by (simp add: Check_def demo_tenant_fields redis_enforcer_env_def CheckAndIncrement_def
        eval_script_def live_def empty_enforcer_def checkAndIncrementScript_def script_roll_def Unix_def Let_def)
  then obtain d e' where run: "Check ?env ''acme'' 130 demo_tenant (10 ^ 9) empty_enforcer = (Inr d, e')"
    by blast
  have cls: "classify demo_tenant (usage 86400 1 ([] @ [(1, 130)])) = Block"
    by (simp add: classify_def demo_tenant_fields usage_def window_sum_def)
  have "Validate demo_tenant = None" "Unix (10 ^ 9) = 1"
    by (simp_all add: Validate_None_iff demo_tenant_fields Unix_def)
  then have "d_action d = Block \<and> 0 < d_retry_after d \<and> d_retry_after d \<le> 86400 * 10 ^ 9"
    using check_decides_by_usage [OF empty_store_rep [of "\<lambda>_. 86400" 0] _ _ _ _ _ run] cls
    unfolding demo_tenant_fields by simp
  with run show ?thesis by blast
qed

lemma store_rep_future:
  assumes "store_rep win t0 s h" "0 < win t" "t0 div win t < i"
  shows "window_sum (win t) i (h t) = 0"
proof -
  have rep: "key_rep (win t) t0 (rs_keys s (budget_key t)) (h t)"
    using assms(1,2) by (simp add: store_rep_def)
  show ?thesis
  proof (cases "\<exists>b dl. rs_keys s (budget_key t) = Some (RHash b, dl)")
    case True
    then show ?thesis using rep assms(3) by (auto simp: key_rep_def bucket_rep_def)
  next
    case False
    then have "quiet (win t) t0 (h t)" using key_rep_not_hash [OF rep] by blast
    then show ?thesis using assms(3) by (simp add: quiet_def)
  qed
qed

text \<open>
  Observation. Waiting for the time of \<^verbatim>\<open>Retry-After\<close> does not help a tenant whose current window alone
  exceeds the hard limit: at that instant the whole of the old window still counts, with
  weight one, and the next check is blocked again.
\<close>

theorem retry_after_blocks_again:
  assumes "store_rep win t0 (en_store e) h" "0 \<le> now" "t0 \<le> Unix now"
    and "Validate cfg = None" "win t = WindowSeconds cfg" "WindowSeconds cfg * 10 ^ 9 < 2 ^ 63"
    and "HardThreshold cfg * BudgetTokens cfg \<le>
      of_int (window_sum (WindowSeconds cfg) (Unix now div WindowSeconds cfg) (h t))"
    and "0 \<le> n"
    and "Check (redis_enforcer_env io hook) t n cfg (now + retry_after now (WindowSeconds cfg)) e = (Inr d, e')"
  shows "d_action d = Block"
proof -
  let ?W = "WindowSeconds cfg" and ?now2 = "now + retry_after now (WindowSeconds cfg)"
  have cfg: "0 < BudgetTokens cfg" "0 < ?W"
    using assms(4) by (simp_all add: Validate_None_iff)
  have u: "Unix ?now2 = (Unix now div ?W + 1) * ?W" by (rule retry_instant [OF assms(2) cfg(2) assms(6)])
  then have le: "t0 \<le> Unix ?now2" and idx: "Unix ?now2 div ?W = Unix now div ?W + 1" "Unix ?now2 mod ?W = 0"
    using window_bounds(2) [OF cfg(2), of "Unix now"] assms(3) cfg(2) by (auto simp: algebra_simps)
  have "t0 div ?W \<le> Unix now div ?W" using assms(3) cfg(2) by (simp add: zdiv_mono1)
  then have "window_sum ?W (Unix now div ?W + 1) (h t) = 0"
    using store_rep_future [OF assms(1), of t] cfg(2) assms(5) by simp
  then have "usage ?W (Unix ?now2) (h t @ [(Unix ?now2, n)]) =
      of_int (window_sum ?W (Unix now div ?W) (h t)) + of_int n"
    using cfg(2) idx by (simp add: usage_def)
  then have "classify cfg (usage ?W (Unix ?now2) (h t @ [(Unix ?now2, n)])) = Block"
    using assms(7,8) by (simp add: classify_def Let_def)
  moreover have "ee_check (redis_enforcer_env io hook) = CheckAndIncrement io"
    "ee_mark (redis_enforcer_env io hook) = MarkAlerted io"
    by (simp_all add: redis_enforcer_env_def)
  ultimately show ?thesis
    using redis.Check_sound [OF _ _ assms(1) le cfg assms(5,9)] by (simp add: assms(5))
qed

definition full_enforcer :: "redis_store enforcer" where
  "full_enforcer = \<lparr>en_store = \<lparr>rs_keys = [budget_key ''acme'' \<mapsto>
     (RHash \<lparr>bk_index = 0, bk_current = 130, bk_previous = 0\<rparr>, Some (1 + 2 * 86400))], rs_calls = 0\<rparr>, en_sent = []\<rparr>"

lemma full_store_rep:
  "store_rep (\<lambda>_. 86400) 1 (en_store full_enforcer) ((\<lambda>_. [])(''acme'' := [(1, 130)]))"
  by (auto simp: store_rep_def key_rep_def bucket_rep_def quiet_def window_sum_def full_enforcer_def)

theorem retry_after_blocks_again_witness:
  "\<exists>d e'. Check (redis_enforcer_env (\<lambda>_. ROk) None) ''acme'' 1 demo_tenant
       (10 ^ 9 + retry_after (10 ^ 9) 86400) full_enforcer = (Inr d, e') \<and> d_action d = Block"
proof -
  let ?env = "redis_enforcer_env (\<lambda>_. ROk) None" and ?now2 = "10 ^ 9 + retry_after (10 ^ 9) 86400"
  have "Unix ?now2 = 86400"
    using retry_instant [of "10 ^ 9" 86400] by (simp add: Unix_def)
  then have "\<exists>d e'. Check ?env ''acme'' 1 demo_tenant ?now2 full_enforcer = (Inr d, e')"
    by (simp add: Check_def demo_tenant_fields redis_enforcer_env_def CheckAndIncrement_def
        eval_script_def live_def full_enforcer_def checkAndIncrementScript_def script_roll_def Let_def)
  then obtain d e' where run: "Check ?env ''acme'' 1 demo_tenant ?now2 full_enforcer = (Inr d, e')"
    by blast
  have "Validate demo_tenant = None" "Unix (10 ^ 9) = 1"
    by (simp_all add: Validate_None_iff demo_tenant_fields Unix_def)
  moreover have "window_sum 86400 (1 div 86400) (((\<lambda>_. [])(''acme'' := [(1, 130)])) ''acme'') = 130"
    by (simp add: window_sum_def)
  ultimately have "d_action d = Block"
    using run retry_after_blocks_again [OF full_store_rep, of "10 ^ 9" demo_tenant "''acme''" 1 "\<lambda>_. ROk" None d e']
    unfolding demo_tenant_fields by simp
  with run show ?thesis by blast
qed

text \<open>
  Observation. Enlarging a tenant's window inflates its count: a live bucket stored under a smaller
  window carries a larger index \<open>i\<close> than the new window gives, the script then computes a
  negative elapsed time and multiplies the previous bucket by \<open>1 + i - now / W\<close> instead of at
  most one.
\<close>

theorem window_growth_inflates_usage:
  assumes "rs_keys s (budget_key t) = Some (RHash b, Some dl)" "Unix now < dl"
    and "0 < W" "Unix now div W < bk_index b" "io (rs_calls s) = ROk"
  shows "fst (CheckAndIncrement io t n W now s) =
    Some (of_int (bk_current b) + of_int (bk_previous b) * (1 + of_int (bk_index b) - of_int (Unix now) / of_int W)
          + of_int n)"
proof -
  have "1 - of_int (Unix now - bk_index b * W) / of_int W =
      1 + of_int (bk_index b) - of_int (Unix now) / (of_int W :: real)"
    using assms(3) by (simp add: diff_divide_distrib)
  then show ?thesis
    using assms by (simp add: CheckAndIncrement_def eval_script_def live_def
        checkAndIncrementScript_def script_roll_def Let_def)
qed

theorem window_growth_inflates_usage_witness:
  "\<exists>w. fst (CheckAndIncrement (\<lambda>_. ROk) ''acme'' 0 86400 (1720000000 * 10 ^ 9)
       \<lparr>rs_keys = [budget_key ''acme'' \<mapsto>
          (RHash \<lparr>bk_index = 1720000000 div 3600, bk_current = 0, bk_previous = 1\<rparr>, Some 1720007200)],
        rs_calls = 0\<rparr>) = Some w \<and> 450000 < w"
proof -
  let ?b = "\<lparr>bk_index = 1720000000 div 3600, bk_current = 0, bk_previous = 1\<rparr>"
  let ?s = "\<lparr>rs_keys = [budget_key ''acme'' \<mapsto> (RHash ?b, Some 1720007200)], rs_calls = 0\<rparr>"
  show ?thesis
    apply (intro exI [of _ "12362506 / 27"])
    using window_growth_inflates_usage [of ?s "''acme''" ?b 1720007200 "1720000000 * 10 ^ 9" 86400 "\<lambda>_. ROk" 0]
    by (simp add: Unix_def)
qed

end
