(* ===== verification/Budget_Gateway.thy ===== *)
theory Budget_Gateway
  imports Budget_Enforcer
begin

text \<open>
  The two front ends of the cost-budget-enforcer: the stub gateway (\<^verbatim>\<open>pkg/gateway/gateway.go\<close>,
  with the LensAI writer \<^verbatim>\<open>pkg/lensai/writer.go\<close> and the stub clients of
  \<^verbatim>\<open>cmd/stubgateway/main.go\<close>) and the HTTP middleware (\<^verbatim>\<open>pkg/middleware/middleware.go\<close>).
\<close>

section \<open>Gateway\<close>

record cache_result =
  cr_hit :: bool
  cr_response :: string
  cr_matched :: string
  cr_latency :: int

record model_result =
  mr_response :: string
  mr_tokens :: int
  mr_cost :: real
  mr_latency :: int

text \<open>The calls of the interface \<^verbatim>\<open>EventEmitter\<close>, and the calls to cache and model.\<close>

datatype gw_event =
    EvSpend string string real int
  | EvCacheHit string string string int
  | EvBlocked string

datatype gw_call = CacheLookup string string | ModelCall string string string

record ('s, 'e) gw_env =
  gw_enforcer :: "'s enforcer_env"
  gw_config :: "string \<Rightarrow> tenant_config"
  gw_tokens :: "string \<Rightarrow> string \<Rightarrow> int"
  gw_cache :: "nat \<Rightarrow> string \<Rightarrow> string \<Rightarrow> cache_result option"
  gw_model :: "nat \<Rightarrow> string \<Rightarrow> string \<Rightarrow> string \<Rightarrow> model_result option"
  gw_emit :: "(gw_event \<Rightarrow> 'e \<Rightarrow> string option \<times> 'e) option"

record ('s, 'e) gw_state =
  gs_enforcer :: "'s enforcer"
  gs_calls :: "gw_call list"
  gs_events :: "gw_event list"
  gs_emitter :: 'e

record gw_result =
  gr_blocked :: bool
  gr_retry_after :: int
  gr_degraded :: bool
  gr_model_used :: string
  gr_cache_hit :: bool
  gr_response :: string
  gr_tokens_used :: int
  gr_cost_usd :: real
  gr_emit_err :: "string option"
  gr_store_unavailable :: bool

definition result_for :: "string \<Rightarrow> gw_result" where
  "result_for model = \<lparr>gr_blocked = False, gr_retry_after = 0, gr_degraded = False,
     gr_model_used = model, gr_cache_hit = False, gr_response = [], gr_tokens_used = 0,
     gr_cost_usd = 0, gr_emit_err = None, gr_store_unavailable = False\<rparr>"

datatype handle_error = TenantRequired | PromptRequired | ModelError

text \<open>\<^verbatim>\<open>if g.Events != nil\<close>: the event goes to the emitter, its error into the result.\<close>

definition emit_event ::
  "('s, 'e) gw_env \<Rightarrow> gw_event \<Rightarrow> gw_result \<Rightarrow> ('s, 'e) gw_state \<Rightarrow> gw_result \<times> ('s, 'e) gw_state" where
  "emit_event env ev r g =
     (case gw_emit env of
        None \<Rightarrow> (r, g)
      | Some emit \<Rightarrow>
          let (err, x) = emit ev (gs_emitter g)
          in (r\<lparr>gr_emit_err := err\<rparr>, g\<lparr>gs_emitter := x, gs_events := gs_events g @ [ev]\<rparr>))"

text \<open>\<^verbatim>\<open>Handle\<close> from the cache lookup on.\<close>

definition handle_model ::
  "('s, 'e) gw_env \<Rightarrow> string \<Rightarrow> string \<Rightarrow> gw_result \<Rightarrow> ('s, 'e) gw_state \<Rightarrow>
   (handle_error + gw_result) \<times> ('s, 'e) gw_state" where
  "handle_model env tenantID prompt r g =
     (let g1 = g\<lparr>gs_calls := gs_calls g @ [ModelCall tenantID (gr_model_used r) prompt]\<rparr>
      in case gw_model env (length (gs_calls g)) tenantID (gr_model_used r) prompt of
           None \<Rightarrow> (Inl ModelError, g1)
         | Some m \<Rightarrow>
             let (r1, g2) = emit_event env (EvSpend tenantID (gr_model_used r) (mr_cost m) (mr_latency m))
                   (r\<lparr>gr_response := mr_response m, gr_tokens_used := mr_tokens m, gr_cost_usd := mr_cost m\<rparr>) g1
             in (Inr r1, g2))"

definition handle_cache ::
  "('s, 'e) gw_env \<Rightarrow> string \<Rightarrow> string \<Rightarrow> gw_result \<Rightarrow> ('s, 'e) gw_state \<Rightarrow>
   (handle_error + gw_result) \<times> ('s, 'e) gw_state" where
  "handle_cache env tenantID prompt r g =
     (let g1 = g\<lparr>gs_calls := gs_calls g @ [CacheLookup tenantID prompt]\<rparr>
      in case gw_cache env (length (gs_calls g)) tenantID prompt of
           Some c \<Rightarrow>
             if cr_hit c
             then let (r1, g2) = emit_event env
                        (EvCacheHit tenantID (gr_model_used r) (cr_matched c) (cr_latency c))
                        (r\<lparr>gr_cache_hit := True, gr_response := cr_response c\<rparr>) g1
                  in (Inr r1, g2)
             else handle_model env tenantID prompt r g1
         | None \<Rightarrow> handle_model env tenantID prompt r g1)"

definition handle_decision ::
  "('s, 'e) gw_env \<Rightarrow> string \<Rightarrow> string \<Rightarrow> string \<Rightarrow> decision \<Rightarrow> ('s, 'e) gw_state \<Rightarrow>
   (handle_error + gw_result) \<times> ('s, 'e) gw_state" where
  "handle_decision env tenantID model prompt d g =
     (case d_action d of
        Block \<Rightarrow>
          (let (r, g1) = emit_event env (EvBlocked tenantID)
                 ((result_for model)\<lparr>gr_blocked := True, gr_retry_after := d_retry_after d\<rparr>) g
           in (Inr r, g1))
      | Degrade \<Rightarrow>
          handle_cache env tenantID prompt
            ((result_for model)\<lparr>gr_degraded := True, gr_model_used := d_fallback_model d\<rparr>) g
      | _ \<Rightarrow> handle_cache env tenantID prompt (result_for model) g)"

definition Handle ::
  "('s, 'e) gw_env \<Rightarrow> string \<Rightarrow> string \<Rightarrow> string \<Rightarrow> int \<Rightarrow> ('s, 'e) gw_state \<Rightarrow>
   (handle_error + gw_result) \<times> ('s, 'e) gw_state" where
  "Handle env tenantID model prompt now g =
     (if tenantID = [] then (Inl TenantRequired, g)
      else if prompt = [] then (Inl PromptRequired, g)
      else
        let cfg = gw_config env tenantID; tokens = gw_tokens env tenantID prompt;
            (res, e) = Check (gw_enforcer env) tenantID tokens cfg now (gs_enforcer g);
            g1 = g\<lparr>gs_enforcer := e\<rparr>
        in case res of
             Inl _ \<Rightarrow>
               if FailClosed cfg
               then (Inr ((result_for model)\<lparr>gr_store_unavailable := True\<rparr>), g1)
               else handle_decision env tenantID model prompt zero_decision g1
           | Inr d \<Rightarrow> handle_decision env tenantID model prompt d g1)"

section \<open>LensAI writer\<close>

record lens_event =
  le_event_id :: string
  le_tenant_id :: string
  le_model_id :: string
  le_trace_id :: string
  le_timestamp :: u64
  le_latency :: u32
  le_cost :: real
  le_status :: string
  le_source :: string

text \<open>
  The ingest endpoint is outside: an HTTP exchange fails or answers with a status.  The state
  lists the requests that reached it (tenant header and event) and counts the exchanges.
\<close>

datatype http_outcome = HttpFail | HttpStatus int

record lens_writer =
  lw_posted :: "(string \<times> lens_event) list"
  lw_calls :: nat

definition millis :: "int \<Rightarrow> u32" where
  "millis latency = word_of_int (tdiv latency (10 ^ 6))"

definition lens_event_of :: "int \<Rightarrow> gw_event \<Rightarrow> lens_event" where
  "lens_event_of now ev =
     (case ev of
        EvSpend t m cost latency \<Rightarrow>
          \<lparr>le_event_id = [], le_tenant_id = t, le_model_id = m, le_trace_id = [],
           le_timestamp = word_of_int now, le_latency = millis latency, le_cost = cost,
           le_status = ''ok'', le_source = ''gateway_inference''\<rparr>
      | EvCacheHit t m matched latency \<Rightarrow>
          \<lparr>le_event_id = [], le_tenant_id = t, le_model_id = m, le_trace_id = matched,
           le_timestamp = word_of_int now, le_latency = millis latency, le_cost = 0,
           le_status = ''ok'', le_source = ''gateway_cache_hit''\<rparr>
      | EvBlocked t \<Rightarrow>
          \<lparr>le_event_id = [], le_tenant_id = t, le_model_id = [], le_trace_id = [],
           le_timestamp = word_of_int now, le_latency = 0, le_cost = 0,
           le_status = ''blocked'', le_source = ''gateway_blocked''\<rparr>)"

definition lens_post ::
  "(nat \<Rightarrow> http_outcome) \<Rightarrow> string \<Rightarrow> lens_event \<Rightarrow> lens_writer \<Rightarrow> string option \<times> lens_writer" where
  "lens_post http tenantID evt w =
     (let w1 = w\<lparr>lw_calls := Suc (lw_calls w)\<rparr>
      in case http (lw_calls w) of
           HttpFail \<Rightarrow> (Some ''lensai: HTTP request failed'', w1)
         | HttpStatus st \<Rightarrow>
             (if st \<noteq> 200 \<and> st \<noteq> 202 then Some (''lensai: unexpected status '' @ itoa st) else None,
              w1\<lparr>lw_posted := lw_posted w @ [(tenantID, evt)]\<rparr>))"

fun LensEmit ::
  "(nat \<Rightarrow> http_outcome) \<Rightarrow> (nat \<Rightarrow> int) \<Rightarrow> gw_event \<Rightarrow> lens_writer \<Rightarrow> string option \<times> lens_writer" where
  "LensEmit http clock (EvSpend t m cost latency) w =
     (if t = [] then (Some ''lensai: tenant_id is required'', w)
      else if m = [] then (Some ''lensai: model_id is required'', w)
      else lens_post http t (lens_event_of (clock (lw_calls w)) (EvSpend t m cost latency)) w)"
| "LensEmit http clock (EvCacheHit t m matched latency) w =
     (if t = [] then (Some ''lensai: tenant_id is required'', w)
      else lens_post http t (lens_event_of (clock (lw_calls w)) (EvCacheHit t m matched latency)) w)"
| "LensEmit http clock (EvBlocked t) w =
     (if t = [] then (Some ''lensai: tenant_id is required'', w)
      else lens_post http t (lens_event_of (clock (lw_calls w)) (EvBlocked t)) w)"

section \<open>Stub clients\<close>

definition estimateTokens :: "string \<Rightarrow> string \<Rightarrow> int" where
  "estimateTokens tenantID prompt = int (length prompt) div 4 + 1"

definition alwaysMissCache :: "nat \<Rightarrow> string \<Rightarrow> string \<Rightarrow> cache_result option" where
  "alwaysMissCache n tenantID prompt = Some \<lparr>cr_hit = False, cr_response = [], cr_matched = [], cr_latency = 0\<rparr>"

definition modelPricePerToken :: "string \<rightharpoonup> real" where
  "modelPricePerToken = [''gpt-4o'' \<mapsto> 3 / 100000, ''gpt-4o-mini'' \<mapsto> 5 / 1000000]"

text \<open>\<open>hash8\<close> is the text of the first four bytes of the SHA-256 digest.\<close>

definition priceTableModel ::
  "(string \<Rightarrow> string) \<Rightarrow> nat \<Rightarrow> string \<Rightarrow> string \<Rightarrow> string \<Rightarrow> model_result option" where
  "priceTableModel hash8 n tenantID model prompt =
     (let tokens = estimateTokens tenantID prompt;
          price = (case modelPricePerToken model of Some p \<Rightarrow> p | None \<Rightarrow> the (modelPricePerToken ''gpt-4o-mini''))
      in Some \<lparr>mr_response = ''stub-response-'' @ hash8 prompt, mr_tokens = tokens,
               mr_cost = of_int tokens * price, mr_latency = 50 * 10 ^ 6\<rparr>)"

section \<open>Middleware\<close>

text \<open>
  A request body is absent, unreadable, or a payload.  \<open>rq_length\<close> is the \<^verbatim>\<open>ContentLength\<close>
  header, and \<open>text_len\<close> the length of a document's text.
\<close>

datatype http_body = NoBody | BrokenBody | Body payload

record http_request =
  rq_body :: http_body
  rq_length :: int

datatype mw_outcome =
    Forward http_request
  | Reject int "string option" string

definition rewriteModel ::
  "(json \<Rightarrow> int) \<Rightarrow> http_request \<Rightarrow> string \<Rightarrow> (bool \<times> http_request) go" where
  "rewriteModel text_len r model =
     (case rq_body r of
        NoBody \<Rightarrow> Return (True, r)
      | BrokenBody \<Rightarrow> Return (False, r)
      | Body None \<Rightarrow> Return (False, r)
      | Body (Some JNull) \<Rightarrow> Panic ''assignment to entry in nil map''
      | Body (Some (JObj kvs)) \<Rightarrow>
          (let rewritten = JObj (put_entry ''model'' (JStr model) (any_object kvs []))
           in Return (True, r\<lparr>rq_body := Body (Some rewritten), rq_length := text_len rewritten\<rparr>))
      | Body (Some _) \<Rightarrow> Return (False, r))"

record 's mw_env =
  mw_enforcer :: "'s enforcer_env"
  mw_tenant :: "http_request \<Rightarrow> string"
  mw_tokens :: "string \<Rightarrow> http_request \<Rightarrow> int"
  mw_config :: "string \<Rightarrow> tenant_config"

text \<open>
  \<^verbatim>\<open>Wrap\<close>: what the wrapped handler is called with (it is the last action of every forwarding
  branch), or the response written instead: status, \<^verbatim>\<open>Retry-After\<close>, body.
\<close>

definition Wrap ::
  "(json \<Rightarrow> int) \<Rightarrow> 's mw_env \<Rightarrow> http_request \<Rightarrow> int \<Rightarrow> 's enforcer \<Rightarrow> (mw_outcome \<times> 's enforcer) go" where
  "Wrap text_len env r now e =
     (let tenantID = mw_tenant env r
      in if tenantID = [] then Return (Forward r, e)
         else
           let cfg = mw_config env tenantID; tokens = mw_tokens env tenantID r;
               (res, e1) = Check (mw_enforcer env) tenantID tokens cfg now e
           in case res of
                Inl _ \<Rightarrow>
                  Return (if FailClosed cfg
                    then Reject 503 None ''{\"error\":\"budget store unavailable\",\"policy\":\"fail_closed\"}''
                    else Forward r, e1)
              | Inr d \<Rightarrow>
                  (case d_action d of
                     Block \<Rightarrow>
                       (let secs = itoa (tdiv (d_retry_after d) (10 ^ 9))
                        in Return (Reject 429 (Some secs)
                             (''{\"error\":\"tenant budget exceeded\",\"retry_after_seconds\":'' @ secs @ ''}''), e1))
                   | Degrade \<Rightarrow>
                       go_bind (rewriteModel text_len r (d_fallback_model d)) (\<lambda>(ok, r').
                         Return (Forward r', e1))
                   | _ \<Rightarrow> Return (Forward r, e1)))"

section \<open>Lemmas on the gateway\<close>

definition event_cost :: "gw_event \<Rightarrow> real" where
  "event_cost ev = (case ev of EvSpend t m c l \<Rightarrow> c | _ \<Rightarrow> 0)"

definition reported :: "('s, 'e) gw_state \<Rightarrow> real" where
  "reported g = sum_list (map event_cost (gs_events g))"

text \<open>What one call does: the calls it makes, its cost and what it reports as spent.\<close>

definition gw_effect ::
  "('s, 'e) gw_env \<Rightarrow> string \<Rightarrow> string \<Rightarrow> ('s, 'e) gw_state \<Rightarrow> gw_result \<Rightarrow> ('s, 'e) gw_state \<Rightarrow> bool" where
  "gw_effect env t p g r g' \<longleftrightarrow>
     gs_calls g' = gs_calls g @
       (if gr_blocked r \<or> gr_store_unavailable r then []
        else if gr_cache_hit r then [CacheLookup t p]
        else [CacheLookup t p, ModelCall t (gr_model_used r) p]) \<and>
     (if gr_blocked r \<or> gr_store_unavailable r \<or> gr_cache_hit r
      then gr_cost_usd r = 0 \<and> gr_tokens_used r = 0 else True) \<and>
     reported g' = reported g + (if gw_emit env = None then 0 else gr_cost_usd r)"

lemma emit_event_frame:
  assumes "emit_event env ev r g = (r', g')"
  shows "gs_calls g' = gs_calls g" "gs_enforcer g' = gs_enforcer g"
    "\<exists>err. r' = r\<lparr>gr_emit_err := err\<rparr>"
    "reported g' = reported g + (if gw_emit env = None then 0 else event_cost ev)"
proof -
  have same: "\<exists>err. r = r\<lparr>gr_emit_err := err\<rparr>" by (rule exI [of _ "gr_emit_err r"]) simp
  show "gs_calls g' = gs_calls g" "gs_enforcer g' = gs_enforcer g"
    "reported g' = reported g + (if gw_emit env = None then 0 else event_cost ev)"
    using assms
    by (auto simp: emit_event_def reported_def split: option.splits prod.splits)
  show "\<exists>err. r' = r\<lparr>gr_emit_err := err\<rparr>"
    using assms same by (auto simp: emit_event_def split: option.splits prod.splits)
qed

lemma handle_model_effect:
  assumes "handle_model env t p r0 g = (res, g')"
    and "gr_cost_usd r0 = 0" "\<not> gr_blocked r0" "\<not> gr_store_unavailable r0" "\<not> gr_cache_hit r0"
    and "gs_calls g = gs_calls g0 @ [CacheLookup t p]" "reported g = reported g0"
  shows "case res of Inr r \<Rightarrow> gw_effect env t p g0 r g' | Inl _ \<Rightarrow> reported g' = reported g0"
proof (cases "gw_model env (length (gs_calls g)) t (gr_model_used r0) p")
  case None
  then show ?thesis using assms by (auto simp: handle_model_def reported_def)
next
  case (Some m)
  define ev where "ev = EvSpend t (gr_model_used r0) (mr_cost m) (mr_latency m)"
  define r1 where "r1 = r0\<lparr>gr_response := mr_response m, gr_tokens_used := mr_tokens m, gr_cost_usd := mr_cost m\<rparr>"
  define g1 where "g1 = g\<lparr>gs_calls := gs_calls g @ [ModelCall t (gr_model_used r0) p]\<rparr>"
  obtain r2 g2 where em: "emit_event env ev r1 g1 = (r2, g2)" by force
  have "res = Inr r2" "g' = g2"
    using assms(1) Some em by (auto simp: handle_model_def ev_def r1_def g1_def)
  moreover have "reported g1 = reported g0" using assms(7) by (simp add: g1_def reported_def)
  ultimately show ?thesis
    using emit_event_frame [OF em] assms
    by (auto simp: gw_effect_def r1_def g1_def ev_def event_cost_def)
qed

lemma handle_cache_effect:
  assumes "handle_cache env t p r0 g = (res, g')"
    and "gr_cost_usd r0 = 0" "gr_tokens_used r0 = 0" "\<not> gr_blocked r0" "\<not> gr_store_unavailable r0"
    "\<not> gr_cache_hit r0"
  shows "case res of Inr r \<Rightarrow> gw_effect env t p g r g' | Inl _ \<Rightarrow> reported g' = reported g"
proof -
  define g1 where "g1 = g\<lparr>gs_calls := gs_calls g @ [CacheLookup t p]\<rparr>"
  have g1: "gs_calls g1 = gs_calls g @ [CacheLookup t p]" "reported g1 = reported g"
    by (simp_all add: g1_def reported_def)
  show ?thesis
  proof (cases "\<exists>c. gw_cache env (length (gs_calls g)) t p = Some c \<and> cr_hit c")
    case True
    then obtain c where c: "gw_cache env (length (gs_calls g)) t p = Some c" "cr_hit c" by blast
    define ev where "ev = EvCacheHit t (gr_model_used r0) (cr_matched c) (cr_latency c)"
    obtain r2 g2 where em: "emit_event env ev (r0\<lparr>gr_cache_hit := True, gr_response := cr_response c\<rparr>) g1 = (r2, g2)"
      by force
    have "res = Inr r2" "g' = g2"
      using assms(1) c em by (auto simp: handle_cache_def g1_def ev_def)
    then show ?thesis
      using emit_event_frame [OF em] assms g1 by (auto simp: gw_effect_def ev_def event_cost_def)
  next
    case False
    then have "handle_model env t p r0 g1 = (res, g')"
      using assms(1) by (auto simp: handle_cache_def g1_def Let_def split: option.splits if_splits)
    from handle_model_effect [OF this assms(2,4,5,6) g1] show ?thesis .
  qed
qed

lemma handle_decision_effect:
  assumes "handle_decision env t m p d g = (res, g')"
  shows "case res of Inr r \<Rightarrow> gw_effect env t p g r g' | Inl _ \<Rightarrow> reported g' = reported g"
proof (cases "d_action d = Block")
  case True
  obtain r g1 where em: "emit_event env (EvBlocked t)
      ((result_for m)\<lparr>gr_blocked := True, gr_retry_after := d_retry_after d\<rparr>) g = (r, g1)" by force
  then have "res = Inr r" "g' = g1" using assms True by (auto simp: handle_decision_def)
  then show ?thesis
    using emit_event_frame [OF em] by (auto simp: gw_effect_def event_cost_def result_for_def)
next
  case False
  then obtain r0 where "handle_cache env t p r0 g = (res, g')"
    "gr_cost_usd r0 = 0" "gr_tokens_used r0 = 0" "\<not> gr_blocked r0" "\<not> gr_store_unavailable r0"
    "\<not> gr_cache_hit r0"
    using assms by (cases "d_action d") (fastforce simp: handle_decision_def result_for_def)+
  then show ?thesis by (rule handle_cache_effect)
qed

section \<open>Properties\<close>

text \<open>
  C19. The gateway spends in a fixed order and reports what it spends: a request that was
  blocked, or refused because the store is down, calls neither cache nor model; a cache hit
  calls no model; otherwise the cache was asked first and the model once, with the model named
  in the result.  A request served without the model costs nothing, and the spend reported to
  the emitter grows by exactly the cost of the result.
\<close>

theorem handle_spends_in_order:
  "case Handle env t model p now g of
     (Inr r, g') \<Rightarrow>
       gs_calls g' = gs_calls g @
         (if gr_blocked r \<or> gr_store_unavailable r then []
          else if gr_cache_hit r then [CacheLookup t p]
          else [CacheLookup t p, ModelCall t (gr_model_used r) p]) \<and>
       (if gr_blocked r \<or> gr_store_unavailable r \<or> gr_cache_hit r
        then gr_cost_usd r = 0 \<and> gr_tokens_used r = 0 else True) \<and>
       reported g' = reported g + (if gw_emit env = None then 0 else gr_cost_usd r)
   | (Inl _, g') \<Rightarrow> reported g' = reported g"
proof (cases "t = [] \<or> p = []")
  case True
  then show ?thesis by (auto simp: Handle_def)
next
  case False
  obtain res e where chk: "Check (gw_enforcer env) t (gw_tokens env t p) (gw_config env t) now (gs_enforcer g) = (res, e)"
    by force
  define g1 where "g1 = g\<lparr>gs_enforcer := e\<rparr>"
  have g1: "gs_calls g1 = gs_calls g" "reported g1 = reported g" by (simp_all add: g1_def reported_def)
  show ?thesis
  proof (cases "\<exists>err. res = Inl err \<and> FailClosed (gw_config env t)")
    case True
    then show ?thesis
      using False chk g1 by (auto simp: Handle_def result_for_def g1_def reported_def)
  next
    case no_stop: False
    define d where "d = (case res of Inl _ \<Rightarrow> zero_decision | Inr d \<Rightarrow> d)"
    obtain out g' where dec: "handle_decision env t model p d g1 = (out, g')" by force
    have "Handle env t model p now g = (out, g')"
      using False chk no_stop dec by (auto simp: Handle_def d_def g1_def split: sum.splits)
    then show ?thesis
      using handle_decision_effect [OF dec] g1 by (auto simp: gw_effect_def split: sum.splits)
  qed
qed

text \<open>
  C14. For a tenant that fails closed the hard limit is a ceiling whatever Redis does: if the
  weighted usage including the call's tokens reaches the hard limit, the request reaches
  neither cache nor model and costs nothing, be the budget check answered or not.
\<close>

theorem fail_closed_hard_ceiling:
  assumes "store_rep win t0 (en_store (gs_enforcer g)) h" "t0 \<le> Unix now"
    and "gw_enforcer env = redis_enforcer_env io hook"
    and "gw_config env t = cfg" "FailClosed cfg" "Validate cfg = None" "win t = WindowSeconds cfg"
    and "HardThreshold cfg * of_int (BudgetTokens cfg) \<le>
      usage (WindowSeconds cfg) (Unix now) (h t @ [(Unix now, gw_tokens env t p)])"
    and "Handle env t model p now g = (Inr r, g')"
  shows "gs_calls g' = gs_calls g \<and> gr_cost_usd r = 0 \<and> (gr_blocked r \<or> gr_store_unavailable r)"
proof -
  have cfg: "0 < BudgetTokens cfg" "0 < WindowSeconds cfg"
    using assms(6) by (simp_all add: Validate_None_iff)
  have ops: "ee_check (gw_enforcer env) = CheckAndIncrement io" "ee_mark (gw_enforcer env) = MarkAlerted io"
    by (simp_all add: assms(3) redis_enforcer_env_def)
  have args: "t \<noteq> []" "p \<noteq> []" using assms(9) by (auto simp: Handle_def split: if_splits)
  obtain res e where chk: "Check (gw_enforcer env) t (gw_tokens env t p) cfg now (gs_enforcer g) = (res, e)"
    by force
  show ?thesis
  proof (cases res)
    case (Inl err)
    then show ?thesis
      using assms(4,5,9) chk args by (auto simp: Handle_def result_for_def)
  next
    case (Inr d)
    from redis.Check_sound [OF ops assms(1,2) cfg assms(7) chk [unfolded Inr]]
    have "d_action d = Block"
      using assms(7,8) by (simp add: classify_def Let_def)
    then obtain r1 where "emit_event env (EvBlocked t)
        ((result_for model)\<lparr>gr_blocked := True, gr_retry_after := d_retry_after d\<rparr>)
        (g\<lparr>gs_enforcer := e\<rparr>) = (r, g')"
      using assms(4,9) chk args Inr by (auto simp: Handle_def handle_decision_def split: prod.splits)
    from emit_event_frame [OF this] show ?thesis by (auto simp: result_for_def)
  qed
qed

definition stub_gateway ::
  "redis_store enforcer_env \<Rightarrow> tenant_config \<Rightarrow> (redis_store, lens_writer) gw_env" where
  "stub_gateway ee cfg = \<lparr>gw_enforcer = ee, gw_config = (\<lambda>_. cfg), gw_tokens = estimateTokens,
     gw_cache = alwaysMissCache, gw_model = priceTableModel (\<lambda>_. ''00000000''),
     gw_emit = Some (LensEmit (\<lambda>_. HttpStatus 202) int)\<rparr>"

definition stub_state :: "redis_store enforcer \<Rightarrow> (redis_store, lens_writer) gw_state" where
  "stub_state e = \<lparr>gs_enforcer = e, gs_calls = [], gs_events = [],
     gs_emitter = \<lparr>lw_posted = [], lw_calls = 0\<rparr>\<rparr>"

theorem fail_closed_hard_ceiling_witness:
  "\<exists>r g'. Handle (stub_gateway (redis_enforcer_env (\<lambda>_. RFail True) None) (demo_tenant\<lparr>FailClosed := True\<rparr>))
       ''acme'' ''gpt-4o'' ''hi'' (2 * 10 ^ 9) (stub_state full_enforcer) = (Inr r, g') \<and>
     gs_calls g' = [] \<and> gr_cost_usd r = 0"
proof -
  let ?cfg = "demo_tenant\<lparr>FailClosed := True\<rparr>"
  let ?env = "stub_gateway (redis_enforcer_env (\<lambda>_. RFail True) None) ?cfg"
  have cfg: "Validate ?cfg = None" "WindowSeconds ?cfg = 86400" "BudgetTokens ?cfg = 100" "HardThreshold ?cfg = 12 / 10"
    by (simp_all add: Validate_None_iff demo_tenant_fields)
  have "\<exists>r g'. Handle ?env ''acme'' ''gpt-4o'' ''hi'' (2 * 10 ^ 9) (stub_state full_enforcer) = (Inr r, g')"
    by (simp add: Handle_def stub_gateway_def Check_def redis_enforcer_env_def CheckAndIncrement_def
        demo_tenant_fields)
  then obtain r g' where run:
    "Handle ?env ''acme'' ''gpt-4o'' ''hi'' (2 * 10 ^ 9) (stub_state full_enforcer) = (Inr r, g')" by blast
  have rep: "store_rep (\<lambda>_. 86400) 1 (en_store (gs_enforcer (stub_state full_enforcer)))
      ((\<lambda>_. [])(''acme'' := [(1, 130)]))"
    using full_store_rep by (simp add: stub_state_def)
  have over: "HardThreshold ?cfg * of_int (BudgetTokens ?cfg) \<le> usage (WindowSeconds ?cfg) (Unix (2 * 10 ^ 9))
      (((\<lambda>_. [])(''acme'' := [(1, 130)])) ''acme'' @ [(Unix (2 * 10 ^ 9), gw_tokens ?env ''acme'' ''hi'')])"
    unfolding cfg by (simp add: stub_gateway_def estimateTokens_def usage_def window_sum_def Unix_def)
  have "gs_calls g' = gs_calls (stub_state full_enforcer) \<and> gr_cost_usd r = 0 \<and>
      (gr_blocked r \<or> gr_store_unavailable r)"
    by (rule fail_closed_hard_ceiling [OF rep _ _ _ _ cfg(1) _ over run])
       (simp_all add: stub_gateway_def cfg Unix_def)
  with run show ?thesis by (auto simp: stub_state_def)
qed

text \<open>
  Observation. Degrading rewrites the model and nothing else: on a JSON object the middleware forwards
  an object whose \<^verbatim>\<open>model\<close> is the fallback, with the value of every other key as the JSON
  library reads and prints it (of duplicate keys the last), and the length of the new text.
\<close>

theorem rewriteModel_object:
  "\<exists>kvs'. rewriteModel text_len \<lparr>rq_body = Body (Some (JObj kvs)), rq_length = n\<rparr> model =
      Return (True, \<lparr>rq_body = Body (Some (JObj kvs')), rq_length = text_len (JObj kvs')\<rparr>) \<and>
    map_of kvs' = (\<lambda>k. map_option any_norm (map_of (rev kvs) k))(''model'' \<mapsto> JStr model)"
  by (auto simp: rewriteModel_def Let_def map_of_put_entry any_object_lookup fun_eq_iff
      split: option.splits)

text \<open>
  Observation. A body that is the JSON text \<^verbatim>\<open>null\<close> panics the middleware when the request is degraded:
  the decoder leaves the map nil and the assignment of the model writes into it.
\<close>

theorem degrade_null_body_panics:
  assumes "mw_tenant env r = t" "t \<noteq> []" "rq_body r = Body (Some JNull)"
    and "Check (mw_enforcer env) t (mw_tokens env t r) (mw_config env t) now e = (Inr d, e')"
    and "d_action d = Degrade"
  shows "Wrap text_len env r now e = Panic ''assignment to entry in nil map''"
  using assms by (simp add: Wrap_def rewriteModel_def)

theorem degrade_null_body_panics_witness:
  "Wrap (\<lambda>_. 0) \<lparr>mw_enforcer = redis_enforcer_env (\<lambda>_. ROk) None, mw_tenant = (\<lambda>_. ''acme''),
       mw_tokens = (\<lambda>_ _. 105), mw_config = (\<lambda>_. demo_tenant)\<rparr>
     \<lparr>rq_body = Body (Some JNull), rq_length = 4\<rparr> (10 ^ 9) empty_enforcer =
   Panic ''assignment to entry in nil map''"
proof -
  let ?env = "\<lparr>mw_enforcer = redis_enforcer_env (\<lambda>_. ROk) None, mw_tenant = (\<lambda>_. ''acme''),
       mw_tokens = (\<lambda>_ _. 105), mw_config = (\<lambda>_. demo_tenant)\<rparr>"
  have "\<exists>d e'. Check (redis_enforcer_env (\<lambda>_. ROk) None) ''acme'' 105 demo_tenant (10 ^ 9) empty_enforcer = (Inr d, e')
      \<and> d_action d = Degrade"
    by (simp add: Check_def demo_tenant_fields redis_enforcer_env_def CheckAndIncrement_def
        eval_script_def live_def empty_enforcer_def checkAndIncrementScript_def script_roll_def Unix_def Let_def)
  then show ?thesis
    using degrade_null_body_panics [of ?env "\<lparr>rq_body = Body (Some JNull), rq_length = 4\<rparr>" "''acme''" "10 ^ 9" empty_enforcer]
    by auto
qed

end
