(* ===== verification/Budget_Command.thy ===== *)
theory Budget_Command
  imports Budget_Gateway Go_Flag
begin

text \<open>
  The command \<^verbatim>\<open>stubgateway\<close> (\<^verbatim>\<open>cost-budget-enforcer/cmd/stubgateway/main.go\<close>): it runs the requests of a
  file one after the other through the gateway, with an in-process Redis, the stub clients and, when a
  URL is given, the LensAI writer.  Standard error is left out; the value of the integer flag is
  parsed by an argument.
\<close>

section \<open>The command\<close>

text \<open>A line of the input: empty, a text, or longer than the 64 KiB of an unconfigured scanner.\<close>

datatype input_line = BlankLine | TextLine payload | LongLine

record stub_request =
  sq_tenant :: string
  sq_model :: string
  sq_prompt :: string

definition stub_request_fields :: "stub_request fields" where
  "stub_request_fields =
     [(''tenant_id'', lens sq_tenant (\<lambda>x s. s\<lparr>sq_tenant := x\<rparr>) dec_string),
      (''model'', lens sq_model (\<lambda>x s. s\<lparr>sq_model := x\<rparr>) dec_string),
      (''prompt'', lens sq_prompt (\<lambda>x s. s\<lparr>sq_prompt := x\<rparr>) dec_string)]"

record stub_flags =
  st_input :: string
  st_budget :: int
  st_lensai :: string

definition stub_flag_set :: "(string \<Rightarrow> int option) \<Rightarrow> stub_flags flag_set" where
  "stub_flag_set pint =
     [(''input'', string_flag (\<lambda>v f. f\<lparr>st_input := v\<rparr>)),
      (''budget-tokens'', parsed_flag pint (\<lambda>v f. f\<lparr>st_budget := v\<rparr>)),
      (''lensai-url'', string_flag (\<lambda>v f. f\<lparr>st_lensai := v\<rparr>))]"

record stub_world =
  sw_files :: "string \<Rightarrow> input_line list option"
  sw_redis_up :: bool
  sw_io :: "nat \<Rightarrow> redis_outcome"
  sw_clock :: "nat \<Rightarrow> int"
  sw_hash8 :: "string \<Rightarrow> string"
  sw_ingest :: "nat \<Rightarrow> http_outcome"
  sw_event_clock :: "nat \<Rightarrow> int"
  sw_fixed :: "nat \<Rightarrow> real \<Rightarrow> string"
  sw_duration :: "int \<Rightarrow> string"

definition stub_config :: "int \<Rightarrow> tenant_config" where
  "stub_config budget =
     \<lparr>BudgetTokens = budget, WindowSeconds = DefaultWindowSeconds, FallbackModel = ''gpt-4o-mini'', AlertWebhookURL = [],
      AlertThreshold = DefaultAlertThreshold, SoftThreshold = DefaultSoftThreshold, HardThreshold = DefaultHardThreshold,
      FailClosed = False\<rparr>"

definition stub_env :: "stub_world \<Rightarrow> stub_flags \<Rightarrow> (redis_store, lens_writer) gw_env" where
  "stub_env w f =
     \<lparr>gw_enforcer = redis_enforcer_env (sw_io w) None, gw_config = (\<lambda>_. stub_config (st_budget f)), gw_tokens = estimateTokens,
      gw_cache = alwaysMissCache, gw_model = priceTableModel (sw_hash8 w),
      gw_emit = (if st_lensai f \<noteq> [] then Some (LensEmit (sw_ingest w) (sw_event_clock w)) else None)\<rparr>"

text \<open>
  The loop over the lines: the answered requests with their tenants, whether the scanner ended without
  an error, and the state.  The \<open>n\<close>-th line that is handed to the gateway arrives at \<open>sw_clock n\<close>.
\<close>

fun stub_serve ::
  "stub_world \<Rightarrow> (redis_store, lens_writer) gw_env \<Rightarrow> nat \<Rightarrow> input_line list \<Rightarrow> (redis_store, lens_writer) gw_state \<Rightarrow>
   (string \<times> gw_result) list \<times> bool \<times> (redis_store, lens_writer) gw_state" where
  "stub_serve w env n [] g = ([], True, g)"
| "stub_serve w env n (BlankLine # ls) g = stub_serve w env n ls g"
| "stub_serve w env n (LongLine # ls) g = ([], False, g)"
| "stub_serve w env n (TextLine p # ls) g =
     (case unmarshal (dec_struct stub_request_fields) p \<lparr>sq_tenant = [], sq_model = [], sq_prompt = []\<rparr> of
        None \<Rightarrow> stub_serve w env n ls g
      | Some req \<Rightarrow>
          (case Handle env (sq_tenant req) (sq_model req) (sq_prompt req) (sw_clock w n) g of
             (Inl err, g') \<Rightarrow> stub_serve w env (Suc n) ls g'
           | (Inr r, g') \<Rightarrow>
               (let (served, ok, g'') = stub_serve w env (Suc n) ls g' in ((sq_tenant req, r) # served, ok, g''))))"

definition bool_text :: "bool \<Rightarrow> string" where
  "bool_text b = (if b then ''true'' else ''false'')"

definition outcome_line :: "stub_world \<Rightarrow> string \<times> gw_result \<Rightarrow> string" where
  "outcome_line w = (\<lambda>(t, r).
     if gr_store_unavailable r then ''tenant='' @ t @ '' action=fail_closed_503 cost_usd=0''
     else if gr_blocked r then ''tenant='' @ t @ '' action=block retry_after='' @ sw_duration w (gr_retry_after r) @ '' cost_usd=0''
     else if gr_cache_hit r then ''tenant='' @ t @ '' action=cache_hit model='' @ gr_model_used r @ '' cost_usd=0''
     else ''tenant='' @ t @ '' action=inference model='' @ gr_model_used r @ '' degraded='' @ bool_text (gr_degraded r) @
       '' tokens='' @ itoa (gr_tokens_used r) @ '' cost_usd='' @ sw_fixed w 4 (gr_cost_usd r))"

definition fresh_gateway :: "(redis_store, lens_writer) gw_state" where
  "fresh_gateway =
     \<lparr>gs_enforcer = \<lparr>en_store = \<lparr>rs_keys = Map.empty, rs_calls = 0\<rparr>, en_sent = []\<rparr>, gs_calls = [], gs_events = [],
      gs_emitter = \<lparr>lw_posted = [], lw_calls = 0\<rparr>\<rparr>"

text \<open>The exit code, the lines printed and what LensAI has received.\<close>

definition stubgateway ::
  "stub_world \<Rightarrow> (string \<Rightarrow> int option) \<Rightarrow> string list \<Rightarrow> int \<times> string list \<times> lens_writer" where
  "stubgateway w pint args =
     (let none = gs_emitter fresh_gateway in
      case parse_flags (stub_flag_set pint) args \<lparr>st_input = [], st_budget = 1000, st_lensai = []\<rparr> of
        None \<Rightarrow> (2, [], none)
      | Some f \<Rightarrow>
          if st_input f = [] then (2, [], none)
          else case sw_files w (st_input f) of
            None \<Rightarrow> (1, [], none)
          | Some ls \<Rightarrow>
              if \<not> sw_redis_up w then (1, [], none)
              else
                let (served, ok, g) = stub_serve w (stub_env w f) 0 ls fresh_gateway
                in (if ok then 0 else 1, map (outcome_line w) served, gs_emitter g))"

section \<open>One request\<close>

lemma handle_model_enforcer:
  assumes "handle_model env t p r g = (res, g')"
  shows "gs_enforcer g' = gs_enforcer g"
proof (cases "gw_model env (length (gs_calls g)) t (gr_model_used r) p")
  case None
  with assms show ?thesis by (auto simp: handle_model_def)
next
  case (Some m)
  with assms show ?thesis
    by (auto simp: handle_model_def Let_def dest: emit_event_frame(2) split: prod.splits)
qed

lemma handle_cache_enforcer:
  assumes "handle_cache env t p r g = (res, g')"
  shows "gs_enforcer g' = gs_enforcer g"
proof (cases "gw_cache env (length (gs_calls g)) t p")
  case None
  with assms show ?thesis by (auto simp: handle_cache_def dest: handle_model_enforcer)
next
  case (Some c)
  with assms show ?thesis
    by (cases "cr_hit c") (auto simp: handle_cache_def dest: handle_model_enforcer emit_event_frame(2) split: prod.splits)
qed

lemma handle_decision_enforcer:
  "handle_decision env t m p d g = (res, g') \<Longrightarrow> gs_enforcer g' = gs_enforcer g"
  by (cases "d_action d") (auto simp: handle_decision_def dest: handle_cache_enforcer emit_event_frame(2) split: prod.splits)

text \<open>The stub clients: a request that is not blocked is answered by the model with the estimated tokens.\<close>

lemma stub_cache_result:
  assumes "handle_cache (stub_env w f) t p r0 g = (res, g')"
  shows "\<exists>err resp cost. res = Inr (r0\<lparr>gr_response := resp, gr_tokens_used := estimateTokens t p, gr_cost_usd := cost, gr_emit_err := err\<rparr>)"
proof -
  let ?g1 = "g\<lparr>gs_calls := gs_calls g @ [CacheLookup t p]\<rparr>"
  let ?g2 = "?g1\<lparr>gs_calls := gs_calls ?g1 @ [ModelCall t (gr_model_used r0) p]\<rparr>"
  obtain m where m: "priceTableModel (sw_hash8 w) (length (gs_calls ?g1)) t (gr_model_used r0) p = Some m" "mr_tokens m = estimateTokens t p"
    by (simp add: priceTableModel_def Let_def)
  have "handle_model (stub_env w f) t p r0 ?g1 = (res, g')"
    using assms by (simp add: handle_cache_def stub_env_def alwaysMissCache_def Let_def)
  then obtain r1 where "emit_event (stub_env w f) (EvSpend t (gr_model_used r0) (mr_cost m) (mr_latency m))
      (r0\<lparr>gr_response := mr_response m, gr_tokens_used := mr_tokens m, gr_cost_usd := mr_cost m\<rparr>) ?g2 = (r1, g')" "res = Inr r1"
    using m(1) by (auto simp: handle_model_def stub_env_def Let_def split: prod.splits)
  from emit_event_frame(3) [OF this(1)] this(2) m(2) show ?thesis by auto
qed

lemma stub_decision_result:
  assumes "handle_decision (stub_env w f) t m p d g = (res, g')"
  shows "\<exists>r. res = Inr r \<and> gr_blocked r = (d_action d = Block) \<and>
    gr_tokens_used r = (if d_action d = Block then 0 else estimateTokens t p)"
proof (cases "d_action d = Block")
  case True
  then obtain r where "emit_event (stub_env w f) (EvBlocked t)
      ((result_for m)\<lparr>gr_blocked := True, gr_retry_after := d_retry_after d\<rparr>) g = (r, g')" "res = Inr r"
    using assms by (auto simp: handle_decision_def split: prod.splits)
  from emit_event_frame(3) [OF this(1)] this(2) True show ?thesis by (auto simp: result_for_def)
next
  case False
  then obtain r0 where "handle_cache (stub_env w f) t p r0 g = (res, g')" "\<not> gr_blocked r0"
    using assms by (cases "d_action d") (auto simp: handle_decision_def result_for_def)
  from stub_cache_result [OF this(1)] this(2) False show ?thesis by auto
qed

section \<open>The store during a run\<close>

definition plain_slot :: "string \<Rightarrow> redis_store \<Rightarrow> bool" where
  "plain_slot t s \<longleftrightarrow> (\<forall>dl. rs_keys s (budget_key t) \<noteq> Some (RFlag, dl))"

lemma budget_key_not_alert: "CHR '':'' \<notin> set t \<Longrightarrow> budget_key t \<noteq> alert_key t' i"
proof
  assume "CHR '':'' \<notin> set t" "budget_key t = alert_key t' i"
  then have "t = t' @ '':alerted:'' @ itoa i" by (simp add: budget_key_def alert_key_def)
  with \<open>CHR '':'' \<notin> set t\<close> show False by auto
qed

lemma eval_script_slot:
  "eval_script (budget_key t') n W now s = (r, s') \<Longrightarrow> plain_slot t s \<Longrightarrow> plain_slot t s'"
  by (auto simp: eval_script_def plain_slot_def Let_def split: option.splits redis_value.splits prod.splits if_splits)

lemma CheckAndIncrement_slot:
  assumes "CheckAndIncrement io t' n W now s = (r, s')" "plain_slot t s"
  shows "plain_slot t s'"
proof -
  let ?s1 = "s\<lparr>rs_calls := Suc (rs_calls s)\<rparr>"
  have 1: "plain_slot t ?s1" using assms(2) by (simp add: plain_slot_def)
  then have "plain_slot t (snd (eval_script (budget_key t') n W (Unix now) ?s1))"
    using eval_script_slot by (metis prod.collapse)
  with 1 assms(1) show ?thesis
    by (auto simp: CheckAndIncrement_def Let_def split: redis_outcome.splits bool.splits)
qed

lemma MarkAlerted_slot:
  "MarkAlerted io t' W now s = (r, s') \<Longrightarrow> CHR '':'' \<notin> set t \<Longrightarrow> plain_slot t s \<Longrightarrow> plain_slot t s'"
  using budget_key_not_alert [of t t' "WindowIndex now W"]
  by (auto simp: MarkAlerted_def set_nx_def plain_slot_def Let_def
      split: option.splits redis_outcome.splits bool.splits prod.splits if_splits)

abbreviation stub_check ::
  "stub_world \<Rightarrow> string \<Rightarrow> int \<Rightarrow> tenant_config \<Rightarrow> int \<Rightarrow> redis_store enforcer \<Rightarrow> (check_error + decision) \<times> redis_store enforcer" where
  "stub_check w \<equiv> Check (redis_enforcer_env (sw_io w) None)"

lemma alert_branch_cases:
  assumes "alert_branch (redis_enforcer_env io None) t cfg now d e = (res, e')"
  obtains r s where "MarkAlerted io t (WindowSeconds cfg) now (en_store e) = (r, s)" "en_store e' = s" "r = None \<longleftrightarrow> (\<exists>x. res = Inl x)"
proof -
  obtain r s where m: "MarkAlerted io t (WindowSeconds cfg) now (en_store e) = (r, s)" by fastforce
  with assms have "en_store e' = s" "r = None \<longleftrightarrow> (\<exists>x. res = Inl x)"
    by (auto simp: alert_branch_def redis_enforcer_env_def Let_def split: option.splits bool.splits)
  with m show thesis by (rule that)
qed

lemma stub_check_cases:
  assumes "0 < BudgetTokens cfg" "stub_check w t n cfg now e = (res, e')"
  obtains (error) s where "CheckAndIncrement (sw_io w) t n (WindowSeconds cfg) now (en_store e) = (None, s)" "en_store e' = s"
  | (counted) u s where "CheckAndIncrement (sw_io w) t n (WindowSeconds cfg) now (en_store e) = (Some u, s)" "en_store e' = s" "\<exists>d. res = Inr d"
  | (marked) u s r s' where "CheckAndIncrement (sw_io w) t n (WindowSeconds cfg) now (en_store e) = (Some u, s)"
      "MarkAlerted (sw_io w) t (WindowSeconds cfg) now s = (r, s')" "en_store e' = s'" "r = None \<longleftrightarrow> (\<exists>x. res = Inl x)"
proof -
  obtain r s where c: "CheckAndIncrement (sw_io w) t n (WindowSeconds cfg) now (en_store e) = (r, s)" by fastforce
  show thesis
  proof (cases r)
    case None
    with c assms show thesis by (intro error [of s]) (auto simp: Check_def redis_enforcer_env_def)
  next
    case (Some u)
    define d where "d = zero_decision\<lparr>d_percent := u / of_int (BudgetTokens cfg), d_weighted := u\<rparr>"
    have run: "stub_check w t n cfg now e =
      (if u / of_int (BudgetTokens cfg) \<ge> HardThreshold cfg
       then (Inr (d\<lparr>d_action := Block, d_retry_after := retry_after now (WindowSeconds cfg)\<rparr>), e\<lparr>en_store := s\<rparr>)
       else if u / of_int (BudgetTokens cfg) \<ge> SoftThreshold cfg
       then (Inr (d\<lparr>d_action := Degrade, d_fallback_model := FallbackModel cfg\<rparr>), e\<lparr>en_store := s\<rparr>)
       else if u / of_int (BudgetTokens cfg) \<ge> AlertThreshold cfg
       then alert_branch (redis_enforcer_env (sw_io w) None) t cfg now d (e\<lparr>en_store := s\<rparr>)
       else (Inr d, e\<lparr>en_store := s\<rparr>))"
      using c Some assms(1) by (simp add: Check_def redis_enforcer_env_def d_def Let_def)
    show thesis
    proof (cases "alert_branch (redis_enforcer_env (sw_io w) None) t cfg now d (e\<lparr>en_store := s\<rparr>) = (res, e')")
      case True
      from alert_branch_cases [OF this] obtain r' s' where
        "MarkAlerted (sw_io w) t (WindowSeconds cfg) now s = (r', s')" "en_store e' = s'" "r' = None \<longleftrightarrow> (\<exists>x. res = Inl x)" by auto
      with c Some show thesis by (intro marked) auto
    next
      case False
      with run assms(2) c Some show thesis by (intro counted [of u s]) (auto split: if_splits)
    qed
  qed
qed

lemma stub_check_slot:
  assumes "0 < BudgetTokens cfg" "stub_check w t' n cfg now e = (res, e')" "CHR '':'' \<notin> set t" "plain_slot t (en_store e)"
  shows "plain_slot t (en_store e')"
  by (rule stub_check_cases [OF assms(1,2)])
    (use assms(3,4) in \<open>auto intro: CheckAndIncrement_slot MarkAlerted_slot\<close>)

lemma stub_check_answers:
  assumes "0 < BudgetTokens cfg" "stub_check w t n cfg now e = (res, e')" "plain_slot t (en_store e)" "\<forall>n. sw_io w n = ROk"
    and "0 < WindowSeconds cfg" "WindowSeconds cfg * 10 ^ 9 < 2 ^ 63"
  shows "\<exists>d. res = Inr d"
proof -
  let ?s = "(en_store e)\<lparr>rs_calls := Suc (rs_calls (en_store e))\<rparr>"
  have "live (Unix now) ?s (budget_key t) \<noteq> Some RFlag"
    using assms(3) by (auto simp: live_def plain_slot_def split: option.splits prod.splits if_splits)
  then have ok: "fst (CheckAndIncrement (sw_io w) t n (WindowSeconds cfg) now (en_store e)) \<noteq> None"
    using assms(4) by (auto simp: CheckAndIncrement_def eval_script_def Let_def split: option.splits redis_value.splits prod.splits)
  show ?thesis
  proof (rule stub_check_cases [OF assms(1,2)])
    fix u s r s'
    assume m: "MarkAlerted (sw_io w) t (WindowSeconds cfg) now s = (r, s')" "r = None \<longleftrightarrow> (\<exists>x. res = Inl x)"
    then have "r \<noteq> None" using assms(4) by (auto simp: MarkAlerted_def set_nx_small [OF assms(5,6)] Let_def split: prod.splits option.splits)
    with m(2) show "\<exists>d. res = Inr d" by (cases res) auto
  qed (use ok in auto)
qed

lemma stub_check_rep:
  assumes "0 < BudgetTokens cfg" "stub_check w t' n cfg now e = (res, e')"
    and "store_rep (\<lambda>_. WindowSeconds cfg) t0 (en_store e) h" "t0 \<le> Unix now" "0 < WindowSeconds cfg"
  shows "\<exists>h'. store_rep (\<lambda>_. WindowSeconds cfg) (Unix now) (en_store e') h' \<and> (h' = h \<or> h' = h(t' := h t' @ [(Unix now, n)]))"
proof (rule stub_check_cases [OF assms(1,2)])
  fix s
  assume "CheckAndIncrement (sw_io w) t' n (WindowSeconds cfg) now (en_store e) = (None, s)" "en_store e' = s"
  then show ?thesis using redis.check_err [OF assms(3,4)] assms(5) by blast
next
  fix u s
  assume "CheckAndIncrement (sw_io w) t' n (WindowSeconds cfg) now (en_store e) = (Some u, s)" "en_store e' = s"
  then show ?thesis using redis.check_ok [OF assms(3,4)] assms(5) by blast
next
  fix u s r s'
  assume c: "CheckAndIncrement (sw_io w) t' n (WindowSeconds cfg) now (en_store e) = (Some u, s)"
    and m: "MarkAlerted (sw_io w) t' (WindowSeconds cfg) now s = (r, s')" "en_store e' = s'"
  have "store_rep (\<lambda>_. WindowSeconds cfg) (Unix now) s (h(t' := h t' @ [(Unix now, n)]))"
    using redis.check_ok [OF assms(3,4) _ c] assms(5) by simp
  then have "store_rep (\<lambda>_. WindowSeconds cfg) (Unix now) s' (h(t' := h t' @ [(Unix now, n)]))"
    using MarkAlerted_rep [OF _ _ m(1)] by blast
  then show ?thesis using m(2) by blast
qed

lemma usage_one_window:
  assumes "list_all (\<lambda>(s, _). s div W = k) hs" "now div W = k" "0 < W"
  shows "usage W now hs = of_int (sum_list (map snd hs))"
proof -
  have "filter (\<lambda>(s, _). s div W = k) hs = hs" "filter (\<lambda>(s, _). s div W = k - 1) hs = []"
    using assms(1) by (auto simp: list_all_iff filter_id_conv filter_empty_conv)
  then show ?thesis using assms(2) by (simp add: usage_def window_sum_def)
qed

lemma stub_config_fields [simp]:
  "BudgetTokens (stub_config b) = b" "WindowSeconds (stub_config b) = 86400" "HardThreshold (stub_config b) = 12 / 10"
  "FailClosed (stub_config b) = False"
  by (simp_all add: stub_config_def DefaultWindowSeconds_def DefaultHardThreshold_def)

lemma estimateTokens_pos: "0 < estimateTokens t p"
  by (simp add: estimateTokens_def)

text \<open>One request through the gateway, seen from a tenant \<open>t\<close> without a colon in its name.\<close>

lemma stub_handle_step:
  assumes b: "0 < st_budget f" and t: "CHR '':'' \<notin> set t" and io: "\<forall>n. sw_io w n = ROk"
    and rep: "store_rep (\<lambda>_. 86400) t0 (en_store (gs_enforcer g)) h" "t0 \<le> Unix now"
    and slot: "plain_slot t (en_store (gs_enforcer g))"
    and run: "Handle (stub_env w f) t' m p now g = (res, g')" "t' \<noteq> []" "p \<noteq> []"
  shows "\<exists>h' r. store_rep (\<lambda>_. 86400) (Unix now) (en_store (gs_enforcer g')) h' \<and> plain_slot t (en_store (gs_enforcer g')) \<and>
    h' t = (if t' = t then h t @ [(Unix now, estimateTokens t p)] else h t) \<and> res = Inr r \<and>
    (t' = t \<and> 0 < gr_tokens_used r \<longrightarrow> gr_tokens_used r = estimateTokens t p \<and>
       usage 86400 (Unix now) (h' t) < 12 / 10 * of_int (st_budget f)) \<and> 0 \<le> gr_tokens_used r"
proof -
  let ?cfg = "stub_config (st_budget f)" and ?n = "estimateTokens t' p"
  have b': "0 < BudgetTokens ?cfg" and W: "0 < WindowSeconds ?cfg" using b by simp_all
  obtain chk e where c: "stub_check w t' ?n ?cfg now (gs_enforcer g) = (chk, e)" by fastforce
  define g1 where "g1 = g\<lparr>gs_enforcer := e\<rparr>"
  define d where "d = (case chk of Inl _ \<Rightarrow> zero_decision | Inr d \<Rightarrow> d)"
  have dec: "handle_decision (stub_env w f) t' m p d g1 = (res, g')"
    using run c by (cases chk) (simp_all add: Handle_def stub_env_def g1_def d_def estimateTokens_def)
  have ge: "gs_enforcer g' = e" using handle_decision_enforcer [OF dec] by (simp add: g1_def)
  obtain r where r: "res = Inr r" "gr_tokens_used r = (if d_action d = Block then 0 else ?n)"
    using stub_decision_result [OF dec] by blast
  have slot': "plain_slot t (en_store e)" by (rule stub_check_slot [OF b' c t slot])
  note rep' = rep [folded stub_config_fields(2) [of "st_budget f"]]
  obtain h1 where h1: "store_rep (\<lambda>_. WindowSeconds ?cfg) (Unix now) (en_store e) h1"
    "h1 = h \<or> h1 = h(t' := h t' @ [(Unix now, ?n)])"
    using stub_check_rep [OF b' c rep' W] by blast
  show ?thesis
  proof (cases "t' = t")
    case False
    then have "h1 t = h t" using h1(2) by auto
    with False h1(1) slot' ge r show ?thesis using estimateTokens_pos [of t' p] by (intro exI [of _ h1] exI [of _ r]) auto
  next
    case True
    obtain d0 where d0: "chk = Inr d0" using stub_check_answers [OF b' c _ io W] slot True by auto
    have "ee_check (redis_enforcer_env (sw_io w) None) = CheckAndIncrement (sw_io w)"
      "ee_mark (redis_enforcer_env (sw_io w) None) = MarkAlerted (sw_io w)" by (simp_all add: redis_enforcer_env_def)
    from redis.Check_sound [OF this rep' b' W refl c [unfolded d0]]
    have act: "d_action d = classify ?cfg (usage 86400 (Unix now) (h t @ [(Unix now, ?n)]))"
      and st: "store_rep (\<lambda>_. 86400) (Unix now) (en_store e) (h(t := h t @ [(Unix now, ?n)]))"
      using True by (simp_all add: d_def d0)
    have "usage 86400 (Unix now) (h t @ [(Unix now, ?n)]) < 12 / 10 * of_int (st_budget f)" if "d_action d \<noteq> Block"
      using act that by (auto simp: classify_def Let_def split: if_splits)
    with True st slot' ge r show ?thesis
      using estimateTokens_pos [of t p] by (intro exI [of _ "h(t := h t @ [(Unix now, ?n)])"] exI [of _ r]) auto
  qed
qed

definition served_tokens :: "string \<Rightarrow> (string \<times> gw_result) list \<Rightarrow> int" where
  "served_tokens t served = sum_list (map (gr_tokens_used \<circ> snd) (filter (\<lambda>x. fst x = t) served))"

lemma served_tokens_Cons:
  "served_tokens t ((t', r) # served) = (if t' = t then gr_tokens_used r else 0) + served_tokens t served"
  by (simp add: served_tokens_def)

lemma Unix_mono: "a \<le> b \<Longrightarrow> Unix a \<le> Unix b"
  by (simp add: Unix_def zdiv_mono1)

lemma Handle_refused:
  "t' = [] \<or> p = [] \<Longrightarrow> \<exists>err. Handle env t' m p now g = (Inl err, g)"
  by (auto simp: Handle_def)

lemma stub_serve_budget:
  assumes b: "0 < st_budget f" and t: "CHR '':'' \<notin> set t" and io: "\<forall>n. sw_io w n = ROk"
    and clock: "\<forall>n. Unix (sw_clock w n) div 86400 = k" "\<forall>n. sw_clock w n \<le> sw_clock w (Suc n)"
    and "store_rep (\<lambda>_. 86400) t0 (en_store (gs_enforcer g)) h" "t0 \<le> Unix (sw_clock w n)"
    and "plain_slot t (en_store (gs_enforcer g))" "list_all (\<lambda>(s, _). s div 86400 = k) (h t)"
    and "before \<le> sum_list (map snd (h t))"
    and "stub_serve w (stub_env w f) n ls g = (served, ok, g')"
  shows "served_tokens t served = 0 \<or> real_of_int (before + served_tokens t served) < 12 / 10 * of_int (st_budget f)"
  using assms(6-)
proof (induction ls arbitrary: n g t0 h before served ok)
  case Nil
  then show ?case by (simp add: served_tokens_def)
next
  case (Cons l ls)
  show ?case
  proof (cases l)
    case BlankLine
    with Cons show ?thesis by simp
  next
    case LongLine
    with Cons.prems show ?thesis by (simp add: served_tokens_def)
  next
    case (TextLine p)
    show ?thesis
    proof (cases "unmarshal (dec_struct stub_request_fields) p \<lparr>sq_tenant = [], sq_model = [], sq_prompt = []\<rparr>")
      case None
      with Cons TextLine show ?thesis by simp
    next
      case (Some req)
      let ?now = "sw_clock w n"
      have later: "x \<le> Unix (sw_clock w (Suc n))" if "x \<le> Unix ?now" for x
        using that Unix_mono clock(2) order_trans by blast
      show ?thesis
      proof (cases "sq_tenant req = [] \<or> sq_prompt req = []")
        case True
        from Handle_refused [OF this] obtain err where
          "Handle (stub_env w f) (sq_tenant req) (sq_model req) (sq_prompt req) ?now g = (Inl err, g)" by blast
        then have "stub_serve w (stub_env w f) (Suc n) ls g = (served, ok, g')" using Cons.prems(6) TextLine Some by simp
        from Cons.IH [OF Cons.prems(1) later [OF Cons.prems(2)] Cons.prems(3,4,5) this] show ?thesis .
      next
        case False
        obtain res g1 where run: "Handle (stub_env w f) (sq_tenant req) (sq_model req) (sq_prompt req) ?now g = (res, g1)" by fastforce
        from stub_handle_step [OF b t io Cons.prems(1,2,3) run] False obtain h' r where
          st: "store_rep (\<lambda>_. 86400) (Unix ?now) (en_store (gs_enforcer g1)) h'" "plain_slot t (en_store (gs_enforcer g1))"
          and ht: "h' t = (if sq_tenant req = t then h t @ [(Unix ?now, estimateTokens t (sq_prompt req))] else h t)"
          and r: "res = Inr r" "0 \<le> gr_tokens_used r"
          and lim: "sq_tenant req = t \<and> 0 < gr_tokens_used r \<Longrightarrow> gr_tokens_used r = estimateTokens t (sq_prompt req) \<and>
             usage 86400 (Unix ?now) (h' t) < 12 / 10 * of_int (st_budget f)" by metis
        obtain served' where s: "stub_serve w (stub_env w f) (Suc n) ls g1 = (served', ok, g')" "served = (sq_tenant req, r) # served'"
          using Cons.prems(6) TextLine Some run r by (auto split: prod.splits)
        define got where "got = (if sq_tenant req = t then gr_tokens_used r else 0)"
        have win: "list_all (\<lambda>(s, _). s div 86400 = k) (h' t)" using Cons.prems(4) clock(1) by (simp add: ht)
        have sum: "before + got \<le> sum_list (map snd (h' t))"
          using Cons.prems(5) lim r(2) estimateTokens_pos [of t "sq_prompt req"] by (cases "0 < gr_tokens_used r") (auto simp: ht got_def)
        have now_ok: "real_of_int (before + got) < 12 / 10 * of_int (st_budget f)" if "got \<noteq> 0"
        proof -
          have "usage 86400 (Unix ?now) (h' t) < 12 / 10 * of_int (st_budget f)" using that lim r(2) by (auto simp: got_def split: if_splits)
          then show ?thesis using usage_one_window [OF win] clock(1) sum by simp
        qed
        have "served_tokens t served' = 0 \<or> real_of_int (before + got + served_tokens t served') < 12 / 10 * of_int (st_budget f)"
          by (rule Cons.IH [OF st(1) later [OF order_refl] st(2) win sum s(1)])
        moreover have "served_tokens t served = got + served_tokens t served'" by (simp add: s(2) served_tokens_Cons got_def)
        ultimately show ?thesis using now_ok by (cases "got = 0") (auto simp: add.assoc)
      qed
    qed
  qed
qed

text \<open>
  C18.  The command keeps every tenant within its budget: with the in-process Redis answering and all
  requests in one day's window, in whatever order the tenants' requests come, the tokens of the
  inferences of a tenant stay below 120 percent of the budget of the flag, which has to be positive.
  This holds for tenants whose name has no colon.
\<close>

theorem stub_run_within_budget:
  assumes "0 < st_budget f" "CHR '':'' \<notin> set t" "\<forall>n. sw_io w n = ROk"
    and "\<forall>n. Unix (sw_clock w n) div 86400 = k" "\<forall>n. sw_clock w n \<le> sw_clock w (Suc n)"
    and "stub_serve w (stub_env w f) 0 ls fresh_gateway = (served, ok, g')"
  shows "real_of_int (served_tokens t served) < 12 / 10 * of_int (st_budget f)"
proof -
  have rep: "store_rep (\<lambda>_. 86400) (Unix (sw_clock w 0)) (en_store (gs_enforcer fresh_gateway)) (\<lambda>_. [])"
    by (simp add: fresh_gateway_def store_rep_def key_rep_def quiet_def window_sum_def)
  have slot: "plain_slot t (en_store (gs_enforcer fresh_gateway))" by (simp add: fresh_gateway_def plain_slot_def)
  have "served_tokens t served = 0 \<or> real_of_int (0 + served_tokens t served) < 12 / 10 * of_int (st_budget f)"
    by (rule stub_serve_budget [OF assms(1-5) rep order_refl slot _ _ assms(6)]; simp)
  then show ?thesis using assms(1) by auto
qed

definition demo_stub :: stub_world where
  "demo_stub =
     \<lparr>sw_files = (\<lambda>_. None), sw_redis_up = True, sw_io = (\<lambda>_. ROk), sw_clock = (\<lambda>_. 10 ^ 9), sw_hash8 = (\<lambda>_. ''00000000''),
      sw_ingest = (\<lambda>_. HttpStatus 202), sw_event_clock = (\<lambda>_. 0), sw_fixed = (\<lambda>_ _. ''x''), sw_duration = (\<lambda>_. ''d'')\<rparr>"

definition demo_stub_flags :: stub_flags where
  "demo_stub_flags = \<lparr>st_input = ''in'', st_budget = 1000, st_lensai = []\<rparr>"

definition demo_line :: input_line where
  "demo_line = TextLine (Some (JObj [(''tenant_id'', JStr ''acme''), (''model'', JStr ''gpt-4o''), (''prompt'', JStr ''hi'')]))"

lemma stub_request_lookup:
  "field_decoder stub_request_fields ''tenant_id'' = Some (lens sq_tenant (\<lambda>x s. s\<lparr>sq_tenant := x\<rparr>) dec_string)"
  "field_decoder stub_request_fields ''model'' = Some (lens sq_model (\<lambda>x s. s\<lparr>sq_model := x\<rparr>) dec_string)"
  "field_decoder stub_request_fields ''prompt'' = Some (lens sq_prompt (\<lambda>x s. s\<lparr>sq_prompt := x\<rparr>) dec_string)"
  by (simp_all add: field_decoder_plain stub_request_fields_def plain_name_def)

lemma demo_line_request:
  "stub_serve w env n [demo_line] g =
     (case Handle env ''acme'' ''gpt-4o'' ''hi'' (sw_clock w n) g of
        (Inl err, g') \<Rightarrow> ([], True, g') | (Inr r, g') \<Rightarrow> ([(''acme'', r)], True, g'))"
  by (simp add: demo_line_def unmarshal_def stub_request_lookup lens_def split: prod.splits sum.splits)

theorem stub_run_within_budget_witness:
  "\<exists>r g'. stub_serve demo_stub (stub_env demo_stub demo_stub_flags) 0 [demo_line] fresh_gateway = ([(''acme'', r)], True, g') \<and>
     served_tokens ''acme'' [(''acme'', r)] = 1 \<and> real_of_int (served_tokens ''acme'' [(''acme'', r)]) < 1200"
proof -
  obtain r g' where h: "Handle (stub_env demo_stub demo_stub_flags) ''acme'' ''gpt-4o'' ''hi'' (10 ^ 9) fresh_gateway = (Inr r, g')"
    and r: "gr_tokens_used r = 1"
    by (simp add: Handle_def stub_env_def demo_stub_def demo_stub_flags_def Check_def redis_enforcer_env_def CheckAndIncrement_def
        eval_script_def live_def fresh_gateway_def checkAndIncrementScript_def script_roll_def Unix_def estimateTokens_def
        stub_config_def DefaultWindowSeconds_def DefaultHardThreshold_def DefaultSoftThreshold_def DefaultAlertThreshold_def
        handle_decision_def zero_decision_def handle_cache_def alwaysMissCache_def handle_model_def priceTableModel_def
        emit_event_def Let_def)
  then have s: "stub_serve demo_stub (stub_env demo_stub demo_stub_flags) 0 [demo_line] fresh_gateway = ([(''acme'', r)], True, g')"
    by (simp add: demo_line_request) (simp add: demo_stub_def)
  have "real_of_int (served_tokens ''acme'' [(''acme'', r)]) < 12 / 10 * of_int (st_budget demo_stub_flags)"
    by (rule stub_run_within_budget [where k = 0, OF _ _ _ _ _ s]) (simp_all add: demo_stub_flags_def demo_stub_def Unix_def)
  with s r show ?thesis by (simp add: served_tokens_def demo_stub_flags_def)
qed

section \<open>Ways around the budget\<close>

text \<open>
  Observation.  The key of an alert flag is the budget key of another tenant.  Once the alert of tenant \<open>t\<close> has
  fired, a tenant named like the flag has no budget for the rest of the window, unless it fails
  closed: whatever it has spent and whatever Redis does, its requests are not blocked, and the flag
  stays in the place of its counter.
\<close>

theorem alert_key_collision:
  assumes "MarkAlerted io t W now0 s0 = (Some True, en_store (gs_enforcer g))" "Unix now < Unix now0 + W" "0 < W" "W * 10 ^ 9 < 2 ^ 63"
    and "gw_enforcer env = redis_enforcer_env io2 hook" "u = t @ '':alerted:'' @ itoa (WindowIndex now0 W)"
    and "0 < BudgetTokens (gw_config env u)" "\<not> FailClosed (gw_config env u)" "p \<noteq> []"
  shows "case Handle env u model p now g of
      (Inr r, g') \<Rightarrow> \<not> gr_blocked r \<and> live (Unix now) (en_store (gs_enforcer g')) (budget_key u) = Some RFlag
    | (Inl err, g') \<Rightarrow> err = ModelError \<and> live (Unix now) (en_store (gs_enforcer g')) (budget_key u) = Some RFlag"
proof -
  let ?s = "en_store (gs_enforcer g)"
  have key: "alert_key t (WindowIndex now0 W) = budget_key u" by (simp add: assms(6) alert_key_def budget_key_def)
  have "?s = s0\<lparr>rs_calls := Suc (rs_calls s0), rs_keys := (rs_keys s0)(budget_key u \<mapsto> (RFlag, Some (Unix now0 + W)))\<rparr>"
    using assms(1) by (auto simp: MarkAlerted_def set_nx_small [OF assms(3,4)] key Let_def split: option.splits redis_outcome.splits bool.splits)
  then have "rs_keys ?s (budget_key u) = Some (RFlag, Some (Unix now0 + W))" by simp
  then have flag: "live (Unix now) (?s\<lparr>rs_calls := n\<rparr>) (budget_key u) = Some RFlag" for n using assms(2) by (simp add: live_def)
  have chk: "CheckAndIncrement io2 u k W' now ?s = (None, ?s\<lparr>rs_calls := Suc (rs_calls ?s)\<rparr>)" for k W'
    using flag by (simp add: CheckAndIncrement_def eval_script_def Let_def split: redis_outcome.splits bool.splits)
  let ?g1 = "g\<lparr>gs_enforcer := (gs_enforcer g)\<lparr>en_store := ?s\<lparr>rs_calls := Suc (rs_calls ?s)\<rparr>\<rparr>\<rparr>"
  have u: "u \<noteq> []" by (simp add: assms(6))
  have run: "Handle env u model p now g = handle_decision env u model p zero_decision ?g1"
    using assms(5,7,8,9) u chk by (simp add: Handle_def Check_def redis_enforcer_env_def)
  obtain res g' where dec: "handle_decision env u model p zero_decision ?g1 = (res, g')" by fastforce
  have live': "live (Unix now) (en_store (gs_enforcer g')) (budget_key u) = Some RFlag"
    using handle_decision_enforcer [OF dec] flag by simp
  have "case res of Inr r \<Rightarrow> \<not> gr_blocked r | Inl err \<Rightarrow> err = ModelError"
  proof -
    have "handle_cache env u p (result_for model) ?g1 = (res, g')" using dec by (simp add: handle_decision_def zero_decision_def)
    moreover have "\<not> gr_blocked (result_for model)" by (simp add: result_for_def)
    ultimately show ?thesis
      by (auto simp: handle_cache_def handle_model_def Let_def dest!: emit_event_frame(3) split: option.splits if_splits prod.splits sum.splits)
  qed
  with live' run dec show ?thesis by (simp split: sum.splits)
qed

text \<open>The gateway of the demonstration after the alert of tenant \<open>acme\<close> has fired, in the first second of the epoch.\<close>

definition alerted_gateway :: "(redis_store, lens_writer) gw_state" where
  "alerted_gateway = fresh_gateway\<lparr>gs_enforcer := (gs_enforcer fresh_gateway)\<lparr>en_store :=
     snd (MarkAlerted (\<lambda>_. ROk) ''acme'' 86400 (10 ^ 9) (en_store (gs_enforcer fresh_gateway)))\<rparr>\<rparr>"

lemma first_window: "WindowIndex (10 ^ 9) 86400 = 0"
  by (simp add: WindowIndex_def Unix_def tdiv_def)

lemma itoa_zero: "itoa 0 = ''0''"
  by code_simp

lemma collision_name: "''acme:alerted:0'' = ''acme'' @ '':alerted:'' @ itoa (WindowIndex (10 ^ 9) 86400)"
  by (simp add: first_window itoa_zero del: power_numeral)

theorem alert_key_collision_witness:
  "case Handle (stub_env demo_stub demo_stub_flags) ''acme:alerted:0'' ''gpt-4o'' ''hi'' (10 ^ 9) alerted_gateway of
      (Inr r, g') \<Rightarrow> \<not> gr_blocked r \<and> live (Unix (10 ^ 9)) (en_store (gs_enforcer g')) (budget_key ''acme:alerted:0'') = Some RFlag
    | (Inl err, g') \<Rightarrow> err = ModelError \<and> live (Unix (10 ^ 9)) (en_store (gs_enforcer g')) (budget_key ''acme:alerted:0'') = Some RFlag"
proof (rule alert_key_collision [OF _ _ _ _ _ collision_name])
  show "MarkAlerted (\<lambda>_. ROk) ''acme'' 86400 (10 ^ 9) (en_store (gs_enforcer fresh_gateway)) =
      (Some True, en_store (gs_enforcer alerted_gateway))"
    by (simp add: alerted_gateway_def fresh_gateway_def MarkAlerted_def set_nx_small live_def Let_def)
  show "gw_enforcer (stub_env demo_stub demo_stub_flags) = redis_enforcer_env (sw_io demo_stub) None" by (simp add: stub_env_def)
qed (simp_all add: stub_env_def stub_config_def demo_stub_flags_def)

lemma stub_degraded:
  assumes "handle_cache (stub_env w f) t p r0 g = (Inr r, g')"
  shows "gr_degraded r = gr_degraded r0"
  using stub_cache_result [OF assms] by auto

lemma stub_decision_plain:
  assumes "handle_decision (stub_env w f) t m p d g = (Inr r, g')" "\<not> gr_blocked r" "\<not> gr_degraded r"
  shows "handle_cache (stub_env w f) t p (result_for m) g = (Inr r, g')"
proof (cases "d_action d")
  case Block
  then show ?thesis using stub_decision_result [OF assms(1)] assms(2) by auto
next
  case Degrade
  then show ?thesis using assms(1,3) by (auto simp: handle_decision_def dest!: stub_degraded)
qed (use assms(1) in \<open>auto simp: handle_decision_def\<close>)

lemma stub_unnamed_model:
  assumes "st_lensai f \<noteq> []" "handle_cache (stub_env w f) t p (result_for []) g = (res, g')"
  shows "\<exists>r. res = Inr r \<and> 0 < gr_cost_usd r \<and> gr_emit_err r \<noteq> None \<and> gs_emitter g' = gs_emitter g"
proof -
  let ?g1 = "g\<lparr>gs_calls := gs_calls g @ [CacheLookup t p]\<rparr>"
  let ?g2 = "?g1\<lparr>gs_calls := gs_calls ?g1 @ [ModelCall t [] p]\<rparr>"
  have emit: "gw_emit (stub_env w f) = Some (LensEmit (sw_ingest w) (sw_event_clock w))" using assms(1) by (simp add: stub_env_def)
  obtain m where m: "gw_model (stub_env w f) n t [] p = Some m" "0 < mr_cost m" for n
    using estimateTokens_pos [of t p] by (simp add: stub_env_def priceTableModel_def modelPricePerToken_def Let_def)
  have "handle_model (stub_env w f) t p (result_for []) ?g1 = (res, g')"
    using assms by (simp add: handle_cache_def stub_env_def alwaysMissCache_def Let_def)
  then obtain r1 where "emit_event (stub_env w f) (EvSpend t [] (mr_cost m) (mr_latency m))
      ((result_for [])\<lparr>gr_response := mr_response m, gr_tokens_used := mr_tokens m, gr_cost_usd := mr_cost m\<rparr>) ?g2 = (r1, g')" "res = Inr r1"
    using m(1) by (auto simp: handle_model_def result_for_def Let_def split: prod.splits)
  then show ?thesis using m(2) by (auto simp: emit_event_def emit split: if_splits)
qed

text \<open>
  Observation.  Spending that LensAI never sees.  A request of the demonstration that names no model is priced
  like the fallback model and served, unless it is degraded or blocked; but the writer requires a
  model, so the cost is never posted.
\<close>

theorem unnamed_model_unreported:
  assumes "st_lensai f \<noteq> []" "Handle (stub_env w f) t [] p now g = (Inr r, g')"
    and "\<not> gr_blocked r" "\<not> gr_degraded r"
  shows "0 < gr_cost_usd r \<and> gr_emit_err r \<noteq> None \<and> gs_emitter g' = gs_emitter g"
proof -
  obtain d e where d: "handle_decision (stub_env w f) t [] p d (g\<lparr>gs_enforcer := e\<rparr>) = (Inr r, g')"
    using assms(2) by (auto simp: Handle_def stub_env_def stub_config_def Let_def split: if_splits prod.splits sum.splits)
  have "handle_cache (stub_env w f) t p (result_for []) (g\<lparr>gs_enforcer := e\<rparr>) = (Inr r, g')"
    using stub_decision_plain [OF d assms(3,4)] .
  from stub_unnamed_model [OF assms(1) this] show ?thesis by simp
qed

definition demo_reporting_flags :: stub_flags where
  "demo_reporting_flags = demo_stub_flags\<lparr>st_lensai := ''http://lensai/ingest''\<rparr>"

theorem unnamed_model_unreported_witness:
  "\<exists>r g'. Handle (stub_env demo_stub demo_reporting_flags) ''acme'' [] ''hi'' (10 ^ 9) fresh_gateway = (Inr r, g') \<and>
     0 < gr_cost_usd r \<and> gr_emit_err r \<noteq> None \<and> lw_posted (gs_emitter g') = []"
proof -
  obtain r g' where h: "Handle (stub_env demo_stub demo_reporting_flags) ''acme'' [] ''hi'' (10 ^ 9) fresh_gateway = (Inr r, g')"
    and r: "\<not> gr_blocked r" "\<not> gr_degraded r"
    by (simp add: Handle_def stub_env_def demo_stub_def demo_reporting_flags_def demo_stub_flags_def Check_def redis_enforcer_env_def
        CheckAndIncrement_def eval_script_def live_def fresh_gateway_def checkAndIncrementScript_def script_roll_def Unix_def
        estimateTokens_def stub_config_def DefaultWindowSeconds_def DefaultHardThreshold_def DefaultSoftThreshold_def
        DefaultAlertThreshold_def handle_decision_def zero_decision_def handle_cache_def alwaysMissCache_def handle_model_def
        priceTableModel_def emit_event_def result_for_def Let_def)
  have "0 < gr_cost_usd r \<and> gr_emit_err r \<noteq> None \<and> gs_emitter g' = gs_emitter fresh_gateway"
    by (rule unnamed_model_unreported [OF _ h r]) (simp add: demo_reporting_flags_def)
  with h show ?thesis by (simp add: fresh_gateway_def)
qed

end
