(* ===== verification/Budget_Admin.thy ===== *)
theory Budget_Admin
  imports Budget_Config
begin

text \<open>
  The admin endpoint of the cost-budget-enforcer (\<^verbatim>\<open>pkg/admin/admin.go\<close>) with its audit trail
  (\<^verbatim>\<open>pkg/audit/audit.go\<close>, \<^verbatim>\<open>pkg/audit/kafka.go\<close>).  A request runs in two steps, the patch of
  the live store and the audit with its roll-back.  The store's lock is released between them, and
  what other requests do to the server there is an argument of the handler.
\<close>

section \<open>Handler\<close>

definition parseTenantID :: "string \<Rightarrow> string option" where
  "parseTenantID path =
     (if \<not> has_prefix path ''/tenants/'' \<or> \<not> has_suffix path ''/budget'' then None
      else
        let i = trim_suffix (trim_prefix path ''/tenants/'') ''/budget''
        in if i = [] \<or> contains i ''/'' then None else Some i)"

text \<open>\<^verbatim>\<open>toMap\<close>: the struct as a JSON object, all its fields in the order of their keys.\<close>

definition toMap :: "tenant_config \<Rightarrow> (string \<times> json) list" where
  "toMap tc =
     [(''alert_threshold'', enc_float (AlertThreshold tc)),
      (''alert_webhook_url'', JStr (AlertWebhookURL tc)),
      (''budget_tokens'', enc_float (of_int (BudgetTokens tc))),
      (''fail_closed'', JBool (FailClosed tc)),
      (''fallback_model'', JStr (FallbackModel tc)),
      (''hard_threshold'', enc_float (HardThreshold tc)),
      (''soft_threshold'', enc_float (SoftThreshold tc)),
      (''window_seconds'', enc_float (of_int (WindowSeconds tc)))]"

record budget_change_event =
  bc_tenant_id :: string
  bc_actor :: string
  bc_before :: "(string \<times> json) list"
  bc_after :: "(string \<times> json) list"
  bc_timestamp :: int

text \<open>
  The audit topic: \<open>ok n\<close> tells whether the \<open>n\<close>-th \<^verbatim>\<open>WriteMessages\<close> is acknowledged; a write
  that is not may still have reached the topic (\<open>kept n\<close>).
\<close>

record audit_env =
  ae_ok :: "nat \<Rightarrow> bool"
  ae_kept :: "nat \<Rightarrow> bool"
  ae_now :: "nat \<Rightarrow> int"

record admin_state =
  ad_store :: budget_config
  ad_log :: "budget_change_event list"
  ad_calls :: nat

definition KafkaPublish :: "audit_env \<Rightarrow> budget_change_event \<Rightarrow> admin_state \<Rightarrow> bool \<times> admin_state" where
  "KafkaPublish env event a =
     (let n = ad_calls a; a1 = a\<lparr>ad_calls := Suc n\<rparr>
      in if ae_ok env n then (True, a1\<lparr>ad_log := ad_log a @ [event]\<rparr>)
         else (False, if ae_kept env n then a1\<lparr>ad_log := ad_log a @ [event]\<rparr> else a1))"

record admin_request =
  ar_method :: string
  ar_path :: string
  ar_body :: payload
  ar_actor :: string

datatype admin_response =
    MethodNotAllowed
  | BadPath
  | BadBody
  | Unprocessable config_error
  | AuditUnavailable
  | AdminOk tenant_config

text \<open>The first step: validation of the request and \<^verbatim>\<open>Store.Patch\<close>.\<close>

definition admin_patch ::
  "admin_request \<Rightarrow> admin_state \<Rightarrow>
   (admin_response + string \<times> tenant_config \<times> tenant_config) \<times> admin_state" where
  "admin_patch r a =
     (if ar_method r \<noteq> ''PATCH'' then (Inl MethodNotAllowed, a)
      else case parseTenantID (ar_path r) of
        None \<Rightarrow> (Inl BadPath, a)
      | Some tenantID \<Rightarrow>
          (case unmarshal (dec_struct patch_fields) (ar_body r) empty_patch of
             None \<Rightarrow> (Inl BadBody, a)
           | Some patch \<Rightarrow>
               (case Patch tenantID patch (ad_store a) of
                  ((before, after, Some err), s) \<Rightarrow> (Inl (Unprocessable err), a\<lparr>ad_store := s\<rparr>)
                | ((before, after, None), s) \<Rightarrow> (Inr (tenantID, before, after), a\<lparr>ad_store := s\<rparr>))))"

text \<open>The second step: publish the audit event, and roll back when that fails.\<close>

definition change_event ::
  "admin_request \<Rightarrow> string \<Rightarrow> tenant_config \<Rightarrow> tenant_config \<Rightarrow> int \<Rightarrow> budget_change_event" where
  "change_event r tenantID before after now =
     \<lparr>bc_tenant_id = tenantID, bc_actor = (if ar_actor r = [] then ''unknown'' else ar_actor r),
      bc_before = toMap before, bc_after = toMap after, bc_timestamp = now\<rparr>"

definition admin_audit ::
  "audit_env \<Rightarrow> admin_request \<Rightarrow> string \<times> tenant_config \<times> tenant_config \<Rightarrow> admin_state \<Rightarrow>
   admin_response \<times> admin_state" where
  "admin_audit env r change a =
     (let (tenantID, before, after) = change;
          (ok, a1) = KafkaPublish env (change_event r tenantID before after (ae_now env (ad_calls a))) a
      in if ok then (AdminOk after, a1)
         else (AuditUnavailable, a1\<lparr>ad_store := Set tenantID before (ad_store a1)\<rparr>))"

text \<open>
  The handler: \<open>others\<close> is what the requests of other administrators do to the server between the
  two steps (\<open>id\<close> when there are none).
\<close>

definition AdminServeHTTP ::
  "audit_env \<Rightarrow> (admin_state \<Rightarrow> admin_state) \<Rightarrow> admin_request \<Rightarrow> admin_state \<Rightarrow> admin_response \<times> admin_state" where
  "AdminServeHTTP env others r a =
     (case admin_patch r a of
        (Inl resp, a1) \<Rightarrow> (resp, a1)
      | (Inr change, a1) \<Rightarrow> admin_audit env r change (others a1))"

section \<open>Specification\<close>

text \<open>A partial update read field by field: a field that is sent replaces the old value, also by zero.\<close>

definition overlay :: "tenant_patch \<Rightarrow> tenant_config \<Rightarrow> tenant_config \<Rightarrow> bool" where
  "overlay p before after \<longleftrightarrow>
     BudgetTokens after = (case p_budget_tokens p of None \<Rightarrow> BudgetTokens before | Some x \<Rightarrow> x) \<and>
     WindowSeconds after = (case p_window_seconds p of None \<Rightarrow> WindowSeconds before | Some x \<Rightarrow> x) \<and>
     FallbackModel after = (case p_fallback_model p of None \<Rightarrow> FallbackModel before | Some x \<Rightarrow> x) \<and>
     AlertWebhookURL after = (case p_alert_webhook_url p of None \<Rightarrow> AlertWebhookURL before | Some x \<Rightarrow> x) \<and>
     AlertThreshold after = (case p_alert_threshold p of None \<Rightarrow> AlertThreshold before | Some x \<Rightarrow> x) \<and>
     SoftThreshold after = (case p_soft_threshold p of None \<Rightarrow> SoftThreshold before | Some x \<Rightarrow> x) \<and>
     HardThreshold after = (case p_hard_threshold p of None \<Rightarrow> HardThreshold before | Some x \<Rightarrow> x) \<and>
     FailClosed after = FailClosed before"

text \<open>The request asks for a valid configuration \<open>after\<close> of tenant \<open>u\<close>.\<close>

definition asks_for :: "admin_request \<Rightarrow> admin_state \<Rightarrow> string \<Rightarrow> tenant_config \<Rightarrow> bool" where
  "asks_for r a u after \<longleftrightarrow>
     ar_method r = ''PATCH'' \<and> parseTenantID (ar_path r) = Some u \<and> Validate after = None \<and>
     (\<exists>p. unmarshal (dec_struct patch_fields) (ar_body r) empty_patch = Some p \<and>
       overlay p (ForTenant u (ad_store a)) after)"

section \<open>Lemmas\<close>

lemma admin_patch_ok:
  assumes "admin_patch r a = (Inr (u, before, after), a1)"
  shows "before = ForTenant u (ad_store a)" "Validate after = None"
    "a1 = a\<lparr>ad_store := Set u after (ad_store a)\<rparr>" "parseTenantID (ar_path r) = Some u"
  using assms
  by (auto simp: admin_patch_def Patch_def Set_def Let_def split: if_splits option.splits)

lemma overlay_iff: "overlay p before after \<longleftrightarrow> after = apply_patch p before"
  by (cases before; cases after) (auto simp: overlay_def apply_patch_def Let_def split: option.splits)

lemma admin_patch_asked: "admin_patch r a = (Inr (u, before, after), a1) \<Longrightarrow> asks_for r a u after"
  by (auto simp: admin_patch_def Patch_def asks_for_def overlay_iff Let_def split: if_splits option.splits)

lemma admin_patch_not_asked: "admin_patch r a = (Inl resp, a1) \<Longrightarrow> \<not> asks_for r a u after"
  by (auto simp: admin_patch_def Patch_def asks_for_def overlay_iff Let_def split: if_splits option.splits)

lemma admin_patch_refused:
  "admin_patch r a = (Inl resp, a1) \<Longrightarrow> a1 = a \<and> resp \<noteq> AuditUnavailable \<and> (\<forall>tc. resp \<noteq> AdminOk tc)"
  by (auto simp: admin_patch_def Patch_def Let_def split: if_splits option.splits)

lemma overlap_cases:
  "p @ t = u @ s \<Longrightarrow> (\<exists>i. u = p @ i \<and> t = i @ s) \<or> (\<exists>k. k \<noteq> [] \<and> p = u @ k \<and> k @ t = s)"
  by (fastforce simp: append_eq_append_conv2)

lemma trim_path:
  assumes "has_prefix path ''/tenants/''" "has_suffix path ''/budget''"
  obtains i where "path = ''/tenants/'' @ i @ ''/budget''" "trim_suffix (trim_prefix path ''/tenants/'') ''/budget'' = i"
  | "path = ''/tenants/budget''" "trim_suffix (trim_prefix path ''/tenants/'') ''/budget'' = ''budget''"
proof -
  obtain t where t: "path = ''/tenants/'' @ t" using assms(1) by (auto simp: has_prefix_iff)
  obtain u where u: "path = u @ ''/budget''" using assms(2) by (auto simp: has_suffix_iff)
  from t u have "''/tenants/'' @ t = u @ ''/budget''" by simp
  then consider (long) i where "u = ''/tenants/'' @ i" "t = i @ ''/budget''"
    | (short) k where "k \<noteq> []" "''/tenants/'' = u @ k" "k @ t = ''/budget''"
    using overlap_cases [of "''/tenants/''" t u "''/budget''"] by blast
  then show thesis
  proof cases
    case long
    then show ?thesis using that(1) [of i] u t trim_suffix_append by (simp add: trim_prefix_def has_prefix_iff)
  next
    case short
    have "t = ''budget''"
      using short by (auto simp: append_eq_Cons_conv Cons_eq_append_conv)
    then show ?thesis using that(2) t by (simp add: trim_suffix_def trim_prefix_def has_suffix_def)
  qed
qed

section \<open>Properties\<close>

text \<open>
  C26. An admin change is all or nothing, while other requests change other tenants between its two
  steps.  The answer is 200 exactly when the method, the path and the body are right, the
  configuration they ask for (the tenant's own with the fields of the body laid over it) is valid,
  and the audit record is acknowledged: then that configuration is the tenant's and the change is in
  the audit log.  When the audit record is not acknowledged the tenant has its old configuration
  back.  Every other answer leaves the server as it was.
\<close>

theorem admin_change_atomic:
  assumes others: "\<And>b t. parseTenantID (ar_path r) = Some t \<Longrightarrow>
    cfg_tenants (ad_store (others b)) t = cfg_tenants (ad_store b) t"
  shows "case AdminServeHTTP env others r a of
     (AdminOk after, a') \<Rightarrow>
       (\<exists>u b. asks_for r a u after \<and> b = others (a\<lparr>ad_store := Set u after (ad_store a)\<rparr>) \<and> ae_ok env (ad_calls b) \<and>
          (\<forall>t. ForTenant t (ad_store a') = (if t = u then after else ForTenant t (ad_store b))) \<and>
          ad_log a' = ad_log b @ [change_event r u (ForTenant u (ad_store a)) after (ae_now env (ad_calls b))])
   | (AuditUnavailable, a') \<Rightarrow>
       (\<exists>u after b. asks_for r a u after \<and> b = others (a\<lparr>ad_store := Set u after (ad_store a)\<rparr>) \<and> \<not> ae_ok env (ad_calls b) \<and>
          (\<forall>t. ForTenant t (ad_store a') = ForTenant t (ad_store (if t = u then a else b))))
   | (_, a') \<Rightarrow> a' = a \<and> \<not> (\<exists>u after. asks_for r a u after)"
proof (cases "admin_patch r a")
  case (Pair res a1)
  show ?thesis
  proof (cases res)
    case (Inl resp)
    then show ?thesis
      using Pair admin_patch_refused [of r a resp a1] admin_patch_not_asked [of r a resp a1]
      by (auto simp: AdminServeHTTP_def split: admin_response.splits)
  next
    case (Inr change)
    obtain u before after where change: "change = (u, before, after)" by (cases change) auto
    note patch = Pair [unfolded Inr change]
    note ok = admin_patch_ok [OF patch] and asked = admin_patch_asked [OF patch]
    have "ForTenant u (ad_store (others a1)) = after"
      using others [OF ok(4), of a1] ok(3) by (simp add: ForTenant_def Set_def)
    then show ?thesis
      using patch ok asked
      by (cases "ae_ok env (ad_calls (others a1))")
        (auto simp: AdminServeHTTP_def admin_audit_def KafkaPublish_def ForTenant_Set Let_def)
  qed
qed

text \<open>
  Observation. The path parser: a tenant is recognised exactly in paths \<^verbatim>\<open>/tenants/{id}/budget\<close> with a
  non-empty slash-free \<^verbatim>\<open>id\<close>, and in one path more, \<^verbatim>\<open>/tenants/budget\<close>, where prefix and suffix
  overlap and the tenant is \<^verbatim>\<open>budget\<close>.
\<close>

theorem parseTenantID_iff:
  "parseTenantID path = Some i \<longleftrightarrow>
     i \<noteq> [] \<and> CHR ''/'' \<notin> set i \<and>
     (path = ''/tenants/'' @ i @ ''/budget'' \<or> i = ''budget'' \<and> path = ''/tenants/budget'')"
proof
  assume p: "parseTenantID path = Some i"
  then have pre: "has_prefix path ''/tenants/''" "has_suffix path ''/budget''"
    by (auto simp: parseTenantID_def Let_def split: if_splits)
  from p pre show "i \<noteq> [] \<and> CHR ''/'' \<notin> set i \<and>
     (path = ''/tenants/'' @ i @ ''/budget'' \<or> i = ''budget'' \<and> path = ''/tenants/budget'')"
    by (elim trim_path) (auto simp: parseTenantID_def contains_char_iff Let_def split: if_splits)
next
  assume i: "i \<noteq> [] \<and> CHR ''/'' \<notin> set i \<and>
     (path = ''/tenants/'' @ i @ ''/budget'' \<or> i = ''budget'' \<and> path = ''/tenants/budget'')"
  have "parseTenantID (''/tenants/'' @ i @ ''/budget'') = Some i"
    using i has_suffix_iff [of "''/tenants/'' @ i @ ''/budget''" "''/budget''"]
      trim_prefix_append [of "''/tenants/''" "i @ ''/budget''"] trim_suffix_append [of i "''/budget''"]
    by (simp add: parseTenantID_def contains_char_iff)
  moreover have "parseTenantID ''/tenants/budget'' = Some ''budget''"
    by (simp add: parseTenantID_def trim_suffix_def trim_prefix_def has_suffix_def)
  ultimately show "parseTenantID path = Some i" using i by auto
qed

text \<open>
  Observation. The roll-back can discard another administrator's change: when request \<open>r1\<close> has patched
  the store, request \<open>r2\<close> for the same tenant is applied, audited and answered with 200, and
  then the audit of \<open>r1\<close> fails, the tenant's configuration is back at the state before both.
\<close>

theorem rollback_discards_concurrent_patch:
  assumes "admin_patch r1 a = (Inr (u, before1, after1), a1)"
    and "AdminServeHTTP env id r2 a1 = (AdminOk after2, a2)"
    and "admin_audit env r1 (u, before1, after1) a2 = (AuditUnavailable, a3)"
  shows "ForTenant u (ad_store a3) = ForTenant u (ad_store a) \<and>
    (\<exists>ev \<in> set (ad_log a3). bc_after ev = toMap after2)"
proof -
  have "\<exists>ev \<in> set (ad_log a2). bc_after ev = toMap after2"
    using assms(2) admin_patch_refused
    by (auto simp: AdminServeHTTP_def admin_audit_def KafkaPublish_def change_event_def Let_def
        split: prod.splits sum.splits if_splits)
  then show ?thesis
    using admin_patch_ok [OF assms(1)] assms(3)
    by (auto simp: admin_audit_def KafkaPublish_def ForTenant_Set Let_def split: if_splits)
qed

definition demo_admin :: admin_state where
  "demo_admin = \<lparr>ad_store = \<lparr>cfg_default = (applyDefaults zero_tenant)\<lparr>BudgetTokens := 5\<rparr>,
     cfg_tenants = Map.empty\<rparr>, ad_log = [], ad_calls = 0\<rparr>"

definition demo_patch_request :: "int \<Rightarrow> admin_request" where
  "demo_patch_request n = \<lparr>ar_method = ''PATCH'', ar_path = ''/tenants/acme/budget'',
     ar_body = Some (JObj [(''budget_tokens'', JInt n)]), ar_actor = ''ops''\<rparr>"

definition demo_budget :: "int \<Rightarrow> tenant_config" where
  "demo_budget n = (applyDefaults zero_tenant)\<lparr>BudgetTokens := n\<rparr>"

lemma demo_budget_valid: "0 < n \<Longrightarrow> Validate (demo_budget n) = None"
  by (simp add: Validate_None_iff demo_budget_def applyDefaults_def zero_tenant_def
      DefaultWindowSeconds_def DefaultAlertThreshold_def DefaultSoftThreshold_def
      DefaultHardThreshold_def Let_def)

lemma demo_patch:
  assumes "ForTenant ''acme'' (ad_store a) = demo_budget k" "0 < n" "n < 2 ^ 63"
  shows "admin_patch (demo_patch_request n) a =
    (Inr (''acme'', demo_budget k, demo_budget n), a\<lparr>ad_store := Set ''acme'' (demo_budget n) (ad_store a)\<rparr>)"
proof -
  have path: "parseTenantID ''/tenants/acme/budget'' = Some ''acme''"
    by (simp add: parseTenantID_def trim_suffix_def trim_prefix_def has_suffix_def)
  have "unmarshal (dec_struct patch_fields) (Some (JObj [(''budget_tokens'', JInt n)])) empty_patch =
      Some (empty_patch\<lparr>p_budget_tokens := Some n\<rparr>)"
    using assms by (simp add: unmarshal_def patch_fields_def field_decoder_def lens_def empty_patch_def)
  moreover have "apply_patch (empty_patch\<lparr>p_budget_tokens := Some n\<rparr>) (demo_budget k) = demo_budget n"
    by (simp add: apply_patch_def empty_patch_def demo_budget_def)
  ultimately show ?thesis
    using path assms demo_budget_valid [of n]
    by (simp add: admin_patch_def demo_patch_request_def Patch_def Set_def Let_def)
qed

theorem admin_change_atomic_witness:
  "(\<exists>a'. AdminServeHTTP \<lparr>ae_ok = (\<lambda>n. True), ae_kept = (\<lambda>_. False), ae_now = int\<rparr> id (demo_patch_request 20) demo_admin =
       (AdminOk (demo_budget 20), a') \<and>
     ForTenant ''acme'' (ad_store a') = demo_budget 20 \<and> ForTenant ''other'' (ad_store a') = demo_budget 5)"
proof -
  let ?env = "\<lparr>ae_ok = (\<lambda>n. True), ae_kept = (\<lambda>_. False), ae_now = int\<rparr>" and ?r = "demo_patch_request 20"
  have start: "ForTenant t (ad_store demo_admin) = demo_budget 5" for t
    by (simp add: ForTenant_def demo_admin_def demo_budget_def)
  have served: "AdminServeHTTP ?env id ?r demo_admin =
    (AdminOk (demo_budget 20), snd (AdminServeHTTP ?env id ?r demo_admin))"
    using demo_patch [OF start, of 20] by (simp add: AdminServeHTTP_def admin_audit_def KafkaPublish_def)
  have path: "parseTenantID (ar_path ?r) = Some ''acme''"
    by (simp add: demo_patch_request_def parseTenantID_def trim_suffix_def trim_prefix_def has_suffix_def)
  have "case AdminServeHTTP ?env id ?r demo_admin of (AdminOk after, a') \<Rightarrow> after = demo_budget 20 \<and>
      ForTenant ''acme'' (ad_store a') = after \<and> ForTenant ''other'' (ad_store a') = demo_budget 5
    | _ \<Rightarrow> False"
    using admin_change_atomic [where r = ?r and others = id and env = ?env and a = demo_admin] served path start
    by (auto simp: asks_for_def ForTenant_Set split: prod.splits admin_response.splits)
  then show ?thesis using served by (auto split: prod.splits admin_response.splits)
qed

theorem rollback_discards_concurrent_patch_witness:
  "\<exists>a1 a2 a3. admin_patch (demo_patch_request 10) demo_admin =
       (Inr (''acme'', demo_budget 5, demo_budget 10), a1) \<and>
     AdminServeHTTP \<lparr>ae_ok = (\<lambda>n. n = 0), ae_kept = (\<lambda>_. False), ae_now = int\<rparr> id
       (demo_patch_request 20) a1 = (AdminOk (demo_budget 20), a2) \<and>
     admin_audit \<lparr>ae_ok = (\<lambda>n. n = 0), ae_kept = (\<lambda>_. False), ae_now = int\<rparr> (demo_patch_request 10)
       (''acme'', demo_budget 5, demo_budget 10) a2 = (AuditUnavailable, a3) \<and>
     ForTenant ''acme'' (ad_store a3) = demo_budget 5 \<and>
     (\<exists>ev. ev \<in> set (ad_log a3) \<and> bc_after ev = toMap (demo_budget 20))"
proof -
  let ?env = "\<lparr>ae_ok = (\<lambda>n. n = 0), ae_kept = (\<lambda>_. False), ae_now = int\<rparr>"
  let ?r1 = "demo_patch_request 10" and ?r2 = "demo_patch_request 20"
  define a1 where "a1 = demo_admin\<lparr>ad_store := Set ''acme'' (demo_budget 10) (ad_store demo_admin)\<rparr>"
  have start: "ForTenant ''acme'' (ad_store demo_admin) = demo_budget 5"
    by (simp add: ForTenant_def demo_admin_def demo_budget_def)
  have p1: "admin_patch ?r1 demo_admin = (Inr (''acme'', demo_budget 5, demo_budget 10), a1)"
    using demo_patch [OF start, of 10] by (simp add: a1_def)
  have mid: "ForTenant ''acme'' (ad_store a1) = demo_budget 10" "ad_calls a1 = 0" "ad_log a1 = []"
    by (simp_all add: a1_def ForTenant_Set demo_admin_def)
  obtain a2 where s2: "AdminServeHTTP ?env id ?r2 a1 = (AdminOk (demo_budget 20), a2)"
    and calls: "ad_calls a2 = 1"
    using demo_patch [OF mid(1), of 20] mid(2)
    by (simp add: AdminServeHTTP_def admin_audit_def KafkaPublish_def)
  obtain a3 where s3: "admin_audit ?env ?r1 (''acme'', demo_budget 5, demo_budget 10) a2 = (AuditUnavailable, a3)"
    using calls by (simp add: admin_audit_def KafkaPublish_def)
  from rollback_discards_concurrent_patch [OF p1 s2 s3] obtain ev where
    "ForTenant ''acme'' (ad_store a3) = demo_budget 5" "ev \<in> set (ad_log a3)"
    "bc_after ev = toMap (demo_budget 20)"
    using start by auto
  with p1 s2 s3 show ?thesis by blast
qed

end
