(* ===== verification/Flag_Store.thy ===== *)
theory Flag_Store
  imports Go_Json
begin

text \<open>
  The flag store of distributed-flagd (\<^verbatim>\<open>internal/etcdstore/client.go\<close>; \<^verbatim>\<open>internal/etcd/client.go\<close>
  has the same operations without the delete).  The Go interfaces \<^verbatim>\<open>FlagStore\<close>, \<^verbatim>\<open>Store\<close> and
  \<^verbatim>\<open>flagStore\<close> of the packages that use it are the locale \<open>flag_store\<close>, interpreted by the
  etcd client.
\<close>

section \<open>Flags and their JSON form\<close>

record variant_data =
  vd_value :: string
  vd_weight :: int

record flag_data =
  fd_name :: string
  fd_value :: string
  fd_enabled :: bool
  fd_variants :: "variant_data list"

definition zero_variant :: variant_data where
  "zero_variant = \<lparr>vd_value = [], vd_weight = 0\<rparr>"

definition zero_flag :: flag_data where
  "zero_flag = \<lparr>fd_name = [], fd_value = [], fd_enabled = False, fd_variants = []\<rparr>"

definition variant_fields :: "variant_data fields" where
  "variant_fields =
     [(''value'', lens vd_value (\<lambda>x v. v\<lparr>vd_value := x\<rparr>) dec_string),
      (''weight'', lens vd_weight (\<lambda>x v. v\<lparr>vd_weight := x\<rparr>) dec_int64)]"

definition flag_fields :: "flag_data fields" where
  "flag_fields =
     [(''name'', lens fd_name (\<lambda>x f. f\<lparr>fd_name := x\<rparr>) dec_string),
      (''value'', lens fd_value (\<lambda>x f. f\<lparr>fd_value := x\<rparr>) dec_string),
      (''enabled'', lens fd_enabled (\<lambda>x f. f\<lparr>fd_enabled := x\<rparr>) dec_bool),
      (''variants'', lens fd_variants (\<lambda>x f. f\<lparr>fd_variants := x\<rparr>)
         (dec_slice (dec_struct variant_fields) zero_variant))]"

definition unmarshal_flag :: "payload \<Rightarrow> flag_data option" where
  "unmarshal_flag p = unmarshal (dec_struct flag_fields) p zero_flag"

definition enc_variant :: "variant_data \<Rightarrow> json" where
  "enc_variant v = JObj [(''value'', JStr (vd_value v)), (''weight'', JInt (vd_weight v))]"

definition enc_flag :: "flag_data \<Rightarrow> json" where
  "enc_flag fd = JObj
     ([(''name'', JStr (fd_name fd)), (''value'', JStr (fd_value fd)), (''enabled'', JBool (fd_enabled fd))] @
      (if fd_variants fd = [] then [] else [(''variants'', JArr (map enc_variant (fd_variants fd)))]))"

text \<open>A weight is a Go \<^verbatim>\<open>int\<close>, so it fits 64 bits.\<close>

definition flag_ok :: "flag_data \<Rightarrow> bool" where
  "flag_ok fd \<longleftrightarrow> (\<forall>v \<in> set (fd_variants fd). - (2 ^ 63) \<le> vd_weight v \<and> vd_weight v < 2 ^ 63)"

lemma flag_fields_plain:
  "list_all plain_name (map fst variant_fields)" "list_all plain_name (map fst flag_fields)"
  by (simp_all add: variant_fields_def flag_fields_def plain_name_def)

lemma flag_field_decoders:
  "field_decoder variant_fields ''value'' = Some (lens vd_value (\<lambda>x v. v\<lparr>vd_value := x\<rparr>) dec_string)"
  "field_decoder variant_fields ''weight'' = Some (lens vd_weight (\<lambda>x v. v\<lparr>vd_weight := x\<rparr>) dec_int64)"
  "field_decoder flag_fields ''name'' = Some (lens fd_name (\<lambda>x f. f\<lparr>fd_name := x\<rparr>) dec_string)"
  "field_decoder flag_fields ''value'' = Some (lens fd_value (\<lambda>x f. f\<lparr>fd_value := x\<rparr>) dec_string)"
  "field_decoder flag_fields ''enabled'' = Some (lens fd_enabled (\<lambda>x f. f\<lparr>fd_enabled := x\<rparr>) dec_bool)"
  "field_decoder flag_fields ''variants'' = Some (lens fd_variants (\<lambda>x f. f\<lparr>fd_variants := x\<rparr>)
     (dec_slice (dec_struct variant_fields) zero_variant))"
  by (subst field_decoder_plain, simp add: plain_name_def, rule flag_fields_plain,
      simp add: variant_fields_def flag_fields_def)+

lemma dec_enc_variant:
  "- (2 ^ 63) \<le> vd_weight v \<Longrightarrow> vd_weight v < 2 ^ 63 \<Longrightarrow>
   dec_struct variant_fields (enc_variant v) zero_variant = Some v"
  by (simp add: enc_variant_def flag_field_decoders lens_def zero_variant_def)

lemma unmarshal_enc_flag: "flag_ok fd \<Longrightarrow> unmarshal_flag (Some (enc_flag fd)) = Some fd"
proof -
  assume ok: "flag_ok fd"
  have "dec_elems (dec_struct variant_fields) zero_variant (map enc_variant (fd_variants fd)) = Some (fd_variants fd)"
    using ok by (intro dec_elems_map) (auto simp: flag_ok_def dec_enc_variant)
  then show ?thesis
    by (auto simp: unmarshal_flag_def unmarshal_def enc_flag_def flag_field_decoders lens_def zero_flag_def)
qed

section \<open>The contract of a flag store\<close>

locale flag_store =
  fixes get_flag :: "string \<Rightarrow> 's \<Rightarrow> (string + flag_data) \<times> 's"
    and set_flag :: "flag_data \<Rightarrow> 's \<Rightarrow> string option \<times> 's"
    and delete_flag :: "string \<Rightarrow> 's \<Rightarrow> string option \<times> 's"
    and flags :: "'s \<Rightarrow> string \<rightharpoonup> flag_data"
    and inv :: "'s \<Rightarrow> bool"
  assumes get_frame: "inv s \<Longrightarrow> get_flag n s = (g, s') \<Longrightarrow> flags s' = flags s \<and> inv s'"
    and get_found: "inv s \<Longrightarrow> get_flag n s = (Inr fd, s') \<Longrightarrow> flags s n = Some fd"
    and set_inv: "inv s \<Longrightarrow> flag_ok fd \<Longrightarrow> set_flag fd s = (r, s') \<Longrightarrow> inv s'"
    and set_ok: "inv s \<Longrightarrow> flag_ok fd \<Longrightarrow> set_flag fd s = (None, s') \<Longrightarrow> flags s' = (flags s)(fd_name fd \<mapsto> fd)"
    and set_err: "inv s \<Longrightarrow> flag_ok fd \<Longrightarrow> set_flag fd s = (Some e, s') \<Longrightarrow>
      flags s' = flags s \<or> flags s' = (flags s)(fd_name fd \<mapsto> fd)"
    and delete_inv: "inv s \<Longrightarrow> delete_flag n s = (r, s') \<Longrightarrow> inv s'"
    and delete_ok: "inv s \<Longrightarrow> delete_flag n s = (None, s') \<Longrightarrow> flags s n \<noteq> None \<and> flags s' = (flags s)(n := None)"
    and delete_err: "inv s \<Longrightarrow> delete_flag n s = (Some e, s') \<Longrightarrow>
      flags s' = flags s \<or> flags s' = (flags s)(n := None)"
begin

lemma get_after_set:
  assumes "inv s" "flag_ok fd" "set_flag fd s = (None, s1)" "get_flag (fd_name fd) s1 = (Inr fd', s2)"
  shows "fd' = fd"
  using get_found [OF set_inv [OF assms(1-3)] assms(4)] set_ok [OF assms(1-3)] by simp

lemma no_get_after_delete:
  assumes "inv s" "delete_flag n s = (None, s1)" "get_flag n s1 = (r, s2)"
  shows "\<exists>e. r = Inl e"
  using get_found [OF delete_inv [OF assms(1,2)], of n] delete_ok [OF assms(1,2)] assms(3)
  by (cases r) auto

end

section \<open>etcd\<close>

text \<open>
  etcd is third-party: what the client observes is a key space in the order of the keys, the
  watch events with their keys in the order of the revisions (a delete has an empty value), and per request an
  outcome: \<open>EtcdErr msg applied\<close> is an error, reported before or after the server applied the
  request.
\<close>

datatype etcd_outcome = EtcdOk | EtcdErr string bool

record etcd =
  et_kvs :: "(string \<times> payload) list"
  et_events :: "(string \<times> payload) list"
  et_calls :: nat

type_synonym etcd_io = "nat \<Rightarrow> etcd_outcome"

definition flagPrefix :: string where
  "flagPrefix = ''/flags/''"

definition kv_put :: "string \<Rightarrow> payload \<Rightarrow> etcd \<Rightarrow> etcd" where
  "kv_put k v s = s\<lparr>et_kvs := put_entry k v (et_kvs s), et_events := et_events s @ [(k, v)]\<rparr>"

definition kv_delete :: "string \<Rightarrow> etcd \<Rightarrow> nat \<times> etcd" where
  "kv_delete k s =
     (let hit = filter (\<lambda>(l, _). l = k) (et_kvs s)
      in (length hit, s\<lparr>et_kvs := filter (\<lambda>(l, _). l \<noteq> k) (et_kvs s),
                        et_events := et_events s @ map (\<lambda>_. (k, None)) hit\<rparr>))"

definition count_call :: "etcd \<Rightarrow> etcd" where
  "count_call s = s\<lparr>et_calls := Suc (et_calls s)\<rparr>"

section \<open>Client\<close>

definition GetFlag :: "etcd_io \<Rightarrow> string \<Rightarrow> etcd \<Rightarrow> (string + flag_data) \<times> etcd" where
  "GetFlag io name s =
     (case io (et_calls s) of
        EtcdErr msg _ \<Rightarrow> (Inl msg, count_call s)
      | EtcdOk \<Rightarrow>
          (case map_of (et_kvs s) (flagPrefix @ name) of
             None \<Rightarrow> (Inl (''flag not found: '' @ name), count_call s)
           | Some v \<Rightarrow>
               (case unmarshal_flag v of
                  None \<Rightarrow> (Inl ''invalid character'', count_call s)
                | Some fd \<Rightarrow> (Inr fd, count_call s))))"

definition SetFlag :: "etcd_io \<Rightarrow> flag_data \<Rightarrow> etcd \<Rightarrow> string option \<times> etcd" where
  "SetFlag io fd s =
     (let s1 = count_call s; s2 = kv_put (flagPrefix @ fd_name fd) (Some (enc_flag fd)) s1
      in case io (et_calls s) of
           EtcdErr msg applied \<Rightarrow> (Some msg, if applied then s2 else s1)
         | EtcdOk \<Rightarrow> (None, s2))"

definition ListFlags :: "etcd_io \<Rightarrow> etcd \<Rightarrow> (string + flag_data list) \<times> etcd" where
  "ListFlags io s =
     (case io (et_calls s) of
        EtcdErr msg _ \<Rightarrow> (Inl msg, count_call s)
      | EtcdOk \<Rightarrow>
          (Inr (List.map_filter unmarshal_flag
                  (map snd (filter (\<lambda>(k, _). has_prefix k flagPrefix) (et_kvs s)))), count_call s))"

definition DeleteFlag :: "etcd_io \<Rightarrow> string \<Rightarrow> etcd \<Rightarrow> string option \<times> etcd" where
  "DeleteFlag io name s =
     (let s1 = count_call s; (n, s2) = kv_delete (flagPrefix @ name) s1
      in case io (et_calls s) of
           EtcdErr msg applied \<Rightarrow> (Some msg, if applied then s2 else s1)
         | EtcdOk \<Rightarrow> (if n = 0 then Some (''flag not found: '' @ name) else None, s2))"

text \<open>The events the watch channel on the prefix has delivered or will deliver.\<close>

definition WatchFlags :: "etcd \<Rightarrow> payload list" where
  "WatchFlags s = map snd (filter (\<lambda>(k, _). has_prefix k flagPrefix) (et_events s))"

definition FlagNameFromKey :: "string \<Rightarrow> string" where
  "FlagNameFromKey key = trim_prefix key flagPrefix"

lemma FlagNameFromKey_key: "FlagNameFromKey (flagPrefix @ name) = name"
  by (simp add: FlagNameFromKey_def)

section \<open>The client implements the contract\<close>

definition stored_flags :: "etcd \<Rightarrow> string \<rightharpoonup> flag_data" where
  "stored_flags s n = Option.bind (map_of (et_kvs s) (flagPrefix @ n)) unmarshal_flag"

text \<open>Every value under the prefix is a flag stored under its own name.\<close>

definition etcd_inv :: "etcd \<Rightarrow> bool" where
  "etcd_inv s \<longleftrightarrow>
     (\<forall>n v. map_of (et_kvs s) (flagPrefix @ n) = Some v \<longrightarrow>
        (\<exists>fd. v = Some (enc_flag fd) \<and> flag_ok fd \<and> fd_name fd = n))"

lemma count_call_view [simp]: "et_kvs (count_call s) = et_kvs s"
  by (simp add: count_call_def)

lemma kv_put_view [simp]: "map_of (et_kvs (kv_put k v s)) = (map_of (et_kvs s))(k \<mapsto> v)"
  by (simp add: kv_put_def map_of_put_entry)

lemma WatchFlags_call [simp]: "WatchFlags (count_call s) = WatchFlags s"
  by (simp add: WatchFlags_def count_call_def)

lemma flagPrefix_has [simp]: "has_prefix (flagPrefix @ n) flagPrefix"
  by (simp add: has_prefix_iff)

lemma WatchFlags_put: "WatchFlags (kv_put k v s) = WatchFlags s @ (if has_prefix k flagPrefix then [v] else [])"
  by (simp add: WatchFlags_def kv_put_def)

lemma WatchFlags_delete: "kv_delete (flagPrefix @ name) s = (n, s') \<Longrightarrow> WatchFlags s' = WatchFlags s @ replicate n None"
  by (auto simp: WatchFlags_def kv_delete_def Let_def map_replicate_const filter_replicate)

lemma kv_delete_view:
  assumes "kv_delete k s = (n, s')"
  shows "map_of (et_kvs s') = (map_of (et_kvs s))(k := None)" "n = 0 \<longleftrightarrow> map_of (et_kvs s) k = None"
proof -
  have "map_of (filter (\<lambda>(l, _). l \<noteq> k) xs) = (map_of xs)(k := None)" for xs :: "(string \<times> payload) list"
    by (induction xs) (auto simp: fun_upd_twist)
  moreover have "filter (\<lambda>(l, _). l = k) xs = [] \<longleftrightarrow> map_of xs k = None" for xs :: "(string \<times> payload) list"
    by (induction xs) auto
  ultimately show "map_of (et_kvs s') = (map_of (et_kvs s))(k := None)" "n = 0 \<longleftrightarrow> map_of (et_kvs s) k = None"
    using assms by (auto simp: kv_delete_def Let_def)
qed

lemma etcd_inv_view: "etcd_inv s \<Longrightarrow> map_of (et_kvs s') = map_of (et_kvs s) \<Longrightarrow> etcd_inv s'"
  by (simp add: etcd_inv_def)

lemma etcd_put:
  assumes "etcd_inv s" "flag_ok fd"
  shows "etcd_inv (kv_put (flagPrefix @ fd_name fd) (Some (enc_flag fd)) s)"
    "stored_flags (kv_put (flagPrefix @ fd_name fd) (Some (enc_flag fd)) s) = (stored_flags s)(fd_name fd \<mapsto> fd)"
  using assms by (auto simp: etcd_inv_def stored_flags_def fun_eq_iff unmarshal_enc_flag)

lemma etcd_delete:
  assumes "etcd_inv s" "kv_delete (flagPrefix @ n) s = (k, s')"
  shows "etcd_inv s'" "stored_flags s' = (stored_flags s)(n := None)" "k \<noteq> 0 \<Longrightarrow> stored_flags s n \<noteq> None"
proof -
  show "etcd_inv s'" "stored_flags s' = (stored_flags s)(n := None)"
    using assms(1) kv_delete_view(1) [OF assms(2)] by (auto simp: etcd_inv_def stored_flags_def fun_eq_iff)
  assume "k \<noteq> 0"
  then obtain v where v: "map_of (et_kvs s) (flagPrefix @ n) = Some v"
    using kv_delete_view(2) [OF assms(2)] by auto
  then obtain fd where "v = Some (enc_flag fd)" "flag_ok fd" using assms(1) unfolding etcd_inv_def by blast
  then show "stored_flags s n \<noteq> None" using v by (simp add: stored_flags_def unmarshal_enc_flag)
qed

lemma etcd_call: "etcd_inv (count_call s) = etcd_inv s" "stored_flags (count_call s) = stored_flags s"
  by (simp_all add: etcd_inv_def stored_flags_def fun_eq_iff)

lemma GetFlag_spec:
  assumes "GetFlag io n s = (r, s')"
  shows "etcd_inv s \<Longrightarrow> stored_flags s' = stored_flags s \<and> etcd_inv s'"
    "r = Inr fd \<Longrightarrow> stored_flags s n = Some fd"
  using assms etcd_call by (auto simp: GetFlag_def stored_flags_def split: etcd_outcome.splits option.splits)

lemma SetFlag_spec:
  assumes "etcd_inv s" "flag_ok fd" "SetFlag io fd s = (r, s')"
  shows "etcd_inv s'" "r = None \<Longrightarrow> stored_flags s' = (stored_flags s)(fd_name fd \<mapsto> fd)"
    "stored_flags s' = stored_flags s \<or> stored_flags s' = (stored_flags s)(fd_name fd \<mapsto> fd)"
  using assms etcd_put [of "count_call s" fd]
  by (auto simp: SetFlag_def Let_def etcd_call split: etcd_outcome.splits if_splits)

lemma DeleteFlag_spec:
  assumes "etcd_inv s" "DeleteFlag io n s = (r, s')"
  shows "etcd_inv s'" "r = None \<Longrightarrow> stored_flags s n \<noteq> None \<and> stored_flags s' = (stored_flags s)(n := None)"
    "stored_flags s' = stored_flags s \<or> stored_flags s' = (stored_flags s)(n := None)"
  using assms etcd_delete [of "count_call s" n]
  by (auto simp: DeleteFlag_def Let_def etcd_call split: etcd_outcome.splits if_splits prod.splits)

interpretation etcd_store: flag_store "GetFlag io" "SetFlag io" "DeleteFlag io" stored_flags etcd_inv
  for io :: etcd_io
  by unfold_locales
     (blast dest: GetFlag_spec SetFlag_spec DeleteFlag_spec)+

end
