(* ===== verification/Flag_Eval.thy ===== *)
theory Flag_Eval
  imports Flag_Store
begin

text \<open>
  Flag evaluation of distributed-flagd (\<^verbatim>\<open>internal/eval/evaluator.go\<close> and
  \<^verbatim>\<open>internal/eval/model_evaluator.go\<close>): typed values, percentage rollouts over an FNV-1a hash
  and the resolution of a tenant's model.
\<close>

unbundle bit_operations_syntax

section \<open>Typed values\<close>

text \<open>\<open>fv_json\<close> is the JSON text of the value as a payload.\<close>

record flag_value =
  fv_flag_name :: string
  fv_type :: string
  fv_json :: payload

datatype go_value = VNil | VBool bool | VString string | VInt int | VFloat real | VRaw payload

definition Evaluate :: "flag_value \<Rightarrow> go_value" where
  "Evaluate fv =
     (let t = fv_type fv
      in if t = ''bool'' then (case unmarshal dec_bool (fv_json fv) False of None \<Rightarrow> VNil | Some v \<Rightarrow> VBool v)
         else if t = ''string'' then (case unmarshal dec_string (fv_json fv) [] of None \<Rightarrow> VNil | Some v \<Rightarrow> VString v)
         else if t = ''int'' then (case unmarshal dec_int64 (fv_json fv) 0 of None \<Rightarrow> VNil | Some v \<Rightarrow> VInt v)
         else if t = ''float'' then (case unmarshal dec_float (fv_json fv) 0 of None \<Rightarrow> VNil | Some v \<Rightarrow> VFloat v)
         else VRaw (fv_json fv))"

section \<open>Percentage rollouts\<close>

text \<open>\<^verbatim>\<open>fnv.New32a\<close>: the hash is exclusive-or with the byte, then multiplication by the prime.\<close>

definition fnv32a :: "string \<Rightarrow> u32" where
  "fnv32a s = foldl (\<lambda>h c. (h XOR word_of_nat (of_char c)) * 16777619) 2166136261 s"

definition bucket_of :: "string \<Rightarrow> string \<Rightarrow> int" where
  "bucket_of flagName hashKey = uint (fnv32a (flagName @ '':'' @ hashKey) mod 10000)"

text \<open>The loop over the variants with its running sum, an \<^verbatim>\<open>int\<close> of 64 bits.\<close>

fun pick_variant :: "int \<Rightarrow> int \<Rightarrow> variant_data list \<Rightarrow> string option" where
  "pick_variant bucket cumulative [] = None"
| "pick_variant bucket cumulative (v # vs) =
     (let cumulative = int64 (cumulative + int64 (vd_weight v * 100))
      in if bucket < cumulative then Some (vd_value v) else pick_variant bucket cumulative vs)"

definition variant_for :: "int \<Rightarrow> variant_data list \<Rightarrow> string" where
  "variant_for bucket variants =
     (case pick_variant bucket 0 variants of
        Some x \<Rightarrow> x
      | None \<Rightarrow> if variants \<noteq> [] then vd_value (last variants) else [])"

definition EvaluatePercentage :: "string \<Rightarrow> string \<Rightarrow> variant_data list \<Rightarrow> string" where
  "EvaluatePercentage flagName hashKey variants = variant_for (bucket_of flagName hashKey) variants"

section \<open>Model resolution\<close>

record eval_result =
  er_model_version :: string
  er_variant :: string
  er_flag_key :: string

text \<open>
  \<open>get\<close> is the store's \<^verbatim>\<open>GetFlag\<close>.  The method never returns an error.
\<close>

definition ResolveModelVersion ::
  "(string \<Rightarrow> 's \<Rightarrow> (string + flag_data) \<times> 's) \<Rightarrow> string \<Rightarrow> string \<Rightarrow> string \<Rightarrow> 's \<Rightarrow> eval_result \<times> 's" where
  "ResolveModelVersion get defaultModel tenantID userID s =
     (let flagKey = ''model-rollout:'' @ tenantID;
          dflt = \<lparr>er_model_version = defaultModel, er_variant = ''default'', er_flag_key = flagKey\<rparr>
      in case get flagKey s of
           (Inl _, s') \<Rightarrow> (dflt, s')
         | (Inr fd, s') \<Rightarrow>
             if \<not> fd_enabled fd \<or> fd_variants fd = [] then (dflt, s')
             else
               let variant = EvaluatePercentage flagKey (tenantID @ '':'' @ userID) (fd_variants fd)
               in (if variant = [] then dflt
                   else \<lparr>er_model_version = variant, er_variant = variant, er_flag_key = flagKey\<rparr>, s'))"

section \<open>Lemmas\<close>

lemma bucket_range: "0 \<le> bucket_of f k" "bucket_of f k < 10000"
  using uint_mod_distrib [of "fnv32a (f @ '':'' @ k)" 10000] by (simp_all add: bucket_of_def uint_mod_distrib)

definition weights_ok :: "variant_data list \<Rightarrow> bool" where
  "weights_ok vs \<longleftrightarrow> (\<forall>v \<in> set vs. 0 \<le> vd_weight v) \<and> sum_list (map vd_weight vs) \<le> 100"

lemma weights_ok_Cons:
  assumes "weights_ok (v # vs)"
  shows "weights_ok vs" "0 \<le> vd_weight v" "vd_weight v \<le> 100"
proof -
  have nn: "0 \<le> sum_list (map vd_weight vs)"
    using assms by (intro sum_list_nonneg) (auto simp: weights_ok_def)
  then show "weights_ok vs" "0 \<le> vd_weight v" "vd_weight v \<le> 100"
    using assms by (auto simp: weights_ok_def)
qed

text \<open>The weight of a value: the sum over the variants that carry it.\<close>

definition weight_of :: "string \<Rightarrow> variant_data list \<Rightarrow> int" where
  "weight_of x vs = sum_list (map vd_weight (filter (\<lambda>v. vd_value v = x) vs))"

lemma weight_of_nonneg: "weights_ok vs \<Longrightarrow> 0 \<le> weight_of x vs"
  unfolding weight_of_def weights_ok_def by (intro sum_list_nonneg) auto

lemma pick_step:
  assumes "weights_ok (v # vs)" "0 \<le> c" "c \<le> 10000"
  shows "pick_variant b c (v # vs) =
    (if b < c + vd_weight v * 100 then Some (vd_value v) else pick_variant b (c + vd_weight v * 100) vs)"
  using weights_ok_Cons [OF assms(1)] assms(2,3) by (simp add: int64_id Let_def)

lemma pick_none_iff:
  assumes "weights_ok vs" "0 \<le> c" "c + sum_list (map vd_weight vs) * 100 \<le> 10000" "c \<le> b"
  shows "pick_variant b c vs = None \<longleftrightarrow> c + sum_list (map vd_weight vs) * 100 \<le> b"
  using assms
proof (induction vs arbitrary: c)
  case (Cons v vs)
  note w = weights_ok_Cons [OF Cons.prems(1)]
  have nn: "0 \<le> sum_list (map vd_weight vs)"
    using w(1) by (intro sum_list_nonneg) (auto simp: weights_ok_def)
  show ?case
    using pick_step [OF Cons.prems(1), of c b] Cons.IH [of "c + vd_weight v * 100"] Cons.prems w nn
    by (auto simp: algebra_simps)
qed simp

lemma card_picked:
  assumes "weights_ok vs" "0 \<le> c" "c + sum_list (map vd_weight vs) * 100 \<le> 10000"
  shows "int (card {b. c \<le> b \<and> b < 10000 \<and> pick_variant b c vs = Some x}) = 100 * weight_of x vs"
  using assms
proof (induction vs arbitrary: c)
  case Nil
  then show ?case by (simp add: weight_of_def)
next
  case (Cons v vs)
  note w = weights_ok_Cons [OF Cons.prems(1)]
  let ?c = "c + vd_weight v * 100"
  have nn: "0 \<le> sum_list (map vd_weight vs)"
    using w(1) by (intro sum_list_nonneg) (auto simp: weights_ok_def)
  then have le: "?c \<le> 10000" "c \<le> 10000" using Cons.prems w by (auto simp: algebra_simps)
  have IH: "int (card {b. ?c \<le> b \<and> b < 10000 \<and> pick_variant b ?c vs = Some x}) = 100 * weight_of x vs"
    using Cons.IH [of ?c] Cons.prems w by (simp add: algebra_simps)
  have split: "{b. c \<le> b \<and> b < 10000 \<and> pick_variant b c (v # vs) = Some x} =
      (if vd_value v = x then {c..<?c} else {}) \<union> {b. ?c \<le> b \<and> b < 10000 \<and> pick_variant b ?c vs = Some x}"
    using pick_step [OF Cons.prems(1,2) le(2)] w le by (auto split: if_splits)
  have "finite {b. ?c \<le> b \<and> b < 10000 \<and> pick_variant b ?c vs = Some x}"
    by (rule finite_subset [of _ "{?c..<10000}"]) auto
  then have "int (card {b. c \<le> b \<and> b < 10000 \<and> pick_variant b c (v # vs) = Some x}) =
      (if vd_value v = x then vd_weight v * 100 else 0) +
      int (card {b. ?c \<le> b \<and> b < 10000 \<and> pick_variant b ?c vs = Some x})"
    unfolding split using w by (subst card_Un_disjoint) auto
  then show ?case using IH by (simp add: weight_of_def)
qed

section \<open>Properties\<close>

text \<open>
  C27. The split is exact: when the weights are non-negative and sum to 100, of the 10000
  buckets exactly 100 per point of weight get a value, and every request key falls into one of
  these buckets.
\<close>

theorem percentage_split_exact:
  assumes "\<forall>v \<in> set vs. 0 \<le> vd_weight v" "sum_list (map vd_weight vs) = 100"
  shows "int (card {b. 0 \<le> b \<and> b < 10000 \<and> variant_for b vs = x}) = 100 * weight_of x vs \<and>
    (\<exists>b. 0 \<le> b \<and> b < 10000 \<and> EvaluatePercentage flag key vs = variant_for b vs)"
proof -
  have ok: "weights_ok vs" using assms by (simp add: weights_ok_def)
  have "\<exists>y. pick_variant b 0 vs = Some y" if "0 \<le> b" "b < 10000" for b
    using pick_none_iff [OF ok, of 0 b] assms(2) that by fastforce
  then have "variant_for b vs = x \<longleftrightarrow> pick_variant b 0 vs = Some x" if "0 \<le> b" "b < 10000" for b
    using that by (fastforce simp: variant_for_def)
  then have "{b. 0 \<le> b \<and> b < 10000 \<and> variant_for b vs = x} =
      {b. 0 \<le> b \<and> b < 10000 \<and> pick_variant b 0 vs = Some x}" by auto
  then show ?thesis
    using card_picked [OF ok, of 0 x] assms(2) bucket_range [of flag key]
    by (auto simp: EvaluatePercentage_def)
qed

theorem percentage_split_exact_witness:
  "int (card {b. 0 \<le> b \<and> b < 10000 \<and>
     variant_for b [\<lparr>vd_value = ''v2'', vd_weight = 10\<rparr>, \<lparr>vd_value = ''v1'', vd_weight = 90\<rparr>] = ''v2''}) = 1000"
proof -
  let ?vs = "[\<lparr>vd_value = ''v2'', vd_weight = 10\<rparr>, \<lparr>vd_value = ''v1'', vd_weight = 90\<rparr>]"
  have "\<forall>v \<in> set ?vs. 0 \<le> vd_weight v" "sum_list (map vd_weight ?vs) = 100"
    by simp_all
  from percentage_split_exact [OF this, of "''v2''"] show ?thesis by (simp add: weight_of_def)
qed

lemma pick_in_values: "pick_variant b c vs = Some x \<Longrightarrow> x \<in> vd_value ` set vs"
  by (induction b c vs rule: pick_variant.induct) (auto simp: Let_def split: if_splits)

text \<open>
  C34. Ramping up is sticky: a key that gets the value of the first variant of a rollout, and of
  no other, keeps it when the weight of that variant is raised, whatever happens to the rest.
\<close>

theorem rampup_sticky:
  assumes "0 \<le> w" "w \<le> w'" "w' \<le> 100" "rest \<noteq> []" "new \<notin> vd_value ` set rest"
    and "EvaluatePercentage flag key (\<lparr>vd_value = new, vd_weight = w\<rparr> # rest) = new"
  shows "EvaluatePercentage flag key (\<lparr>vd_value = new, vd_weight = w'\<rparr> # rest') = new"
proof -
  let ?b = "bucket_of flag key"
  have "?b < w * 100"
  proof (rule ccontr)
    assume "\<not> ?b < w * 100"
    then have "pick_variant ?b 0 (\<lparr>vd_value = new, vd_weight = w\<rparr> # rest) = pick_variant ?b (w * 100) rest"
      using assms(1-3) by (simp add: int64_id)
    then have "EvaluatePercentage flag key (\<lparr>vd_value = new, vd_weight = w\<rparr> # rest) \<in> vd_value ` set rest"
      using assms(4) pick_in_values [of ?b "w * 100" rest]
      by (auto simp: EvaluatePercentage_def variant_for_def split: option.splits)
    then show False using assms(5,6) by simp
  qed
  then show ?thesis
    using assms by (simp add: EvaluatePercentage_def variant_for_def int64_id)
qed

theorem rampup_sticky_witness:
  "EvaluatePercentage ''f'' ''u-1'' [\<lparr>vd_value = ''v2'', vd_weight = 95\<rparr>, \<lparr>vd_value = ''v1'', vd_weight = 5\<rparr>] = ''v2'' \<and>
   EvaluatePercentage ''f'' ''u-1'' [\<lparr>vd_value = ''v2'', vd_weight = 96\<rparr>, \<lparr>vd_value = ''v0'', vd_weight = 4\<rparr>] = ''v2''"
proof -
  have "EvaluatePercentage ''f'' ''u-1'' [\<lparr>vd_value = ''v2'', vd_weight = 95\<rparr>, \<lparr>vd_value = ''v1'', vd_weight = 5\<rparr>] = ''v2''"
    by code_simp
  then show ?thesis
    using rampup_sticky [of 95 96 "[\<lparr>vd_value = ''v1'', vd_weight = 5\<rparr>]" "''v2''" "''f''" "''u-1''"
        "[\<lparr>vd_value = ''v0'', vd_weight = 4\<rparr>]"] by simp
qed

end
