(* ===== verification/Flag_Server.thy ===== *)
theory Flag_Server
  imports Flag_Eval "HOL-Library.Sublist"
begin

text \<open>
  The gRPC server of distributed-flagd (\<^verbatim>\<open>internal/server/server.go\<close>) and its fan-out registry
  (\<^verbatim>\<open>internal/server/fanout.go\<close>).  Each method of the registry holds its lock, so it is one
  step; a stream's channel is a queue of at most 64 flags.
\<close>

section \<open>Registry\<close>

type_synonym registry = "string \<rightharpoonup> flag_data list"

definition chan_cap :: nat where
  "chan_cap = 64"

definition subscribe :: "string \<Rightarrow> registry \<Rightarrow> registry" where
  "subscribe i r = r(i \<mapsto> [])"

definition unsubscribe :: "string \<Rightarrow> registry \<Rightarrow> registry" where
  "unsubscribe i r = r(i := None)"

definition broadcast :: "flag_data \<Rightarrow> registry \<Rightarrow> registry" where
  "broadcast fd r = map_option (\<lambda>q. if length q < chan_cap then q @ [fd] else q) \<circ> r"

text \<open>The receive of a stream from its channel.\<close>

definition receive :: "string \<Rightarrow> registry \<Rightarrow> flag_data option \<times> registry" where
  "receive i r =
     (case r i of Some (fd # q) \<Rightarrow> (Some fd, r(i \<mapsto> q)) | _ \<Rightarrow> (None, r))"

text \<open>One watch response: the events that decode are broadcast, the others are skipped.\<close>

fun watch_events :: "payload list \<Rightarrow> registry \<Rightarrow> registry" where
  "watch_events [] r = r"
| "watch_events (v # vs) r =
     (case unmarshal_flag v of
        None \<Rightarrow> watch_events vs r
      | Some fd \<Rightarrow> watch_events vs (broadcast fd r))"

section \<open>Server\<close>

record pb_flag_value =
  pb_name :: string
  pb_value :: string
  pb_enabled :: bool
  pb_variant :: string

definition flag_value_of :: "flag_data \<Rightarrow> pb_flag_value" where
  "flag_value_of fd = \<lparr>pb_name = fd_name fd, pb_value = fd_value fd, pb_enabled = fd_enabled fd, pb_variant = []\<rparr>"

datatype grpc_error = NotFound string | Internal string

definition ServerGetFlag ::
  "etcd_io \<Rightarrow> string \<Rightarrow> string \<Rightarrow> etcd \<Rightarrow> (grpc_error + pb_flag_value) \<times> etcd" where
  "ServerGetFlag io name hashKey s =
     (case GetFlag io name s of
        (Inl _, s') \<Rightarrow> (Inl (NotFound (''flag '' @ name @ '' not found'')), s')
      | (Inr fd, s') \<Rightarrow>
          (Inr (if \<not> fd_enabled fd then flag_value_of fd
                else if fd_variants fd \<noteq> [] \<and> hashKey \<noteq> []
                then let value = EvaluatePercentage name hashKey (fd_variants fd)
                     in \<lparr>pb_name = fd_name fd, pb_value = value, pb_enabled = True, pb_variant = value\<rparr>
                else flag_value_of fd), s'))"

text \<open>The weights of the request are 32-bit integers.\<close>

definition ServerSetFlag ::
  "etcd_io \<Rightarrow> string \<Rightarrow> string \<Rightarrow> bool \<Rightarrow> (string \<times> 32 word) list \<Rightarrow> etcd \<Rightarrow> grpc_error option \<times> etcd" where
  "ServerSetFlag io name value enabled variants s =
     (case SetFlag io \<lparr>fd_name = name, fd_value = value, fd_enabled = enabled,
        fd_variants = map (\<lambda>(x, w). \<lparr>vd_value = x, vd_weight = sint w\<rparr>) variants\<rparr> s of
        (Some e, s') \<Rightarrow> (Some (Internal (''set flag: '' @ e)), s')
      | (None, s') \<Rightarrow> (None, s'))"

definition ServerListFlags :: "etcd_io \<Rightarrow> etcd \<Rightarrow> (grpc_error + pb_flag_value list) \<times> etcd" where
  "ServerListFlags io s =
     (case ListFlags io s of
        (Inl e, s') \<Rightarrow> (Inl (Internal (''list flags: '' @ e)), s')
      | (Inr fds, s') \<Rightarrow> (Inr (map flag_value_of fds), s'))"

text \<open>
  \<^verbatim>\<open>EvaluateStream\<close> in its steps: the snapshot, the subscription, and one turn of the loop.  A
  stream is the updates it has sent.
\<close>

datatype flag_update = SNAPSHOT pb_flag_value | DELTA pb_flag_value

definition stream_snapshot :: "etcd_io \<Rightarrow> etcd \<Rightarrow> (grpc_error + flag_update list) \<times> etcd" where
  "stream_snapshot io s =
     (case ListFlags io s of
        (Inl e, s') \<Rightarrow> (Inl (Internal (''list flags: '' @ e)), s')
      | (Inr fds, s') \<Rightarrow> (Inr (map (SNAPSHOT \<circ> flag_value_of) fds), s'))"

definition stream_turn :: "string \<Rightarrow> flag_update list \<times> registry \<Rightarrow> flag_update list \<times> registry" where
  "stream_turn i st =
     (case receive i (snd st) of
        (None, r) \<Rightarrow> (fst st, r)
      | (Some fd, r) \<Rightarrow> (fst st @ [DELTA (flag_value_of fd)], r))"

section \<open>Delivery in order\<close>

datatype reg_op = OpBroadcast flag_data | OpReceive string | OpSubscribe string | OpUnsubscribe string

fun reg_step :: "reg_op \<Rightarrow> registry \<Rightarrow> registry" where
  "reg_step (OpBroadcast fd) r = broadcast fd r"
| "reg_step (OpReceive i) r = snd (receive i r)"
| "reg_step (OpSubscribe i) r = subscribe i r"
| "reg_step (OpUnsubscribe i) r = unsubscribe i r"

text \<open>What stream \<open>i\<close> receives during a run, what is broadcast, and whether its queue was ever full.\<close>

fun received :: "string \<Rightarrow> reg_op list \<Rightarrow> registry \<Rightarrow> flag_data list" where
  "received i [] r = []"
| "received i (p # ps) r =
     (case p of
        OpReceive j \<Rightarrow> (if i = j then (case fst (receive i r) of None \<Rightarrow> [] | Some fd \<Rightarrow> [fd]) else [])
      | _ \<Rightarrow> []) @ received i ps (reg_step p r)"

fun broadcasts :: "reg_op list \<Rightarrow> flag_data list" where
  "broadcasts [] = []"
| "broadcasts (OpBroadcast fd # ps) = fd # broadcasts ps"
| "broadcasts (_ # ps) = broadcasts ps"

fun keeps_up :: "string \<Rightarrow> reg_op list \<Rightarrow> registry \<Rightarrow> bool" where
  "keeps_up i [] r = True"
| "keeps_up i (p # ps) r =
     ((case (p, r i) of (OpBroadcast fd, Some q) \<Rightarrow> length q < chan_cap | _ \<Rightarrow> True) \<and>
      keeps_up i ps (reg_step p r))"

fun stays :: "string \<Rightarrow> reg_op \<Rightarrow> bool" where
  "stays i (OpSubscribe j) = (i \<noteq> j)"
| "stays i (OpUnsubscribe j) = (i \<noteq> j)"
| "stays i _ = True"

lemma registry_delivery:
  assumes "r i = Some q" "list_all (stays i) ps"
  shows "\<exists>q' kept. foldl (\<lambda>r p. reg_step p r) r ps i = Some q' \<and>
    received i ps r @ q' = q @ kept \<and> subseq kept (broadcasts ps) \<and>
    (if keeps_up i ps r then kept = broadcasts ps else True)"
  using assms
proof (induction ps arbitrary: r q)
  case Nil
  then show ?case by simp
next
  case (Cons p ps)
  let ?r = "reg_step p r"
  have step: ?case
    if q1: "?r i = Some q1" and rcv: "received i (p # ps) r = got @ received i ps ?r"
      and eq: "got @ q1 = q @ ext" and bc: "broadcasts (p # ps) = bext @ broadcasts ps"
      and sub: "subseq ext bext" and all: "keeps_up i (p # ps) r \<longrightarrow> keeps_up i ps ?r \<and> ext = bext"
    for q1 got ext bext
  proof -
    obtain q' kept where IH: "foldl (\<lambda>r p. reg_step p r) ?r ps i = Some q'"
      "received i ps ?r @ q' = q1 @ kept" "subseq kept (broadcasts ps)"
      "keeps_up i ps ?r \<longrightarrow> kept = broadcasts ps"
      using Cons.IH [of ?r q1] q1 Cons.prems(2) by (auto split: if_splits)
    have "received i (p # ps) r @ q' = q @ ext @ kept"
      using IH(2) rcv eq by (metis append.assoc)
    moreover have "subseq (ext @ kept) (broadcasts (p # ps))"
      using IH(3) sub bc by (simp add: list_emb_append_mono)
    moreover have "keeps_up i (p # ps) r \<longrightarrow> ext @ kept = broadcasts (p # ps)"
      using IH(4) all bc by simp
    ultimately show ?thesis using IH(1) by (intro exI [of _ q'] exI [of _ "ext @ kept"]) simp
  qed
  show ?case
  proof (cases p)
    case (OpBroadcast fd)
    show ?thesis
    proof (cases "length q < chan_cap")
      case True
      show ?thesis
        by (rule step [of "q @ [fd]" "[]" "[fd]" "[fd]"])
           (use OpBroadcast Cons.prems(1) True in \<open>simp_all add: broadcast_def\<close>)
    next
      case False
      show ?thesis
        by (rule step [of q "[]" "[]" "[fd]"])
           (use OpBroadcast Cons.prems(1) False in \<open>simp_all add: broadcast_def\<close>)
    qed
  next
    case (OpReceive j)
    show ?thesis
    proof (cases "i = j \<and> q \<noteq> []")
      case True
      then obtain fd q1 where q: "q = fd # q1" by (cases q) auto
      show ?thesis
        by (rule step [of q1 "[fd]" "[]" "[]"])
           (use OpReceive Cons.prems(1) True q in \<open>simp_all add: receive_def\<close>)
    next
      case False
      show ?thesis
        by (rule step [of q "[]" "[]" "[]"])
           (use OpReceive Cons.prems(1) False in \<open>auto simp: receive_def split: option.splits list.splits\<close>)
    qed
  next
    case (OpSubscribe j)
    show ?thesis
      by (rule step [of q "[]" "[]" "[]"]) (use OpSubscribe Cons.prems in \<open>simp_all add: subscribe_def\<close>)
  next
    case (OpUnsubscribe j)
    show ?thesis
      by (rule step [of q "[]" "[]" "[]"]) (use OpUnsubscribe Cons.prems in \<open>simp_all add: unsubscribe_def\<close>)
  qed
qed

section \<open>Properties\<close>

text \<open>
  C31. A subscribed stream gets the broadcasts in order, without repetition, and loses one only
  when its queue is full: what it has received and what is queued for it is a subsequence of
  the flags broadcast since it subscribed, and all of them when it kept up.
\<close>

theorem stream_delivery_in_order:
  assumes "list_all (stays i) ps"
  shows "\<exists>q kept. foldl (\<lambda>r p. reg_step p r) (subscribe i r) ps i = Some q \<and>
    received i ps (subscribe i r) @ q = kept \<and> subseq kept (broadcasts ps) \<and>
    (if keeps_up i ps (subscribe i r) then kept = broadcasts ps else True)"
  using registry_delivery [of "subscribe i r" i "[]" ps] assms by (simp add: subscribe_def)

theorem stream_delivery_in_order_witness:
  "\<exists>q. foldl (\<lambda>r p. reg_step p r) (subscribe ''a'' Map.empty)
       [OpBroadcast zero_flag, OpReceive ''a'', OpBroadcast (zero_flag\<lparr>fd_enabled := True\<rparr>)] ''a'' = Some q \<and>
     received ''a'' [OpBroadcast zero_flag, OpReceive ''a'', OpBroadcast (zero_flag\<lparr>fd_enabled := True\<rparr>)]
       (subscribe ''a'' Map.empty) @ q = [zero_flag, zero_flag\<lparr>fd_enabled := True\<rparr>]"
  using stream_delivery_in_order [of "''a''" "[OpBroadcast zero_flag, OpReceive ''a'',
      OpBroadcast (zero_flag\<lparr>fd_enabled := True\<rparr>)]" Map.empty]
  by (auto simp: subscribe_def broadcast_def receive_def chan_cap_def)

text \<open>
  Observation. A change that falls between a stream's snapshot and its subscription is never sent to it:
  the watcher broadcasts it before the stream's channel exists, so the stream keeps showing the
  old snapshot with nothing pending.
\<close>

theorem update_before_subscription_lost:
  assumes "stream_snapshot io s = (Inr snap, s1)" "SetFlag io fd s1 = (None, s2)" "flag_ok fd"
    and "WatchFlags s2 = WatchFlags s1 @ new"
  shows "new = [Some (enc_flag fd)] \<and>
    (\<forall>turns. foldl (\<lambda>st _. stream_turn i st) (snap, subscribe i (watch_events new reg)) [0..<turns] =
       (snap, subscribe i (watch_events new reg)))"
proof -
  have new: "new = [Some (enc_flag fd)]"
    using assms(2,4) by (auto simp: SetFlag_def WatchFlags_put Let_def split: etcd_outcome.splits)
  have turn: "stream_turn i (snap, subscribe i r) = (snap, subscribe i r)" for r
    by (simp add: stream_turn_def receive_def subscribe_def)
  have "foldl (\<lambda>st _. stream_turn i st) (snap, subscribe i r) xs = (snap, subscribe i r)" for r and xs :: "nat list"
    by (induction xs) (simp_all add: turn)
  then show ?thesis using new by blast
qed

theorem update_before_subscription_lost_witness:
  "let s = \<lparr>et_kvs = [], et_events = [], et_calls = 0\<rparr>; s1 = snd (stream_snapshot (\<lambda>_. EtcdOk) s);
       (err, s2) = SetFlag (\<lambda>_. EtcdOk) zero_flag s1
   in err = None \<and> stored_flags s2 [] = Some zero_flag \<and>
      foldl (\<lambda>st _. stream_turn ''a'' st) ([], subscribe ''a'' (watch_events (WatchFlags s2) Map.empty)) [0..<5] =
        ([], subscribe ''a'' (watch_events (WatchFlags s2) Map.empty))"
proof -
  let ?io = "\<lambda>_. EtcdOk" and ?s = "\<lparr>et_kvs = [], et_events = [], et_calls = 0\<rparr>"
  define s1 where "s1 = ?s\<lparr>et_calls := 1\<rparr>"
  have snap: "stream_snapshot ?io ?s = (Inr [], s1)"
    by (simp add: stream_snapshot_def ListFlags_def count_call_def s1_def List.map_filter_def)
  obtain s2 where set: "SetFlag ?io zero_flag s1 = (None, s2)" and ev: "WatchFlags s2 = WatchFlags s1 @ WatchFlags s2"
    by (simp add: SetFlag_def WatchFlags_put) (simp add: WatchFlags_def s1_def)
  have ok: "flag_ok zero_flag" by (simp add: flag_ok_def zero_flag_def)
  have "etcd_inv s1" by (simp add: etcd_inv_def s1_def)
  then have "stored_flags s2 [] = Some zero_flag"
    using SetFlag_spec(2) [OF _ ok set] by (simp add: zero_flag_def)
  moreover have "foldl (\<lambda>st _. stream_turn ''a'' st) ([], subscribe ''a'' (watch_events (WatchFlags s2) Map.empty)) [0..<5] =
        ([], subscribe ''a'' (watch_events (WatchFlags s2) Map.empty))"
    using update_before_subscription_lost [OF snap set ok ev, of "''a''" Map.empty] by blast
  ultimately show ?thesis
    using snap set by (simp only: Let_def snd_conv prod.case simp_thms)
qed

text \<open>
  Observation. Deletions are not streamed: the watch event of a delete has an empty value, which does
  not decode, so deleting a flag changes no stream's queue.
\<close>

theorem delete_not_broadcast:
  assumes "DeleteFlag io name s = (r, s')" "WatchFlags s' = WatchFlags s @ new"
  shows "watch_events new reg = reg"
proof -
  have "\<exists>k. new = replicate k None"
    using assms by (auto simp: DeleteFlag_def Let_def dest!: WatchFlags_delete intro: exI [of _ 0] split: etcd_outcome.splits if_splits prod.splits)
  moreover have "watch_events (replicate k None) reg = reg" for k
    by (induction k) (simp_all add: unmarshal_flag_def unmarshal_def)
  ultimately show ?thesis by blast
qed

theorem delete_not_broadcast_witness:
  "let s = snd (SetFlag (\<lambda>_. EtcdOk) zero_flag \<lparr>et_kvs = [], et_events = [], et_calls = 0\<rparr>);
       (err, s') = DeleteFlag (\<lambda>_. EtcdOk) [] s
   in err = None \<and> WatchFlags s' = WatchFlags s @ [None] \<and> watch_events [None] [''a'' \<mapsto> []] = [''a'' \<mapsto> []]"
proof -
  define s where "s = snd (SetFlag (\<lambda>_. EtcdOk) zero_flag \<lparr>et_kvs = [], et_events = [], et_calls = 0\<rparr>)"
  have kvs: "et_kvs s = [(flagPrefix @ [], Some (enc_flag zero_flag))]"
    by (simp add: s_def SetFlag_def kv_put_def count_call_def zero_flag_def)
  obtain s' where del: "DeleteFlag (\<lambda>_. EtcdOk) [] s = (None, s')" "WatchFlags s' = WatchFlags s @ [None]"
    using kvs by (simp add: DeleteFlag_def kv_delete_def count_call_def WatchFlags_def has_prefix_iff)
  from delete_not_broadcast [OF this, of "[''a'' \<mapsto> []]"] del show ?thesis
    by (simp add: s_def [symmetric])
qed

end
