(* ===== verification/Flag_Reconciler.thy ===== *)
theory Flag_Reconciler
  imports Flag_Store
begin

text \<open>
  The Kubernetes controller of distributed-flagd (\<^verbatim>\<open>internal/controller/reconciler.go\<close>): watch
  events of \<^verbatim>\<open>FlagDefinition\<close> resources are applied to a flag store.  The store is a parameter
  with the contract \<^const>\<open>flag_store\<close>; the results are used through the etcd interpretation.
\<close>

section \<open>Watch events\<close>

record object_meta =
  om_name :: string
  om_namespace :: string
  om_resource_version :: string
  om_annotations :: "string \<rightharpoonup> string"

record flag_spec =
  fs_flag_key :: string
  fs_enabled :: bool
  fs_value :: string
  fs_variants :: "variant_data list"

record flag_definition =
  cr_metadata :: object_meta
  cr_spec :: flag_spec

record watch_event =
  we_type :: string
  we_object :: flag_definition

definition meta_fields :: "object_meta fields" where
  "meta_fields =
     [(''name'', lens om_name (\<lambda>x m. m\<lparr>om_name := x\<rparr>) dec_string),
      (''namespace'', lens om_namespace (\<lambda>x m. m\<lparr>om_namespace := x\<rparr>) dec_string),
      (''resourceVersion'', lens om_resource_version (\<lambda>x m. m\<lparr>om_resource_version := x\<rparr>) dec_string),
      (''annotations'', lens om_annotations (\<lambda>x m. m\<lparr>om_annotations := x\<rparr>) (dec_map dec_string []))]"

definition spec_fields :: "flag_spec fields" where
  "spec_fields =
     [(''flagKey'', lens fs_flag_key (\<lambda>x m. m\<lparr>fs_flag_key := x\<rparr>) dec_string),
      (''enabled'', lens fs_enabled (\<lambda>x m. m\<lparr>fs_enabled := x\<rparr>) dec_bool),
      (''value'', lens fs_value (\<lambda>x m. m\<lparr>fs_value := x\<rparr>) dec_string),
      (''variants'', lens fs_variants (\<lambda>x m. m\<lparr>fs_variants := x\<rparr>)
         (dec_slice (dec_struct variant_fields) zero_variant))]"

definition definition_fields :: "flag_definition fields" where
  "definition_fields =
     [(''metadata'', lens cr_metadata (\<lambda>x m. m\<lparr>cr_metadata := x\<rparr>) (dec_struct meta_fields)),
      (''spec'', lens cr_spec (\<lambda>x m. m\<lparr>cr_spec := x\<rparr>) (dec_struct spec_fields))]"

definition event_object_fields :: "watch_event fields" where
  "event_object_fields =
     [(''type'', lens we_type (\<lambda>x m. m\<lparr>we_type := x\<rparr>) dec_string),
      (''object'', lens we_object (\<lambda>x m. m\<lparr>we_object := x\<rparr>) (dec_struct definition_fields))]"

definition zero_watch_event :: watch_event where
  "zero_watch_event = \<lparr>we_type = [], we_object = \<lparr>cr_metadata = \<lparr>om_name = [], om_namespace = [],
     om_resource_version = [], om_annotations = Map.empty\<rparr>,
     cr_spec = \<lparr>fs_flag_key = [], fs_enabled = False, fs_value = [], fs_variants = []\<rparr>\<rparr>\<rparr>"

definition unmarshal_watch :: "payload \<Rightarrow> watch_event option" where
  "unmarshal_watch p = unmarshal (dec_struct event_object_fields) p zero_watch_event"

section \<open>Reconciler\<close>

definition specToFlagData :: "flag_definition \<Rightarrow> flag_data" where
  "specToFlagData cr = \<lparr>fd_name = fs_flag_key (cr_spec cr), fd_value = fs_value (cr_spec cr),
     fd_enabled = fs_enabled (cr_spec cr), fd_variants = fs_variants (cr_spec cr)\<rparr>"

text \<open>The store the reconciler writes to.\<close>

record 's reconciler =
  rc_set :: "flag_data \<Rightarrow> 's \<Rightarrow> string option \<times> 's"
  rc_delete :: "string \<Rightarrow> 's \<Rightarrow> string option \<times> 's"
  rc_min_backoff :: int

definition reconcile :: "'s reconciler \<Rightarrow> watch_event \<Rightarrow> 's \<Rightarrow> string option \<times> 's" where
  "reconcile r event s =
     (let fd = specToFlagData (we_object event)
      in if we_type event = ''ADDED'' \<or> we_type event = ''MODIFIED'' then rc_set r fd s
         else if we_type event = ''DELETED'' then rc_delete r (fd_name fd) s
         else (None, s))"

text \<open>
  The loop over the lines of the stream: empty lines and lines that do not decode are skipped,
  and an error of \<^verbatim>\<open>reconcile\<close> is only logged.
\<close>

datatype watch_line = BlankLine | Line payload

fun watch_lines :: "'s reconciler \<Rightarrow> watch_line list \<Rightarrow> 's \<Rightarrow> 's" where
  "watch_lines r [] s = s"
| "watch_lines r (BlankLine # ls) s = watch_lines r ls s"
| "watch_lines r (Line p # ls) s =
     (case unmarshal_watch p of
        None \<Rightarrow> watch_lines r ls s
      | Some event \<Rightarrow> watch_lines r ls (snd (reconcile r event s)))"

text \<open>What one watch request meets: no request, a status, or a stream that ends with or without error.\<close>

datatype watch_outcome = DialError string | BadStatus int | Stream "watch_line list" bool

definition watch :: "'s reconciler \<Rightarrow> watch_outcome \<Rightarrow> 's \<Rightarrow> bool \<times> 's" where
  "watch r w s =
     (case w of
        DialError _ \<Rightarrow> (False, s)
      | BadStatus _ \<Rightarrow> (False, s)
      | Stream ls ok \<Rightarrow> (ok, watch_lines r ls s))"

text \<open>
  \<^verbatim>\<open>Run\<close> over the watches until the context is cancelled; the first component lists the delays
  slept, in nanoseconds.
\<close>

definition second :: int where "second = 10 ^ 9"

fun run_watches :: "'s reconciler \<Rightarrow> int \<Rightarrow> int \<Rightarrow> watch_outcome list \<Rightarrow> 's \<Rightarrow> int list \<times> 's" where
  "run_watches r initialBackoff backoff [] s = ([], s)"
| "run_watches r initialBackoff backoff (w # ws) s =
     (let (ok, s1) = watch r w s
      in if \<not> ok
         then let (ds, s2) = run_watches r initialBackoff
                    (if backoff < 30 * second then backoff * 2 else backoff) ws s1
              in (backoff # ds, s2)
         else run_watches r initialBackoff initialBackoff ws s1)"

definition RunReconciler :: "'s reconciler \<Rightarrow> watch_outcome list \<Rightarrow> 's \<Rightarrow> int list \<times> 's" where
  "RunReconciler r ws s =
     (let initialBackoff = (if rc_min_backoff r = 0 then 2 * second else rc_min_backoff r)
      in run_watches r initialBackoff initialBackoff ws s)"

text \<open>The delay before the next watch, and the two results of one turn.\<close>

definition next_backoff :: "bool \<Rightarrow> int \<Rightarrow> int \<Rightarrow> int" where
  "next_backoff ok initialBackoff backoff =
     (if ok then initialBackoff else if backoff < 30 * second then backoff * 2 else backoff)"

lemma run_watches_Cons:
  assumes "watch r w s = (ok, s1)"
  shows "snd (run_watches r i b (w # ws) s) = snd (run_watches r i (next_backoff ok i b) ws s1)"
    "fst (run_watches r i b (w # ws) s) =
       (if ok then [] else [b]) @ fst (run_watches r i (next_backoff ok i b) ws s1)"
  using assms by (simp_all add: next_backoff_def Let_def case_prod_beta)

declare run_watches.simps(2) [simp del]

section \<open>Specification: replay of the events\<close>

definition apply_event :: "watch_event \<Rightarrow> (string \<rightharpoonup> flag_data) \<Rightarrow> (string \<rightharpoonup> flag_data)" where
  "apply_event event m =
     (let fd = specToFlagData (we_object event)
      in if we_type event = ''ADDED'' \<or> we_type event = ''MODIFIED'' then m(fd_name fd \<mapsto> fd)
         else if we_type event = ''DELETED'' then m(fd_name fd := None)
         else m)"

fun line_events :: "watch_line list \<Rightarrow> watch_event list" where
  "line_events [] = []"
| "line_events (BlankLine # ls) = line_events ls"
| "line_events (Line p # ls) =
     (case unmarshal_watch p of None \<Rightarrow> line_events ls | Some e \<Rightarrow> e # line_events ls)"

fun outcome_lines :: "watch_outcome \<Rightarrow> watch_line list" where
  "outcome_lines (Stream ls ok) = ls"
| "outcome_lines _ = []"

definition event_ok :: "watch_event \<Rightarrow> bool" where
  "event_ok e \<longleftrightarrow> flag_ok (specToFlagData (we_object e))"

section \<open>Decoded weights fit\<close>

lemma dec_int64_range:
  "dec_int64 v x = Some y \<Longrightarrow> - (2 ^ 63) \<le> x \<Longrightarrow> x < 2 ^ 63 \<Longrightarrow> - (2 ^ 63) \<le> y \<and> y < 2 ^ 63"
  by (cases v) (auto split: if_splits)

lemma dec_entries_inv:
  assumes "\<And>k d v s s'. field_decoder fs k = Some d \<Longrightarrow> d v s = Some s' \<Longrightarrow> P s \<Longrightarrow> P s'"
    and "dec_entries fs kvs s = Some s'" "P s"
  shows "P s'"
  using assms(2,3)
proof (induction kvs arbitrary: s)
  case (Cons kv kvs)
  obtain k v where kv: "kv = (k, v)" by force
  show ?case
  proof (cases "field_decoder fs k")
    case None
    then show ?thesis using Cons kv by simp
  next
    case (Some d)
    then obtain s1 where "d v s = Some s1" "dec_entries fs kvs s1 = Some s'"
      using Cons.prems kv by (auto split: option.splits)
    then show ?thesis using Cons.IH assms(1) [OF Some] Cons.prems(2) by blast
  qed
qed simp

lemma dec_struct_inv:
  assumes "\<And>k d v s s'. field_decoder fs k = Some d \<Longrightarrow> d v s = Some s' \<Longrightarrow> P s \<Longrightarrow> P s'"
    and "dec_struct fs j s = Some s'" "P s"
  shows "P s'"
  using assms(2,3) dec_entries_inv [of fs P, OF assms(1)] by (cases j) auto

lemma field_decoder_in: "field_decoder fs k = Some d \<Longrightarrow> d \<in> snd ` set fs"
proof -
  assume "field_decoder fs k = Some d"
  then obtain n where "find (\<lambda>(n, _). json_fold n = json_fold k) fs = Some (n, d)"
    by (auto simp: field_decoder_def)
  then have "(n, d) \<in> set fs" by (metis find_Some_iff nth_mem)
  then show ?thesis by force
qed

definition weight_ok :: "variant_data \<Rightarrow> bool" where
  "weight_ok v \<longleftrightarrow> - (2 ^ 63) \<le> vd_weight v \<and> vd_weight v < 2 ^ 63"

lemma dec_variant_ok: "dec_struct variant_fields j v = Some v' \<Longrightarrow> weight_ok v \<Longrightarrow> weight_ok v'"
proof (erule dec_struct_inv [rotated])
  fix k d x s s'
  assume "field_decoder variant_fields k = Some d" "d x s = Some s'" "weight_ok s"
  then show "weight_ok s'"
    using field_decoder_in [of variant_fields k d] dec_int64_range [of x "vd_weight s"]
    by (auto simp: variant_fields_def lens_def weight_ok_def)
qed

lemma dec_elems_ok:
  "dec_elems (dec_struct variant_fields) zero_variant vs = Some xs \<Longrightarrow> \<forall>v \<in> set xs. weight_ok v"
proof (induction vs arbitrary: xs)
  case (Cons v vs)
  have "weight_ok zero_variant" by (simp add: weight_ok_def zero_variant_def)
  then show ?case using Cons by (auto split: option.splits dest: dec_variant_ok)
qed simp

lemma dec_variants_ok:
  "dec_slice (dec_struct variant_fields) zero_variant j xs = Some ys \<Longrightarrow> \<forall>v \<in> set ys. weight_ok v"
  by (cases j) (auto dest: dec_elems_ok)

lemma dec_spec_ok:
  "dec_struct spec_fields j f = Some f' \<Longrightarrow> \<forall>v \<in> set (fs_variants f). weight_ok v \<Longrightarrow>
   \<forall>v \<in> set (fs_variants f'). weight_ok v"
proof (erule dec_struct_inv [rotated])
  fix k d x s s'
  assume "field_decoder spec_fields k = Some d" "d x s = Some s'" "\<forall>v \<in> set (fs_variants s). weight_ok v"
  then show "\<forall>v \<in> set (fs_variants s'). weight_ok v"
    using field_decoder_in [of spec_fields k d] dec_variants_ok [of x "fs_variants s"]
    by (auto simp: spec_fields_def lens_def)
qed

lemma dec_definition_ok:
  "dec_struct definition_fields j f = Some f' \<Longrightarrow> \<forall>v \<in> set (fs_variants (cr_spec f)). weight_ok v \<Longrightarrow>
   \<forall>v \<in> set (fs_variants (cr_spec f')). weight_ok v"
proof (erule dec_struct_inv [rotated])
  fix k d x s s'
  assume "field_decoder definition_fields k = Some d" "d x s = Some s'"
    "\<forall>v \<in> set (fs_variants (cr_spec s)). weight_ok v"
  then show "\<forall>v \<in> set (fs_variants (cr_spec s')). weight_ok v"
    using field_decoder_in [of definition_fields k d] dec_spec_ok [of x "cr_spec s"]
    by (auto simp: definition_fields_def lens_def)
qed

lemma unmarshal_watch_ok: "unmarshal_watch p = Some e \<Longrightarrow> event_ok e"
proof -
  assume "unmarshal_watch p = Some e"
  then obtain j where "dec_struct event_object_fields j zero_watch_event = Some e"
    by (auto simp: unmarshal_watch_def unmarshal_def split: option.splits)
  then have "\<forall>v \<in> set (fs_variants (cr_spec (we_object e))). weight_ok v"
  proof (rule dec_struct_inv [rotated])
    fix k d x s s'
    assume "field_decoder event_object_fields k = Some d" "d x s = Some s'"
      "\<forall>v \<in> set (fs_variants (cr_spec (we_object s))). weight_ok v"
    then show "\<forall>v \<in> set (fs_variants (cr_spec (we_object s'))). weight_ok v"
      using field_decoder_in [of event_object_fields k d] dec_definition_ok [of x "we_object s"]
      by (auto simp: event_object_fields_def lens_def)
  qed (simp add: zero_watch_event_def)
  then show ?thesis
    by (auto simp: event_ok_def flag_ok_def specToFlagData_def weight_ok_def)
qed

section \<open>The reconciler replays the events\<close>

context flag_store
begin

definition reliable :: "'s reconciler \<Rightarrow> bool" where
  "reliable r \<longleftrightarrow> rc_set r = set_flag \<and> rc_delete r = delete_flag \<and>
     (\<forall>s fd. inv s \<and> flag_ok fd \<longrightarrow> fst (set_flag fd s) = None) \<and>
     (\<forall>s n. inv s \<and> flags s n \<noteq> None \<longrightarrow> fst (delete_flag n s) = None)"

lemma reconcile_applies:
  assumes "reliable r" "inv s" "event_ok e" "reconcile r e s = (err, s')"
  shows "inv s' \<and> flags s' = apply_event e (flags s)"
proof -
  let ?fd = "specToFlagData (we_object e)"
  have ok: "flag_ok ?fd" using assms(3) by (simp add: event_ok_def)
  consider "we_type e = ''ADDED'' \<or> we_type e = ''MODIFIED''" | "we_type e = ''DELETED''"
    | "we_type e \<notin> {''ADDED'', ''MODIFIED'', ''DELETED''}" by blast
  then show ?thesis
  proof cases
    case 1
    then have "set_flag ?fd s = (err, s')"
      using assms by (auto simp: reconcile_def reliable_def Let_def)
    moreover from this have "err = None" using assms(1,2) ok unfolding reliable_def by (metis fst_conv)
    ultimately show ?thesis
      using set_inv [OF assms(2) ok] set_ok [OF assms(2) ok] 1 by (simp add: apply_event_def Let_def)
  next
    case 2
    then have del: "delete_flag (fd_name ?fd) s = (err, s')"
      using assms by (auto simp: reconcile_def reliable_def Let_def)
    have "flags s' = (flags s)(fd_name ?fd := None)"
    proof (cases "flags s (fd_name ?fd)")
      case None
      then have same: "(flags s)(fd_name ?fd := None) = flags s" by (simp add: fun_upd_idem)
      show ?thesis
        using delete_ok [OF assms(2), of "fd_name ?fd" s'] delete_err [OF assms(2), of "fd_name ?fd" _ s'] del same
        by (cases err) auto
    next
      case (Some x)
      then have "err = None" using assms(1,2) del unfolding reliable_def by (metis fst_conv option.distinct(1))
      then show ?thesis using delete_ok [OF assms(2)] del by blast
    qed
    then show ?thesis using delete_inv [OF assms(2) del] 2 by (simp add: apply_event_def Let_def)
  next
    case 3
    then show ?thesis using assms(2,4) by (simp add: reconcile_def apply_event_def Let_def)
  qed
qed

lemma watch_lines_applies:
  assumes "reliable r" "inv s"
  shows "inv (watch_lines r ls s) \<and> flags (watch_lines r ls s) = fold apply_event (line_events ls) (flags s)"
  using assms(2)
proof (induction ls arbitrary: s)
  case (Cons l ls)
  show ?case
  proof (cases "\<exists>p e. l = Line p \<and> unmarshal_watch p = Some e")
    case True
    then obtain p e where l: "l = Line p" "unmarshal_watch p = Some e" by blast
    obtain err s1 where run: "reconcile r e s = (err, s1)" by force
    from reconcile_applies [OF assms(1) Cons.prems unmarshal_watch_ok [OF l(2)] run]
    show ?thesis using Cons.IH [of s1] l run by simp
  next
    case False
    then have "watch_lines r (l # ls) s = watch_lines r ls s \<and> line_events (l # ls) = line_events ls"
      by (cases l) (auto split: option.splits)
    then show ?thesis using Cons by simp
  qed
qed simp

lemma run_watches_applies:
  assumes "reliable r" "inv s"
  shows "inv (snd (run_watches r i b ws s)) \<and>
    flags (snd (run_watches r i b ws s)) = fold apply_event (line_events (concat (map outcome_lines ws))) (flags s)"
  using assms(2)
proof (induction ws arbitrary: b s)
  case (Cons w ws)
  obtain ok s1 where run: "watch r w s = (ok, s1)" by force
  have s1: "inv s1 \<and> flags s1 = fold apply_event (line_events (outcome_lines w)) (flags s)"
    using run watch_lines_applies [OF assms(1) Cons.prems] Cons.prems
    by (cases w) (auto simp: watch_def)
  have "line_events (xs @ ys) = line_events xs @ line_events ys" for xs ys
    by (induction xs rule: line_events.induct) (auto split: option.splits)
  then show ?case
    using s1 Cons.IH [of s1] run_watches_Cons(1) [OF run] by simp
qed simp

end

lemma next_backoff_bounded:
  "0 < i \<Longrightarrow> 0 < b \<Longrightarrow> b < max (60 * second) (2 * i) \<Longrightarrow>
   0 < next_backoff ok i b \<and> next_backoff ok i b < max (60 * second) (2 * i)"
  by (auto simp: next_backoff_def max_def split: if_splits)

lemma backoff_bounded:
  assumes "0 < i" "0 < b" "b < max (60 * second) (2 * i)"
  shows "\<forall>d \<in> set (fst (run_watches r i b ws s)). 0 < d \<and> d < max (60 * second) (2 * i)"
  using assms
proof (induction ws arbitrary: b s)
  case (Cons w ws)
  obtain ok s1 where run: "watch r w s = (ok, s1)" by force
  show ?case
    using Cons.IH [of "next_backoff ok i b" s1] Cons.prems next_backoff_bounded [of i b ok]
      run_watches_Cons(2) [OF run, of i b ws] by auto
qed simp

section \<open>Properties\<close>

lemma etcd_reliable:
  "etcd_store.reliable (\<lambda>_. EtcdOk)
     \<lparr>rc_set = SetFlag (\<lambda>_. EtcdOk), rc_delete = DeleteFlag (\<lambda>_. EtcdOk), rc_min_backoff = m\<rparr>"
proof -
  have "fst (DeleteFlag (\<lambda>_. EtcdOk) n s) = None" if "stored_flags s n \<noteq> None" for s n
  proof -
    obtain k s' where del: "kv_delete (flagPrefix @ n) (count_call s) = (k, s')" by force
    have "map_of (et_kvs s) (flagPrefix @ n) \<noteq> None"
      using that by (cases "map_of (et_kvs s) (flagPrefix @ n)") (auto simp: stored_flags_def)
    then have "k \<noteq> 0" using kv_delete_view(2) [OF del] by simp
    then show ?thesis using del by (simp add: DeleteFlag_def)
  qed
  then show ?thesis by (simp add: etcd_store.reliable_def SetFlag_def Let_def)
qed

text \<open>
  C28. The controller keeps etcd in step with the cluster: over any sequence of watches, with
  dropped connections, bad statuses and undecodable lines in between, and with etcd answering,
  the stored flags are exactly the replay of the decoded events: the last event of a flag key
  decides whether it is stored and with which data.
\<close>

theorem reconciler_replays_events:
  assumes "r = \<lparr>rc_set = SetFlag (\<lambda>_. EtcdOk), rc_delete = DeleteFlag (\<lambda>_. EtcdOk), rc_min_backoff = m\<rparr>"
    and "etcd_inv s"
  shows "stored_flags (snd (RunReconciler r ws s)) =
    fold apply_event (line_events (concat (map outcome_lines ws))) (stored_flags s)"
  unfolding RunReconciler_def Let_def
  using etcd_store.run_watches_applies [OF etcd_reliable assms(2)] assms(1) by blast

definition demo_line :: "string \<Rightarrow> string \<Rightarrow> watch_line" where
  "demo_line typ key = Line (Some (JObj [(''type'', JStr typ),
     (''object'', JObj [(''spec'', JObj [(''flagKey'', JStr key)])])]))"

definition demo_event :: "string \<Rightarrow> string \<Rightarrow> watch_event" where
  "demo_event typ key = zero_watch_event\<lparr>we_type := typ,
     we_object := (we_object zero_watch_event)\<lparr>cr_spec := (cr_spec (we_object zero_watch_event))\<lparr>fs_flag_key := key\<rparr>\<rparr>\<rparr>"

lemma demo_line_events: "line_events (demo_line typ key # ls) = demo_event typ key # line_events ls"
proof -
  have f: "field_decoder event_object_fields ''type'' = Some (lens we_type (\<lambda>x m. m\<lparr>we_type := x\<rparr>) dec_string)"
    "field_decoder event_object_fields ''object'' = Some (lens we_object (\<lambda>x m. m\<lparr>we_object := x\<rparr>) (dec_struct definition_fields))"
    "field_decoder definition_fields ''spec'' = Some (lens cr_spec (\<lambda>x m. m\<lparr>cr_spec := x\<rparr>) (dec_struct spec_fields))"
    "field_decoder spec_fields ''flagKey'' = Some (lens fs_flag_key (\<lambda>x m. m\<lparr>fs_flag_key := x\<rparr>) dec_string)"
    by (simp_all add: field_decoder_def event_object_fields_def definition_fields_def spec_fields_def fold_char_def)
  have "unmarshal_watch (Some (JObj [(''type'', JStr typ),
     (''object'', JObj [(''spec'', JObj [(''flagKey'', JStr key)])])])) = Some (demo_event typ key)"
    by (simp add: unmarshal_watch_def unmarshal_def f lens_def demo_event_def)
  then show ?thesis by (simp add: demo_line_def)
qed

lemma demo_event_data:
  "specToFlagData (we_object (demo_event typ key)) = zero_flag\<lparr>fd_name := key\<rparr>" "we_type (demo_event typ key) = typ"
  by (simp_all add: demo_event_def specToFlagData_def zero_watch_event_def zero_flag_def)

definition etcd_empty :: etcd where
  "etcd_empty = \<lparr>et_kvs = [], et_events = [], et_calls = 0\<rparr>"

lemma etcd_empty_view: "etcd_inv etcd_empty" "stored_flags etcd_empty = Map.empty"
  by (simp_all add: etcd_inv_def etcd_empty_def stored_flags_def fun_eq_iff)

definition demo_reconciler :: "etcd reconciler" where
  "demo_reconciler = \<lparr>rc_set = SetFlag (\<lambda>_. EtcdOk), rc_delete = DeleteFlag (\<lambda>_. EtcdOk), rc_min_backoff = 0\<rparr>"

theorem reconciler_replays_events_witness:
  "stored_flags (snd (RunReconciler demo_reconciler
     [Stream [demo_line ''ADDED'' ''f'', demo_line ''ADDED'' ''g''] False, BadStatus 503,
      Stream [demo_line ''DELETED'' ''f''] True] etcd_empty)) = [''g'' \<mapsto> zero_flag\<lparr>fd_name := ''g''\<rparr>]"
  unfolding reconciler_replays_events [OF demo_reconciler_def etcd_empty_view(1)]
  by (simp add: demo_line_events demo_event_data apply_event_def etcd_empty_view fun_eq_iff)

text \<open>
  Observation. Renaming the key of a resource leaves the old flag behind: after a resource is added with
  key \<open>a\<close>, modified to key \<open>b\<close> and deleted, the flag \<open>a\<close> is still stored, although no resource
  defines it.
\<close>

theorem renamed_key_leaves_flag:
  assumes "a \<noteq> b" "etcd_inv s"
    and "r = \<lparr>rc_set = SetFlag (\<lambda>_. EtcdOk), rc_delete = DeleteFlag (\<lambda>_. EtcdOk), rc_min_backoff = m\<rparr>"
    and "we_type e1 = ''ADDED''" "fs_flag_key (cr_spec (we_object e1)) = a"
    and "we_type e2 = ''MODIFIED''" "we_type e3 = ''DELETED''"
    and "fs_flag_key (cr_spec (we_object e2)) = b" "fs_flag_key (cr_spec (we_object e3)) = b"
    and "line_events (concat (map outcome_lines ws)) = [e1, e2, e3]"
  shows "stored_flags (snd (RunReconciler r ws s)) a = Some (specToFlagData (we_object e1))"
proof -
  have "stored_flags (snd (RunReconciler r ws s)) = fold apply_event [e1, e2, e3] (stored_flags s)"
    using etcd_store.run_watches_applies [OF etcd_reliable assms(2)] assms(3,10)
    by (simp add: RunReconciler_def Let_def)
  then show ?thesis
    using assms(1,4-9) by (simp add: apply_event_def specToFlagData_def)
qed

theorem renamed_key_leaves_flag_witness:
  "stored_flags (snd (RunReconciler demo_reconciler
     [Stream [demo_line ''ADDED'' ''a'', demo_line ''MODIFIED'' ''b'', demo_line ''DELETED'' ''b''] True] etcd_empty)) ''a'' =
   Some (zero_flag\<lparr>fd_name := ''a''\<rparr>)"
proof -
  let ?ws = "[Stream [demo_line ''ADDED'' ''a'', demo_line ''MODIFIED'' ''b'', demo_line ''DELETED'' ''b''] True]"
  have key: "fs_flag_key (cr_spec (we_object (demo_event t key))) = key" for t key
    by (simp add: demo_event_def)
  have "line_events (concat (map outcome_lines ?ws)) =
      [demo_event ''ADDED'' ''a'', demo_event ''MODIFIED'' ''b'', demo_event ''DELETED'' ''b'']"
    by (simp add: demo_line_events)
  from renamed_key_leaves_flag [OF _ etcd_empty_view(1) demo_reconciler_def _ _ _ _ _ _ this, of "''a''" "''b''"]
  show ?thesis by (simp add: demo_event_data key)
qed

end
