(* ===== verification/Flag_Http.thy ===== *)
theory Flag_Http
  imports Flag_Eval
begin

text \<open>
  The REST interface of distributed-flagd (\<^verbatim>\<open>internal/http/handler.go\<close>, \<^verbatim>\<open>internal/http/routes.go\<close>),
  its audit log (\<^verbatim>\<open>internal/audit/audit.go\<close>) and the Go client (\<^verbatim>\<open>sdk/client.go\<close>).  Flags and
  audit entries live in the same etcd.
\<close>

section \<open>Audit log\<close>

record audit_entry =
  ae_flag_name :: string
  ae_old_value :: string
  ae_new_value :: string
  ae_changed_by :: string
  ae_changed_at :: int
  ae_count_snapshot :: int

definition enc_entry :: "audit_entry \<Rightarrow> json" where
  "enc_entry e = JObj
     [(''flag_name'', JStr (ae_flag_name e)), (''old_value'', JStr (ae_old_value e)),
      (''new_value'', JStr (ae_new_value e)), (''changed_by'', JStr (ae_changed_by e)),
      (''changed_at'', JInt (ae_changed_at e)), (''evaluation_count_snapshot'', JInt (ae_count_snapshot e))]"

text \<open>\<^verbatim>\<open>Log\<close>: grant a lease, then put the entry; both requests may fail.  \<open>now\<close> is the clock.\<close>

definition audit_key :: "audit_entry \<Rightarrow> string" where
  "audit_key e = ''/audit/'' @ ae_flag_name e @ ''/'' @ itoa (ae_changed_at e)"

definition AuditLog :: "etcd_io \<Rightarrow> (nat \<Rightarrow> int) \<Rightarrow> audit_entry \<Rightarrow> etcd \<Rightarrow> string option \<times> etcd" where
  "AuditLog io now e s =
     (let e1 = e\<lparr>ae_changed_at := now (et_calls s)\<rparr>
      in case io (et_calls s) of
           EtcdErr msg _ \<Rightarrow> (Some msg, count_call s)
         | EtcdOk \<Rightarrow>
             let s1 = count_call s; s2 = kv_put (audit_key e1) (Some (enc_entry e1)) (count_call s1)
             in case io (et_calls s1) of
                  EtcdErr msg applied \<Rightarrow> (Some msg, if applied then s2 else count_call s1)
                | EtcdOk \<Rightarrow> (None, s2))"

definition new_entry :: "string \<Rightarrow> string \<Rightarrow> string \<Rightarrow> string \<Rightarrow> audit_entry" where
  "new_entry name old new by = \<lparr>ae_flag_name = name, ae_old_value = old, ae_new_value = new,
     ae_changed_by = by, ae_changed_at = 0, ae_count_snapshot = 0\<rparr>"

section \<open>Handlers\<close>

record http_req =
  hr_method :: string
  hr_path :: string
  hr_body :: payload

record http_resp =
  rp_status :: int
  rp_body :: payload

record flag_request =
  fq_name :: string
  fq_value :: string
  fq_enabled :: bool
  fq_variants :: "variant_data list"
  fq_changed_by :: string
  fq_reason :: string

definition zero_flag_request :: flag_request where
  "zero_flag_request = \<lparr>fq_name = [], fq_value = [], fq_enabled = False, fq_variants = [],
     fq_changed_by = [], fq_reason = []\<rparr>"

definition flag_request_fields :: "flag_request fields" where
  "flag_request_fields =
     [(''name'', lens fq_name (\<lambda>x q. q\<lparr>fq_name := x\<rparr>) dec_string),
      (''value'', lens fq_value (\<lambda>x q. q\<lparr>fq_value := x\<rparr>) dec_string),
      (''enabled'', lens fq_enabled (\<lambda>x q. q\<lparr>fq_enabled := x\<rparr>) dec_bool),
      (''variants'', lens fq_variants (\<lambda>x q. q\<lparr>fq_variants := x\<rparr>)
         (dec_slice (dec_struct variant_fields) zero_variant)),
      (''changed_by'', lens fq_changed_by (\<lambda>x q. q\<lparr>fq_changed_by := x\<rparr>) dec_string),
      (''reason'', lens fq_reason (\<lambda>x q. q\<lparr>fq_reason := x\<rparr>) dec_string)]"

definition flag_of_request :: "flag_request \<Rightarrow> flag_data" where
  "flag_of_request q = \<lparr>fd_name = fq_name q, fd_value = fq_value q, fd_enabled = fq_enabled q,
     fd_variants = fq_variants q\<rparr>"

definition writeError :: "string \<Rightarrow> int \<Rightarrow> http_resp" where
  "writeError msg code = \<lparr>rp_status = code,
     rp_body = Some (JObj [(''code'', JStr (itoa code)), (''error'', JStr msg)])\<rparr>"

definition json_resp :: "int \<Rightarrow> json \<Rightarrow> http_resp" where
  "json_resp code v = \<lparr>rp_status = code, rp_body = Some v\<rparr>"

definition validateRequest :: "flag_request \<Rightarrow> string option" where
  "validateRequest q = (if fq_name q = [] then Some ''name is required'' else None)"

text \<open>\<^verbatim>\<open>strings.Trim(path, "/")\<close>, then the second component.\<close>

definition trim_slashes :: "string \<Rightarrow> string" where
  "trim_slashes s = rev (dropWhile (\<lambda>c. c = CHR ''/'') (rev (dropWhile (\<lambda>c. c = CHR ''/'') s)))"

definition nameFromPath :: "string \<Rightarrow> string" where
  "nameFromPath path =
     (case split_on (CHR ''/'') (trim_slashes path) of
        _ # name # _ \<Rightarrow> name
      | _ \<Rightarrow> [])"

text \<open>The clock and the text of the JSON library's errors.\<close>

record handler_env =
  he_io :: etcd_io
  he_now :: "nat \<Rightarrow> int"
  he_json_err :: "payload \<Rightarrow> string"
  he_default_model :: string

definition store_error :: "string \<Rightarrow> string \<Rightarrow> http_resp" where
  "store_error what err =
     (if contains err ''not found'' then writeError ''flag not found'' 404
      else writeError (what @ err) 500)"

definition HttpCreateFlag :: "handler_env \<Rightarrow> http_req \<Rightarrow> etcd \<Rightarrow> http_resp \<times> etcd" where
  "HttpCreateFlag env r s =
     (case unmarshal (dec_struct flag_request_fields) (hr_body r) zero_flag_request of
        None \<Rightarrow> (writeError (''invalid JSON: '' @ he_json_err env (hr_body r)) 400, s)
      | Some req \<Rightarrow>
          (case validateRequest req of
             Some err \<Rightarrow> (writeError err 400, s)
           | None \<Rightarrow>
               let fd = flag_of_request req
               in case SetFlag (he_io env) fd s of
                    (Some err, s1) \<Rightarrow> (writeError (''etcd write failed: '' @ err) 500, s1)
                  | (None, s1) \<Rightarrow>
                      (json_resp 201 (enc_flag fd),
                       snd (AuditLog (he_io env) (he_now env)
                         (new_entry (fq_name req) [] (fq_value req) (fq_changed_by req)) s1))))"

definition HttpGetFlag :: "handler_env \<Rightarrow> http_req \<Rightarrow> etcd \<Rightarrow> http_resp \<times> etcd" where
  "HttpGetFlag env r s =
     (let name = nameFromPath (hr_path r)
      in if name = [] then (writeError ''flag name required'' 400, s)
         else case GetFlag (he_io env) name s of
                (Inl err, s1) \<Rightarrow> (store_error ''etcd read failed: '' err, s1)
              | (Inr fd, s1) \<Rightarrow> (json_resp 200 (enc_flag fd), s1))"

definition HttpListFlags :: "handler_env \<Rightarrow> http_req \<Rightarrow> etcd \<Rightarrow> http_resp \<times> etcd" where
  "HttpListFlags env r s =
     (case ListFlags (he_io env) s of
        (Inl err, s1) \<Rightarrow> (writeError (''etcd list failed: '' @ err) 500, s1)
      | (Inr fds, s1) \<Rightarrow>
          (json_resp 200 (JObj [(''count'', JInt (int (length fds))), (''flags'', JArr (map enc_flag fds))]), s1))"

definition HttpUpdateFlag :: "handler_env \<Rightarrow> http_req \<Rightarrow> etcd \<Rightarrow> http_resp \<times> etcd" where
  "HttpUpdateFlag env r s =
     (let name = nameFromPath (hr_path r)
      in if name = [] then (writeError ''flag name required'' 400, s)
         else case GetFlag (he_io env) name s of
                (Inl err, s1) \<Rightarrow> (store_error ''etcd read failed: '' err, s1)
              | (Inr old, s1) \<Rightarrow>
                  (case unmarshal (dec_struct flag_request_fields) (hr_body r) zero_flag_request of
                     None \<Rightarrow> (writeError (''invalid JSON: '' @ he_json_err env (hr_body r)) 400, s1)
                   | Some req0 \<Rightarrow>
                       let req = req0\<lparr>fq_name := name\<rparr>; fd = flag_of_request req
                       in case validateRequest req of
                            Some err \<Rightarrow> (writeError err 400, s1)
                          | None \<Rightarrow>
                              (case SetFlag (he_io env) fd s1 of
                                 (Some err, s2) \<Rightarrow> (writeError (''etcd write failed: '' @ err) 500, s2)
                               | (None, s2) \<Rightarrow>
                                   (json_resp 200 (enc_flag fd),
                                    snd (AuditLog (he_io env) (he_now env)
                                      (new_entry name (fd_value old) (fq_value req) (fq_changed_by req)) s2)))))"

definition HttpDeleteFlag :: "handler_env \<Rightarrow> http_req \<Rightarrow> etcd \<Rightarrow> http_resp \<times> etcd" where
  "HttpDeleteFlag env r s =
     (let name = nameFromPath (hr_path r)
      in if name = [] then (writeError ''flag name required'' 400, s)
         else case GetFlag (he_io env) name s of
                (Inl err, s1) \<Rightarrow> (store_error ''etcd read failed: '' err, s1)
              | (Inr old, s1) \<Rightarrow>
                  (case DeleteFlag (he_io env) name s1 of
                     (Some err, s2) \<Rightarrow> (store_error ''etcd delete failed: '' err, s2)
                   | (None, s2) \<Rightarrow>
                       (\<lparr>rp_status = 204, rp_body = None\<rparr>,
                        snd (AuditLog (he_io env) (he_now env) (new_entry name (fd_value old) [] ''api'') s2))))"

definition Healthz :: http_resp where
  "Healthz = json_resp 200 (JObj [(''status'', JStr ''ok'')])"

record eval_request =
  eq_tenant_id :: string
  eq_user_id :: string

definition eval_request_fields :: "eval_request fields" where
  "eval_request_fields =
     [(''tenant_id'', lens eq_tenant_id (\<lambda>x q. q\<lparr>eq_tenant_id := x\<rparr>) dec_string),
      (''user_id'', lens eq_user_id (\<lambda>x q. q\<lparr>eq_user_id := x\<rparr>) dec_string)]"

definition HttpEvaluate :: "handler_env \<Rightarrow> http_req \<Rightarrow> etcd \<Rightarrow> http_resp \<times> etcd" where
  "HttpEvaluate env r s =
     (if hr_method r \<noteq> ''POST'' then (writeError ''method not allowed'' 405, s)
      else case unmarshal (dec_struct eval_request_fields) (hr_body r) \<lparr>eq_tenant_id = [], eq_user_id = []\<rparr> of
        None \<Rightarrow> (writeError (''invalid JSON: '' @ he_json_err env (hr_body r)) 400, s)
      | Some req \<Rightarrow>
          if eq_tenant_id req = [] \<or> eq_user_id req = []
          then (writeError ''tenant_id and user_id are required'' 400, s)
          else
            let (res, s1) = ResolveModelVersion (GetFlag (he_io env)) (he_default_model env)
                  (eq_tenant_id req) (eq_user_id req) s
            in (json_resp 200 (JObj [(''resolved_model_id'', JStr (er_model_version res)),
                  (''variant'', JStr (er_variant res)), (''flag_key'', JStr (er_flag_key res))]), s1))"

text \<open>
  The routes: a path with empty or dotted components is redirected by the mux to its clean
  form, a path under no pattern is not found.
\<close>

definition serve :: "handler_env \<Rightarrow> http_req \<Rightarrow> etcd \<Rightarrow> http_resp \<times> etcd" where
  "serve env r s =
     (if \<not> clean_path (hr_path r) then (\<lparr>rp_status = 301, rp_body = None\<rparr>, s)
      else if hr_path r = ''/flags'' then
        (if hr_method r = ''POST'' then HttpCreateFlag env r s
         else if hr_method r = ''GET'' then HttpListFlags env r s
         else (writeError ''method not allowed'' 405, s))
      else if has_prefix (hr_path r) ''/flags/'' then
        (if hr_method r = ''GET'' then HttpGetFlag env r s
         else if hr_method r = ''PUT'' then HttpUpdateFlag env r s
         else if hr_method r = ''DELETE'' then HttpDeleteFlag env r s
         else (writeError ''method not allowed'' 405, s))
      else if hr_path r = ''/healthz'' then (Healthz, s)
      else if hr_path r = ''/evaluate'' then HttpEvaluate env r s
      else (\<lparr>rp_status = 404, rp_body = None\<rparr>, s))"

section \<open>Client\<close>

text \<open>
  The transport is a parameter: an exchange fails or returns a response.  The client concatenates base
  address, path and the name as it is, and \<^verbatim>\<open>url.Parse\<close> reads the result: a control character is an
  error, the fragment after \<^verbatim>\<open>#\<close> and the query after \<^verbatim>\<open>?\<close> are cut off, and escapes are decoded.  What
  remains is the path the server sees.
\<close>

definition hex_value :: "char \<Rightarrow> nat option" where
  "hex_value c =
     (let n = (of_char c :: nat)
      in if 48 \<le> n \<and> n \<le> 57 then Some (n - 48)
         else if 97 \<le> n \<and> n \<le> 102 then Some (n - 87)
         else if 65 \<le> n \<and> n \<le> 70 then Some (n - 55) else None)"

fun percent_decode :: "string \<Rightarrow> string option" where
  "percent_decode [] = Some []"
| "percent_decode (c # s) =
     (if c \<noteq> CHR ''%'' then map_option ((#) c) (percent_decode s)
      else case s of
        x # y # t \<Rightarrow>
          (case (hex_value x, hex_value y) of
             (Some a, Some b) \<Rightarrow> map_option ((#) (char_of (16 * a + b))) (percent_decode t)
           | _ \<Rightarrow> None)
      | _ \<Rightarrow> None)"

definition control_char :: "char \<Rightarrow> bool" where
  "control_char c \<longleftrightarrow> (of_char c :: nat) < 32 \<or> (of_char c :: nat) = 127"

definition url_path :: "string \<Rightarrow> string option" where
  "url_path u =
     (if list_ex control_char u then None
      else
        let rest = takeWhile (\<lambda>c. c \<noteq> CHR ''#'') u; fragment = drop (Suc (length rest)) u
        in case percent_decode fragment of
             None \<Rightarrow> None
           | Some _ \<Rightarrow> percent_decode (takeWhile (\<lambda>c. c \<noteq> CHR ''?'') rest))"

text \<open>A call whose address cannot be parsed is not sent.\<close>

definition sdk_path :: "string \<Rightarrow> (string \<Rightarrow> 'n \<Rightarrow> (string + 'a) \<times> 'n) \<Rightarrow> 'n \<Rightarrow> (string + 'a) \<times> 'n" where
  "sdk_path u call n = (case url_path u of None \<Rightarrow> (Inl ''parse error'', n) | Some p \<Rightarrow> call p n)"

type_synonym 'n exchange = "http_req \<Rightarrow> 'n \<Rightarrow> http_resp option \<times> 'n"

record api_error =
  ap_error :: string

definition sdk_do ::
  "'n exchange \<Rightarrow> http_req \<Rightarrow> 'a decoder \<Rightarrow> 'a \<Rightarrow> int \<Rightarrow> 'n \<Rightarrow> (string + 'a) \<times> 'n" where
  "sdk_do ex r d z expect n =
     (case ex r n of
        (None, n1) \<Rightarrow> (Inl ''transport error'', n1)
      | (Some resp, n1) \<Rightarrow>
          if rp_status resp \<noteq> expect
          then
            let e = (case unmarshal (dec_struct [(''error'', lens ap_error (\<lambda>x a. a\<lparr>ap_error := x\<rparr>) dec_string)])
                       (rp_body resp) \<lparr>ap_error = []\<rparr> of None \<Rightarrow> [] | Some a \<Rightarrow> ap_error a)
            in (Inl (if e \<noteq> [] then ''HTTP '' @ itoa (rp_status resp) @ '': '' @ e
                     else ''HTTP '' @ itoa (rp_status resp)), n1)
          else (case unmarshal d (rp_body resp) z of
                  None \<Rightarrow> (Inl ''invalid response body'', n1)
                | Some x \<Rightarrow> (Inr x, n1)))"

definition sdk_wrap :: "string \<Rightarrow> (string + 'a) \<times> 'n \<Rightarrow> (string + 'a) \<times> 'n" where
  "sdk_wrap what res = (case res of (Inl e, n) \<Rightarrow> (Inl (what @ '': '' @ e), n) | _ \<Rightarrow> res)"

definition enc_flag_request :: "flag_request \<Rightarrow> json" where
  "enc_flag_request q = JObj
     ([(''name'', JStr (fq_name q)), (''value'', JStr (fq_value q)), (''enabled'', JBool (fq_enabled q))] @
      (if fq_variants q = [] then [] else [(''variants'', JArr (map enc_variant (fq_variants q)))]) @
      enc_str_omit ''changed_by'' (fq_changed_by q) @ enc_str_omit ''reason'' (fq_reason q))"

definition SdkGetFlag :: "'n exchange \<Rightarrow> string \<Rightarrow> 'n \<Rightarrow> (string + flag_data) \<times> 'n" where
  "SdkGetFlag ex name n =
     sdk_wrap (''get flag '' @ name)
       (sdk_path (''/flags/'' @ name)
         (\<lambda>p. sdk_do ex \<lparr>hr_method = ''GET'', hr_path = p, hr_body = None\<rparr> (dec_struct flag_fields) zero_flag 200) n)"

definition SdkCreateFlag :: "'n exchange \<Rightarrow> flag_request \<Rightarrow> 'n \<Rightarrow> (string + flag_data) \<times> 'n" where
  "SdkCreateFlag ex q n =
     sdk_wrap ''create flag''
       (sdk_do ex \<lparr>hr_method = ''POST'', hr_path = ''/flags'', hr_body = Some (enc_flag_request q)\<rparr>
         (dec_struct flag_fields) zero_flag 201 n)"

definition SdkUpdateFlag :: "'n exchange \<Rightarrow> string \<Rightarrow> flag_request \<Rightarrow> 'n \<Rightarrow> (string + flag_data) \<times> 'n" where
  "SdkUpdateFlag ex name q n =
     sdk_wrap (''update flag '' @ name)
       (sdk_path (''/flags/'' @ name)
         (\<lambda>p. sdk_do ex \<lparr>hr_method = ''PUT'', hr_path = p, hr_body = Some (enc_flag_request q)\<rparr>
           (dec_struct flag_fields) zero_flag 200) n)"

text \<open>The exchange with a server of this theory; a redirection of the mux is not followed.\<close>

definition server_exchange :: "handler_env \<Rightarrow> etcd exchange" where
  "server_exchange env r s = (let (resp, s1) = serve env r s in (Some resp, s1))"

section \<open>Paths\<close>

lemma nameFromPath_no_slash: "CHR ''/'' \<notin> set (nameFromPath path)"
proof (cases "\<exists>a n ns. split_on (CHR ''/'') (trim_slashes path) = a # n # ns")
  case True
  then obtain a n ns where sp: "split_on (CHR ''/'') (trim_slashes path) = a # n # ns" by blast
  then show ?thesis
    using split_on_no_sep [of n "CHR ''/''" "trim_slashes path"] by (simp add: nameFromPath_def)
next
  case False
  then have "nameFromPath path = []" by (auto simp: nameFromPath_def split: list.splits)
  then show ?thesis by simp
qed

text \<open>A name that is one component of a path and passes through a URL unchanged.\<close>

definition ok_name :: "string \<Rightarrow> bool" where
  "ok_name n \<longleftrightarrow> n \<noteq> [] \<and> n \<noteq> ''.'' \<and> n \<noteq> ''..'' \<and>
     list_all (\<lambda>c. c \<notin> set ''/?#%'' \<and> \<not> control_char c) n"

lemma ok_name_parts:
  assumes "ok_name n"
  shows "n \<noteq> []" "CHR ''/'' \<notin> set n" "CHR ''?'' \<notin> set n" "CHR ''#'' \<notin> set n" "CHR ''%'' \<notin> set n"
    "\<not> list_ex control_char n" "n \<noteq> ''.''" "n \<noteq> ''..''"
  using assms by (auto simp: ok_name_def list_all_iff list_ex_iff)

lemma percent_decode_plain: "CHR ''%'' \<notin> set s \<Longrightarrow> percent_decode s = Some s"
  by (induction s) auto

lemma url_path_query:
  assumes "ok_name n" "CHR ''#'' \<notin> set q" "\<not> list_ex control_char q" "q = [] \<or> (\<exists>w. q = CHR ''?'' # w)"
  shows "url_path (''/flags/'' @ n @ q) = Some (''/flags/'' @ n)"
proof -
  note n = ok_name_parts [OF assms(1)]
  have noctl: "\<not> list_ex control_char (''/flags/'' @ n @ q)" using n(6) assms(3) by (simp add: control_char_def)
  have rest: "takeWhile (\<lambda>c. c \<noteq> CHR ''#'') (''/flags/'' @ n @ q) = ''/flags/'' @ n @ q"
    using n(4) assms(2) by (subst takeWhile_eq_all_conv) auto
  have "takeWhile (\<lambda>c. c \<noteq> CHR ''?'') (''/flags/'' @ n @ q) = ''/flags/'' @ n @ takeWhile (\<lambda>c. c \<noteq> CHR ''?'') q"
    using n(3) by (auto intro!: takeWhile_append2)
  also have "takeWhile (\<lambda>c. c \<noteq> CHR ''?'') q = []" using assms(4) by auto
  finally have path: "takeWhile (\<lambda>c. c \<noteq> CHR ''?'') (''/flags/'' @ n @ q) = ''/flags/'' @ n" by simp
  have "percent_decode (''/flags/'' @ n) = Some (''/flags/'' @ n)" using n(5) by (intro percent_decode_plain) simp
  then show ?thesis unfolding url_path_def Let_def rest path using noctl by simp
qed

lemmas url_path_plain = url_path_query [where q = "[]", simplified]

lemma dropWhile_stop: "xs \<noteq> [] \<Longrightarrow> \<forall>x \<in> set xs. \<not> P x \<Longrightarrow> \<exists>zs. dropWhile P (ys @ xs @ ws) = zs @ xs @ ws"
proof (induction ys)
  case Nil
  then show ?case by (cases xs) auto
qed (auto intro: exI [of _ "_ # _"])

lemma trim_flags_path:
  assumes "a \<noteq> []" "CHR ''/'' \<notin> set a"
  shows "\<exists>t. trim_slashes (''/flags/'' @ a @ b) = ''flags/'' @ a @ t \<and> (\<exists>u. b = t @ u)"
proof -
  have "\<exists>zs. dropWhile (\<lambda>c. c = CHR ''/'') (rev b @ rev a @ rev ''flags/'') = zs @ rev a @ rev ''flags/''"
    using assms by (intro dropWhile_stop) auto
  then obtain zs where zs: "dropWhile (\<lambda>c. c = CHR ''/'') (rev b @ rev a @ rev ''flags/'') = zs @ rev a @ rev ''flags/''"
    by blast
  then have "\<exists>v. rev b @ rev a @ rev ''flags/'' = v @ zs @ rev a @ rev ''flags/''"
    by (metis takeWhile_dropWhile_id)
  then have "\<exists>v. rev b = v @ zs" by simp
  then have "\<exists>u. b = rev zs @ u" by (metis rev_append rev_rev_ident)
  moreover have "trim_slashes (''/flags/'' @ a @ b) = ''flags/'' @ a @ rev zs"
    using zs by (simp add: trim_slashes_def)
  ultimately show ?thesis by blast
qed

lemma nameFromPath_flags:
  assumes "a \<noteq> []" "CHR ''/'' \<notin> set a" "b = [] \<or> (\<exists>c. b = CHR ''/'' # c)"
  shows "nameFromPath (''/flags/'' @ a @ b) = a"
proof -
  obtain t u where t: "trim_slashes (''/flags/'' @ a @ b) = ''flags/'' @ a @ t" "b = t @ u"
    using trim_flags_path [OF assms(1,2)] by blast
  have "split_on (CHR ''/'') (''flags/'' @ a @ t) = ''flags'' # split_on (CHR ''/'') (a @ t)"
    using split_on_first [of "CHR ''/''" "''flags''" "a @ t"] by simp
  moreover have "\<exists>ws. split_on (CHR ''/'') (a @ t) = a # ws"
  proof (cases t)
    case Nil
    then show ?thesis using split_on_plain [OF assms(2)] by simp
  next
    case (Cons x xs)
    then have "x = CHR ''/''" using assms(3) t(2) by auto
    then show ?thesis using split_on_first [OF assms(2)] Cons by simp
  qed
  ultimately show ?thesis using t(1) by (auto simp: nameFromPath_def)
qed

lemma clean_flags_path: "ok_name n \<Longrightarrow> clean_path (''/flags/'' @ n)"
  using split_on_first [of "CHR ''/''" "''flags''" n] split_on_plain [of "CHR ''/''" n]
  by (simp add: clean_path_def ok_name_parts)

section \<open>Requests and audit entries\<close>

lemma flag_request_plain: "list_all plain_name (map fst flag_request_fields)"
  by (simp add: flag_request_fields_def plain_name_def)

lemma flag_request_decoders:
  "field_decoder flag_request_fields ''name'' = Some (lens fq_name (\<lambda>x q. q\<lparr>fq_name := x\<rparr>) dec_string)"
  "field_decoder flag_request_fields ''value'' = Some (lens fq_value (\<lambda>x q. q\<lparr>fq_value := x\<rparr>) dec_string)"
  "field_decoder flag_request_fields ''enabled'' = Some (lens fq_enabled (\<lambda>x q. q\<lparr>fq_enabled := x\<rparr>) dec_bool)"
  "field_decoder flag_request_fields ''variants'' = Some (lens fq_variants (\<lambda>x q. q\<lparr>fq_variants := x\<rparr>)
     (dec_slice (dec_struct variant_fields) zero_variant))"
  "field_decoder flag_request_fields ''changed_by'' = Some (lens fq_changed_by (\<lambda>x q. q\<lparr>fq_changed_by := x\<rparr>) dec_string)"
  "field_decoder flag_request_fields ''reason'' = Some (lens fq_reason (\<lambda>x q. q\<lparr>fq_reason := x\<rparr>) dec_string)"
  by (subst field_decoder_plain, simp add: plain_name_def, rule flag_request_plain,
      simp add: flag_request_fields_def)+

lemma flag_request_roundtrip:
  assumes "flag_ok (flag_of_request q)"
  shows "unmarshal (dec_struct flag_request_fields) (Some (enc_flag_request q)) zero_flag_request = Some q"
proof -
  have "dec_elems (dec_struct variant_fields) zero_variant (map enc_variant (fq_variants q)) = Some (fq_variants q)"
    using assms by (intro dec_elems_map) (auto simp: flag_ok_def flag_of_request_def dec_enc_variant)
  then show ?thesis
    by (simp add: unmarshal_def enc_flag_request_def enc_str_omit_def flag_request_decoders lens_def zero_flag_request_def)
qed

lemma audit_key_not_flag [simp]: "flagPrefix @ n \<noteq> audit_key x" "audit_key x \<noteq> flagPrefix @ n"
  by (simp_all add: audit_key_def flagPrefix_def)

lemma AuditLog_frame:
  assumes "AuditLog io now e s = (r, s')"
  shows "map_of (et_kvs s') (flagPrefix @ n) = map_of (et_kvs s) (flagPrefix @ n)"
  using assms by (auto simp: AuditLog_def Let_def split: etcd_outcome.splits if_splits)

lemma AuditLog_inv:
  assumes "AuditLog io now e s = (r, s')"
  shows "etcd_inv s \<Longrightarrow> etcd_inv s'" "stored_flags s' = stored_flags s"
  using AuditLog_frame [OF assms] by (simp_all add: etcd_inv_def stored_flags_def fun_eq_iff)

lemma HttpCreateFlag_ok:
  assumes io: "he_io env = (\<lambda>_. EtcdOk)" and inv: "etcd_inv s"
    and dec: "unmarshal (dec_struct flag_request_fields) (hr_body r) zero_flag_request = Some q"
    and ok: "flag_ok (flag_of_request q)" and name: "fq_name q \<noteq> []"
  shows "\<exists>s'. HttpCreateFlag env r s = (json_resp 201 (enc_flag (flag_of_request q)), s') \<and> etcd_inv s' \<and>
    stored_flags s' = (stored_flags s)(fq_name q \<mapsto> flag_of_request q) \<and>
    (\<exists>k e. map_of (et_kvs s') k = Some (Some (enc_entry e)) \<and> ae_flag_name e = fq_name q \<and>
       ae_old_value e = [] \<and> ae_new_value e = fq_value q)"
proof -
  obtain s1 where set: "SetFlag (\<lambda>_. EtcdOk) (flag_of_request q) s = (None, s1)"
    by (simp add: SetFlag_def)
  define e where "e = new_entry (fq_name q) [] (fq_value q) (fq_changed_by q)"
  obtain er s2 where log: "AuditLog (\<lambda>_. EtcdOk) (he_now env) e s1 = (er, s2)" by force
  have "HttpCreateFlag env r s = (json_resp 201 (enc_flag (flag_of_request q)), s2)"
    using dec set log name by (simp add: HttpCreateFlag_def io validateRequest_def e_def)
  moreover have "etcd_inv s2" "stored_flags s2 = (stored_flags s)(fq_name q \<mapsto> flag_of_request q)"
    using SetFlag_spec(1,2) [OF inv ok set] AuditLog_inv [OF log] by (simp_all add: flag_of_request_def)
  moreover have "\<exists>k e. map_of (et_kvs s2) k = Some (Some (enc_entry e)) \<and> ae_flag_name e = fq_name q \<and>
       ae_old_value e = [] \<and> ae_new_value e = fq_value q"
  proof -
    let ?e = "e\<lparr>ae_changed_at := he_now env (et_calls s1)\<rparr>"
    have "map_of (et_kvs s2) (audit_key ?e) = Some (Some (enc_entry ?e))"
      using log by (auto simp: AuditLog_def Let_def)
    then show ?thesis by (intro exI [of _ "audit_key ?e"] exI [of _ ?e]) (simp add: e_def new_entry_def)
  qed
  ultimately show ?thesis by blast
qed

section \<open>Properties\<close>

text \<open>
  C30. A flag survives the whole stack: with etcd answering, creating a flag through the client
  and reading it back through the client, over the URL, HTTP, JSON, the handlers, JSON again and etcd,
  returns the same flag.  The name must be one path component other than a dot or two, without the
  characters slash, question mark, hash and percent and without control characters.
\<close>

theorem sdk_create_then_get:
  assumes "he_io env = (\<lambda>_. EtcdOk)" "etcd_inv s" "ok_name (fq_name q)" "flag_ok (flag_of_request q)"
  shows "\<exists>s1 s2. SdkCreateFlag (server_exchange env) q s = (Inr (flag_of_request q), s1) \<and>
    SdkGetFlag (server_exchange env) (fq_name q) s1 = (Inr (flag_of_request q), s2)"
proof -
  let ?fd = "flag_of_request q" and ?n = "fq_name q"
  let ?r1 = "\<lparr>hr_method = ''POST'', hr_path = ''/flags'', hr_body = Some (enc_flag_request q)\<rparr>"
  let ?r2 = "\<lparr>hr_method = ''GET'', hr_path = ''/flags/'' @ ?n, hr_body = None\<rparr>"
  have name: "?n \<noteq> []" "CHR ''/'' \<notin> set ?n" using ok_name_parts [OF assms(3)] by simp_all
  obtain s1 where s1: "HttpCreateFlag env ?r1 s = (json_resp 201 (enc_flag ?fd), s1)" "etcd_inv s1"
    "stored_flags s1 = (stored_flags s)(?n \<mapsto> ?fd)"
    using HttpCreateFlag_ok [OF assms(1,2), of ?r1 q] flag_request_roundtrip [OF assms(4)] assms(4) name by auto
  have dec: "unmarshal (dec_struct flag_fields) (Some (enc_flag ?fd)) zero_flag = Some ?fd"
    using unmarshal_enc_flag [OF assms(4)] by (simp add: unmarshal_flag_def)
  have "clean_path ''/flags''" by (simp add: clean_path_def)
  then have create: "SdkCreateFlag (server_exchange env) q s = (Inr ?fd, s1)"
    using s1(1) dec by (simp add: SdkCreateFlag_def sdk_do_def sdk_wrap_def server_exchange_def serve_def json_resp_def)
  have "\<exists>v. map_of (et_kvs s1) (flagPrefix @ ?n) = Some v \<and> unmarshal_flag v = Some ?fd"
    using s1(3) by (cases "map_of (et_kvs s1) (flagPrefix @ ?n)") (auto simp: stored_flags_def dest: fun_cong [of _ _ ?n])
  then have get: "GetFlag (he_io env) ?n s1 = (Inr ?fd, count_call s1)"
    by (auto simp: GetFlag_def assms(1))
  have path: "nameFromPath (''/flags/'' @ ?n) = ?n"
    using nameFromPath_flags [OF name, of "[]"] by simp
  have "serve env ?r2 s1 = (json_resp 200 (enc_flag ?fd), count_call s1)"
    using get path name clean_flags_path [OF assms(3)]
    by (simp add: serve_def HttpGetFlag_def)
  then have "SdkGetFlag (server_exchange env) ?n s1 = (Inr ?fd, count_call s1)"
    using dec by (simp add: SdkGetFlag_def sdk_path_def url_path_plain [OF assms(3)] sdk_do_def sdk_wrap_def server_exchange_def json_resp_def)
  with create show ?thesis by blast
qed

definition demo_handler :: handler_env where
  "demo_handler = \<lparr>he_io = (\<lambda>_. EtcdOk), he_now = int, he_json_err = (\<lambda>_. ''invalid character''),
     he_default_model = ''gpt-4o''\<rparr>"

definition demo_flag_request :: flag_request where
  "demo_flag_request = zero_flag_request\<lparr>fq_name := ''beta'', fq_value := ''on'', fq_enabled := True,
     fq_variants := [\<lparr>vd_value = ''a'', vd_weight = 100\<rparr>]\<rparr>"

lemma etcd_inv_empty: "etcd_inv \<lparr>et_kvs = [], et_events = [], et_calls = 0\<rparr>"
  by (simp add: etcd_inv_def)

theorem sdk_create_then_get_witness:
  "\<exists>s1 s2. SdkCreateFlag (server_exchange demo_handler) demo_flag_request \<lparr>et_kvs = [], et_events = [], et_calls = 0\<rparr> =
       (Inr (flag_of_request demo_flag_request), s1) \<and>
     SdkGetFlag (server_exchange demo_handler) ''beta'' s1 = (Inr (flag_of_request demo_flag_request), s2)"
proof -
  have "he_io demo_handler = (\<lambda>_. EtcdOk)" "ok_name (fq_name demo_flag_request)"
    "flag_ok (flag_of_request demo_flag_request)" "fq_name demo_flag_request = ''beta''"
    by (simp_all add: demo_handler_def demo_flag_request_def ok_name_def control_char_def flag_ok_def flag_of_request_def)
  then show ?thesis
    using sdk_create_then_get [OF _ etcd_inv_empty, of demo_handler demo_flag_request] by simp
qed

text \<open>
  Observation. Creating a flag that exists overwrites it, and the audit trail hides that: the request is
  answered with 201, the stored flag is the new one, and the audit entry of the change says
  that there was no old value.
\<close>

theorem create_overwrites_unaudited:
  assumes "he_io env = (\<lambda>_. EtcdOk)" "etcd_inv s" "stored_flags s (fq_name q) = Some old" "fd_value old \<noteq> []"
    and "unmarshal (dec_struct flag_request_fields) (hr_body r) zero_flag_request = Some q"
    and "flag_ok (flag_of_request q)" "fq_name q \<noteq> []"
  shows "\<exists>s'. HttpCreateFlag env r s = (json_resp 201 (enc_flag (flag_of_request q)), s') \<and>
    stored_flags s' (fq_name q) = Some (flag_of_request q) \<and>
    (\<exists>k e. map_of (et_kvs s') k = Some (Some (enc_entry e)) \<and> ae_flag_name e = fq_name q \<and>
       ae_old_value e = [] \<and> ae_new_value e = fq_value q)"
  using HttpCreateFlag_ok [OF assms(1,2,5,6,7)] by (metis fun_upd_same)

theorem create_overwrites_unaudited_witness:
  "\<exists>s s'. stored_flags s ''beta'' = Some (zero_flag\<lparr>fd_name := ''beta'', fd_value := ''old''\<rparr>) \<and>
     HttpCreateFlag demo_handler \<lparr>hr_method = ''POST'', hr_path = ''/flags'',
        hr_body = Some (enc_flag_request demo_flag_request)\<rparr> s = (json_resp 201 (enc_flag (flag_of_request demo_flag_request)), s') \<and>
     (\<exists>k e. map_of (et_kvs s') k = Some (Some (enc_entry e)) \<and> ae_flag_name e = ''beta'' \<and>
       ae_old_value e = [] \<and> ae_new_value e = ''on'')"
proof -
  let ?old = "zero_flag\<lparr>fd_name := ''beta'', fd_value := ''old''\<rparr>"
  let ?r = "\<lparr>hr_method = ''POST'', hr_path = ''/flags'', hr_body = Some (enc_flag_request demo_flag_request)\<rparr>"
  obtain s where set: "SetFlag (\<lambda>_. EtcdOk) ?old \<lparr>et_kvs = [], et_events = [], et_calls = 0\<rparr> = (None, s)"
    by (simp add: SetFlag_def)
  have ok: "flag_ok ?old" by (simp add: flag_ok_def zero_flag_def)
  have s: "etcd_inv s" "stored_flags s ''beta'' = Some ?old"
    using SetFlag_spec(1,2) [OF etcd_inv_empty ok set] by simp_all
  have q: "he_io demo_handler = (\<lambda>_. EtcdOk)" "flag_ok (flag_of_request demo_flag_request)"
    "fq_name demo_flag_request = ''beta''" "fq_value demo_flag_request = ''on''"
    by (simp_all add: demo_handler_def demo_flag_request_def flag_ok_def flag_of_request_def)
  have dec: "unmarshal (dec_struct flag_request_fields) (hr_body ?r) zero_flag_request = Some demo_flag_request"
    using flag_request_roundtrip [OF q(2)] by simp
  have "stored_flags s (fq_name demo_flag_request) = Some ?old" "fd_value ?old \<noteq> []" "fq_name demo_flag_request \<noteq> []"
    using s(2) q(3) by simp_all
  from create_overwrites_unaudited [OF q(1) s(1) this(1,2) dec q(2) this(3)] s(2)
  show ?thesis unfolding q by blast
qed

text \<open>
  Observation. Flag names with a slash: no path names such a flag, although \<^verbatim>\<open>POST /flags\<close> stores it, and
  a request for \<^verbatim>\<open>/flags/a/...\<close> acts on flag \<open>a\<close>.
\<close>

theorem slash_names_misaddressed:
  assumes "a \<noteq> []" "CHR ''/'' \<notin> set a"
  shows "(\<forall>path. nameFromPath path \<noteq> a @ ''/'' @ b) \<and> nameFromPath (''/flags/'' @ a @ ''/'' @ b) = a"
proof -
  have "nameFromPath path \<noteq> a @ ''/'' @ b" for path
    using nameFromPath_no_slash [of path] by auto
  then show ?thesis using nameFromPath_flags [OF assms, of "''/'' @ b"] by simp
qed

theorem slash_names_misaddressed_witness:
  "(\<forall>path. nameFromPath path \<noteq> ''a/b'') \<and> nameFromPath ''/flags/a/b'' = ''a''"
  using slash_names_misaddressed [of "''a''" "''b''"] by simp

end
