(* ===== verification/Flag_Cli.thy ===== *)
theory Flag_Cli
  imports Flag_Http
begin

text \<open>
  The emergency command line of distributed-flagd (\<^verbatim>\<open>cmd/flagctl/main.go\<close>), the audit topic in Kafka
  (\<^verbatim>\<open>internal/audit/kafka.go\<close>) and the calls of the Go client that \<open>Flag_Http\<close> does not hold
  (\<^verbatim>\<open>sdk/client.go\<close>).

  The text of a JSON value is the argument \<open>text_of\<close>.  The environment of the command has the
  variables of the process, the outcomes of etcd, whether a Kafka client could be made and what its
  produce returns: an error may be reported for a record that was stored.
\<close>

section \<open>Client\<close>

definition sdk_do_nil :: "'n exchange \<Rightarrow> http_req \<Rightarrow> int \<Rightarrow> 'n \<Rightarrow> (string + unit) \<times> 'n" where
  "sdk_do_nil ex r expect n =
     (case ex r n of
        (None, n1) \<Rightarrow> (Inl ''transport error'', n1)
      | (Some resp, n1) \<Rightarrow>
          if rp_status resp \<noteq> expect
          then
            let e = (case unmarshal (dec_struct [(''error'', lens ap_error (\<lambda>x a. a\<lparr>ap_error := x\<rparr>) dec_string)])
                       (rp_body resp) \<lparr>ap_error = []\<rparr> of None \<Rightarrow> [] | Some a \<Rightarrow> ap_error a)
            in (Inl (if e \<noteq> [] then ''HTTP '' @ itoa (rp_status resp) @ '': '' @ e
                     else ''HTTP '' @ itoa (rp_status resp)), n1)
          else (Inr (), n1))"

definition SdkDeleteFlag :: "'n exchange \<Rightarrow> string \<Rightarrow> 'n \<Rightarrow> (string + unit) \<times> 'n" where
  "SdkDeleteFlag ex name n =
     sdk_wrap (''delete flag '' @ name)
       (sdk_path (''/flags/'' @ name) (\<lambda>p. sdk_do_nil ex \<lparr>hr_method = ''DELETE'', hr_path = p, hr_body = None\<rparr> 204) n)"

definition SdkHealthz :: "'n exchange \<Rightarrow> 'n \<Rightarrow> (string + unit) \<times> 'n" where
  "SdkHealthz ex n = sdk_do_nil ex \<lparr>hr_method = ''GET'', hr_path = ''/healthz'', hr_body = None\<rparr> 200 n"

record sdk_eval_response =
  sr_resolved_model_id :: string
  sr_variant :: string
  sr_flag_key :: string

definition sdk_eval_fields :: "sdk_eval_response fields" where
  "sdk_eval_fields =
     [(''resolved_model_id'', lens sr_resolved_model_id (\<lambda>x r. r\<lparr>sr_resolved_model_id := x\<rparr>) dec_string),
      (''variant'', lens sr_variant (\<lambda>x r. r\<lparr>sr_variant := x\<rparr>) dec_string),
      (''flag_key'', lens sr_flag_key (\<lambda>x r. r\<lparr>sr_flag_key := x\<rparr>) dec_string)]"

definition zero_eval_response :: sdk_eval_response where
  "zero_eval_response = \<lparr>sr_resolved_model_id = [], sr_variant = [], sr_flag_key = []\<rparr>"

definition SdkEvaluate :: "'n exchange \<Rightarrow> string \<Rightarrow> string \<Rightarrow> 'n \<Rightarrow> (string + sdk_eval_response) \<times> 'n" where
  "SdkEvaluate ex tenantID userID n =
     sdk_wrap ''evaluate''
       (sdk_do ex \<lparr>hr_method = ''POST'', hr_path = ''/evaluate'',
            hr_body = Some (JObj [(''tenant_id'', JStr tenantID), (''user_id'', JStr userID)])\<rparr>
         (dec_struct sdk_eval_fields) zero_eval_response 200 n)"

record sdk_flag_list =
  sl_flags :: "flag_data option list"
  sl_count :: int

definition sdk_list_fields :: "sdk_flag_list fields" where
  "sdk_list_fields =
     [(''flags'', lens sl_flags (\<lambda>x l. l\<lparr>sl_flags := x\<rparr>) (dec_slice (dec_ptr (dec_struct flag_fields) zero_flag) None)),
      (''count'', lens sl_count (\<lambda>x l. l\<lparr>sl_count := x\<rparr>) dec_int64)]"

definition SdkListFlags :: "'n exchange \<Rightarrow> 'n \<Rightarrow> (string + sdk_flag_list) \<times> 'n" where
  "SdkListFlags ex n =
     sdk_wrap ''list flags''
       (sdk_do ex \<lparr>hr_method = ''GET'', hr_path = ''/flags'', hr_body = None\<rparr>
         (dec_struct sdk_list_fields) \<lparr>sl_flags = [], sl_count = 0\<rparr> 200 n)"

section \<open>Audit topic\<close>

record kafka_entry =
  ke_flag_name :: string
  ke_old_value :: string
  ke_new_value :: string
  ke_changed_by :: string
  ke_changed_at :: int
  ke_reason :: string

definition topicFlagAudit :: string where "topicFlagAudit = ''flag_audit''"

record audit_record =
  ar_topic :: string
  ar_key :: string
  ar_value :: json

definition enc_kafka_entry :: "kafka_entry \<Rightarrow> json" where
  "enc_kafka_entry e =
     JObj [(''flag_name'', JStr (ke_flag_name e)), (''old_value'', JStr (ke_old_value e)), (''new_value'', JStr (ke_new_value e)),
       (''changed_by'', JStr (ke_changed_by e)), (''changed_at'', JInt (ke_changed_at e)), (''reason'', JStr (ke_reason e))]"

text \<open>\<open>produce\<close> is \<open>None\<close> for success, else whether the record was stored.\<close>

definition PublishAudit :: "bool option \<Rightarrow> int \<Rightarrow> kafka_entry \<Rightarrow> audit_record list \<Rightarrow> bool \<times> audit_record list" where
  "PublishAudit produce now e q =
     (let e1 = e\<lparr>ke_changed_at := now\<rparr>;
          rec = \<lparr>ar_topic = topicFlagAudit, ar_key = ke_flag_name e1, ar_value = enc_kafka_entry e1\<rparr>
      in case produce of
           None \<Rightarrow> (True, q @ [rec])
         | Some stored \<Rightarrow> (False, if stored then q @ [rec] else q))"

section \<open>Commands\<close>

record flagctl_env =
  fc_vars :: "string \<rightharpoonup> string"
  fc_etcd_ok :: bool
  fc_io :: etcd_io
  fc_now :: "nat \<Rightarrow> int"
  fc_kafka_ok :: "string list \<Rightarrow> bool"
  fc_produce :: "bool option"
  fc_text_of :: "json \<Rightarrow> string"

definition getEnv :: "(string \<rightharpoonup> string) \<Rightarrow> string \<Rightarrow> string \<Rightarrow> string" where
  "getEnv vars key fallback = (case vars key of None \<Rightarrow> fallback | Some v \<Rightarrow> if v \<noteq> [] then v else fallback)"

definition caller_of :: "(string \<rightharpoonup> string) \<Rightarrow> string" where
  "caller_of vars =
     (let caller = getEnv vars ''FLAGCTL_USER'' (case vars ''USER'' of None \<Rightarrow> [] | Some u \<Rightarrow> u)
      in if caller = [] then ''flagctl'' else caller)"

text \<open>The loop over the arguments: the model and the reason; a last option without a value is skipped.\<close>

fun kill_options :: "string list \<Rightarrow> string \<times> string \<Rightarrow> string \<times> string" where
  "kill_options [] acc = acc"
| "kill_options [a] acc = acc"
| "kill_options (a # v # rest) (modelID, reason) =
     (if a = ''--model'' then kill_options rest (v, reason)
      else if a = ''--reason'' then kill_options rest (modelID, v)
      else kill_options (v # rest) (modelID, reason))"

datatype cli_result = CliFailed | KillApplied string string | CliPrinted json

definition kill_flag :: "string \<Rightarrow> string \<Rightarrow> flag_data" where
  "kill_flag flagName modelID =
     \<lparr>fd_name = flagName, fd_value = modelID, fd_enabled = True, fd_variants = [\<lparr>vd_value = modelID, vd_weight = 100\<rparr>]\<rparr>"

type_synonym cli_state = "etcd \<times> audit_record list"

definition runKillSwitch :: "flagctl_env \<Rightarrow> bool \<Rightarrow> string \<Rightarrow> string list \<Rightarrow> cli_state \<Rightarrow> cli_result \<times> cli_state" where
  "runKillSwitch env kafka caller args st =
     (case args of
        [] \<Rightarrow> (CliFailed, st)
      | flagName # rest \<Rightarrow>
          let (modelID, reason0) = kill_options rest ([], []) in
          if modelID = [] then (CliFailed, st)
          else
            let reason = (if reason0 = [] then ''emergency kill-switch via flagctl'' else reason0);
                (existing, s1) = GetFlag (fc_io env) flagName (fst st);
                old = (case existing of Inl _ \<Rightarrow> [] | Inr fd \<Rightarrow> fc_text_of env (enc_flag fd));
                fd = kill_flag flagName modelID
            in case SetFlag (fc_io env) fd s1 of
                 (Some err, s2) \<Rightarrow> (CliFailed, s2, snd st)
               | (None, s2) \<Rightarrow>
                   let new = fc_text_of env (enc_flag fd);
                       (_, s3) = AuditLog (fc_io env) (fc_now env) (new_entry flagName old new caller) s2;
                       q = (if kafka
                            then snd (PublishAudit (fc_produce env) (fc_now env (et_calls s3))
                              \<lparr>ke_flag_name = flagName, ke_old_value = old, ke_new_value = new, ke_changed_by = caller,
                               ke_changed_at = 0, ke_reason = reason\<rparr> (snd st))
                            else snd st)
                   in (KillApplied flagName modelID, s3, q))"

definition runGet :: "flagctl_env \<Rightarrow> string list \<Rightarrow> cli_state \<Rightarrow> cli_result \<times> cli_state" where
  "runGet env args st =
     (case args of
        [] \<Rightarrow> (CliFailed, st)
      | name # _ \<Rightarrow>
          (case GetFlag (fc_io env) name (fst st) of
             (Inl err, s1) \<Rightarrow> (CliFailed, s1, snd st)
           | (Inr fd, s1) \<Rightarrow> (CliPrinted (enc_flag fd), s1, snd st)))"

definition runList :: "flagctl_env \<Rightarrow> cli_state \<Rightarrow> cli_result \<times> cli_state" where
  "runList env st =
     (case ListFlags (fc_io env) (fst st) of
        (Inl err, s1) \<Rightarrow> (CliFailed, s1, snd st)
      | (Inr fds, s1) \<Rightarrow> (CliPrinted (JArr (map enc_flag fds)), s1, snd st))"

text \<open>The arguments without the name of the program.\<close>

definition flagctl :: "flagctl_env \<Rightarrow> string list \<Rightarrow> cli_state \<Rightarrow> cli_result \<times> cli_state" where
  "flagctl env args st =
     (case args of
        [] \<Rightarrow> (CliFailed, st)
      | cmd # rest \<Rightarrow>
          let brokers = split_on (CHR '','') (getEnv (fc_vars env) ''KAFKA_BROKERS'' ''localhost:9092'') in
          if \<not> fc_etcd_ok env then (CliFailed, st)
          else if cmd = ''kill-switch'' then runKillSwitch env (fc_kafka_ok env brokers) (caller_of (fc_vars env)) rest st
          else if cmd = ''get'' then runGet env rest st
          else if cmd = ''list'' then runList env st
          else (CliFailed, st))"

section \<open>A kill switch routes everyone\<close>

lemma EvaluatePercentage_single: "EvaluatePercentage f k [\<lparr>vd_value = v, vd_weight = 100\<rparr>] = v"
  using bucket_range [of f k] by (simp add: EvaluatePercentage_def variant_for_def Let_def int64_id)

lemma kill_flag_ok: "flag_ok (kill_flag f m)" "fd_name (kill_flag f m) = f"
  by (simp_all add: flag_ok_def kill_flag_def)

lemma GetFlag_calls: "GetFlag io n s = (r, s') \<Longrightarrow> et_calls s' = Suc (et_calls s)"
  by (auto simp: GetFlag_def count_call_def split: etcd_outcome.splits option.splits)

lemma GetFlag_stored:
  assumes "stored_flags s n = Some fd"
  shows "fst (GetFlag io n s) = (case io (et_calls s) of EtcdOk \<Rightarrow> Inr fd | EtcdErr msg _ \<Rightarrow> Inl msg)"
  using assms
  by (cases "map_of (et_kvs s) (flagPrefix @ n)") (auto simp: GetFlag_def stored_flags_def split: etcd_outcome.split)

lemma eval_request_lookup:
  "field_decoder eval_request_fields ''tenant_id'' = Some (lens eq_tenant_id (\<lambda>x q. q\<lparr>eq_tenant_id := x\<rparr>) dec_string)"
  "field_decoder eval_request_fields ''user_id'' = Some (lens eq_user_id (\<lambda>x q. q\<lparr>eq_user_id := x\<rparr>) dec_string)"
  by (simp_all add: field_decoder_plain eval_request_fields_def plain_name_def)

lemma sdk_eval_lookup:
  "field_decoder sdk_eval_fields ''resolved_model_id'' =
     Some (lens sr_resolved_model_id (\<lambda>x r. r\<lparr>sr_resolved_model_id := x\<rparr>) dec_string)"
  "field_decoder sdk_eval_fields ''variant'' = Some (lens sr_variant (\<lambda>x r. r\<lparr>sr_variant := x\<rparr>) dec_string)"
  "field_decoder sdk_eval_fields ''flag_key'' = Some (lens sr_flag_key (\<lambda>x r. r\<lparr>sr_flag_key := x\<rparr>) dec_string)"
  by (simp_all add: field_decoder_plain sdk_eval_fields_def plain_name_def)

text \<open>What a client of the REST interface is told is what the evaluator resolves.\<close>

lemma SdkEvaluate_resolves:
  assumes "tenantID \<noteq> []" "userID \<noteq> []"
    and "ResolveModelVersion (GetFlag (he_io env)) (he_default_model env) tenantID userID s = (res, s1)"
  shows "SdkEvaluate (server_exchange env) tenantID userID s =
    (Inr \<lparr>sr_resolved_model_id = er_model_version res, sr_variant = er_variant res, sr_flag_key = er_flag_key res\<rparr>, s1)"
proof -
  have "clean_path ''/evaluate''" by (simp add: clean_path_def)
  then show ?thesis
    using assms
    by (simp add: SdkEvaluate_def sdk_do_def sdk_wrap_def server_exchange_def serve_def HttpEvaluate_def json_resp_def
        unmarshal_def eval_request_lookup sdk_eval_lookup lens_def zero_eval_response_def)
qed

lemma killed_tenant_resolves:
  assumes "stored_flags s (''model-rollout:'' @ tenantID) = Some (kill_flag (''model-rollout:'' @ tenantID) m)" "m \<noteq> []"
  shows "fst (ResolveModelVersion (GetFlag io) dflt tenantID userID s) =
    (if io (et_calls s) = EtcdOk
     then \<lparr>er_model_version = m, er_variant = m, er_flag_key = ''model-rollout:'' @ tenantID\<rparr>
     else \<lparr>er_model_version = dflt, er_variant = ''default'', er_flag_key = ''model-rollout:'' @ tenantID\<rparr>)"
proof (cases "GetFlag io (''model-rollout:'' @ tenantID) s")
  case (Pair g s')
  then show ?thesis
    using GetFlag_stored [OF assms(1), of io] assms(2)
    by (cases "io (et_calls s)") (simp_all add: ResolveModelVersion_def kill_flag_def EvaluatePercentage_single)
qed

lemma runKillSwitch_effect:
  assumes "etcd_inv s" "runKillSwitch env kafka caller (flagName # rest) (s, q) = (res, s', q')"
  defines "m \<equiv> fst (kill_options rest ([], []))"
  shows "res = (if m = [] \<or> fc_io env (Suc (et_calls s)) \<noteq> EtcdOk then CliFailed else KillApplied flagName m) \<and> etcd_inv s' \<and>
    (if res = CliFailed then stored_flags s' = stored_flags s \<or> stored_flags s' = (stored_flags s)(flagName \<mapsto> kill_flag flagName m)
     else stored_flags s' = (stored_flags s)(flagName \<mapsto> kill_flag flagName m))"
proof (cases "m = []")
  case True
  then show ?thesis using assms(1,2) by (auto simp: runKillSwitch_def m_def split: prod.splits)
next
  case False
  obtain r where k: "kill_options rest ([], []) = (m, r)" unfolding m_def by (cases "kill_options rest ([], [])") auto
  obtain g s1 where g: "GetFlag (fc_io env) flagName s = (g, s1)" by force
  have s1: "stored_flags s1 = stored_flags s" "etcd_inv s1" "et_calls s1 = Suc (et_calls s)"
    using GetFlag_spec(1) [OF g assms(1)] GetFlag_calls [OF g] by auto
  obtain e s2 where set: "SetFlag (fc_io env) (kill_flag flagName m) s1 = (e, s2)" by force
  note spec = SetFlag_spec [OF s1(2) kill_flag_ok(1) set, unfolded kill_flag_ok(2) s1(1)]
  have e: "e = None \<longleftrightarrow> fc_io env (Suc (et_calls s)) = EtcdOk"
    using set by (auto simp: SetFlag_def Let_def s1(3) split: etcd_outcome.splits)
  show ?thesis
  proof (cases e)
    case None
    obtain a s3 where log: "AuditLog (fc_io env) (fc_now env)
        (new_entry flagName (case g of Inl _ \<Rightarrow> [] | Inr fd \<Rightarrow> fc_text_of env (enc_flag fd))
          (fc_text_of env (enc_flag (kill_flag flagName m))) caller) s2 = (a, s3)" by force
    have "res = KillApplied flagName m" "s' = s3"
      using assms(2) False g set None log by (simp_all add: runKillSwitch_def k Let_def)
    then show ?thesis
      using False e None spec(1) spec(2) [OF None] AuditLog_inv [OF log] by simp
  next
    case (Some err)
    have "res = CliFailed" "s' = s2"
      using assms(2) False g set Some by (simp_all add: runKillSwitch_def k Let_def)
    then show ?thesis using e Some spec(1,3) by auto
  qed
qed

text \<open>
  C20.  A kill switch for a tenant, whatever the audit log and Kafka do: it fails exactly when etcd
  cannot be reached, no model is named or etcd refuses the write; otherwise the tenant's flag is the
  only one that changes.  As long as that flag is not written again, the REST interface over the same
  etcd, asked through the Go client, resolves the named model for every user of the tenant whenever
  its read of etcd is answered; when the read fails it answers with the default model, as if there
  were no kill switch.
\<close>

theorem kill_switch_routes_all:
  assumes "etcd_inv s" "tenantID \<noteq> []" "userID \<noteq> []"
    and "flagctl env (''kill-switch'' # (''model-rollout:'' @ tenantID) # opts) (s, q) = (res, s', q')"
    and "stored_flags s2 (''model-rollout:'' @ tenantID) = stored_flags s' (''model-rollout:'' @ tenantID)"
  shows "let m = fst (kill_options opts ([], [])); f = ''model-rollout:'' @ tenantID in
    (res = CliFailed \<longleftrightarrow> \<not> fc_etcd_ok env \<or> m = [] \<or> fc_io env (Suc (et_calls s)) \<noteq> EtcdOk) \<and>
    (if res = CliFailed then stored_flags s' = stored_flags s \<or> stored_flags s' = (stored_flags s)(f \<mapsto> kill_flag f m)
     else res = KillApplied f m \<and> stored_flags s' = (stored_flags s)(f \<mapsto> kill_flag f m) \<and>
       fst (SdkEvaluate (server_exchange henv) tenantID userID s2) =
         Inr (if he_io henv (et_calls s2) = EtcdOk
              then \<lparr>sr_resolved_model_id = m, sr_variant = m, sr_flag_key = f\<rparr>
              else \<lparr>sr_resolved_model_id = he_default_model henv, sr_variant = ''default'', sr_flag_key = f\<rparr>))"
proof (cases "fc_etcd_ok env")
  case False
  then show ?thesis using assms(4) by (simp add: flagctl_def Let_def)
next
  case True
  let ?f = "''model-rollout:'' @ tenantID"
  define m where "m = fst (kill_options opts ([], []))"
  define kafka where "kafka = fc_kafka_ok env (split_on (CHR '','') (getEnv (fc_vars env) ''KAFKA_BROKERS'' ''localhost:9092''))"
  have "runKillSwitch env kafka (caller_of (fc_vars env)) (?f # opts) (s, q) = (res, s', q')"
    using assms(4) True by (simp add: flagctl_def kafka_def Let_def)
  note eff = runKillSwitch_effect [OF assms(1) this, folded m_def]
  obtain rs s1 where r: "ResolveModelVersion (GetFlag (he_io henv)) (he_default_model henv) tenantID userID s2 = (rs, s1)" by force
  have "fst (SdkEvaluate (server_exchange henv) tenantID userID s2) =
      Inr (if he_io henv (et_calls s2) = EtcdOk
           then \<lparr>sr_resolved_model_id = m, sr_variant = m, sr_flag_key = ?f\<rparr>
           else \<lparr>sr_resolved_model_id = he_default_model henv, sr_variant = ''default'', sr_flag_key = ?f\<rparr>)"
    if "res \<noteq> CliFailed"
  proof -
    have "stored_flags s2 ?f = Some (kill_flag ?f m)" "m \<noteq> []" using eff that assms(5) by auto
    from killed_tenant_resolves [OF this, of "he_io henv" "he_default_model henv" userID] r
    show ?thesis using SdkEvaluate_resolves [OF assms(2,3) r] by simp
  qed
  with eff True show ?thesis unfolding m_def [symmetric] Let_def by (auto split: if_splits)
qed

definition demo_flagctl :: flagctl_env where
  "demo_flagctl = \<lparr>fc_vars = (\<lambda>_. None), fc_etcd_ok = True, fc_io = (\<lambda>_. EtcdOk), fc_now = int, fc_kafka_ok = (\<lambda>_. True),
     fc_produce = Some False, fc_text_of = (\<lambda>_. [])\<rparr>"

theorem kill_switch_routes_all_witness:
  "\<exists>s' q'. flagctl demo_flagctl [''kill-switch'', ''model-rollout:acme'', ''--model'', ''gpt-4o-mini'']
       (\<lparr>et_kvs = [], et_events = [], et_calls = 0\<rparr>, []) = (KillApplied ''model-rollout:acme'' ''gpt-4o-mini'', s', q') \<and>
     fst (SdkEvaluate (server_exchange demo_handler) ''acme'' ''u1'' s') =
       Inr \<lparr>sr_resolved_model_id = ''gpt-4o-mini'', sr_variant = ''gpt-4o-mini'', sr_flag_key = ''model-rollout:acme''\<rparr>"
proof -
  let ?st = "(\<lparr>et_kvs = [], et_events = [], et_calls = 0\<rparr>, []) :: cli_state"
  obtain res s' q' where run: "flagctl demo_flagctl (''kill-switch'' # (''model-rollout:'' @ ''acme'') # [''--model'', ''gpt-4o-mini'']) ?st = (res, s', q')"
    by (metis surj_pair)
  have "he_io demo_handler = (\<lambda>_. EtcdOk)" by (simp add: demo_handler_def)
  from kill_switch_routes_all [OF etcd_inv_empty _ _ run refl, of "''u1''" demo_handler] this run show ?thesis
    by (simp add: Let_def demo_flagctl_def split: if_splits)
qed

text \<open>
  Observation.  The client does not escape names: a delete of a name with a question mark is the delete
  of the flag named by the part before it, with the same effect on the server and the same success.
\<close>

theorem reserved_names_misaddressed:
  assumes "ok_name a" "CHR ''#'' \<notin> set b" "\<not> list_ex control_char b"
  shows "snd (SdkDeleteFlag ex (a @ ''?'' @ b) n) = snd (SdkDeleteFlag ex a n) \<and>
    (fst (SdkDeleteFlag ex (a @ ''?'' @ b) n) = Inr () \<longleftrightarrow> fst (SdkDeleteFlag ex a n) = Inr ())"
proof -
  have "url_path (''/flags/'' @ a @ ''?'' @ b) = Some (''/flags/'' @ a)"
    using url_path_query [OF assms(1), of "''?'' @ b"] assms(2,3) by (simp add: control_char_def)
  then show ?thesis
    by (simp add: SdkDeleteFlag_def sdk_path_def url_path_plain [OF assms(1)] sdk_wrap_def split: prod.splits sum.splits)
qed

theorem reserved_names_misaddressed_witness:
  "snd (SdkDeleteFlag (server_exchange demo_handler) ''beta?v2'' \<lparr>et_kvs = [], et_events = [], et_calls = 0\<rparr>) =
   snd (SdkDeleteFlag (server_exchange demo_handler) ''beta'' \<lparr>et_kvs = [], et_events = [], et_calls = 0\<rparr>)"
  using reserved_names_misaddressed [of "''beta''" "''v2''" "server_exchange demo_handler"]
  by (simp add: ok_name_def control_char_def)

end
