(* ===== verification/Flag_Daemon.thy ===== *)
theory Flag_Daemon
  imports Flag_Server Flag_Reconciler Flag_Cli Go_Flag
begin

text \<open>
  The flagd process (\<^verbatim>\<open>cmd/flagd/main.go\<close>) with everything that shares its etcd: the gRPC service with
  its watcher and streams, the REST handlers, and the other writers, \<^verbatim>\<open>flagctl\<close> and the Kubernetes
  reconciler.  The process is a state machine whose steps are the requests, the deliveries of the watch
  channel and the turns of the streams.
\<close>

section \<open>Start\<close>

definition flagd_getEnv :: "environ \<Rightarrow> string \<Rightarrow> string \<Rightarrow> string" where
  "flagd_getEnv vars key fallback = (case vars key of Some v \<Rightarrow> v | None \<Rightarrow> fallback)"

record flagd_world =
  fw_vars :: environ
  fw_dial :: "string \<Rightarrow> bool"
  fw_grpc_listen :: "string \<Rightarrow> bool"
  fw_http_listen :: "string \<Rightarrow> bool"

record flagd_config =
  fg_endpoint :: string
  fg_grpc_addr :: string
  fg_http_addr :: string
  fg_http_up :: bool
  fg_default_model :: string

text \<open>
  The start of the process; \<open>None\<close> is an exit with code 1.  When the HTTP address cannot be bound, this
  is only logged.
\<close>

definition flagd_main :: "flagd_world \<Rightarrow> flagd_config option" where
  "flagd_main w =
     (let endpoint = flagd_getEnv (fw_vars w) ''ETCD_ENDPOINT'' ''localhost:2379'';
          grpcAddr = flagd_getEnv (fw_vars w) ''GRPC_ADDR'' '':50051'';
          httpAddr = flagd_getEnv (fw_vars w) ''HTTP_ADDR'' '':8080''
      in if \<not> fw_dial w endpoint then None
         else if \<not> fw_grpc_listen w grpcAddr then None
         else Some \<lparr>fg_endpoint = endpoint, fg_grpc_addr = grpcAddr, fg_http_addr = httpAddr,
           fg_http_up = fw_http_listen w httpAddr,
           fg_default_model = flagd_getEnv (fw_vars w) ''DEFAULT_MODEL_ID'' ''gpt-3.5-turbo''\<rparr>)"

section \<open>The running process\<close>




text \<open>The environment of the handlers as \<^verbatim>\<open>main\<close> builds it; without a listener no request arrives.\<close>

definition flagd_handler :: "etcd_io \<Rightarrow> (nat \<Rightarrow> int) \<Rightarrow> (payload \<Rightarrow> string) \<Rightarrow> flagd_config \<Rightarrow> handler_env" where
  "flagd_handler io now json_err cfg =
     \<lparr>he_io = io, he_now = now, he_json_err = json_err, he_default_model = fg_default_model cfg\<rparr>"









section \<open>Writes\<close>









lemma str_less_irrefl: "\<not> str_less a a"
  by (induction a) simp_all



lemma sorted_keys_distinct: "sorted_wrt str_less ks \<Longrightarrow> distinct ks"
  by (induction ks) (auto simp: str_less_irrefl)






















section \<open>Deletes keep the key space in order\<close>










section \<open>Streams follow the store\<close>
































end
