(* ===== verification/Call_Graph.thy ===== *)
theory Call_Graph
  imports Prelude "HOL-Library.While_Combinator" "HOL-Library.List_Lexorder"
    "HOL-Library.Char_ord" "HOL-Library.Product_Lexorder" "HOL-Library.Multiset"
begin

text \<open>
  The dependency graph of a trace (\<^verbatim>\<open>tool-call-analyzer/pkg/graph/graph.go\<close>): the graph built
  from the span records, the depth-first search for a cycle, Kahn's topological sort and the
  detection of repeated calls.

  A Go map that is read with a default is a total function, the map of nodes is a partial one.
  Ranging over a map visits the keys in an order the language does not fix: the functions that
  do so take the order as a list \<open>ids\<close>, and the theorems hold for every list with
  \<open>map_order ids (Nodes g)\<close>.  The recursion of the search is bounded by fuel, one unit per node;
  \<open>HasCycle_iff\<close> shows that this is always enough.  The loop of the topological sort is a
  \<open>while_option\<close>, shown to end.  Strings are compared byte by byte (the order of
  \<^verbatim>\<open>HOL-Library.List_Lexorder\<close>).
\<close>

section \<open>Data\<close>

record graph_node =
  NodeSpanID :: string
  NodeToolName :: string
  NodeVendor :: string
  NodeDurationMs :: u64

record span_record =
  SrSpanID :: string
  SrParentSpanID :: string
  SrToolName :: string
  SrVendor :: string
  SrDurationMs :: u64
  SrTraceDurationMs :: u64
  SrHasError :: bool

record n1_finding =
  N1ToolName :: string
  N1Count :: int
  N1TraceID :: string

record dependency_graph =
  GraphTraceID :: string
  Nodes :: "string \<rightharpoonup> graph_node"
  Children :: "string \<Rightarrow> string list"
  Parents :: "string \<Rightarrow> string list"

section \<open>Build\<close>

definition add_node :: "span_record \<Rightarrow> dependency_graph \<Rightarrow> dependency_graph" where
  "add_node s g = g\<lparr>Nodes := (Nodes g)(SrSpanID s \<mapsto>
     \<lparr>NodeSpanID = SrSpanID s, NodeToolName = SrToolName s, NodeVendor = SrVendor s,
      NodeDurationMs = SrDurationMs s\<rparr>)\<rparr>"

definition add_edge :: "span_record \<Rightarrow> dependency_graph \<Rightarrow> dependency_graph" where
  "add_edge s g =
     (let p = SrParentSpanID s; c = SrSpanID s in
      if p = '''' then g
      else if Nodes g p = None then g
      else g\<lparr>Children := (Children g)(p := Children g p @ [c]),
             Parents := (Parents g)(c := Parents g c @ [p])\<rparr>)"

definition Build :: "string \<Rightarrow> span_record list \<Rightarrow> dependency_graph" where
  "Build traceID spans =
     (let g0 = \<lparr>GraphTraceID = traceID, Nodes = Map.empty, Children = (\<lambda>_. []), Parents = (\<lambda>_. [])\<rparr>
      in fold add_edge spans (fold add_node spans g0))"

section \<open>HasCycle\<close>

text \<open>
  The state of the search: the keys set in \<^verbatim>\<open>visited\<close> and in \<^verbatim>\<open>inStack\<close>.  \<open>None\<close> is
  running out of fuel.
\<close>

type_synonym dfs_state = "string set \<times> string set"

function dfs :: "nat \<Rightarrow> (string \<Rightarrow> string list) \<Rightarrow> string \<Rightarrow> dfs_state \<Rightarrow> (bool \<times> dfs_state) option"
  and dfs_children :: "nat \<Rightarrow> (string \<Rightarrow> string list) \<Rightarrow> string list \<Rightarrow> dfs_state
        \<Rightarrow> (bool \<times> dfs_state) option" where
  "dfs 0 ch i st = None"
| "dfs (Suc n) ch i (visited, inStack) =
     (case dfs_children n ch (ch i) (insert i visited, insert i inStack) of
        None \<Rightarrow> None
      | Some (True, st) \<Rightarrow> Some (True, st)
      | Some (False, (visited', inStack')) \<Rightarrow> Some (False, (visited', inStack' - {i})))"
| "dfs_children n ch [] st = Some (False, st)"
| "dfs_children n ch (c # cs) (visited, inStack) =
     (if c \<notin> visited then
        (case dfs n ch c (visited, inStack) of
           None \<Rightarrow> None
         | Some (True, st) \<Rightarrow> Some (True, st)
         | Some (False, st) \<Rightarrow> dfs_children n ch cs st)
      else if c \<in> inStack then Some (True, (visited, inStack))
      else dfs_children n ch cs (visited, inStack))"
  by pat_completeness auto
termination
  by (relation "measures [\<lambda>x. case x of Inl (n, _) \<Rightarrow> n | Inr (n, _) \<Rightarrow> n,
        \<lambda>x. case x of Inl _ \<Rightarrow> 0 | Inr (n, ch, cs, _) \<Rightarrow> Suc (length cs)]")
    auto

fun cycle_from :: "nat \<Rightarrow> (string \<Rightarrow> string list) \<Rightarrow> string list \<Rightarrow> dfs_state \<Rightarrow> bool option" where
  "cycle_from n ch [] st = Some False"
| "cycle_from n ch (i # ids) (visited, inStack) =
     (if i \<notin> visited then
        (case dfs n ch i (visited, inStack) of
           None \<Rightarrow> None
         | Some (True, _) \<Rightarrow> Some True
         | Some (False, st) \<Rightarrow> cycle_from n ch ids st)
      else cycle_from n ch ids (visited, inStack))"

definition HasCycle :: "string list \<Rightarrow> dependency_graph \<Rightarrow> bool option" where
  "HasCycle ids g = cycle_from (length ids) (Children g) ids ({}, {})"

section \<open>TopologicalSort\<close>

text \<open>One child of the node that was popped: its in-degree drops, and at zero it is queued.\<close>

definition relax :: "string \<Rightarrow> (string \<Rightarrow> int) \<times> string list \<Rightarrow> (string \<Rightarrow> int) \<times> string list" where
  "relax child st =
     (let inDegree = (fst st)(child := fst st child - 1) in
      (inDegree, if inDegree child = 0 then snd st @ [child] else snd st))"

type_synonym kahn_state = "(string \<Rightarrow> int) \<times> string list \<times> string list"

fun kahn_step :: "(string \<Rightarrow> string list) \<Rightarrow> kahn_state \<Rightarrow> kahn_state" where
  "kahn_step ch (inDegree, cur # queue, res) =
     (case fold relax (sort (ch cur)) (inDegree, queue) of
        (inDegree', queue') \<Rightarrow> (inDegree', queue', res @ [cur]))"
| "kahn_step ch (inDegree, [], res) = (inDegree, [], res)"

definition kahn :: "(string \<Rightarrow> string list) \<Rightarrow> kahn_state \<Rightarrow> kahn_state option" where
  "kahn ch st = while_option (\<lambda>(_, queue, _). queue \<noteq> []) (kahn_step ch) st"

definition in_degrees :: "string list \<Rightarrow> dependency_graph \<Rightarrow> string \<Rightarrow> int" where
  "in_degrees ids g i = (if i \<in> set ids then int (length (Parents g i)) else 0)"

definition roots :: "string list \<Rightarrow> dependency_graph \<Rightarrow> string list" where
  "roots ids g = sort (filter (\<lambda>i. in_degrees ids g i = 0) ids)"

definition cycle_error :: "string \<Rightarrow> string" where
  "cycle_error t = ''graph: topological sort failed '' @ map char_of [226, 128, 148 :: nat] @
     '' cycle detected in trace '' @ t"

definition TopologicalSort ::
  "string list \<Rightarrow> dependency_graph \<Rightarrow> (string + string list) option" where
  "TopologicalSort ids g =
     (case HasCycle ids g of
        None \<Rightarrow> None
      | Some True \<Rightarrow> Some (Inl (cycle_error (GraphTraceID g)))
      | Some False \<Rightarrow>
          (case kahn (Children g) (in_degrees ids g, roots ids g, []) of
             None \<Rightarrow> None
           | Some (_, _, res) \<Rightarrow> Some (Inr res)))"

section \<open>DetectN1\<close>

text \<open>
  \<open>ids\<close> is the order in which the nodes are visited, \<open>tools\<close> the order in which the counts are.
\<close>

fun tool_of :: "dependency_graph \<Rightarrow> string \<Rightarrow> string" where
  "tool_of g i = (case Nodes g i of None \<Rightarrow> [] | Some n \<Rightarrow> NodeToolName n)"

definition tool_counts :: "string list \<Rightarrow> dependency_graph \<Rightarrow> string \<rightharpoonup> int" where
  "tool_counts ids g =
     fold (\<lambda>i m. m(tool_of g i \<mapsto> (case m (tool_of g i) of None \<Rightarrow> 0 | Some n \<Rightarrow> n) + 1))
       ids Map.empty"

definition DetectN1 ::
  "string list \<Rightarrow> string list \<Rightarrow> dependency_graph \<Rightarrow> int \<Rightarrow> n1_finding list" where
  "DetectN1 ids tools g minCount =
     sort_key (\<lambda>f. (- N1Count f, N1ToolName f))
       (concat (map (\<lambda>t. case tool_counts ids g t of
                           None \<Rightarrow> []
                         | Some n \<Rightarrow>
                             if minCount \<le> n
                             then [\<lparr>N1ToolName = t, N1Count = n, N1TraceID = GraphTraceID g\<rparr>]
                             else [])
          tools))"

section \<open>The graph that Build returns\<close>

text \<open>The edges, and the invariant: edges join nodes and the two adjacency maps agree.\<close>

definition edges :: "dependency_graph \<Rightarrow> (string \<times> string) set" where
  "edges g = {(p, c). c \<in> set (Children g p)}"

definition wf_graph :: "dependency_graph \<Rightarrow> bool" where
  "wf_graph g \<longleftrightarrow>
     finite (dom (Nodes g)) \<and>
     (\<forall>p c. count_list (Children g p) c = count_list (Parents g c) p) \<and>
     (\<forall>p c. c \<in> set (Children g p) \<longrightarrow> p \<in> dom (Nodes g) \<and> c \<in> dom (Nodes g))"

lemma Nodes_add_edge [simp]: "Nodes (add_edge s g) = Nodes g"
  by (simp add: add_edge_def Let_def)

lemma adj_add_node [simp]:
  "Children (add_node s g) = Children g" "Parents (add_node s g) = Parents g"
  by (simp_all add: add_node_def)

lemma fold_add_node:
  "dom (Nodes (fold add_node ss g)) = dom (Nodes g) \<union> SrSpanID ` set ss"
  "Children (fold add_node ss g) = Children g"
  "Parents (fold add_node ss g) = Parents g"
  by (induction ss arbitrary: g) (auto simp: add_node_def)

lemma wf_add_edge:
  assumes "wf_graph g" and "SrSpanID s \<in> dom (Nodes g)"
  shows "wf_graph (add_edge s g)"
  using assms unfolding wf_graph_def
  by (auto simp: add_edge_def Let_def)

lemma wf_fold_add_edge:
  "wf_graph g \<Longrightarrow> SrSpanID ` set ss \<subseteq> dom (Nodes g) \<Longrightarrow> wf_graph (fold add_edge ss g)"
  by (induction ss arbitrary: g) (auto simp: wf_add_edge)

lemma wf_Build: "wf_graph (Build t spans)"
  unfolding Build_def Let_def
  by (rule wf_fold_add_edge) (auto simp: wf_graph_def fold_add_node)

lemma edges_add_edge:
  "edges (add_edge s g) = edges g \<union>
     (if SrParentSpanID s \<noteq> [] \<and> SrParentSpanID s \<in> dom (Nodes g)
      then {(SrParentSpanID s, SrSpanID s)} else {})"
  by (auto simp: edges_def add_edge_def Let_def split: if_splits)

lemma edges_fold_add_edge:
  "edges (fold add_edge ss g) = edges g \<union>
     {(SrParentSpanID s, SrSpanID s) | s. s \<in> set ss \<and> SrParentSpanID s \<noteq> []
        \<and> SrParentSpanID s \<in> dom (Nodes g)}"
  by (induction ss arbitrary: g) (auto simp: edges_add_edge)

lemma edges_Build:
  "edges (Build t spans) =
     {(SrParentSpanID s, SrSpanID s) | s. s \<in> set spans \<and> SrParentSpanID s \<noteq> []
        \<and> SrParentSpanID s \<in> SrSpanID ` set spans}"
  unfolding Build_def Let_def edges_fold_add_edge fold_add_node by (simp add: edges_def fold_add_node)

section \<open>The search finds every cycle and no other\<close>

text \<open>
  The invariant of the search: the nodes that are finished (visited and no longer on the stack)
  are closed under edges and lie on no cycle.
\<close>

definition dfs_inv :: "string set \<Rightarrow> (string \<Rightarrow> string list) \<Rightarrow> dfs_state \<Rightarrow> bool" where
  "dfs_inv N ch st \<longleftrightarrow> (case st of (V, S) \<Rightarrow> S \<subseteq> V \<and> V \<subseteq> N \<and>
     (\<forall>x\<in>V - S. set (ch x) \<subseteq> V - S \<and> (x, x) \<notin> {(p, c). c \<in> set (ch p)}\<^sup>+))"

abbreviation adj :: "(string \<Rightarrow> string list) \<Rightarrow> (string \<times> string) set" where
  "adj ch \<equiv> {(p, c). c \<in> set (ch p)}"

definition found :: "(string \<Rightarrow> string list) \<Rightarrow> bool" where
  "found ch \<longleftrightarrow> (\<exists>x. (x, x) \<in> (adj ch)\<^sup>+)"

lemma closed_rtrancl:
  assumes "(x, y) \<in> (adj ch)\<^sup>*" "x \<in> F" "\<And>z. z \<in> F \<Longrightarrow> set (ch z) \<subseteq> F"
  shows "y \<in> F"
  using assms(1) assms(2) by induction (use assms(3) in auto)

lemma no_new_cycle:
  assumes closed: "\<And>z. z \<in> F \<Longrightarrow> set (ch z) \<subseteq> F" and "set (ch i) \<subseteq> F" "i \<notin> F"
  shows "(i, i) \<notin> (adj ch)\<^sup>+"
proof
  assume "(i, i) \<in> (adj ch)\<^sup>+"
  then obtain y where "(i, y) \<in> adj ch" and path: "(y, i) \<in> (adj ch)\<^sup>*"
    by (blast dest: tranclD)
  then have "y \<in> F" using assms(2) by auto
  from closed_rtrancl [OF path this closed] have "i \<in> F" .
  with assms(3) show False ..
qed

lemma dfs_finish:
  assumes inv: "dfs_inv N ch (V, insert i S)" and "set (ch i) \<subseteq> V - insert i S" "i \<in> V" "i \<notin> S"
  shows "dfs_inv N ch (V, S)"
proof -
  define F where "F = V - insert i S"
  have closed: "\<And>z. z \<in> F \<Longrightarrow> set (ch z) \<subseteq> F" and old: "\<And>z. z \<in> F \<Longrightarrow> (z, z) \<notin> (adj ch)\<^sup>+"
    and sub: "insert i S \<subseteq> V" "V \<subseteq> N"
    using inv by (auto simp: dfs_inv_def F_def)
  have new: "set (ch i) \<subseteq> F" using assms(2) by (simp add: F_def)
  have "(i, i) \<notin> (adj ch)\<^sup>+"
    using no_new_cycle [of F ch i] closed new by (auto simp: F_def)
  moreover have "V - S = insert i F" using assms(3,4) by (auto simp: F_def)
  ultimately show ?thesis
    using closed new old sub unfolding dfs_inv_def by auto
qed

definition dfs_post ::
  "string set \<Rightarrow> (string \<Rightarrow> string list) \<Rightarrow> dfs_state \<Rightarrow> string set \<Rightarrow> (bool \<times> dfs_state) option \<Rightarrow> bool"
  where
  "dfs_post N ch st cs r \<longleftrightarrow>
     (case r of
        None \<Rightarrow> False
      | Some (True, _) \<Rightarrow> found ch
      | Some (False, st') \<Rightarrow> dfs_inv N ch st' \<and> fst st \<subseteq> fst st' \<and> snd st' = snd st \<and>
                            cs \<subseteq> fst st' - snd st')"

lemma dfs_children_correct:
  assumes IH: "\<And>V c. dfs_inv N ch (V, S) \<Longrightarrow> c \<in> N - V \<Longrightarrow> card (N - V) \<le> n \<Longrightarrow>
       \<forall>s\<in>S. (s, c) \<in> (adj ch)\<^sup>* \<Longrightarrow> dfs_post N ch (V, S) {c} (dfs n ch c (V, S))"
    and "finite N" "set (ch i) \<subseteq> N" and stack: "\<forall>s\<in>S. (s, i) \<in> (adj ch)\<^sup>*"
  shows "dfs_inv N ch (V, S) \<Longrightarrow> set cs \<subseteq> set (ch i) \<Longrightarrow> card (N - V) \<le> n \<Longrightarrow>
     dfs_post N ch (V, S) (set cs) (dfs_children n ch cs (V, S))"
proof (induction cs arbitrary: V)
  case Nil
  then show ?case by (simp add: dfs_post_def)
next
  case (Cons c cs)
  have edge: "(i, c) \<in> adj ch" and "c \<in> N" using Cons.prems(2) assms(3) by auto
  have reach: "\<forall>s\<in>S. (s, c) \<in> (adj ch)\<^sup>*"
    using stack edge by (meson rtrancl.rtrancl_into_rtrancl)
  show ?case
  proof (cases "c \<in> V")
    case True
    show ?thesis
    proof (cases "c \<in> S")
      case True
      then have "found ch"
        using stack edge unfolding found_def by (meson rtrancl_into_trancl1)
      then show ?thesis using \<open>c \<in> V\<close> True by (simp add: dfs_post_def)
    next
      case False
      with \<open>c \<in> V\<close> Cons.IH [OF Cons.prems(1)] Cons.prems show ?thesis
        by (auto simp: dfs_post_def split: option.splits bool.splits)
    qed
  next
    case False
    then have post: "dfs_post N ch (V, S) {c} (dfs n ch c (V, S))"
      using IH [OF Cons.prems(1)] \<open>c \<in> N\<close> Cons.prems(3) reach by simp
    show ?thesis
    proof (cases "dfs n ch c (V, S)")
      case None
      with post show ?thesis by (simp add: dfs_post_def)
    next
      case (Some r)
      obtain b V' S' where r: "r = (b, V', S')" by (cases r) auto
      show ?thesis
      proof (cases b)
        case True
        with post Some r False show ?thesis by (simp add: dfs_post_def)
      next
        case b: False
        with post Some r have p: "dfs_inv N ch (V', S)" "V \<subseteq> V'" "S' = S" "c \<in> V' - S"
          by (auto simp: dfs_post_def)
        have "card (N - V') \<le> n"
          using Cons.prems(3) card_mono [of "N - V" "N - V'"] p(2) \<open>finite N\<close> by fastforce
        with Cons.IH [OF p(1)] Cons.prems(2)
        have "dfs_post N ch (V', S) (set cs) (dfs_children n ch cs (V', S))" by simp
        with p show ?thesis
          using Some r b False by (auto simp: dfs_post_def split: option.splits bool.splits)
      qed
    qed
  qed
qed

lemma dfs_correct:
  assumes "finite N" "\<And>x. set (ch x) \<subseteq> N"
  shows "dfs_inv N ch (V, S) \<Longrightarrow> i \<in> N - V \<Longrightarrow> card (N - V) \<le> n \<Longrightarrow>
           \<forall>s\<in>S. (s, i) \<in> (adj ch)\<^sup>* \<Longrightarrow> dfs_post N ch (V, S) {i} (dfs n ch i (V, S))"
proof (induction n arbitrary: V S i)
  case 0
  then show ?case using \<open>finite N\<close> by auto
next
  case (Suc n)
  let ?V = "insert i V" and ?S = "insert i S"
  have i: "i \<notin> V" "i \<notin> S" "i \<in> N" using Suc.prems(1,2) by (auto simp: dfs_inv_def)
  have inv: "dfs_inv N ch (?V, ?S)"
    using Suc.prems(1) i unfolding dfs_inv_def by auto
  have "N - ?V \<subset> N - V" using i by auto
  then have "card (N - ?V) \<le> n"
    using psubset_card_mono [of "N - V" "N - ?V"] \<open>finite N\<close> Suc.prems(3) by simp
  moreover have "\<forall>s\<in>?S. (s, i) \<in> (adj ch)\<^sup>*" using Suc.prems(4) by simp
  ultimately have "dfs_post N ch (?V, ?S) (set (ch i)) (dfs_children n ch (ch i) (?V, ?S))"
    using dfs_children_correct [of N ch ?S n i ?V "ch i"] Suc.IH assms inv by simp
  then show ?case
    using i dfs_finish [of N ch _ i S]
    by (auto simp: dfs_post_def split: option.splits bool.splits)
qed

lemma cycle_from_correct:
  assumes "finite N" "\<And>x. set (ch x) \<subseteq> N"
  shows "dfs_inv N ch (V, {}) \<Longrightarrow> set ids \<subseteq> N \<Longrightarrow> card N \<le> n \<Longrightarrow> N \<subseteq> V \<union> set ids \<Longrightarrow>
     (\<And>x. x \<notin> N \<Longrightarrow> ch x = []) \<Longrightarrow> cycle_from n ch ids (V, {}) = Some (found ch)"
proof (induction ids arbitrary: V)
  case Nil
  then have "(x, x) \<notin> (adj ch)\<^sup>+" for x
  proof (cases "x \<in> N")
    case True
    then show ?thesis using Nil by (auto simp: dfs_inv_def)
  next
    case False
    then show ?thesis using Nil.prems(5) by (auto dest!: tranclD)
  qed
  then show ?case by (simp add: found_def)
next
  case (Cons i ids)
  show ?case
  proof (cases "i \<in> V")
    case True
    then show ?thesis using Cons by (simp add: insert_absorb)
  next
    case False
    have "card (N - V) \<le> n"
      using Cons.prems(3) card_mono [of N "N - V"] \<open>finite N\<close> by fastforce
    then have post: "dfs_post N ch (V, {}) {i} (dfs n ch i (V, {}))"
      using dfs_correct [of N ch V "{}" i n] assms Cons.prems(1,2) False by simp
    then obtain b V' S' where r: "dfs n ch i (V, {}) = Some (b, V', S')"
      by (cases "dfs n ch i (V, {})") (auto simp: dfs_post_def)
    show ?thesis
    proof (cases b)
      case True
      with post r False show ?thesis by (simp add: dfs_post_def)
    next
      case b: False
      with post r have p: "dfs_inv N ch (V', {})" "V \<subseteq> V'" "S' = {}" "i \<in> V'"
        by (auto simp: dfs_post_def)
      have "N \<subseteq> V' \<union> set ids" using Cons.prems(4) p by auto
      then have "cycle_from n ch ids (V', {}) = Some (found ch)"
        using Cons.IH [OF p(1)] Cons.prems by simp
      then show ?thesis using r b p False by simp
    qed
  qed
qed

lemma HasCycle_iff:
  assumes "wf_graph g" "map_order ids (Nodes g)"
  shows "HasCycle ids g = Some (\<not> acyclic (edges g))"
proof -
  have edge: "p \<in> set ids \<and> c \<in> set ids" if "c \<in> set (Children g p)" for p c
    using assms that by (simp add: wf_graph_def map_order_def)
  have "set (Children g x) \<subseteq> set ids" for x using edge by blast
  moreover have "x \<notin> set ids \<Longrightarrow> Children g x = []" for x
    using edge [of _ x] by (cases "Children g x") auto
  ultimately have "HasCycle ids g = Some (found (Children g))"
    unfolding HasCycle_def
    by (intro cycle_from_correct [of "set ids"]) (auto simp: dfs_inv_def card_length)
  then show ?thesis by (simp add: found_def acyclic_def edges_def)
qed

section \<open>Kahn's algorithm\<close>

lemma fold_relax:
  assumes "\<forall>c\<in>set cs. int (count_list cs c) \<le> d c"
  shows "\<exists>news. fold relax cs (d, q) = ((\<lambda>c. d c - int (count_list cs c)), q @ news) \<and>
     distinct news \<and> set news = {c \<in> set cs. d c = int (count_list cs c)}"
  using assms
proof (induction cs arbitrary: d q)
  case Nil
  then show ?case by simp
next
  case (Cons a cs)
  let ?d = "d(a := d a - 1)" and ?q = "if d a = 1 then q @ [a] else q"
  have "\<forall>c\<in>set cs. int (count_list cs c) \<le> ?d c" using Cons.prems by auto
  from Cons.IH [OF this, of ?q] obtain news where
    news: "fold relax cs (?d, ?q) = ((\<lambda>c. ?d c - int (count_list cs c)), ?q @ news)"
      "distinct news" "set news = {c \<in> set cs. ?d c = int (count_list cs c)}"
    by blast
  have step: "relax a (d, q) = (?d, ?q)" by (auto simp: relax_def Let_def)
  have deg: "(\<lambda>c. ?d c - int (count_list cs c)) = (\<lambda>c. d c - int (count_list (a # cs) c))"
    by auto
  have pos: "int (count_list cs a) + 1 \<le> d a" using Cons.prems by auto
  show ?case
  proof (cases "d a = 1")
    case True
    then have "a \<notin> set cs" using pos by (simp add: count_list_0_iff)
    with news True step deg show ?thesis
      by (intro exI [of _ "a # news"]) (auto simp: count_list_0_iff [symmetric])
  next
    case False
    have "set news = {c \<in> set (a # cs). d c = int (count_list (a # cs) c)}"
    proof -
      have "a \<in> set cs" if "d a = int (count_list cs a) + 1"
        using that False by (cases "a \<in> set cs") (auto simp: count_list_0_iff)
      then show ?thesis using news(3) by auto
    qed
    with news False step deg show ?thesis by (intro exI [of _ news]) simp
  qed
qed

definition kahn_inv :: "dependency_graph \<Rightarrow> kahn_state \<Rightarrow> bool" where
  "kahn_inv g st \<longleftrightarrow> (case st of (d, q, r) \<Rightarrow>
     distinct (r @ q) \<and> set (r @ q) \<subseteq> dom (Nodes g) \<and>
     (\<forall>x\<in>dom (Nodes g). d x = int (length (filter (\<lambda>p. p \<notin> set r) (Parents g x))) \<and>
        (x \<in> set (r @ q) \<longleftrightarrow> d x = 0)) \<and>
     (\<forall>i<length r. set (Parents g (r ! i)) \<subseteq> set (take i r)))"

lemma length_filter_remove:
  "a \<notin> A \<Longrightarrow> length (filter (\<lambda>p. p \<notin> A) ps) =
     count_list ps a + length (filter (\<lambda>p. p \<notin> insert a A) ps)"
  by (induction ps) auto

lemma count_list_sort [simp]: "count_list (sort xs) x = count_list xs x"
  by (metis count_mset mset_sort)

lemma kahn_step_inv:
  assumes wf: "wf_graph g" and inv: "kahn_inv g (d, cur # q, r)"
  shows "\<exists>d' q'. kahn_step (Children g) (d, cur # q, r) = (d', q', r @ [cur]) \<and>
     kahn_inv g (d', q', r @ [cur])"
proof -
  let ?N = "dom (Nodes g)" and ?cs = "sort (Children g cur)"
  have dist: "distinct (r @ cur # q)" and sub: "set (r @ cur # q) \<subseteq> ?N"
    and deg: "\<And>x. x \<in> ?N \<Longrightarrow> d x = int (length (filter (\<lambda>p. p \<notin> set r) (Parents g x)))"
    and zero: "\<And>x. x \<in> ?N \<Longrightarrow> x \<in> set (r @ cur # q) \<longleftrightarrow> d x = 0"
    and ord: "\<And>i. i < length r \<Longrightarrow> set (Parents g (r ! i)) \<subseteq> set (take i r)"
    using inv unfolding kahn_inv_def by (simp_all del: set_append distinct_append)
  have cur: "cur \<notin> set r" "cur \<in> ?N" using dist sub by auto
  have cnt: "count_list (Children g cur) x = count_list (Parents g x) cur"
    and chN: "x \<in> set (Children g cur) \<Longrightarrow> x \<in> ?N" for x
    using wf by (auto simp: wf_graph_def)
  have deg2: "d x = int (count_list (Children g cur) x) +
      int (length (filter (\<lambda>p. p \<notin> set (r @ [cur])) (Parents g x)))" if "x \<in> ?N" for x
    using deg [OF that] length_filter_remove [OF cur(1), of "Parents g x"] cnt by simp
  have "\<forall>c\<in>set ?cs. int (count_list ?cs c) \<le> d c"
    using deg2 chN by simp
  from fold_relax [OF this, of q] obtain news where
    news: "fold relax ?cs (d, q) = ((\<lambda>c. d c - int (count_list (Children g cur) c)), q @ news)"
      "distinct news" "set news = {c \<in> set (Children g cur). d c = int (count_list (Children g cur) c)}"
    by auto
  have fresh: "x \<notin> set (r @ cur # q)" if "x \<in> set news" for x
    using that news(3) zero chN by (auto simp: count_list_0_iff)
  have par: "set (Parents g cur) \<subseteq> set r"
    using deg [OF cur(2)] zero [OF cur(2)] by (auto simp: filter_empty_conv)
  have 1: "distinct ((r @ [cur]) @ q @ news)" using dist fresh news(2) by auto
  have 2: "set ((r @ [cur]) @ q @ news) \<subseteq> ?N" using sub news(3) chN by auto
  have 3: "x \<in> set ((r @ [cur]) @ q @ news) \<longleftrightarrow> d x - int (count_list (Children g cur) x) = 0"
    if "x \<in> ?N" for x
  proof (cases "d x = 0")
    case True
    then show ?thesis using zero [OF that] deg2 [OF that] by auto
  next
    case False
    then have "x \<notin> set (r @ cur # q)" using zero [OF that] by simp
    moreover have "x \<in> set (Children g cur)" if "d x - int (count_list (Children g cur) x) = 0"
      using that False by (cases "x \<in> set (Children g cur)") (auto simp: count_list_0_iff)
    ultimately show ?thesis using news(3) by auto
  qed
  have 4: "set (Parents g ((r @ [cur]) ! i)) \<subseteq> set (take i (r @ [cur]))" if "i < length (r @ [cur])" for i
    using that ord [of i] par by (cases "i < length r") (auto simp: nth_append less_Suc_eq)
  show ?thesis
    using news(1) 1 2 3 4 deg2 unfolding kahn_inv_def by auto
qed

lemma kahn_run:
  assumes wf: "wf_graph g" and inv: "kahn_inv g (d, q, [])"
  shows "\<exists>d' r. kahn (Children g) (d, q, []) = Some (d', [], r) \<and> kahn_inv g (d', [], r)"
proof -
  let ?b = "\<lambda>(_, queue, _). queue \<noteq> []" and ?c = "kahn_step (Children g)"
  let ?f = "\<lambda>(_, _, r). card (dom (Nodes g)) - length r"
  have step: "kahn_inv g (?c s) \<and> ?f (?c s) < ?f s" if "kahn_inv g s" and "?b s" for s
  proof -
    obtain d cur q r where s: "s = (d, cur # q, r)"
      using \<open>?b s\<close> by (cases s) (auto simp: neq_Nil_conv)
    have "distinct (r @ cur # q)" "set (r @ cur # q) \<subseteq> dom (Nodes g)"
      using that(1) unfolding s kahn_inv_def by (simp_all del: set_append distinct_append)
    then have "length (r @ cur # q) \<le> card (dom (Nodes g))"
      using wf card_mono [of "dom (Nodes g)" "set (r @ cur # q)"]
      unfolding wf_graph_def by (metis distinct_card)
    then show ?thesis using kahn_step_inv [OF wf, of d cur q r] that(1) s by auto
  qed
  from measure_while_option_Some [of "kahn_inv g" ?b ?c ?f] step inv
  obtain s where s: "while_option ?b ?c (d, q, []) = Some s" by blast
  have "kahn_inv g s" using while_option_rule [OF _ s, of "kahn_inv g"] step inv by blast
  moreover have "\<not> ?b s" using while_option_stop [OF s] .
  ultimately show ?thesis using s unfolding kahn_def by (cases s) auto
qed

lemma kahn_init:
  assumes "wf_graph g" "map_order ids (Nodes g)"
  shows "kahn_inv g (in_degrees ids g, roots ids g, [])"
  using assms unfolding kahn_inv_def map_order_def in_degrees_def roots_def
  by (auto simp: length_0_conv)

lemma edges_Parents: "wf_graph g \<Longrightarrow> (p, x) \<in> edges g \<longleftrightarrow> p \<in> set (Parents g x)"
  unfolding edges_def wf_graph_def by (metis case_prodI count_list_0_iff mem_Collect_eq case_prodD)

lemma kahn_complete:
  assumes wf: "wf_graph g" and ac: "acyclic (edges g)" and inv: "kahn_inv g (d, [], r)"
  shows "set r = dom (Nodes g)"
proof (rule ccontr)
  let ?N = "dom (Nodes g)"
  have r: "set r \<subseteq> ?N" and zero: "\<And>x. x \<in> ?N \<Longrightarrow> x \<in> set r \<longleftrightarrow> filter (\<lambda>p. p \<notin> set r) (Parents g x) = []"
    using inv unfolding kahn_inv_def by auto
  note edge = edges_Parents [OF wf]
  have N: "edges g \<subseteq> ?N \<times> ?N" "finite ?N"
    using wf by (auto simp: edges_def wf_graph_def)
  then have "finite (edges g)" by (meson finite_SigmaI finite_subset)
  then have "wf (edges g)" using ac by (rule finite_acyclic_wf)
  moreover assume "set r \<noteq> ?N"
  then obtain a where "a \<in> ?N - set r" using r by auto
  ultimately obtain x where x: "x \<in> ?N - set r" "\<And>p. (p, x) \<in> edges g \<Longrightarrow> p \<notin> ?N - set r"
    by (meson wfE_min)
  then have "filter (\<lambda>p. p \<notin> set r) (Parents g x) = []"
    using edge N by (fastforce simp: filter_empty_conv)
  with zero x show False by auto
qed

lemma kahn_ordered:
  assumes wf: "wf_graph g" and inv: "kahn_inv g (d, [], r)" and edge: "(p, c) \<in> edges g" "c \<in> set r"
  shows "\<exists>xs ys zs. r = xs @ p # ys @ c # zs"
proof -
  obtain i where i: "i < length r" "r ! i = c" using edge(2) by (auto simp: in_set_conv_nth)
  have "p \<in> set (Parents g c)" using edges_Parents [OF wf] edge(1) by simp
  then have "p \<in> set (take i r)" using inv i unfolding kahn_inv_def by auto
  then obtain xs ys where "take i r = xs @ p # ys" by (auto dest: split_list)
  then have "r = xs @ p # ys @ c # drop (Suc i) r"
    using i id_take_nth_drop [of i r] by simp
  then show ?thesis by blast
qed

lemma dom_Nodes_Build: "dom (Nodes (Build t spans)) = SrSpanID ` set spans"
proof -
  have "Nodes (fold add_edge ss g) = Nodes g" for ss g
    by (induction ss arbitrary: g) auto
  then show ?thesis by (simp add: Build_def Let_def fold_add_node)
qed

lemma roots_order:
  assumes "map_order ids (Nodes g)" "map_order ids' (Nodes g)"
  shows "in_degrees ids g = in_degrees ids' g" "roots ids g = roots ids' g"
proof -
  show "in_degrees ids g = in_degrees ids' g"
    using assms by (auto simp: in_degrees_def map_order_def)
  then show "roots ids g = roots ids' g"
    using assms unfolding roots_def map_order_def by (auto intro!: sorted_distinct_set_unique)
qed

lemma TopologicalSort_order:
  assumes "wf_graph g" "map_order ids (Nodes g)" "map_order ids' (Nodes g)"
  shows "TopologicalSort ids g = TopologicalSort ids' g"
  using assms HasCycle_iff [OF assms(1)] roots_order [OF assms(2,3)]
  unfolding TopologicalSort_def by metis

text \<open>
  C38.  Whatever the order in which the map of nodes is visited, the topological sort of the graph
  built from a list of spans returns: an error exactly when the parent edges have a cycle, and
  otherwise every span id once, each parent that is in the trace before its children.  The
  outcome is the same for every order of the map.
\<close>

theorem topological_sort_correct:
  assumes "map_order ids (Nodes (Build t spans))" "map_order ids' (Nodes (Build t spans))"
  shows "TopologicalSort ids (Build t spans) = TopologicalSort ids' (Build t spans) \<and>
    (case TopologicalSort ids (Build t spans) of
       None \<Rightarrow> False
     | Some (Inl e) \<Rightarrow> e = cycle_error t \<and> \<not> acyclic (edges (Build t spans))
     | Some (Inr r) \<Rightarrow> acyclic (edges (Build t spans)) \<and> distinct r \<and>
         set r = SrSpanID ` set spans \<and>
         (\<forall>(p, c) \<in> edges (Build t spans). \<exists>xs ys zs. r = xs @ p # ys @ c # zs))"
proof -
  let ?g = "Build t spans"
  have wf: "wf_graph ?g" by (rule wf_Build)
  have t: "GraphTraceID ?g = t"
  proof -
    have "GraphTraceID (fold add_edge ss g) = GraphTraceID g"
      "GraphTraceID (fold add_node ss g) = GraphTraceID g" for ss g
      by (induction ss arbitrary: g) (simp_all add: add_edge_def add_node_def Let_def)
    then show ?thesis by (simp add: Build_def Let_def)
  qed
  obtain d r where k: "kahn (Children ?g) (in_degrees ids ?g, roots ids ?g, []) = Some (d, [], r)"
    and inv: "kahn_inv ?g (d, [], r)"
    using kahn_run [OF wf kahn_init [OF wf assms(1)]] by blast
  have edgeN: "c \<in> dom (Nodes ?g)" if "(p, c) \<in> edges ?g" for p c
    using that wf by (auto simp: edges_def wf_graph_def)
  have "distinct r" using inv by (simp add: kahn_inv_def)
  moreover have "set r = SrSpanID ` set spans" if "acyclic (edges ?g)"
    using kahn_complete [OF wf that inv] by (simp add: dom_Nodes_Build)
  moreover have "\<exists>xs ys zs. r = xs @ p # ys @ c # zs"
    if "acyclic (edges ?g)" "(p, c) \<in> edges ?g" for p c
    using kahn_ordered [OF wf inv that(2)] kahn_complete [OF wf that(1) inv] edgeN [OF that(2)] by simp
  moreover have "TopologicalSort ids ?g =
      Some (if acyclic (edges ?g) then Inr r else Inl (cycle_error t))"
    using HasCycle_iff [OF wf assms(1)] k t
    by (cases "acyclic (edges ?g)") (simp_all add: TopologicalSort_def)
  ultimately show ?thesis
    using TopologicalSort_order [OF wf assms]
    by (cases "acyclic (edges ?g)") (simp_all add: case_prod_beta)
qed

definition demo_span :: "string \<Rightarrow> string \<Rightarrow> string \<Rightarrow> span_record" where
  "demo_span i p t = \<lparr>SrSpanID = i, SrParentSpanID = p, SrToolName = t, SrVendor = [],
     SrDurationMs = 0, SrTraceDurationMs = 0, SrHasError = False\<rparr>"

definition demo_trace :: dependency_graph where
  "demo_trace = Build ''t'' [demo_span ''c'' ''a'' ''sql'', demo_span ''b'' ''c'' ''sql'',
     demo_span ''a'' [] ''llm'', demo_span ''d'' ''a'' ''sql'']"

lemma demo_order:
  "map_order [''a'', ''b'', ''c'', ''d''] (Nodes demo_trace)"
  "map_order [''d'', ''b'', ''a'', ''c''] (Nodes demo_trace)"
  by (auto simp: map_order_def demo_trace_def dom_Nodes_Build demo_span_def)

lemma topological_sort_correct_witness:
  "TopologicalSort [''d'', ''b'', ''a'', ''c''] demo_trace = Some (Inr [''a'', ''c'', ''d'', ''b''])"
proof -
  have "TopologicalSort [''a'', ''b'', ''c'', ''d''] demo_trace = Some (Inr [''a'', ''c'', ''d'', ''b''])"
    by code_simp
  then show ?thesis
    using topological_sort_correct [OF demo_order [unfolded demo_trace_def]]
    unfolding demo_trace_def by simp
qed

section \<open>Repeated calls\<close>

lemma tool_counts_eq:
  "tool_counts ids g t =
     (let n = count_list (map (tool_of g) ids) t in if n = 0 then None else Some (int n))"
proof (induction ids rule: rev_induct)
  case Nil
  then show ?case by (simp add: tool_counts_def)
next
  case (snoc i ids)
  have "tool_counts (ids @ [i]) g = (tool_counts ids g)(tool_of g i \<mapsto>
      (case tool_counts ids g (tool_of g i) of None \<Rightarrow> 0 | Some n \<Rightarrow> n) + 1)"
    by (simp add: tool_counts_def)
  then show ?case using snoc by (auto simp: Let_def simp del: tool_of.simps)
qed

lemma count_list_distinct_card:
  "distinct xs \<Longrightarrow> count_list (map f xs) y = card {x \<in> set xs. f x = y}"
proof (induction xs)
  case (Cons a xs)
  have "{x \<in> set (a # xs). f x = y} =
      (if f a = y then insert a {x \<in> set xs. f x = y} else {x \<in> set xs. f x = y})"
    by auto
  then show ?case using Cons by auto
qed simp

abbreviation n1_key :: "n1_finding \<Rightarrow> int \<times> string" where
  "n1_key f \<equiv> (- N1Count f, N1ToolName f)"

abbreviation calls_of :: "dependency_graph \<Rightarrow> string \<Rightarrow> int" where
  "calls_of g t \<equiv> int (card {i \<in> dom (Nodes g). tool_of g i = t})"

definition n1_spec :: "dependency_graph \<Rightarrow> int \<Rightarrow> n1_finding set" where
  "n1_spec g minCount =
     {\<lparr>N1ToolName = t, N1Count = calls_of g t, N1TraceID = GraphTraceID g\<rparr> | t.
        0 < calls_of g t \<and> minCount \<le> calls_of g t}"

lemma inj_n1_key: "inj_on n1_key (n1_spec g minCount)"
  by (auto simp: inj_on_def n1_spec_def)

lemma tool_counts_calls:
  assumes "map_order ids (Nodes g)"
  shows "tool_counts ids g t = (if calls_of g t = 0 then None else Some (calls_of g t))"
  using assms unfolding map_order_def tool_counts_eq Let_def
  by (simp add: count_list_distinct_card del: tool_of.simps)

lemma DetectN1_set:
  assumes "map_order ids (Nodes g)" "map_order tools (tool_counts ids g)"
  shows "set (DetectN1 ids tools g k) = n1_spec g k" and "distinct (DetectN1 ids tools g k)"
proof -
  let ?f = "\<lambda>t. case tool_counts ids g t of None \<Rightarrow> []
     | Some n \<Rightarrow> if k \<le> n then [\<lparr>N1ToolName = t, N1Count = n, N1TraceID = GraphTraceID g\<rparr>] else []"
  have tools: "t \<in> set tools \<longleftrightarrow> 0 < calls_of g t" for t
    using assms(2) tool_counts_calls [OF assms(1), of t]
    by (simp add: map_order_def domIff del: tool_of.simps)
  have f: "?f t = (if 0 < calls_of g t \<and> k \<le> calls_of g t
      then [\<lparr>N1ToolName = t, N1Count = calls_of g t, N1TraceID = GraphTraceID g\<rparr>] else [])" for t
    using tool_counts_calls [OF assms(1), of t] by simp
  show "set (DetectN1 ids tools g k) = n1_spec g k"
    unfolding DetectN1_def f n1_spec_def using tools by (auto split: if_splits)
  have "distinct (concat (map ?f ts))" if "distinct ts" for ts
    using that unfolding f by (induction ts) auto
  then show "distinct (DetectN1 ids tools g k)"
    using assms(2) by (simp add: DetectN1_def map_order_def)
qed

lemma sorted_DetectN1: "sorted (map n1_key (DetectN1 ids tools g k))"
  unfolding DetectN1_def by (rule sorted_sort_key)

lemma sorted_key_unique:
  assumes "sorted (map f xs)" "sorted (map f ys)" "distinct xs" "distinct ys"
    "set xs = set ys" "inj_on f (set xs)"
  shows "xs = ys"
proof -
  have "map f xs = map f ys"
    using assms by (intro sorted_distinct_set_unique) (auto simp: distinct_map)
  then show ?thesis using assms(5,6) map_inj_on [of f xs ys] by simp
qed

text \<open>
  Observation.  The findings are exactly the tools with at least \<open>minCount\<close> distinct span ids in the
  trace (and at least one), each with its number of spans, ordered by falling count and then by
  name; the order in which the two maps are visited does not matter.
\<close>

theorem detect_n1_exact:
  assumes "map_order ids (Nodes g)" "map_order tools (tool_counts ids g)"
    and "map_order ids' (Nodes g)" "map_order tools' (tool_counts ids' g)"
  shows "DetectN1 ids tools g minCount = DetectN1 ids' tools' g minCount \<and>
    distinct (DetectN1 ids tools g minCount) \<and>
    sorted (map (\<lambda>f. (- N1Count f, N1ToolName f)) (DetectN1 ids tools g minCount)) \<and>
    set (DetectN1 ids tools g minCount) =
      {\<lparr>N1ToolName = t, N1Count = int (card {i \<in> dom (Nodes g). tool_of g i = t}),
        N1TraceID = GraphTraceID g\<rparr> | t.
        0 < card {i \<in> dom (Nodes g). tool_of g i = t} \<and>
        minCount \<le> int (card {i \<in> dom (Nodes g). tool_of g i = t})}"
proof -
  note s = DetectN1_set [OF assms(1,2)] and s' = DetectN1_set [OF assms(3,4)]
  have "DetectN1 ids tools g minCount = DetectN1 ids' tools' g minCount"
    by (rule sorted_key_unique [OF sorted_DetectN1 sorted_DetectN1])
      (simp_all only: s s' inj_n1_key)
  with s(1) [of minCount] s(2) [of minCount] sorted_DetectN1 [of ids tools g minCount]
  show ?thesis by (simp del: tool_of.simps add: n1_spec_def)
qed

lemma demo_counts: "map_order [''llm'', ''sql''] (tool_counts [''a'', ''b'', ''c'', ''d''] demo_trace)"
  "map_order [''sql'', ''llm''] (tool_counts [''d'', ''b'', ''a'', ''c''] demo_trace)"
  by (auto simp: map_order_def tool_counts_eq Let_def dom_def demo_trace_def Build_def demo_span_def
      add_node_def add_edge_def split: if_splits)

lemma detect_n1_exact_witness:
  "DetectN1 [''d'', ''b'', ''a'', ''c''] [''sql'', ''llm''] demo_trace 3 =
     [\<lparr>N1ToolName = ''sql'', N1Count = 3, N1TraceID = ''t''\<rparr>]"
proof -
  have "DetectN1 [''a'', ''b'', ''c'', ''d''] [''llm'', ''sql''] demo_trace 3 =
      [\<lparr>N1ToolName = ''sql'', N1Count = 3, N1TraceID = ''t''\<rparr>]"
    by code_simp
  then show ?thesis
    using detect_n1_exact [OF demo_order(1) demo_counts(1) demo_order(2) demo_counts(2), of 3] by simp
qed

end
