(* ===== verification/Trace_Span.thy ===== *)
theory Trace_Span
  imports Go_Json
begin

text \<open>
  The span of an agent run (\<^verbatim>\<open>traceforge/pkg/schema/span.go\<close>): the struct with its JSON fields,
  the tool categories and the validation.  The instant \<^verbatim>\<open>Ts\<close> is a number of nanoseconds since
  1970; how \<^verbatim>\<open>time.Time\<close> reads its text is an argument of the decoder.
\<close>

record tf_span =
  TraceID :: string
  SpanID :: string
  ParentSpanID :: "string option"
  ToolName :: string
  Model :: string
  Tokens :: u32
  CostUSD :: real
  Status :: string
  LatencyMs :: u32
  Ts :: int
  AgentID :: string
  TenantID :: string
  ErrorMessage :: "string option"
  Metadata :: string

text \<open>The zero \<^verbatim>\<open>time.Time\<close> is the first of January of year 1.\<close>

definition zero_time :: int where
  "zero_time = - 62135596800 * 10 ^ 9"

definition zero_span :: tf_span where
  "zero_span = \<lparr>TraceID = [], SpanID = [], ParentSpanID = None, ToolName = [], Model = [],
     Tokens = 0, CostUSD = 0, Status = [], LatencyMs = 0, Ts = zero_time, AgentID = [],
     TenantID = [], ErrorMessage = None, Metadata = []\<rparr>"

definition dec_time :: "(string \<Rightarrow> int option) \<Rightarrow> int decoder" where
  "dec_time parse v t = (case v of JNull \<Rightarrow> Some t | JStr s \<Rightarrow> parse s | _ \<Rightarrow> None)"

definition span_fields :: "(string \<Rightarrow> int option) \<Rightarrow> tf_span fields" where
  "span_fields parse =
     [(''trace_id'', lens TraceID (\<lambda>x s. s\<lparr>TraceID := x\<rparr>) dec_string),
      (''span_id'', lens SpanID (\<lambda>x s. s\<lparr>SpanID := x\<rparr>) dec_string),
      (''parent_span_id'', lens ParentSpanID (\<lambda>x s. s\<lparr>ParentSpanID := x\<rparr>) (dec_ptr dec_string [])),
      (''tool_name'', lens ToolName (\<lambda>x s. s\<lparr>ToolName := x\<rparr>) dec_string),
      (''model'', lens Model (\<lambda>x s. s\<lparr>Model := x\<rparr>) dec_string),
      (''tokens'', lens Tokens (\<lambda>x s. s\<lparr>Tokens := x\<rparr>) dec_uint),
      (''cost_usd'', lens CostUSD (\<lambda>x s. s\<lparr>CostUSD := x\<rparr>) dec_float),
      (''status'', lens Status (\<lambda>x s. s\<lparr>Status := x\<rparr>) dec_string),
      (''latency_ms'', lens LatencyMs (\<lambda>x s. s\<lparr>LatencyMs := x\<rparr>) dec_uint),
      (''ts'', lens Ts (\<lambda>x s. s\<lparr>Ts := x\<rparr>) (dec_time parse)),
      (''agent_id'', lens AgentID (\<lambda>x s. s\<lparr>AgentID := x\<rparr>) dec_string),
      (''tenant_id'', lens TenantID (\<lambda>x s. s\<lparr>TenantID := x\<rparr>) dec_string),
      (''error_message'', lens ErrorMessage (\<lambda>x s. s\<lparr>ErrorMessage := x\<rparr>) (dec_ptr dec_string [])),
      (''metadata'', lens Metadata (\<lambda>x s. s\<lparr>Metadata := x\<rparr>) dec_string)]"

section \<open>Categories\<close>

definition ToolCategory :: "(string \<times> string) list" where
  "ToolCategory =
     [(''web_search'', ''retrieval''), (''vector_search'', ''retrieval''),
      (''document_read'', ''retrieval''), (''db_query'', ''retrieval''),
      (''code_interpreter'', ''execution''), (''bash_exec'', ''execution''),
      (''api_call'', ''execution''), (''http_request'', ''execution''),
      (''memory_read'', ''memory''), (''memory_write'', ''memory''),
      (''context_window_read'', ''memory''), (''llm_call'', ''generation''),
      (''image_gen'', ''generation''), (''embedding_gen'', ''generation'')]"

definition Category :: "tf_span \<Rightarrow> string" where
  "Category s = (case map_of ToolCategory (ToolName s) of Some c \<Rightarrow> c | None \<Rightarrow> ''unknown'')"

definition IsRoot :: "tf_span \<Rightarrow> bool" where
  "IsRoot s \<longleftrightarrow> ParentSpanID s = None"

definition IsLLMCall :: "tf_span \<Rightarrow> bool" where
  "IsLLMCall s \<longleftrightarrow> ToolName s = ''llm_call''"

section \<open>Validation\<close>

datatype span_error = ErrMissingTraceID | ErrMissingSpanID | ErrMissingToolName | ErrInvalidStatus

fun span_error_text :: "span_error \<Rightarrow> string" where
  "span_error_text ErrMissingTraceID = ''span: trace_id is required''"
| "span_error_text ErrMissingSpanID = ''span: span_id is required''"
| "span_error_text ErrMissingToolName = ''span: tool_name is required''"
| "span_error_text ErrInvalidStatus = ''span: status must be one of ok/error/retry/timeout/cancelled''"

definition known_statuses :: "string list" where
  "known_statuses = [''ok'', ''error'', ''retry'', ''timeout'', ''cancelled'']"

definition ValidateSpan :: "tf_span \<Rightarrow> span_error option" where
  "ValidateSpan s =
     (if TraceID s = [] then Some ErrMissingTraceID
      else if SpanID s = [] then Some ErrMissingSpanID
      else if ToolName s = [] then Some ErrMissingToolName
      else if Status s \<in> set known_statuses then None
      else Some ErrInvalidStatus)"

lemma ValidateSpan_ok_iff:
  "ValidateSpan s = None \<longleftrightarrow>
     TraceID s \<noteq> [] \<and> SpanID s \<noteq> [] \<and> ToolName s \<noteq> [] \<and> Status s \<in> set known_statuses"
  by (simp add: ValidateSpan_def)

lemma ValidateSpan_metadata [simp]: "ValidateSpan (s\<lparr>Metadata := m\<rparr>) = ValidateSpan s"
  by (simp add: ValidateSpan_def)

lemma Category_metadata [simp]: "Category (s\<lparr>Metadata := m\<rparr>) = Category s"
  by (simp add: Category_def)

end
