(* ===== verification/Trace_Sampling.thy ===== *)
theory Trace_Sampling
  imports Trace_Span
begin

text \<open>
  Sampling and scrubbing of spans (\<^verbatim>\<open>traceforge/pkg/sampling\<close>): the head sampler on the 64-bit
  FNV-1a hash of the trace id, the tail sampler on the status, their combination, the counters,
  and the redaction of e-mail addresses, phone and card numbers by regular expressions.

  A sampler is the \<^verbatim>\<open>Sample\<close> method of the interface, a function on spans.  The counters are
  64-bit words, as the atomics are.
\<close>

unbundle bit_operations_syntax

section \<open>Samplers\<close>

datatype sample_decision = Drop | Keep

type_synonym sampler = "tf_span \<Rightarrow> sample_decision"

definition traceHash :: "string \<Rightarrow> u64" where
  "traceHash traceID = fnv64a traceID"

text \<open>
  The largest \<^verbatim>\<open>uint64\<close> becomes \<open>2\<^sup>6\<^sup>4\<close> as a \<^verbatim>\<open>float64\<close>; multiplying by it is exact, and the
  conversion to an integer truncates.
\<close>

definition threshold :: "real \<Rightarrow> u64" where
  "threshold rate = word_of_int \<lfloor>rate * 2 ^ 64\<rfloor>"

definition HeadSample :: "real \<Rightarrow> sampler" where
  "HeadSample rate s =
     (if rate \<le> 0 then Drop
      else if 1 \<le> rate then Keep
      else if traceHash (TraceID s) < threshold rate then Keep
      else Drop)"

definition TailSample :: sampler where
  "TailSample s =
     (if Status s = ''error'' \<or> Status s = ''retry'' \<or> Status s = ''timeout'' then Keep else Drop)"

definition CombinedSample :: "sampler \<Rightarrow> sampler \<Rightarrow> sampler" where
  "CombinedSample head tail s =
     (if head s = Keep then Keep else if tail s = Keep then Keep else Drop)"

text \<open>The literal \<^verbatim>\<open>0.10\<close> is the nearest \<^verbatim>\<open>float64\<close>, a little above one tenth.\<close>

definition default_rate :: real where
  "default_rate = 3602879701896397 / 2 ^ 55"

definition DefaultCombined :: sampler where
  "DefaultCombined = CombinedSample (HeadSample default_rate) TailSample"

section \<open>Counters\<close>

record stats =
  kept :: u64
  dropped :: u64

definition Record :: "sample_decision \<Rightarrow> stats \<Rightarrow> stats" where
  "Record d st = (if d = Keep then st\<lparr>kept := kept st + 1\<rparr> else st\<lparr>dropped := dropped st + 1\<rparr>)"

definition EffectiveRate :: "stats \<Rightarrow> real" where
  "EffectiveRate st =
     (let total = kept st + dropped st
      in if total = 0 then 0 else real (unat (kept st)) / real (unat total))"

text \<open>The counters may be absent.\<close>

fun FilterBatch :: "sampler \<Rightarrow> tf_span list \<Rightarrow> stats option \<Rightarrow> tf_span list \<times> stats option" where
  "FilterBatch sampler [] st = ([], st)"
| "FilterBatch sampler (s # spans) st =
     (let d = sampler s;
          (out, st') = FilterBatch sampler spans (map_option (Record d) st)
      in (if d = Keep then s # out else out, st'))"

section \<open>Regular expressions\<close>

text \<open>
  The part of \<^verbatim>\<open>regexp\<close> that the patterns use.  Matching is leftmost-first: \<open>ends r st\<close> lists the
  positions a match from \<open>st\<close> can end at, the preferred one first.  A position is the byte before
  it, if any, and the text after it.  Every class of the patterns is a set of ASCII bytes, so
  matching bytes is matching runes.
\<close>

datatype re =
  Cls "char list" | Seq re re | Alt re re | Rep nat nat re | RepFrom nat re | WordB

type_synonym re_pos = "char option \<times> string"

fun rep :: "(re_pos \<Rightarrow> re_pos list) \<Rightarrow> nat \<Rightarrow> nat \<Rightarrow> re_pos \<Rightarrow> re_pos list" where
  "rep m (Suc lo) extra st = concat (map (rep m lo extra) (m st))"
| "rep m 0 (Suc extra) st = concat (map (rep m 0 extra) (m st)) @ [st]"
| "rep m 0 0 st = [st]"

definition chars_between :: "char \<Rightarrow> char \<Rightarrow> char list" where
  "chars_between a b = map (char_of :: nat \<Rightarrow> char) [of_char a ..< Suc (of_char b)]"

definition digit_class :: "char list" where "digit_class = chars_between (CHR ''0'') (CHR ''9'')"
definition letter_class :: "char list" where
  "letter_class = chars_between (CHR ''a'') (CHR ''z'') @ chars_between (CHR ''A'') (CHR ''Z'')"
definition blank_class :: "char list" where
  "blank_class = map (char_of :: nat \<Rightarrow> char) [9, 10, 12, 13, 32]"

definition is_word :: "char option \<Rightarrow> bool" where
  "is_word c = (case c of None \<Rightarrow> False | Some x \<Rightarrow> x \<in> set (digit_class @ letter_class @ ''_''))"

fun ends :: "re \<Rightarrow> re_pos \<Rightarrow> re_pos list" where
  "ends (Cls cs) (p, []) = []"
| "ends (Cls cs) (p, c # s) = (if c \<in> set cs then [(Some c, s)] else [])"
| "ends (Seq a b) st = concat (map (ends b) (ends a st))"
| "ends (Alt a b) st = ends a st @ ends b st"
| "ends (Rep lo extra a) st = rep (ends a) lo extra st"
| "ends (RepFrom lo a) st = rep (ends a) lo (length (snd st)) st"
| "ends WordB (p, s) =
     (if is_word p \<noteq> is_word (case s of [] \<Rightarrow> None | c # _ \<Rightarrow> Some c) then [(p, s)] else [])"

text \<open>\<^verbatim>\<open>ReplaceAllString\<close> for a pattern that matches no empty text and a replacement without \<open>$\<close>.\<close>

function ReplaceAllString :: "re \<Rightarrow> string \<Rightarrow> char option \<Rightarrow> string \<Rightarrow> string" where
  "ReplaceAllString r mark p [] = []"
| "ReplaceAllString r mark p (c # s) =
     (case ends r (p, c # s) of
        (p', s') # _ \<Rightarrow>
          if length s' < length (c # s) then mark @ ReplaceAllString r mark p' s'
          else c # ReplaceAllString r mark (Some c) s
      | [] \<Rightarrow> c # ReplaceAllString r mark (Some c) s)"
  by pat_completeness auto
termination
  by (relation "measure (\<lambda>(r, mark, p, s). length s)") auto

section \<open>The patterns\<close>

fun seq_of :: "re list \<Rightarrow> re" where
  "seq_of [] = Rep 0 0 WordB"
| "seq_of [r] = r"
| "seq_of (r # rs) = Seq r (seq_of rs)"

definition emailRe :: re where
  "emailRe = seq_of
     [RepFrom 1 (Cls (letter_class @ digit_class @ ''._%+-'')), Cls ''@'',
      RepFrom 1 (Cls (letter_class @ digit_class @ ''.-'')), Cls ''.'',
      RepFrom 2 (Cls letter_class)]"

definition phoneRe :: re where
  "phoneRe = (let d = Cls digit_class; sep = Cls (blank_class @ ''-.'') in
     seq_of
       [Rep 0 1 (seq_of [Rep 0 1 (Cls ''+''), Rep 1 2 d, sep]),
        seq_of [Rep 0 1 (Cls ''(''), Rep 3 0 d, Rep 0 1 (Cls '')''), sep],
        Rep 3 0 d, sep, Rep 4 0 d])"

definition cardRe :: re where
  "cardRe = (let d = Cls digit_class in
     Alt (seq_of [WordB, Rep 3 0 (seq_of [Rep 4 0 d, Cls (blank_class @ ''-'')]), Rep 4 0 d, WordB])
         (seq_of [WordB, Rep 13 3 d, WordB]))"

definition redactionMark :: string where
  "redactionMark = ''[REDACTED]''"

definition redact :: "string \<Rightarrow> string" where
  "redact input =
     (let s = ReplaceAllString emailRe redactionMark None input;
          s = ReplaceAllString phoneRe redactionMark None s
      in ReplaceAllString cardRe redactionMark None s)"

section \<open>The scrubber\<close>

definition Scrub :: "tf_span \<Rightarrow> tf_span" where
  "Scrub s = (if Metadata s = [] then s else s\<lparr>Metadata := redact (Metadata s)\<rparr>)"

definition ScrubBatch :: "tf_span list \<Rightarrow> tf_span list" where
  "ScrubBatch spans = map Scrub spans"

definition ScrubAndFilter ::
  "sampler \<Rightarrow> tf_span list \<Rightarrow> stats option \<Rightarrow> tf_span list \<times> stats option" where
  "ScrubAndFilter sampler spans st = FilterBatch sampler (ScrubBatch spans) st"

section \<open>What is kept\<close>

lemma threshold_default: "threshold default_rate = 1844674407370955264"
  by (simp add: threshold_def default_rate_def)

lemma DefaultCombined_Keep:
  "DefaultCombined s = Keep \<longleftrightarrow>
     Status s \<in> {''error'', ''retry'', ''timeout''} \<or> traceHash (TraceID s) < 1844674407370955264"
  unfolding DefaultCombined_def CombinedSample_def HeadSample_def threshold_default TailSample_def
  by (simp add: default_rate_def)

lemma FilterBatch_eq:
  "FilterBatch sampler spans st =
     (filter (\<lambda>s. sampler s = Keep) spans,
      map_option (\<lambda>c. c\<lparr>kept := kept c + of_nat (length (filter (\<lambda>s. sampler s = Keep) spans)),
        dropped := dropped c + of_nat (length (filter (\<lambda>s. sampler s \<noteq> Keep) spans))\<rparr>) st)"
proof (induction spans arbitrary: st)
  case (Cons s spans)
  then show ?case
    by (cases st) (simp_all add: Record_def Let_def algebra_simps)
qed (simp add: option.map_ident)

lemma Scrub_fields [simp]:
  "TraceID (Scrub s) = TraceID s" "Status (Scrub s) = Status s" "ValidateSpan (Scrub s) = ValidateSpan s"
  by (simp_all add: Scrub_def)

lemma EffectiveRate_bounds:
  assumes "unat (kept st) + unat (dropped st) < 2 ^ 64"
  shows "0 \<le> EffectiveRate st" "EffectiveRate st \<le> 1"
proof -
  define k d where "k = unat (kept st)" and "d = unat (dropped st)"
  have "unat (kept st + dropped st) = k + d"
    using assms by (simp add: unat_word_ariths k_def d_def)
  then have "EffectiveRate st = (if kept st + dropped st = 0 then 0 else real k / real (k + d))"
    by (simp only: EffectiveRate_def Let_def k_def)
  then show "0 \<le> EffectiveRate st" "EffectiveRate st \<le> 1"
    by (auto simp: divide_le_eq_1)
qed

definition survives :: "tf_span \<Rightarrow> bool" where
  "survives s \<longleftrightarrow> Status s \<in> {''error'', ''retry'', ''timeout''} \<or>
     unat (traceHash (TraceID s)) < 1844674407370955264"

lemma DefaultCombined_Scrub: "DefaultCombined (Scrub s) = Keep \<longleftrightarrow> survives s"
  by (simp add: DefaultCombined_Keep survives_def word_less_nat_alt)

text \<open>
  Observation.  Scrubbing and sampling a batch with the production sampler: a span survives exactly when
  its status is error, retry or timeout, or the hash of its trace id is below a tenth of the
  range (so the healthy spans of a trace share one fate); the survivors keep their order, only
  their metadata is rewritten, and the two counters grow by the exact numbers, modulo their
  64 bits.
\<close>

theorem sampling_exact:
  "ScrubAndFilter DefaultCombined spans (Some st) =
     (map Scrub (filter survives spans),
      Some (st\<lparr>kept := kept st + of_nat (length (filter survives spans)),
        dropped := dropped st + of_nat (length (filter (\<lambda>s. \<not> survives s) spans))\<rparr>))"
  by (simp add: ScrubAndFilter_def ScrubBatch_def FilterBatch_eq filter_map o_def
      DefaultCombined_Scrub)

end
