(* ===== verification/Trace_Export.thy ===== *)
theory Trace_Export
  imports Trace_Sampling
begin

text \<open>
  The conversion of spans to OTLP (\<^verbatim>\<open>traceforge/pkg/export/otlp.go\<close>) and the ingest handler
  that validates, scrubs, samples and exports them (\<^verbatim>\<open>traceforge/cmd/collector/main.go\<close>).

  The generated OTLP messages are records with the fields the code sets.  Byte slices are lists
  of characters.  The gRPC call is a function from the request to success or failure.
\<close>

section \<open>OTLP messages\<close>

datatype any_value = StringValue string | IntValue int | DoubleValue real

record key_value =
  kv_key :: string
  kv_value :: any_value

datatype status_code = STATUS_CODE_UNSET | STATUS_CODE_OK | STATUS_CODE_ERROR

record otlp_status =
  st_code :: status_code
  st_message :: string

datatype span_kind = SPAN_KIND_INTERNAL | SPAN_KIND_CLIENT

record otlp_span =
  o_trace_id :: string
  o_span_id :: string
  o_parent_span_id :: "string option"
  o_name :: string
  o_kind :: span_kind
  o_start :: u64
  o_end :: u64
  o_attributes :: "key_value list"
  o_status :: otlp_status

record resource_spans =
  rs_attributes :: "key_value list"
  rs_scope_name :: string
  rs_scope_version :: string
  rs_spans :: "otlp_span list"

section \<open>Identifiers\<close>

text \<open>\<^verbatim>\<open>hex.DecodeString\<close>: both cases of the letters are accepted.\<close>

definition hex_digit :: "char \<Rightarrow> nat option" where
  "hex_digit c =
     (let n = of_char c in
      if 48 \<le> n \<and> n \<le> 57 then Some (n - 48)
      else if 97 \<le> n \<and> n \<le> 102 then Some (n - 87)
      else if 65 \<le> n \<and> n \<le> 70 then Some (n - 55)
      else None)"

fun DecodeString :: "string \<Rightarrow> string option" where
  "DecodeString [] = Some []"
| "DecodeString [c] = None"
| "DecodeString (a # b # s) =
     (case (hex_digit a, hex_digit b) of
        (Some x, Some y) \<Rightarrow> map_option ((#) (char_of (16 * x + y))) (DecodeString s)
      | _ \<Rightarrow> None)"

definition parseHex :: "string \<Rightarrow> nat \<Rightarrow> string option" where
  "parseHex s expectedLen = (if length s \<noteq> expectedLen then None else DecodeString s)"

section \<open>Conversion\<close>

definition strAttr :: "string \<Rightarrow> string \<Rightarrow> key_value" where
  "strAttr k v = \<lparr>kv_key = k, kv_value = StringValue v\<rparr>"

definition intAttr :: "string \<Rightarrow> int \<Rightarrow> key_value" where
  "intAttr k v = \<lparr>kv_key = k, kv_value = IntValue v\<rparr>"

definition dblAttr :: "string \<Rightarrow> real \<Rightarrow> key_value" where
  "dblAttr k v = \<lparr>kv_key = k, kv_value = DoubleValue v\<rparr>"

definition buildAttributes :: "tf_span \<Rightarrow> key_value list" where
  "buildAttributes s =
     [strAttr ''traceforge.tool.name'' (ToolName s),
      strAttr ''traceforge.tool.category'' (Category s),
      strAttr ''traceforge.status'' (Status s),
      intAttr ''traceforge.latency.ms'' (uint (LatencyMs s))] @
     (if Model s \<noteq> [] then [strAttr ''traceforge.model'' (Model s), strAttr ''gen_ai.request.model'' (Model s)]
      else []) @
     (if 0 < Tokens s
      then [intAttr ''traceforge.tokens.total'' (uint (Tokens s)),
            intAttr ''gen_ai.usage.total_tokens'' (uint (Tokens s))]
      else []) @
     (if 0 < CostUSD s then [dblAttr ''traceforge.cost.usd'' (CostUSD s)] else []) @
     (if AgentID s \<noteq> [] then [strAttr ''traceforge.agent.id'' (AgentID s)] else []) @
     (if TenantID s \<noteq> [] then [strAttr ''traceforge.tenant.id'' (TenantID s)] else []) @
     (case ErrorMessage s of None \<Rightarrow> [] | Some m \<Rightarrow> [strAttr ''traceforge.error.message'' m])"

definition buildStatus :: "tf_span \<Rightarrow> otlp_status" where
  "buildStatus s =
     (if Status s = ''ok'' then \<lparr>st_code = STATUS_CODE_OK, st_message = []\<rparr>
      else if Status s = ''error'' \<or> Status s = ''timeout'' \<or> Status s = ''cancelled''
      then \<lparr>st_code = STATUS_CODE_ERROR,
            st_message = (case ErrorMessage s of None \<Rightarrow> [] | Some m \<Rightarrow> m)\<rparr>
      else \<lparr>st_code = STATUS_CODE_UNSET, st_message = []\<rparr>)"

definition spanKindFor :: "tf_span \<Rightarrow> span_kind" where
  "spanKindFor s = (if Category s = ''generation'' then SPAN_KIND_CLIENT else SPAN_KIND_INTERNAL)"

definition convertSpan :: "tf_span \<Rightarrow> (string + otlp_span)" where
  "convertSpan s =
     (case parseHex (TraceID s) 32 of
        None \<Rightarrow> Inl ''trace_id''
      | Some traceID \<Rightarrow>
          (case parseHex (SpanID s) 16 of
             None \<Rightarrow> Inl ''span_id''
           | Some spanID \<Rightarrow>
               Inr \<lparr>o_trace_id = traceID, o_span_id = spanID,
                 o_parent_span_id =
                   (case ParentSpanID s of
                      None \<Rightarrow> None
                    | Some p \<Rightarrow> if p = [] then None else parseHex p 16),
                 o_name = ToolName s, o_kind = spanKindFor s,
                 o_start = word_of_int (Ts s),
                 o_end = word_of_int (Ts s + uint (LatencyMs s) * 10 ^ 6),
                 o_attributes = buildAttributes s, o_status = buildStatus s\<rparr>))"

fun convert_all :: "tf_span list \<Rightarrow> otlp_span list" where
  "convert_all [] = []"
| "convert_all (s # spans) =
     (case convertSpan s of Inl _ \<Rightarrow> convert_all spans | Inr o1 \<Rightarrow> o1 # convert_all spans)"

definition ConvertToResourceSpans :: "tf_span list \<Rightarrow> resource_spans list" where
  "ConvertToResourceSpans spans =
     (if spans = [] then []
      else [\<lparr>rs_attributes = [strAttr ''service.name'' ''agent-trace-collector'',
                             strAttr ''traceforge.version'' ''0.1.0''],
             rs_scope_name = ''traceforge'', rs_scope_version = ''0.1.0'',
             rs_spans = convert_all spans\<rparr>])"

section \<open>The collector\<close>

text \<open>
  What the gRPC client does with a request (\<open>None\<close>: delivered, \<open>Some\<close>: an error), and what the
  handler leaves behind: the status and body of the reply, the counters and the requests sent.
\<close>

type_synonym otlp_client = "resource_spans list \<Rightarrow> string option"

record collector_reply =
  cr_status :: int
  cr_body :: string
  cr_stats :: stats
  cr_sent :: "resource_spans list list"

definition Export :: "otlp_client \<Rightarrow> tf_span list \<Rightarrow> string option" where
  "Export client spans = client (ConvertToResourceSpans spans)"

fun first_invalid :: "nat \<Rightarrow> tf_span list \<Rightarrow> (nat \<times> span_error) option" where
  "first_invalid i [] = None"
| "first_invalid i (s # spans) =
     (case ValidateSpan s of Some e \<Rightarrow> Some (i, e) | None \<Rightarrow> first_invalid (Suc i) spans)"

text \<open>\<open>decode_error\<close> is the text of the JSON error, which the model does not spell out.\<close>

definition span_handler ::
  "otlp_client \<Rightarrow> sampler \<Rightarrow> (string \<Rightarrow> int option) \<Rightarrow> string \<Rightarrow> payload \<Rightarrow> stats \<Rightarrow> collector_reply" where
  "span_handler client sampler parse_time decode_error body st =
     (case unmarshal (dec_slice (dec_struct (span_fields parse_time)) zero_span) body [] of
        None \<Rightarrow> \<lparr>cr_status = 400, cr_body = ''invalid JSON: '' @ decode_error @ ''\<newline>'',
                 cr_stats = st, cr_sent = []\<rparr>
      | Some spans \<Rightarrow>
          (case first_invalid 0 spans of
             Some (i, e) \<Rightarrow>
               \<lparr>cr_status = 400,
                cr_body = ''span['' @ itoa (int i) @ '']: '' @ span_error_text e @ ''\<newline>'',
                cr_stats = st, cr_sent = []\<rparr>
           | None \<Rightarrow>
               (let (filtered, st1) = ScrubAndFilter sampler spans (Some st);
                    st' = (case st1 of None \<Rightarrow> st | Some x \<Rightarrow> x)
                in if filtered = [] then \<lparr>cr_status = 200, cr_body = [], cr_stats = st', cr_sent = []\<rparr>
                   else case Export client filtered of
                     Some _ \<Rightarrow> \<lparr>cr_status = 500, cr_body = ''export error\<newline>'', cr_stats = st',
                                cr_sent = [ConvertToResourceSpans filtered]\<rparr>
                   | None \<Rightarrow> \<lparr>cr_status = 200, cr_body = [], cr_stats = st',
                              cr_sent = [ConvertToResourceSpans filtered]\<rparr>)))"

section \<open>Which spans are exported\<close>

definition is_hex :: "string \<Rightarrow> bool" where
  "is_hex s \<longleftrightarrow> list_all (\<lambda>c. hex_digit c \<noteq> None) s"

lemma DecodeString_iff: "DecodeString s \<noteq> None \<longleftrightarrow> even (length s) \<and> is_hex s"
  by (induction s rule: DecodeString.induct) (auto simp: is_hex_def split: option.splits)

lemma DecodeString_length: "DecodeString s = Some b \<Longrightarrow> length s = 2 * length b"
  by (induction s arbitrary: b rule: DecodeString.induct) (auto split: option.splits)

lemma parseHex_iff: "even n \<Longrightarrow> parseHex s n \<noteq> None \<longleftrightarrow> length s = n \<and> is_hex s"
  using DecodeString_iff [of s] by (auto simp: parseHex_def)

definition exportable :: "tf_span \<Rightarrow> bool" where
  "exportable s \<longleftrightarrow> length (TraceID s) = 32 \<and> is_hex (TraceID s) \<and> length (SpanID s) = 16 \<and> is_hex (SpanID s)"

lemma convertSpan_ok_iff: "(\<exists>x. convertSpan s = Inr x) \<longleftrightarrow> exportable s"
  using parseHex_iff [of 32 "TraceID s"] parseHex_iff [of 16 "SpanID s"]
  by (auto simp: convertSpan_def exportable_def split: option.splits)

lemma convert_all_eq:
  "convert_all spans = map (projr \<circ> convertSpan) (filter exportable spans)"
proof (induction spans)
  case (Cons s spans)
  then show ?case using convertSpan_ok_iff [of s] by (cases "convertSpan s") auto
qed simp

lemma build_metadata [simp]:
  "buildAttributes (s\<lparr>Metadata := m\<rparr>) = buildAttributes s"
  "buildStatus (s\<lparr>Metadata := m\<rparr>) = buildStatus s"
  "spanKindFor (s\<lparr>Metadata := m\<rparr>) = spanKindFor s"
  by (simp_all add: buildAttributes_def buildStatus_def spanKindFor_def split: option.split)

lemma convertSpan_Scrub [simp]: "convertSpan (Scrub s) = convertSpan s"
  by (simp add: Scrub_def convertSpan_def split: option.split)

lemma convert_all_Scrub [simp]: "convert_all (map Scrub spans) = convert_all spans"
  by (induction spans) (simp_all split: sum.splits)

lemma ConvertToResourceSpans_Scrub [simp]:
  "ConvertToResourceSpans (map Scrub spans) = ConvertToResourceSpans spans"
  by (simp add: ConvertToResourceSpans_def)

lemma first_invalid_None: "first_invalid i spans = None \<longleftrightarrow> (\<forall>s\<in>set spans. ValidateSpan s = None)"
  by (induction spans arbitrary: i) (auto split: option.splits)

definition decode_spans :: "(string \<Rightarrow> int option) \<Rightarrow> payload \<Rightarrow> tf_span list option" where
  "decode_spans parse_time body =
     unmarshal (dec_slice (dec_struct (span_fields parse_time)) zero_span) body []"

lemma handler_valid:
  assumes "decode_spans pt body = Some spans" "\<forall>s\<in>set spans. ValidateSpan s = None"
  defines "kept_spans \<equiv> filter survives spans"
  shows "span_handler client DefaultCombined pt err body st =
    \<lparr>cr_status = (if kept_spans = [] \<or> client (ConvertToResourceSpans kept_spans) = None then 200 else 500),
     cr_body = (if kept_spans = [] \<or> client (ConvertToResourceSpans kept_spans) = None then []
       else ''export error\<newline>''),
     cr_stats = st\<lparr>kept := kept st + of_nat (length kept_spans),
       dropped := dropped st + of_nat (length (filter (\<lambda>s. \<not> survives s) spans))\<rparr>,
     cr_sent = (if kept_spans = [] then [] else [ConvertToResourceSpans kept_spans])\<rparr>"
proof -
  have f: "first_invalid 0 spans = None" using assms(2) by (simp add: first_invalid_None)
  have s: "ScrubAndFilter DefaultCombined spans (Some st) =
      (map Scrub kept_spans, Some (st\<lparr>kept := kept st + of_nat (length kept_spans),
        dropped := dropped st + of_nat (length (filter (\<lambda>s. \<not> survives s) spans))\<rparr>))"
    by (simp add: ScrubAndFilter_def ScrubBatch_def FilterBatch_eq filter_map o_def
        DefaultCombined_Scrub kept_spans_def)
  show ?thesis
    using assms(1)
    by (cases "client (ConvertToResourceSpans kept_spans)")
      (simp_all add: span_handler_def decode_spans_def f s Export_def Let_def)
qed

text \<open>
  Observation.  The collector, for a body that decodes to \<open>spans\<close>.  One invalid span rejects the whole
  batch: status 400, nothing sent, the counters unchanged.  Otherwise one request is sent with
  the conversions of exactly the surviving spans whose ids are 32 and 16 hex digits, in order;
  the reply is 500 exactly when the export fails, and the counters count the batch either way.
\<close>

theorem collector_forwards_survivors:
  assumes "decode_spans pt body = Some spans"
  shows "let r = span_handler client DefaultCombined pt err body st;
             ks = filter survives spans
         in if list_ex (\<lambda>s. ValidateSpan s \<noteq> None) spans
            then cr_status r = 400 \<and> cr_sent r = [] \<and> cr_stats r = st
            else kept (cr_stats r) = kept st + of_nat (length ks) \<and>
                 kept (cr_stats r) + dropped (cr_stats r) = kept st + dropped st + of_nat (length spans) \<and>
                 (if ks = [] then cr_status r = 200 \<and> cr_sent r = []
                  else (\<exists>req. cr_sent r = [[req]] \<and>
                         rs_spans req = map (projr \<circ> convertSpan) (filter exportable ks) \<and>
                         cr_status r = (if client [req] = None then 200 else 500)))"
proof (cases "list_ex (\<lambda>s. ValidateSpan s \<noteq> None) spans")
  case True
  then have "first_invalid 0 spans \<noteq> None"
    unfolding first_invalid_None by (auto simp: list_ex_iff)
  then show ?thesis
    using assms True by (auto simp: span_handler_def decode_spans_def Let_def split: option.split)
next
  case False
  then have v: "\<forall>s\<in>set spans. ValidateSpan s = None" by (auto simp: list_ex_iff)
  have n: "(of_nat (length spans) :: u64) =
      of_nat (length (filter survives spans)) + of_nat (length (filter (\<lambda>s. \<not> survives s) spans))"
    using sum_length_filter_compl [of survives spans] by (metis of_nat_add)
  show ?thesis
  proof (cases "filter survives spans = []")
    case True
    then show ?thesis
      using False unfolding handler_valid [OF assms v] Let_def n by (simp add: algebra_simps)
  next
    case ne: False
    then obtain req where req: "ConvertToResourceSpans (filter survives spans) = [req]"
      "rs_spans req = map (projr \<circ> convertSpan) (filter exportable (filter survives spans))"
      by (simp add: ConvertToResourceSpans_def convert_all_eq del: filter_filter)
    with ne False show ?thesis
      unfolding handler_valid [OF assms v] Let_def n by (simp add: algebra_simps)
  qed
qed

text \<open>
  Observation.  Redaction does not reach what is exported: the request for the scrubbed spans is the
  request for the original ones, since the metadata is not part of it, and an error message is
  exported as it came in.
\<close>

theorem scrubbing_never_reaches_export:
  "ConvertToResourceSpans (fst (ScrubAndFilter DefaultCombined spans st)) =
     ConvertToResourceSpans (fst (FilterBatch DefaultCombined spans st)) \<and>
   (case (convertSpan s, ErrorMessage s) of
      (Inr x, Some m) \<Rightarrow> strAttr ''traceforge.error.message'' m \<in> set (o_attributes x)
    | _ \<Rightarrow> True)"
proof -
  have "map Scrub (filter (\<lambda>s. DefaultCombined (Scrub s) = Keep) spans) =
      map Scrub (filter (\<lambda>s. DefaultCombined s = Keep) spans)"
    by (simp add: DefaultCombined_Keep)
  then have "ConvertToResourceSpans (fst (ScrubAndFilter DefaultCombined spans st)) =
      ConvertToResourceSpans (map Scrub (filter (\<lambda>s. DefaultCombined s = Keep) spans))"
    by (simp add: ScrubAndFilter_def ScrubBatch_def FilterBatch_eq filter_map o_def)
  then show ?thesis
    by (auto simp: FilterBatch_eq convertSpan_def buildAttributes_def split: option.splits)
qed

lemma span_field_decoders:
  "field_decoder (span_fields pt) ''trace_id'' = Some (lens TraceID (\<lambda>x s. s\<lparr>TraceID := x\<rparr>) dec_string)"
  "field_decoder (span_fields pt) ''span_id'' = Some (lens SpanID (\<lambda>x s. s\<lparr>SpanID := x\<rparr>) dec_string)"
  "field_decoder (span_fields pt) ''tool_name'' = Some (lens ToolName (\<lambda>x s. s\<lparr>ToolName := x\<rparr>) dec_string)"
  "field_decoder (span_fields pt) ''status'' = Some (lens Status (\<lambda>x s. s\<lparr>Status := x\<rparr>) dec_string)"
  by (subst field_decoder_plain, simp add: plain_name_def, simp add: span_fields_def plain_name_def,
      simp add: span_fields_def)+

definition demo_body :: "string \<Rightarrow> string \<Rightarrow> payload" where
  "demo_body t s = Some (JArr [JObj [(''trace_id'', JStr t), (''span_id'', JStr s),
     (''tool_name'', JStr ''llm_call''), (''status'', JStr ''error'')]])"

lemma decode_demo_body:
  "decode_spans pt (demo_body t s) =
     Some [zero_span\<lparr>TraceID := t, SpanID := s, ToolName := ''llm_call'', Status := ''error''\<rparr>]"
  by (simp add: decode_spans_def demo_body_def unmarshal_def span_field_decoders lens_def zero_span_def)

lemma collector_forwards_survivors_witness:
  "\<exists>req. cr_sent (span_handler (\<lambda>_. None) DefaultCombined (\<lambda>_. None) []
       (demo_body ''4bf92f3577b34da6a3ce929d0e0e4736'' ''00f067aa0ba902b7'') \<lparr>kept = 0, dropped = 0\<rparr>) = [[req]] \<and>
     map o_name (rs_spans req) = [''llm_call'']"
proof -
  let ?s = "zero_span\<lparr>TraceID := ''4bf92f3577b34da6a3ce929d0e0e4736'', SpanID := ''00f067aa0ba902b7'',
    ToolName := ''llm_call'', Status := ''error''\<rparr>"
  have "ValidateSpan ?s = None" "survives ?s" "exportable ?s"
    by (simp_all add: ValidateSpan_def known_statuses_def survives_def exportable_def is_hex_def hex_digit_def)
  moreover from \<open>exportable ?s\<close> obtain x where x: "convertSpan ?s = Inr x"
    using convertSpan_ok_iff by blast
  then have "o_name x = ''llm_call''"
    by (auto simp: convertSpan_def split: option.splits)
  ultimately show ?thesis
    using collector_forwards_survivors [OF decode_demo_body [of "\<lambda>_. None" "''4bf92f3577b34da6a3ce929d0e0e4736''" "''00f067aa0ba902b7''"],
        of "\<lambda>_. None" "[]" "\<lparr>kept = 0, dropped = 0\<rparr>"] x
    by (auto simp: Let_def)
qed

text \<open>
  Observation.  Spans with ids in the UUID form that the schema documents (36 characters) pass validation
  and are counted as kept; the collector answers 200 and exports none of them.
\<close>

theorem uuid_spans_lost:
  assumes "decode_spans pt body = Some spans" "list_all (\<lambda>s. ValidateSpan s = None) spans"
    and "list_all (\<lambda>s. length (TraceID s) = 36 \<and> length (SpanID s) = 36) spans"
    and "\<And>req. client req = None"
  shows "cr_status (span_handler client DefaultCombined pt err body st) = 200 \<and>
    kept (cr_stats (span_handler client DefaultCombined pt err body st)) =
      kept st + of_nat (length (filter survives spans)) \<and>
    concat (map rs_spans (concat (cr_sent (span_handler client DefaultCombined pt err body st)))) = []"
proof -
  have v: "\<forall>s\<in>set spans. ValidateSpan s = None" using assms(2) by (simp add: list_all_iff)
  have "\<not> exportable s" if "s \<in> set spans" for s
    using assms(3) that by (simp add: list_all_iff exportable_def)
  then have "filter exportable (filter survives spans) = []"
    by (auto simp: filter_empty_conv)
  then show ?thesis
    by (simp add: handler_valid [OF assms(1) v] assms(4) ConvertToResourceSpans_def convert_all_eq
        del: filter_filter)
qed

lemma uuid_spans_lost_witness:
  "cr_status (span_handler (\<lambda>_. None) DefaultCombined (\<lambda>_. None) []
     (demo_body ''550e8400-e29b-41d4-a716-446655440000'' ''6ba7b810-9dad-11d1-80b4-00c04fd430c8'')
     \<lparr>kept = 0, dropped = 0\<rparr>) = 200"
  using uuid_spans_lost [OF decode_demo_body [of "\<lambda>_. None" "''550e8400-e29b-41d4-a716-446655440000''"
        "''6ba7b810-9dad-11d1-80b4-00c04fd430c8''"], of "\<lambda>_. None" "[]" "\<lparr>kept = 0, dropped = 0\<rparr>"]
  by (simp add: ValidateSpan_def known_statuses_def)

end
