(* ===== verification/Trace_Collector.thy ===== *)
theory Trace_Collector
  imports Trace_Export Go_Flag
begin

text \<open>
  The collector process of TraceForge (\<^verbatim>\<open>traceforge/cmd/collector/main.go\<close>): its settings, its three
  routes and a run over a sequence of requests.  The ingest handler itself is in \<open>Trace_Export\<close>.
  A float is printed with four decimals by the argument \<open>fixed\<close>.
\<close>

section \<open>The process\<close>

definition collector_getenv :: "environ \<Rightarrow> string \<Rightarrow> string \<Rightarrow> string" where
  "collector_getenv vars key fallback = (let v = Getenv vars key in if v \<noteq> [] then v else fallback)"

record collector_config =
  cc_otlp :: string
  cc_listen :: string

text \<open>\<open>None\<close> when no exporter can be made; the process then exits with code 1.\<close>

definition collector_start :: "environ \<Rightarrow> (string \<Rightarrow> bool) \<Rightarrow> collector_config option" where
  "collector_start vars exporter =
     (let otlp = collector_getenv vars ''OTEL_EXPORTER_OTLP_ENDPOINT'' ''localhost:4317'';
          listen = collector_getenv vars ''LISTEN_ADDR'' '':8080''
      in if exporter otlp then Some \<lparr>cc_otlp = otlp, cc_listen = listen\<rparr> else None)"

definition sampling_metrics :: "(real \<Rightarrow> string) \<Rightarrow> stats \<Rightarrow> string" where
  "sampling_metrics fixed st =
     ''traceforge_spans_kept_total '' @ itoa (uint (kept st)) @ ''\<newline>'' @
     ''traceforge_spans_dropped_total '' @ itoa (uint (dropped st)) @ ''\<newline>'' @
     ''traceforge_sampling_effective_rate '' @ fixed (EffectiveRate st) @ ''\<newline>''"

record collector_env =
  ce_client :: otlp_client
  ce_parse_time :: "string \<Rightarrow> int option"
  ce_decode_error :: "payload \<Rightarrow> string"
  ce_fixed :: "real \<Rightarrow> string"

record collector_req =
  cq_method :: string
  cq_path :: string
  cq_body :: payload

definition plain_reply :: "int \<Rightarrow> string \<Rightarrow> stats \<Rightarrow> collector_reply" where
  "plain_reply code body st = \<lparr>cr_status = code, cr_body = body, cr_stats = st, cr_sent = []\<rparr>"

text \<open>
  The mux with its three patterns: a path that is not clean is redirected, a pattern for \<^verbatim>\<open>GET\<close> serves
  \<^verbatim>\<open>HEAD\<close> too, and another method on a known path is refused by the mux.
\<close>

definition collector_mux :: "collector_env \<Rightarrow> collector_req \<Rightarrow> stats \<Rightarrow> collector_reply" where
  "collector_mux env r st =
     (let get = (cq_method r = ''GET'' \<or> cq_method r = ''HEAD'')
      in if \<not> clean_path (cq_path r) then plain_reply 301 [] st
         else if cq_path r = ''/v1/spans'' then
           (if cq_method r = ''POST''
            then span_handler (ce_client env) DefaultCombined (ce_parse_time env) (ce_decode_error env (cq_body r)) (cq_body r) st
            else plain_reply 405 ''Method Not Allowed\<newline>'' st)
         else if cq_path r = ''/healthz'' then
           (if get then plain_reply 200 [] st else plain_reply 405 ''Method Not Allowed\<newline>'' st)
         else if cq_path r = ''/metrics/sampling'' then
           (if get then plain_reply 200 (sampling_metrics (ce_fixed env) st) st
            else plain_reply 405 ''Method Not Allowed\<newline>'' st)
         else plain_reply 404 ''404 page not found\<newline>'' st)"

text \<open>The requests one after the other: the replies, the counters and everything sent downstream.\<close>

fun collector_run ::
  "collector_env \<Rightarrow> collector_req list \<Rightarrow> stats \<Rightarrow> collector_reply list \<times> stats \<times> resource_spans list list" where
  "collector_run env [] st = ([], st, [])"
| "collector_run env (r # rs) st =
     (let reply = collector_mux env r st;
          (replies, st', sent) = collector_run env rs (cr_stats reply)
      in (reply # replies, st', cr_sent reply @ sent))"

section \<open>What the collector accounts for\<close>

definition accepted_spans :: "collector_env \<Rightarrow> collector_req \<Rightarrow> tf_span list" where
  "accepted_spans env r =
     (if cq_method r = ''POST'' \<and> cq_path r = ''/v1/spans'' then
        (case decode_spans (ce_parse_time env) (cq_body r) of
           None \<Rightarrow> []
         | Some spans \<Rightarrow> if list_all (\<lambda>s. ValidateSpan s = None) spans then spans else [])
      else [])"

definition sent_spans :: "resource_spans list list \<Rightarrow> otlp_span list" where
  "sent_spans reqs = concat (map (\<lambda>req. concat (map rs_spans req)) reqs)"

lemma sent_spans_simps [simp]:
  "sent_spans [] = []" "sent_spans (a @ b) = sent_spans a @ sent_spans b" "sent_spans [req] = concat (map rs_spans req)"
  by (simp_all add: sent_spans_def)

lemma sent_ConvertToResourceSpans: "concat (map rs_spans (ConvertToResourceSpans spans)) = convert_all spans"
  by (simp add: ConvertToResourceSpans_def)

lemma collector_step:
  assumes "collector_mux env r st = reply" "accepted_spans env r = spans"
  shows "cr_stats reply = st\<lparr>kept := kept st + of_nat (length (filter survives spans)),
      dropped := dropped st + of_nat (length (filter (\<lambda>s. \<not> survives s) spans))\<rparr>"
    and "sent_spans (cr_sent reply) = convert_all (filter survives spans)"
proof -
  have "cr_stats reply = st\<lparr>kept := kept st + of_nat (length (filter survives spans)),
      dropped := dropped st + of_nat (length (filter (\<lambda>s. \<not> survives s) spans))\<rparr> \<and>
    sent_spans (cr_sent reply) = convert_all (filter survives spans)"
  proof (cases "cq_method r = ''POST'' \<and> cq_path r = ''/v1/spans''")
    case False
    then show ?thesis using assms by (auto simp: collector_mux_def accepted_spans_def plain_reply_def Let_def)
  next
    case True
    let ?err = "ce_decode_error env (cq_body r)"
    have "clean_path (cq_path r)" using True by (simp add: clean_path_def)
    then have mux: "reply = span_handler (ce_client env) DefaultCombined (ce_parse_time env) ?err (cq_body r) st"
      using assms(1) True by (simp add: collector_mux_def Let_def)
    show ?thesis
    proof (cases "decode_spans (ce_parse_time env) (cq_body r)")
      case None
      then show ?thesis using assms(2) True mux by (simp add: accepted_spans_def span_handler_def decode_spans_def)
    next
      case (Some all)
      show ?thesis
      proof (cases "\<forall>s\<in>set all. ValidateSpan s = None")
        case ok: True
        then have "spans = all" using assms(2) True Some by (simp add: accepted_spans_def list_all_iff)
        then show ?thesis using mux handler_valid [OF Some ok, of "ce_client env" ?err st]
          by (auto simp: sent_ConvertToResourceSpans)
      next
        case bad: False
        then have "spans = []" using assms(2) True Some by (auto simp: accepted_spans_def list_all_iff)
        moreover obtain i e where "first_invalid 0 all = Some (i, e)" using bad first_invalid_None [of 0 all] by auto
        ultimately show ?thesis using mux Some by (simp add: span_handler_def decode_spans_def)
      qed
    qed
  qed
  then show "cr_stats reply = st\<lparr>kept := kept st + of_nat (length (filter survives spans)),
      dropped := dropped st + of_nat (length (filter (\<lambda>s. \<not> survives s) spans))\<rparr>"
    and "sent_spans (cr_sent reply) = convert_all (filter survives spans)" by simp_all
qed

lemma convert_all_append: "convert_all (a @ b) = convert_all a @ convert_all b"
  by (simp add: convert_all_eq)

text \<open>
  C40.  Over any sequence of requests to any paths, whatever the downstream collector answers: the
  counters of the metrics page grow by exactly the sampled and the discarded spans of the accepted
  batches (modulo the 64 bits of a counter), and what was sent downstream is, in the order of arrival,
  the conversion of exactly the sampled spans with well-formed ids.  A batch is accepted when it is
  posted to the ingest path, decodes and has no invalid span.
\<close>

theorem collector_accounts:
  assumes "collector_run env rs st = (replies, st', sent)"
  shows "let spans = concat (map (accepted_spans env) rs) in
    kept st' = kept st + of_nat (length (filter survives spans)) \<and>
    kept st' + dropped st' = kept st + dropped st + of_nat (length spans) \<and>
    sent_spans sent = map (projr \<circ> convertSpan) (filter exportable (filter survives spans)) \<and>
    length replies = length rs"
proof -
  let ?spans = "\<lambda>rs. concat (map (accepted_spans env) rs)"
  have run: "kept st' = kept st + of_nat (length (filter survives (?spans rs))) \<and>
    dropped st' = dropped st + of_nat (length (filter (\<lambda>s. \<not> survives s) (?spans rs))) \<and>
    sent_spans sent = convert_all (filter survives (?spans rs)) \<and> length replies = length rs"
    using assms
  proof (induction rs arbitrary: st replies sent)
    case (Cons r rs)
    define reply where "reply = collector_mux env r st"
    obtain replies' sent' where rest: "collector_run env rs (cr_stats reply) = (replies', st', sent')"
      "replies = reply # replies'" "sent = cr_sent reply @ sent'"
      using Cons.prems by (auto simp: reply_def Let_def split: prod.splits)
    note step = collector_step [OF reply_def [symmetric] refl]
    from Cons.IH [OF rest(1)] rest(2,3) step show ?case by (simp add: convert_all_append algebra_simps)
  qed simp
  have "(of_nat (length (?spans rs)) :: u64) =
      of_nat (length (filter survives (?spans rs))) + of_nat (length (filter (\<lambda>s. \<not> survives s) (?spans rs)))"
    using sum_length_filter_compl [of survives "?spans rs"] by (metis of_nat_add)
  with run show ?thesis unfolding Let_def convert_all_eq by (simp add: algebra_simps)
qed

definition demo_collector :: collector_env where
  "demo_collector = \<lparr>ce_client = (\<lambda>_. Some ''unavailable''), ce_parse_time = (\<lambda>_. None), ce_decode_error = (\<lambda>_. []), ce_fixed = (\<lambda>_. ''x'')\<rparr>"

definition demo_requests :: "collector_req list" where
  "demo_requests =
     [\<lparr>cq_method = ''POST'', cq_path = ''/v1/spans'',
       cq_body = demo_body ''4bf92f3577b34da6a3ce929d0e0e4736'' ''00f067aa0ba902b7''\<rparr>,
      \<lparr>cq_method = ''POST'', cq_path = ''/v1/spans'', cq_body = demo_body [] []\<rparr>,
      \<lparr>cq_method = ''GET'', cq_path = ''/metrics/sampling'', cq_body = None\<rparr>]"

theorem collector_accounts_witness:
  "\<exists>replies st sent. collector_run demo_collector demo_requests \<lparr>kept = 0, dropped = 0\<rparr> = (replies, st, sent) \<and>
     kept st = 1 \<and> dropped st = 0 \<and> map o_name (sent_spans sent) = [''llm_call''] \<and> length replies = 3"
proof -
  let ?s = "zero_span\<lparr>TraceID := ''4bf92f3577b34da6a3ce929d0e0e4736'', SpanID := ''00f067aa0ba902b7'',
    ToolName := ''llm_call'', Status := ''error''\<rparr>"
  have s: "ValidateSpan ?s = None" "survives ?s" "exportable ?s"
    by (simp_all add: ValidateSpan_def known_statuses_def survives_def exportable_def is_hex_def hex_digit_def)
  have bad: "ValidateSpan (zero_span\<lparr>TraceID := [], SpanID := [], ToolName := ''llm_call'', Status := ''error''\<rparr>) \<noteq> None"
    by (simp add: ValidateSpan_def)
  obtain x where x: "convertSpan ?s = Inr x" using s(3) convertSpan_ok_iff by blast
  then have name: "o_name x = ''llm_call''" by (auto simp: convertSpan_def split: option.splits)
  obtain replies st sent where run: "collector_run demo_collector demo_requests \<lparr>kept = 0, dropped = 0\<rparr> = (replies, st, sent)"
    by (metis prod_cases3)
  have spans: "concat (map (accepted_spans demo_collector) demo_requests) = [?s]"
    using s(1) bad by (simp add: demo_requests_def accepted_spans_def decode_demo_body)
  have "length demo_requests = 3" by (simp add: demo_requests_def)
  with collector_accounts [OF run, unfolded spans Let_def] s(2,3) x name run show ?thesis by auto
qed

end
