(* ===== verification/Trace_Sdk.thy ===== *)
theory Trace_Sdk
  imports Trace_Export
begin

text \<open>
  The Go SDK (\<^verbatim>\<open>traceforge/sdk/go/traceforge\<close>): starting and ending spans, the W3C trace context
  and the emission of a finished span.

  A context carries the active span, if any.  The ids of \<^verbatim>\<open>uuid.New\<close> are the values of an argument
  \<open>new_id\<close>, one per call, counted by the caller.  The clock is an argument.  The active span is held
  by pointer; the ids that the children read from it are never changed after \<^verbatim>\<open>StartSpan\<close>.
\<close>

record sdk_span =
  sp_trace_id :: string
  sp_span_id :: string
  sp_parent_span_id :: string
  sp_tool_name :: string
  sp_start_ns :: int
  sp_end_ns :: int
  sp_latency_ms :: real
  sp_status :: string
  sp_error_msg :: string
  sp_model :: string
  sp_input_tokens :: int
  sp_output_tokens :: int
  sp_tags :: "(string \<times> string) list"

definition empty_span :: sdk_span where
  "empty_span = \<lparr>sp_trace_id = [], sp_span_id = [], sp_parent_span_id = [], sp_tool_name = [],
     sp_start_ns = 0, sp_end_ns = 0, sp_latency_ms = 0, sp_status = [], sp_error_msg = [],
     sp_model = [], sp_input_tokens = 0, sp_output_tokens = 0, sp_tags = []\<rparr>"

type_synonym sdk_ctx = "sdk_span option"

section \<open>Starting and ending spans\<close>

text \<open>\<open>n\<close> counts the ids drawn so far.\<close>

definition StartSpan ::
  "(nat \<Rightarrow> string) \<Rightarrow> int \<Rightarrow> sdk_ctx \<Rightarrow> string \<Rightarrow> nat \<Rightarrow> (sdk_ctx \<times> sdk_span) \<times> nat" where
  "StartSpan new_id now ctx toolName n =
     (let s = empty_span\<lparr>sp_span_id := new_id n, sp_tool_name := toolName, sp_start_ns := now\<rparr> in
      case ctx of
        Some parent \<Rightarrow>
          (let s' = s\<lparr>sp_trace_id := sp_trace_id parent, sp_parent_span_id := sp_span_id parent\<rparr>
           in ((Some s', s'), n + 1))
      | None \<Rightarrow> (let s' = s\<lparr>sp_trace_id := new_id (n + 1)\<rparr> in ((Some s', s'), n + 2)))"

definition finish :: "int \<Rightarrow> string \<Rightarrow> string \<Rightarrow> sdk_span \<Rightarrow> sdk_span" where
  "finish now status errMsg s =
     s\<lparr>sp_end_ns := now, sp_latency_ms := of_int (int64 (now - sp_start_ns s)) / 10 ^ 6,
       sp_status := status, sp_error_msg := errMsg\<rparr>"

text \<open>The JSON of a span: zero values of the fields with \<^verbatim>\<open>omitempty\<close> are left out.\<close>

definition enc_int_omit :: "string \<Rightarrow> int \<Rightarrow> (string \<times> json) list" where
  "enc_int_omit k i = (if i = 0 then [] else [(k, JInt i)])"

definition marshal_span :: "sdk_span \<Rightarrow> payload" where
  "marshal_span s = Some (JObj (
     [(''trace_id'', JStr (sp_trace_id s)), (''span_id'', JStr (sp_span_id s))] @
     enc_str_omit ''parent_span_id'' (sp_parent_span_id s) @
     [(''tool_name'', JStr (sp_tool_name s)), (''start_ns'', JInt (sp_start_ns s))] @
     enc_int_omit ''end_ns'' (sp_end_ns s) @
     (if sp_latency_ms s = 0 then [] else [(''latency_ms'', enc_float (sp_latency_ms s))]) @
     enc_str_omit ''status'' (sp_status s) @
     enc_str_omit ''error_msg'' (sp_error_msg s) @
     enc_str_omit ''model'' (sp_model s) @
     enc_int_omit ''input_tokens'' (sp_input_tokens s) @
     enc_int_omit ''output_tokens'' (sp_output_tokens s) @
     (if sp_tags s = [] then [] else [(''tags'', JObj (map (\<lambda>(k, v). (k, JStr v)) (sp_tags s)))])))"

text \<open>What a finished span sends: one HTTP body, and one record per Kafka configuration.\<close>

record emitted =
  em_http :: payload
  em_kafka :: "payload option"

definition kafkaBrokers :: "string \<Rightarrow> string list" where
  "kafkaBrokers raw = (if raw = [] then [] else split_on (CHR '','') raw)"

definition emit :: "string \<Rightarrow> sdk_span \<Rightarrow> emitted" where
  "emit brokers_env s =
     \<lparr>em_http = marshal_span s,
      em_kafka = (if kafkaBrokers brokers_env \<noteq> [] then Some (marshal_span s) else None)\<rparr>"

definition EndSpan :: "string \<Rightarrow> int \<Rightarrow> sdk_span \<Rightarrow> string \<Rightarrow> string option \<Rightarrow> sdk_span \<times> emitted" where
  "EndSpan brokers_env now s status err =
     (let s' = finish now status (case err of None \<Rightarrow> [] | Some e \<Rightarrow> e) s
      in (s', emit brokers_env s'))"

section \<open>Trace context\<close>

definition cleanID :: "string \<Rightarrow> string" where
  "cleanID i = filter (\<lambda>c. c \<noteq> CHR ''-'') i"

text \<open>The headers, as the value of \<^verbatim>\<open>traceparent\<close>; the empty string when it is absent.\<close>

definition InjectTraceContext :: "sdk_ctx \<Rightarrow> string \<Rightarrow> string" where
  "InjectTraceContext ctx header =
     (case ctx of
        None \<Rightarrow> header
      | Some s \<Rightarrow> ''00-'' @ cleanID (sp_trace_id s) @ ''-'' @ cleanID (sp_span_id s) @ ''-01'')"

definition ExtractTraceContext :: "sdk_ctx \<Rightarrow> string \<Rightarrow> sdk_ctx" where
  "ExtractTraceContext ctx raw =
     (if raw = [] then ctx
      else case split_on (CHR ''-'') raw of
        [v, traceID, parentSpanID, flags] \<Rightarrow>
          if v \<noteq> ''00'' then ctx
          else if (length traceID \<noteq> 32 \<or> length parentSpanID \<noteq> 16) \<and> length (cleanID traceID) \<noteq> 32
          then ctx
          else Some (empty_span\<lparr>sp_trace_id := traceID, sp_parent_span_id := parentSpanID\<rparr>)
      | _ \<Rightarrow> ctx)"

section \<open>Spans inside one process\<close>

lemma StartSpan_child:
  "StartSpan new_id now (Some p) t n = ((c, s), n') \<Longrightarrow>
     sp_trace_id s = sp_trace_id p \<and> sp_parent_span_id s = sp_span_id p \<and> c = Some s \<and> n' = n + 1"
  by (auto simp: StartSpan_def Let_def)

text \<open>A chain of nested spans, each started in the context of the one before.\<close>

fun nested :: "(nat \<Rightarrow> string) \<Rightarrow> int \<Rightarrow> sdk_ctx \<Rightarrow> string list \<Rightarrow> nat \<Rightarrow> sdk_span list" where
  "nested new_id now ctx [] n = []"
| "nested new_id now ctx (t # ts) n =
     (case StartSpan new_id now ctx t n of ((ctx', s), n') \<Rightarrow> s # nested new_id now ctx' ts n')"

lemma nested_child:
  "nested new_id now (Some p) ts n = ss \<Longrightarrow>
     list_all (\<lambda>s. sp_trace_id s = sp_trace_id p) ss \<and>
     map sp_parent_span_id ss = butlast (sp_span_id p # map sp_span_id ss)"
  by (induction ts arbitrary: p n ss) (auto simp: StartSpan_def Let_def list_all_iff)

section \<open>Spans across processes\<close>

lemma dash_cleanID [simp]: "CHR ''-'' \<notin> set (cleanID i)"
  by (simp add: cleanID_def)

lemma cleanID_idem [simp]: "cleanID (cleanID i) = cleanID i"
  by (simp add: cleanID_def)

lemma split_traceparent:
  "split_on (CHR ''-'') (InjectTraceContext (Some p) h) =
     [''00'', cleanID (sp_trace_id p), cleanID (sp_span_id p), ''01'']"
proof -
  have "InjectTraceContext (Some p) h =
      ''00'' @ CHR ''-'' # cleanID (sp_trace_id p) @ CHR ''-'' # cleanID (sp_span_id p) @ CHR ''-'' # ''01''"
    by (simp add: InjectTraceContext_def)
  then show ?thesis by (simp add: split_on_first split_on_plain del: append.simps)
qed

text \<open>
  Observation.  A span started in another process from the propagated trace context: it carries the trace
  id without its dashes, so its trace id differs from the caller's whenever that one has dashes
  (as every id of the SDK has), and its parent id is empty: the link to the caller is lost.
\<close>

theorem remote_child_detached:
  assumes "length (cleanID (sp_trace_id p)) = 32"
  shows "let child = snd (fst (StartSpan new_id now
               (ExtractTraceContext ctx (InjectTraceContext (Some p) header)) tool n))
         in sp_trace_id child = cleanID (sp_trace_id p) \<and> sp_parent_span_id child = [] \<and>
            (sp_trace_id child = sp_trace_id p \<longleftrightarrow> CHR ''-'' \<notin> set (sp_trace_id p))"
proof -
  have "InjectTraceContext (Some p) header \<noteq> []" by (simp add: InjectTraceContext_def)
  then have "ExtractTraceContext ctx (InjectTraceContext (Some p) header) =
      Some (empty_span\<lparr>sp_trace_id := cleanID (sp_trace_id p), sp_parent_span_id := cleanID (sp_span_id p)\<rparr>)"
    using assms by (simp add: ExtractTraceContext_def split_traceparent)
  moreover have "cleanID (sp_trace_id p) = sp_trace_id p \<longleftrightarrow> CHR ''-'' \<notin> set (sp_trace_id p)"
    by (auto simp: cleanID_def filter_id_conv)
  ultimately show ?thesis
    by (simp add: StartSpan_def Let_def empty_span_def)
qed

definition demo_id :: "nat \<Rightarrow> string" where
  "demo_id n = (if n = 0 then ''6ba7b810-9dad-11d1-80b4-00c04fd430c8''
     else ''550e8400-e29b-41d4-a716-446655440000'')"

lemma remote_child_detached_witness:
  "sp_parent_span_id (snd (fst (StartSpan demo_id 0 (ExtractTraceContext None
     (InjectTraceContext (Some (snd (fst (StartSpan demo_id 0 None ''root'' 0)))) [])) ''child'' 2))) = []"
proof -
  have "length (cleanID (sp_trace_id (snd (fst (StartSpan demo_id 0 None ''root'' 0))))) = 32"
    by (simp add: StartSpan_def Let_def demo_id_def cleanID_def)
  from remote_child_detached [OF this, of demo_id 0 None "[]" "''child''" 2]
  show ?thesis by (simp add: Let_def)
qed

text \<open>
  Observation.  Whatever a span, the body that the SDK posts for it is refused by the collector: it is one
  object where an array is expected, so the reply is 400, and nothing is counted or exported.
\<close>

theorem sdk_payload_rejected:
  "let r = span_handler client sampler pt err (em_http (snd (EndSpan brokers now s status e))) st
   in cr_status r = 400 \<and> cr_sent r = [] \<and> cr_stats r = st"
  by (simp add: EndSpan_def Let_def emit_def marshal_span_def span_handler_def unmarshal_def)

end
