(* ===== verification/Trace_Consumer.thy ===== *)
theory Trace_Consumer
  imports Go_Json
begin

text \<open>
  The Kafka to ClickHouse consumer of spans (\<^verbatim>\<open>traceforge/clickhouse/consumer/main.go\<close>): one claim
  with its buffer, the flushes by size, by timer and at the end, and the insertion of a batch
  inside a transaction.

  A claim sees a sequence of events: a message with its payload, a tick of the flush timer, the
  closing of the channel.  The database answers each batch by an outcome of the environment;
  a batch is stored when its transaction commits, and it may be stored when the commit reports an
  error.
\<close>

section \<open>Rows\<close>

record consumer_span =
  cs_trace_id :: string
  cs_span_id :: string
  cs_parent_span_id :: string
  cs_tool_name :: string
  cs_tool_kind :: string
  cs_model :: string
  cs_status :: string
  cs_start_time :: string
  cs_latency_ms :: int
  cs_input_tokens :: int
  cs_output_tokens :: int
  cs_total_tokens :: int
  cs_cost_usd :: real
  cs_error_message :: string
  cs_attributes :: "(string \<times> string) list"

definition zero_consumer_span :: consumer_span where
  "zero_consumer_span = \<lparr>cs_trace_id = [], cs_span_id = [], cs_parent_span_id = [],
     cs_tool_name = [], cs_tool_kind = [], cs_model = [], cs_status = [], cs_start_time = [],
     cs_latency_ms = 0, cs_input_tokens = 0, cs_output_tokens = 0, cs_total_tokens = 0,
     cs_cost_usd = 0, cs_error_message = [], cs_attributes = []\<rparr>"

text \<open>The map of attributes, kept as the list of its entries in the order of the keys.\<close>

fun dec_attr_entries :: "(string \<times> json) list \<Rightarrow> (string \<times> string) list \<Rightarrow> (string \<times> string) list option" where
  "dec_attr_entries [] m = Some m"
| "dec_attr_entries ((k, v) # kvs) m =
     (case dec_string v [] of None \<Rightarrow> None | Some x \<Rightarrow> dec_attr_entries kvs (put_entry k x m))"

fun dec_attrs :: "(string \<times> string) list decoder" where
  "dec_attrs JNull m = Some []"
| "dec_attrs (JObj kvs) m = dec_attr_entries kvs m"
| "dec_attrs _ m = None"

definition consumer_span_fields :: "consumer_span fields" where
  "consumer_span_fields =
     [(''trace_id'', lens cs_trace_id (\<lambda>x s. s\<lparr>cs_trace_id := x\<rparr>) dec_string),
      (''span_id'', lens cs_span_id (\<lambda>x s. s\<lparr>cs_span_id := x\<rparr>) dec_string),
      (''parent_span_id'', lens cs_parent_span_id (\<lambda>x s. s\<lparr>cs_parent_span_id := x\<rparr>) dec_string),
      (''tool_name'', lens cs_tool_name (\<lambda>x s. s\<lparr>cs_tool_name := x\<rparr>) dec_string),
      (''tool_kind'', lens cs_tool_kind (\<lambda>x s. s\<lparr>cs_tool_kind := x\<rparr>) dec_string),
      (''model'', lens cs_model (\<lambda>x s. s\<lparr>cs_model := x\<rparr>) dec_string),
      (''status'', lens cs_status (\<lambda>x s. s\<lparr>cs_status := x\<rparr>) dec_string),
      (''start_time'', lens cs_start_time (\<lambda>x s. s\<lparr>cs_start_time := x\<rparr>) dec_string),
      (''latency_ms'', lens cs_latency_ms (\<lambda>x s. s\<lparr>cs_latency_ms := x\<rparr>) dec_int64),
      (''input_tokens'', lens cs_input_tokens (\<lambda>x s. s\<lparr>cs_input_tokens := x\<rparr>) dec_int64),
      (''output_tokens'', lens cs_output_tokens (\<lambda>x s. s\<lparr>cs_output_tokens := x\<rparr>) dec_int64),
      (''total_tokens'', lens cs_total_tokens (\<lambda>x s. s\<lparr>cs_total_tokens := x\<rparr>) dec_int64),
      (''cost_usd'', lens cs_cost_usd (\<lambda>x s. s\<lparr>cs_cost_usd := x\<rparr>) dec_float),
      (''error_message'', lens cs_error_message (\<lambda>x s. s\<lparr>cs_error_message := x\<rparr>) dec_string),
      (''attributes'', lens cs_attributes (\<lambda>x s. s\<lparr>cs_attributes := x\<rparr>) dec_attrs)]"

definition unmarshal_consumer_span :: "payload \<Rightarrow> consumer_span option" where
  "unmarshal_consumer_span p = unmarshal (dec_struct consumer_span_fields) p zero_consumer_span"

text \<open>A row of \<^verbatim>\<open>agent_spans\<close>: the columns of the statement, the attributes as a JSON document.\<close>

type_synonym span_row = "consumer_span \<times> json"

definition row_of_span :: "consumer_span \<Rightarrow> span_row" where
  "row_of_span s = (s, JObj (map (\<lambda>(k, v). (k, JStr v)) (cs_attributes s)))"

section \<open>Inserting a batch\<close>

text \<open>
  \<open>ExecFails i\<close>: the statement fails on the row with index \<open>i\<close>, if there is one.  \<open>CommitFails applied\<close>: the
  commit reports an error, after or before it took effect.
\<close>

datatype tx_outcome = TxOk | BeginFails | PrepareFails | ExecFails nat | CommitFails bool

definition tx_fails :: "tx_outcome \<Rightarrow> nat \<Rightarrow> bool" where
  "tx_fails o1 rows =
     (case o1 of TxOk \<Rightarrow> False | ExecFails i \<Rightarrow> i < rows | _ \<Rightarrow> True)"

definition tx_stores :: "tx_outcome \<Rightarrow> nat \<Rightarrow> bool" where
  "tx_stores o1 rows = (case o1 of CommitFails applied \<Rightarrow> applied | _ \<Rightarrow> \<not> tx_fails o1 rows)"

text \<open>The error flag and the table.\<close>

definition insertBatch :: "tx_outcome \<Rightarrow> consumer_span list \<Rightarrow> span_row list \<Rightarrow> bool \<times> span_row list" where
  "insertBatch o1 spans table =
     (tx_fails o1 (length spans),
      if tx_stores o1 (length spans) then table @ map row_of_span spans else table)"

section \<open>A claim\<close>

record claim_state =
  cl_buf :: "consumer_span list"
  cl_marked :: nat
  cl_committed :: nat
  cl_table :: "span_row list"
  cl_batches :: nat
  cl_closed :: bool

definition claim_start :: "span_row list \<Rightarrow> claim_state" where
  "claim_start table = \<lparr>cl_buf = [], cl_marked = 0, cl_committed = 0, cl_table = table,
     cl_batches = 0, cl_closed = False\<rparr>"

definition batchSize :: nat where
  "batchSize = 500"

definition consumer_flush :: "(nat \<Rightarrow> tx_outcome) \<Rightarrow> claim_state \<Rightarrow> claim_state" where
  "consumer_flush db st =
     (if cl_buf st = [] then st
      else st\<lparr>cl_buf := [], cl_committed := cl_marked st,
              cl_table := snd (insertBatch (db (cl_batches st)) (cl_buf st) (cl_table st)),
              cl_batches := cl_batches st + 1\<rparr>)"

datatype claim_event = Message payload | Tick | Closed

text \<open>One turn of the loop; after the channel is closed the claim has returned.\<close>

fun claim_step :: "(nat \<Rightarrow> tx_outcome) \<Rightarrow> claim_event \<Rightarrow> claim_state \<Rightarrow> claim_state" where
  "claim_step db (Message p) st =
     (case unmarshal_consumer_span p of
        None \<Rightarrow> st\<lparr>cl_marked := cl_marked st + 1\<rparr>
      | Some s \<Rightarrow>
          (let st' = st\<lparr>cl_buf := cl_buf st @ [s], cl_marked := cl_marked st + 1\<rparr>
           in if batchSize \<le> length (cl_buf st') then consumer_flush db st' else st'))"
| "claim_step db Tick st = consumer_flush db st"
| "claim_step db Closed st = (consumer_flush db st)\<lparr>cl_closed := True\<rparr>"

fun ConsumeClaim :: "(nat \<Rightarrow> tx_outcome) \<Rightarrow> claim_event list \<Rightarrow> claim_state \<Rightarrow> claim_state" where
  "ConsumeClaim db [] st = st"
| "ConsumeClaim db (e # es) st =
     (if cl_closed st then st else ConsumeClaim db es (claim_step db e st))"

section \<open>What is stored\<close>

fun decoded :: "claim_event list \<Rightarrow> consumer_span list" where
  "decoded [] = []"
| "decoded (Message p # es) =
     (case unmarshal_consumer_span p of None \<Rightarrow> decoded es | Some s \<Rightarrow> s # decoded es)"
| "decoded (e # es) = decoded es"

abbreviation "is_message e \<equiv> (case e of Message _ \<Rightarrow> True | _ \<Rightarrow> False)"

lemma consumer_flush_ok:
  assumes "\<And>n. db n = TxOk"
  shows "cl_buf (consumer_flush db st) = []"
    "cl_table (consumer_flush db st) = cl_table st @ map row_of_span (cl_buf st)"
    "cl_marked (consumer_flush db st) = cl_marked st"
    "cl_closed (consumer_flush db st) = cl_closed st"
  using assms by (simp_all add: consumer_flush_def insertBatch_def tx_stores_def tx_fails_def)

lemma claim_step_ok:
  assumes "\<And>n. db n = TxOk"
  shows "cl_table (claim_step db e st) @ map row_of_span (cl_buf (claim_step db e st)) =
      cl_table st @ map row_of_span (cl_buf st @ decoded [e])"
    "cl_marked (claim_step db e st) = cl_marked st + (if is_message e then 1 else 0)"
    "cl_closed (claim_step db e st) \<longleftrightarrow> cl_closed st \<or> e = Closed"
  by (cases e; simp add: Let_def consumer_flush_ok [OF assms] split: option.splits)+

lemma claim_run_ok:
  assumes "\<And>n. db n = TxOk" "Closed \<notin> set es" "\<not> cl_closed st"
  shows "cl_table (ConsumeClaim db es st) @ map row_of_span (cl_buf (ConsumeClaim db es st)) =
      cl_table st @ map row_of_span (cl_buf st @ decoded es) \<and>
    cl_marked (ConsumeClaim db es st) = cl_marked st + length (filter is_message es) \<and>
    \<not> cl_closed (ConsumeClaim db es st)"
  using assms(2,3)
proof (induction es arbitrary: st)
  case (Cons e es)
  have d: "decoded (e # es) = decoded [e] @ decoded es" for e
    by (cases e) (simp_all split: option.split)
  have "\<not> cl_closed (claim_step db e st)" using Cons.prems by (auto simp: claim_step_ok [OF assms(1)])
  with Cons.IH [OF _ this] Cons.prems show ?case
    by (simp only: ConsumeClaim.simps d map_append append_assoc [symmetric]
        claim_step_ok [OF assms(1)] filter.simps) (auto split: claim_event.splits)
qed simp

lemma ConsumeClaim_append:
  "ConsumeClaim db (es @ es') st = ConsumeClaim db es' (ConsumeClaim db es st)"
proof (induction es arbitrary: st)
  case (Cons e es)
  then show ?case by (cases es') auto
qed simp

text \<open>
  Observation.  With a database that commits every transaction, a claim that ends by the closing of its
  channel has stored the spans of all the messages that decode, in the order of the messages and
  each one once, whatever the sizes and times of the flushes, and its buffer is empty.
\<close>

theorem claim_stores_in_order:
  assumes "\<And>n. db n = TxOk" "Closed \<notin> set es"
  shows "cl_table (ConsumeClaim db (es @ [Closed]) (claim_start table)) =
      table @ map row_of_span (decoded es) \<and>
    cl_buf (ConsumeClaim db (es @ [Closed]) (claim_start table)) = []"
proof -
  have "\<not> cl_closed (claim_start table)" by (simp add: claim_start_def)
  from claim_run_ok [OF assms this] show ?thesis
    by (simp add: ConsumeClaim_append consumer_flush_ok [OF assms(1)] claim_start_def)
qed

lemma claim_stores_in_order_witness:
  "cl_table (ConsumeClaim (\<lambda>_. TxOk) ([Message (Some JNull), Tick, Message None] @ [Closed]) (claim_start [])) =
     [row_of_span zero_consumer_span]"
  using claim_stores_in_order [of "\<lambda>_. TxOk" "[Message (Some JNull), Tick, Message None]" "[]"]
  by (simp add: unmarshal_consumer_span_def unmarshal_def)

section \<open>What is lost\<close>

text \<open>
  The batches a claim offers to the database: spans in order, cut at the batch size, at a tick and
  at the end.
\<close>

fun batches :: "consumer_span list \<Rightarrow> claim_event list \<Rightarrow> consumer_span list list" where
  "batches buf [] = []"
| "batches buf (Message p # es) =
     (case unmarshal_consumer_span p of
        None \<Rightarrow> batches buf es
      | Some s \<Rightarrow>
          if batchSize \<le> length (buf @ [s]) then (buf @ [s]) # batches [] es else batches (buf @ [s]) es)"
| "batches buf (Tick # es) = (if buf = [] then batches [] es else buf # batches [] es)"
| "batches buf (Closed # es) = (if buf = [] then [] else [buf])"

text \<open>The rows of the batches whose transaction took effect; \<open>n\<close> numbers the transactions.\<close>

fun stored_rows :: "(nat \<Rightarrow> tx_outcome) \<Rightarrow> nat \<Rightarrow> consumer_span list list \<Rightarrow> span_row list" where
  "stored_rows db n [] = []"
| "stored_rows db n (b # bs) =
     (if tx_stores (db n) (length b) then map row_of_span b else []) @ stored_rows db (Suc n) bs"

lemma consumer_flush_parts:
  "cl_buf (consumer_flush db st) = []" "cl_marked (consumer_flush db st) = cl_marked st"
  "cl_closed (consumer_flush db st) = cl_closed st"
  "cl_committed (consumer_flush db st) = (if cl_buf st = [] then cl_committed st else cl_marked st)"
  "cl_batches (consumer_flush db st) = cl_batches st + (if cl_buf st = [] then 0 else 1)"
  "cl_table (consumer_flush db st) =
     cl_table st @ stored_rows db (cl_batches st) (if cl_buf st = [] then [] else [cl_buf st])"
  by (simp_all add: consumer_flush_def insertBatch_def)

lemma ConsumeClaim_closed: "cl_closed st \<Longrightarrow> ConsumeClaim db es st = st"
  by (cases es) simp_all

lemma ConsumeClaim_table:
  "\<not> cl_closed st \<Longrightarrow>
     cl_table (ConsumeClaim db es st) = cl_table st @ stored_rows db (cl_batches st) (batches (cl_buf st) es)"
proof (induction es arbitrary: st)
  case (Cons e es)
  show ?case
  proof (cases e)
    case (Message p)
    then show ?thesis
      using Cons by (cases "unmarshal_consumer_span p") (simp_all add: Let_def consumer_flush_parts)
  next
    case Tick
    then show ?thesis using Cons by (simp add: consumer_flush_parts)
  next
    case Closed
    then show ?thesis using Cons.prems by (simp add: ConsumeClaim_closed consumer_flush_parts)
  qed
qed simp

lemma batches_decoded: "Closed \<notin> set es \<Longrightarrow> concat (batches buf (es @ [Closed])) = buf @ decoded es"
proof (induction es arbitrary: buf)
  case (Cons e es)
  then show ?case by (cases e) (auto split: option.splits)
qed simp

text \<open>Offsets: what is buffered is committed at the latest when the claim ends, and never taken back.\<close>

lemma committed_mono:
  "cl_committed st \<le> cl_marked st \<Longrightarrow> cl_committed st \<le> cl_committed (ConsumeClaim db es st)"
proof (induction es arbitrary: st)
  case (Cons e es)
  have "cl_committed st \<le> cl_committed (claim_step db e st)" "cl_committed (claim_step db e st) \<le> cl_marked (claim_step db e st)"
    using Cons.prems by (cases e; auto simp: Let_def consumer_flush_parts split: option.splits)+
  then show ?case using Cons.IH [of "claim_step db e st"] by auto
qed simp

lemma committed_le_marked:
  "cl_committed st \<le> cl_marked st \<Longrightarrow> cl_committed (ConsumeClaim db es st) \<le> cl_marked (ConsumeClaim db es st)"
proof (induction es arbitrary: st)
  case (Cons e es)
  have "cl_committed (claim_step db e st) \<le> cl_marked (claim_step db e st)"
    using Cons.prems by (cases e) (auto simp: Let_def consumer_flush_parts split: option.splits)
  then show ?case using Cons by auto
qed simp

lemma marked_counts:
  "Closed \<notin> set es \<Longrightarrow> \<not> cl_closed st \<Longrightarrow>
     cl_marked (ConsumeClaim db es st) = cl_marked st + length (filter is_message es) \<and> \<not> cl_closed (ConsumeClaim db es st)"
proof (induction es arbitrary: st)
  case (Cons e es)
  have "cl_marked (claim_step db e st) = cl_marked st + (if is_message e then 1 else 0)" "\<not> cl_closed (claim_step db e st)"
    using Cons.prems by (cases e; auto simp: Let_def consumer_flush_parts split: option.splits)+
  then show ?case using Cons.IH [of "claim_step db e st"] Cons.prems by auto
qed simp

lemma claim_ends_empty:
  assumes "Closed \<notin> set es" "\<not> cl_closed st"
  shows "cl_buf (ConsumeClaim db (es @ [Closed]) st) = []"
  using marked_counts [OF assms, of db] by (simp add: ConsumeClaim_append consumer_flush_parts)

lemma buffered_committed:
  assumes "cl_buf st \<noteq> []" "Closed \<notin> set es" "\<not> cl_closed st" "cl_committed st \<le> cl_marked st"
  shows "cl_marked st \<le> cl_committed (ConsumeClaim db (es @ [Closed]) st)"
  using assms
proof (induction es arbitrary: st)
  case Nil
  then show ?case by (simp add: consumer_flush_parts)
next
  case (Cons e es)
  let ?st = "claim_step db e st"
  have run: "ConsumeClaim db ((e # es) @ [Closed]) st = ConsumeClaim db (es @ [Closed]) ?st" using Cons.prems by simp
  have ok: "cl_marked st \<le> cl_marked ?st" "cl_committed ?st \<le> cl_marked ?st" "\<not> cl_closed ?st"
    "cl_buf ?st = [] \<Longrightarrow> cl_committed ?st = cl_marked ?st"
    using Cons.prems by (cases e; auto simp: Let_def consumer_flush_parts split: option.splits if_splits)+
  show ?case
  proof (cases "cl_buf ?st = []")
    case True
    then show ?thesis using ok committed_mono [OF ok(2), of db "es @ [Closed]"] unfolding run by simp
  next
    case False
    then show ?thesis using Cons.IH [OF False _ ok(3,2)] Cons.prems ok(1) unfolding run by simp
  qed
qed

lemma decoded_committed:
  assumes "Closed \<notin> set (xs @ Message p # ys)" "unmarshal_consumer_span p = Some s"
  shows "length (filter is_message xs) < cl_committed (ConsumeClaim db (xs @ Message p # ys @ [Closed]) (claim_start table))"
proof -
  define st where "st = ConsumeClaim db xs (claim_start table)"
  have st: "cl_marked st = length (filter is_message xs)" "\<not> cl_closed st" "cl_committed st \<le> cl_marked st"
    using marked_counts [of xs "claim_start table" db] committed_le_marked [of "claim_start table" db xs] assms(1)
    by (simp_all add: st_def claim_start_def)
  let ?st = "claim_step db (Message p) st"
  have run: "ConsumeClaim db (xs @ Message p # ys @ [Closed]) (claim_start table) = ConsumeClaim db (ys @ [Closed]) ?st"
    using st(2) by (simp add: ConsumeClaim_append [of db xs] flip: st_def)
  have ok: "cl_marked ?st = cl_marked st + 1" "\<not> cl_closed ?st" "cl_committed ?st \<le> cl_marked ?st"
    "cl_buf ?st = [] \<Longrightarrow> cl_committed ?st = cl_marked ?st"
    using assms(2) st by (simp_all add: Let_def consumer_flush_parts split: if_splits)
  have "cl_marked ?st \<le> cl_committed (ConsumeClaim db (ys @ [Closed]) ?st)"
  proof (cases "cl_buf ?st = []")
    case True
    then show ?thesis using ok(4) committed_mono [OF ok(3), of db "ys @ [Closed]"] by simp
  next
    case False
    then show ?thesis using buffered_committed [OF False _ ok(2,3)] assms(1) by simp
  qed
  then show ?thesis unfolding run using ok(1) st(1) by simp
qed

text \<open>
  C33.  A refused insert loses its spans.  Whatever the database does with each transaction, at begin,
  prepare, any row or commit: a claim that ends by the closing of its channel has offered every batch
  to the database once, so the table has grown by exactly the batches whose transaction took effect,
  in order, also when later ones succeed; nothing stays in the buffer for another attempt; and the
  offset of every message whose span decoded is committed, so that none is read again.
\<close>

theorem insert_errors_lose_spans:
  assumes "Closed \<notin> set es"
  shows "let r = ConsumeClaim db (es @ [Closed]) (claim_start table); bs = batches [] (es @ [Closed])
    in concat bs = decoded es \<and> cl_table r = table @ stored_rows db 0 bs \<and> cl_buf r = [] \<and>
       (\<forall>xs p ys s. es = xs @ Message p # ys \<longrightarrow> unmarshal_consumer_span p = Some s \<longrightarrow>
          length (filter is_message xs) < cl_committed r)"
proof -
  have open0: "\<not> cl_closed (claim_start table)" by (simp add: claim_start_def)
  let ?r = "ConsumeClaim db (es @ [Closed]) (claim_start table)"
  have "length (filter is_message xs) < cl_committed ?r"
    if "es = xs @ Message p # ys" "unmarshal_consumer_span p = Some s" for xs p ys s
    using decoded_committed [of xs p ys s db table] assms that by simp
  moreover have "cl_table ?r = table @ stored_rows db 0 (batches [] (es @ [Closed]))"
    using ConsumeClaim_table [OF open0, of db "es @ [Closed]"] by (simp add: claim_start_def)
  moreover have "concat (batches [] (es @ [Closed])) = decoded es"
    using batches_decoded [OF assms, of "[]"] by simp
  ultimately show ?thesis using claim_ends_empty [OF assms open0, of db] unfolding Let_def by blast
qed

text \<open>Two batches, the first refused at its row, the second stored: only the second is in the table.\<close>

lemma insert_errors_lose_spans_witness:
  "let r = ConsumeClaim (\<lambda>n. if n = 0 then ExecFails 0 else TxOk)
        ([Message (Some JNull), Tick, Message (Some (JObj []))] @ [Closed]) (claim_start [])
   in cl_table r = [row_of_span zero_consumer_span] \<and> cl_buf r = [] \<and> 0 < cl_committed r \<and> 1 < cl_committed r"
proof -
  let ?es = "[Message (Some JNull), Tick, Message (Some (JObj []))]"
  have u: "unmarshal_consumer_span (Some JNull) = Some zero_consumer_span"
    "unmarshal_consumer_span (Some (JObj [])) = Some zero_consumer_span"
    by (simp_all add: unmarshal_consumer_span_def unmarshal_def)
  have split: "?es = [] @ Message (Some JNull) # [Tick, Message (Some (JObj []))]"
    "?es = [Message (Some JNull), Tick] @ Message (Some (JObj [])) # []" by simp_all
  have "Closed \<notin> set ?es" by simp
  note t = insert_errors_lose_spans [OF this, of "\<lambda>n. if n = 0 then ExecFails 0 else TxOk" "[]", unfolded Let_def]
  from t show ?thesis
    using t [THEN conjunct2, THEN conjunct2, THEN conjunct2, rule_format, OF split(1) u(1)]
      t [THEN conjunct2, THEN conjunct2, THEN conjunct2, rule_format, OF split(2) u(2)]
    by (simp add: Let_def u batchSize_def tx_stores_def tx_fails_def)
qed

end
