(* ===== verification/Trace_Pipeline.thy ===== *)
theory Trace_Pipeline
  imports Trace_Sdk Trace_Consumer Go_Flag
begin

text \<open>
  The path of a span from the Go SDK over Kafka to ClickHouse: the sending half of the SDK
  (\<^verbatim>\<open>traceforge/sdk/go/traceforge/emit.go\<close>), the process of the consumer
  (\<^verbatim>\<open>traceforge/clickhouse/consumer/main.go\<close>), and what the consumer makes of the spans of the SDK.
\<close>

section \<open>Sending\<close>

definition collectorURL :: "environ \<Rightarrow> string" where
  "collectorURL vars = (let u = Getenv vars ''TRACEFORGE_COLLECTOR_URL'' in if u = [] then ''http://localhost:8080/v1/spans'' else u)"

definition kafkaTopic :: "environ \<Rightarrow> string" where
  "kafkaTopic vars = (let t = Getenv vars ''TRACEFORGE_KAFKA_TOPIC'' in if t = [] then ''agent-spans'' else t)"

text \<open>
  The process of an agent: whether the Kafka client was asked for, whether there is one, and what was
  posted and produced with its destination.
\<close>

record sdk_process =
  pr_once :: bool
  pr_client :: bool
  pr_posted :: "(string \<times> payload) list"
  pr_produced :: "(string \<times> payload) list"

text \<open>
  The network: whether a post arrives, whether a Kafka client can be made, and whether a record
  arrives; numbered by what has arrived before.
\<close>

record sdk_network =
  nw_post :: "nat \<Rightarrow> bool"
  nw_client :: "string list \<Rightarrow> bool"
  nw_produce :: "nat \<Rightarrow> bool"

definition sendHTTP :: "sdk_network \<Rightarrow> environ \<Rightarrow> payload \<Rightarrow> sdk_process \<Rightarrow> sdk_process" where
  "sendHTTP net vars p pr =
     (if nw_post net (length (pr_posted pr)) then pr\<lparr>pr_posted := pr_posted pr @ [(collectorURL vars, p)]\<rparr> else pr)"

definition sendKafka :: "sdk_network \<Rightarrow> environ \<Rightarrow> string list \<Rightarrow> payload \<Rightarrow> sdk_process \<Rightarrow> sdk_process" where
  "sendKafka net vars brokers p pr =
     (let pr1 = (if pr_once pr then pr else pr\<lparr>pr_once := True, pr_client := nw_client net brokers\<rparr>)
      in if \<not> pr_client pr1 then pr1
         else if nw_produce net (length (pr_produced pr1)) then pr1\<lparr>pr_produced := pr_produced pr1 @ [(kafkaTopic vars, p)]\<rparr>
         else pr1)"

text \<open>The two sends of \<^verbatim>\<open>emit\<close> touch different parts of the process, so their order does not matter.\<close>

definition send_emitted :: "sdk_network \<Rightarrow> environ \<Rightarrow> emitted \<Rightarrow> sdk_process \<Rightarrow> sdk_process" where
  "send_emitted net vars e pr =
     (let pr1 = sendHTTP net vars (em_http e) pr
      in case em_kafka e of
           None \<Rightarrow> pr1
         | Some p \<Rightarrow> sendKafka net vars (kafkaBrokers (Getenv vars ''TRACEFORGE_KAFKA_BROKERS'')) p pr1)"

section \<open>The consumer process\<close>

record span_consumer_config =
  sc_brokers :: string
  sc_topic :: string
  sc_dsn :: string

definition span_envOrDefault :: "environ \<Rightarrow> string \<Rightarrow> string \<Rightarrow> string" where
  "span_envOrDefault vars key dflt = (let v = Getenv vars key in if v \<noteq> [] then v else dflt)"

text \<open>\<open>None\<close> when the database or the group cannot be opened; the process then exits with code 1.\<close>

definition span_consumer_start :: "environ \<Rightarrow> (string \<Rightarrow> bool) \<Rightarrow> (string list \<Rightarrow> bool) \<Rightarrow> span_consumer_config option" where
  "span_consumer_start vars open_db join_group =
     (let brokers = span_envOrDefault vars ''TRACEFORGE_KAFKA_BROKERS'' ''localhost:9092'';
          topic = span_envOrDefault vars ''TRACEFORGE_KAFKA_TOPIC'' ''agent-spans'';
          dsn = span_envOrDefault vars ''TRACEFORGE_CLICKHOUSE_DSN'' ''clickhouse://localhost:9000/default''
      in if \<not> open_db dsn then None
         else if \<not> join_group [brokers] then None
         else Some \<lparr>sc_brokers = brokers, sc_topic = topic, sc_dsn = dsn\<rparr>)"

text \<open>The loop over the sessions of the group, each with one claim; the handler keeps its buffer.\<close>

definition consume_sessions :: "(nat \<Rightarrow> tx_outcome) \<Rightarrow> claim_event list list \<Rightarrow> claim_state \<Rightarrow> claim_state" where
  "consume_sessions db sessions st = fold (\<lambda>es st. ConsumeClaim db es (st\<lparr>cl_closed := False\<rparr>)) sessions st"

section \<open>What the consumer reads\<close>

lemma consumer_span_plain: "list_all plain_name (map fst consumer_span_fields)"
  by (simp add: consumer_span_fields_def plain_name_def)

lemma consumer_span_lookup:
  "field_decoder consumer_span_fields ''trace_id'' = Some (lens cs_trace_id (\<lambda>x s. s\<lparr>cs_trace_id := x\<rparr>) dec_string)"
  "field_decoder consumer_span_fields ''span_id'' = Some (lens cs_span_id (\<lambda>x s. s\<lparr>cs_span_id := x\<rparr>) dec_string)"
  "field_decoder consumer_span_fields ''parent_span_id'' = Some (lens cs_parent_span_id (\<lambda>x s. s\<lparr>cs_parent_span_id := x\<rparr>) dec_string)"
  "field_decoder consumer_span_fields ''tool_name'' = Some (lens cs_tool_name (\<lambda>x s. s\<lparr>cs_tool_name := x\<rparr>) dec_string)"
  "field_decoder consumer_span_fields ''start_ns'' = None"
  "field_decoder consumer_span_fields ''end_ns'' = None"
  "field_decoder consumer_span_fields ''latency_ms'' = Some (lens cs_latency_ms (\<lambda>x s. s\<lparr>cs_latency_ms := x\<rparr>) dec_int64)"
  "field_decoder consumer_span_fields ''status'' = Some (lens cs_status (\<lambda>x s. s\<lparr>cs_status := x\<rparr>) dec_string)"
  "field_decoder consumer_span_fields ''error_msg'' = None"
  "field_decoder consumer_span_fields ''model'' = Some (lens cs_model (\<lambda>x s. s\<lparr>cs_model := x\<rparr>) dec_string)"
  "field_decoder consumer_span_fields ''input_tokens'' = Some (lens cs_input_tokens (\<lambda>x s. s\<lparr>cs_input_tokens := x\<rparr>) dec_int64)"
  "field_decoder consumer_span_fields ''output_tokens'' = Some (lens cs_output_tokens (\<lambda>x s. s\<lparr>cs_output_tokens := x\<rparr>) dec_int64)"
  "field_decoder consumer_span_fields ''tags'' = None"
  by (subst field_decoder_plain, simp add: plain_name_def, rule consumer_span_plain, simp add: consumer_span_fields_def)+

text \<open>The span of the SDK as the consumer stores it.\<close>

definition consumed_span :: "sdk_span \<Rightarrow> int \<Rightarrow> consumer_span" where
  "consumed_span s latency =
     zero_consumer_span\<lparr>cs_trace_id := sp_trace_id s, cs_span_id := sp_span_id s, cs_parent_span_id := sp_parent_span_id s,
       cs_tool_name := sp_tool_name s, cs_model := sp_model s, cs_status := sp_status s, cs_latency_ms := latency,
       cs_input_tokens := sp_input_tokens s, cs_output_tokens := sp_output_tokens s\<rparr>"

lemma enc_latency:
  assumes "\<bar>i\<bar> < 10 ^ 21"
  shows "enc_float (of_int i / 10 ^ 6) = (if 10 ^ 6 dvd i then JInt (i div 10 ^ 6) else JFlt (of_int i / 10 ^ 6))"
proof (cases "10 ^ 6 dvd i")
  case True
  then obtain k where k: "i = 10 ^ 6 * k" by blast
  then have q: "(of_int i / 10 ^ 6 :: real) = of_int k" "i div 10 ^ 6 = k" by simp_all
  have "\<bar>k\<bar> < 10 ^ 21" using assms k by simp
  then have "of_int \<bar>k\<bar> < (of_int (10 ^ 21) :: real)" by (simp only: of_int_less_iff)
  then have "\<bar>of_int k :: real\<bar> < 10 ^ 21" by simp
  then show ?thesis using True q by (simp add: enc_float_def)
next
  case False
  have "(of_int i / 10 ^ 6 :: real) \<noteq> of_int m" for m
  proof
    assume "(of_int i / 10 ^ 6 :: real) = of_int m"
    then have "(of_int i :: real) = of_int (m * 10 ^ 6)" by (simp add: field_simps)
    then have "i = m * 10 ^ 6" by (simp only: of_int_eq_iff)
    with False show False by simp
  qed
  then show ?thesis using False by (simp add: enc_float_def)
qed

lemma dec_entries_fails:
  "(k, v) \<in> set kvs \<Longrightarrow> field_decoder fs k = Some d \<Longrightarrow> (\<And>s. d v s = None) \<Longrightarrow> dec_entries fs kvs s = None"
  by (induction fs kvs s rule: dec_entries.induct) (auto split: option.splits)

lemma consumer_reads_span:
  assumes "sp_latency_ms s = of_int i / 10 ^ 6" "- (2 ^ 63) \<le> i" "i < 2 ^ 63"
    and "- (2 ^ 63) \<le> sp_input_tokens s" "sp_input_tokens s < 2 ^ 63" "- (2 ^ 63) \<le> sp_output_tokens s" "sp_output_tokens s < 2 ^ 63"
  shows "unmarshal_consumer_span (marshal_span s) = (if 10 ^ 6 dvd i then Some (consumed_span s (i div 10 ^ 6)) else None)"
proof -
  have enc: "enc_float (sp_latency_ms s) = (if 10 ^ 6 dvd i then JInt (i div 10 ^ 6) else JFlt (of_int i / 10 ^ 6))"
    unfolding assms(1) by (rule enc_latency) (use assms(2,3) in simp)
  show ?thesis
  proof (cases "10 ^ 6 dvd i")
    case False
    then have "i \<noteq> 0" by auto
    then have nz: "sp_latency_ms s \<noteq> 0" using assms(1) by simp
    then obtain kvs where kvs: "marshal_span s = Some (JObj kvs)" "(''latency_ms'', JFlt (of_int i / 10 ^ 6)) \<in> set kvs"
      using False enc by (simp add: marshal_span_def)
    have "dec_entries consumer_span_fields kvs zero_consumer_span = None"
      by (rule dec_entries_fails [OF kvs(2) consumer_span_lookup(7)]) (simp add: lens_def)
    then show ?thesis using False kvs(1) by (simp add: unmarshal_consumer_span_def unmarshal_def)
  next
    case True
    define k where "k = i div 10 ^ 6"
    have k: "i = 10 ^ 6 * k" using True by (simp add: k_def)
    have range: "- (2 ^ 63) \<le> k" "k < 2 ^ 63" using assms(2,3) k by simp_all
    have zero: "sp_latency_ms s = 0 \<longleftrightarrow> k = 0" using assms(1) k by simp
    have encs: "sp_latency_ms s \<noteq> 0 \<Longrightarrow> enc_float (sp_latency_ms s) = JInt k" using enc True by (simp add: k_def)
    have "i div 10 ^ 6 = k" by (simp add: k_def)
    then show ?thesis
      using True range zero encs assms(4-7)
      by (simp add: marshal_span_def unmarshal_consumer_span_def unmarshal_def dec_entries_append enc_str_omit_def enc_int_omit_def
          consumer_span_lookup lens_def consumed_span_def zero_consumer_span_def)
  qed
qed

text \<open>
  Observation.  What becomes of a span that ends while Kafka is configured.  Its record is the same document as
  the body that is posted.  A consumer whose database is healthy stores it, with its ids, names,
  status and tokens, only if the span took a whole number of milliseconds; any other span is marked as
  consumed and lost.  In what is stored the start time, the error message and the tags are missing.
\<close>

theorem sdk_spans_need_whole_milliseconds:
  assumes "kafkaBrokers brokers_env \<noteq> []" "EndSpan brokers_env now s status err = (s', sent)"
    and "- (2 ^ 63) \<le> sp_input_tokens s" "sp_input_tokens s < 2 ^ 63" "- (2 ^ 63) \<le> sp_output_tokens s" "sp_output_tokens s < 2 ^ 63"
    and "\<And>n. db n = TxOk" "int64 (now - sp_start_ns s) = d"
  shows "em_kafka sent = Some (em_http sent) \<and>
    (let st = ConsumeClaim db [Message (em_http sent), Closed] (claim_start table) in
     cl_committed st = (if 10 ^ 6 dvd d then 1 else 0) \<and> cl_marked st = 1 \<and>
     cl_table st = table @ (if 10 ^ 6 dvd d then [row_of_span (consumed_span s' (d div 10 ^ 6))] else [])) \<and>
    (\<forall>l. cs_start_time (consumed_span s' l) = [] \<and> cs_error_message (consumed_span s' l) = [] \<and> cs_attributes (consumed_span s' l) = [])"
proof -
  have s': "s' = finish now status (case err of None \<Rightarrow> [] | Some e \<Rightarrow> e) s" "sent = emit brokers_env s'"
    using assms(2) by (auto simp: EndSpan_def Let_def)
  have sent: "em_kafka sent = Some (em_http sent)" "em_http sent = marshal_span s'" using assms(1) s'(2) by (simp_all add: emit_def)
  have read: "unmarshal_consumer_span (em_http sent) = (if 10 ^ 6 dvd d then Some (consumed_span s' (d div 10 ^ 6)) else None)"
    unfolding sent(2)
    by (rule consumer_reads_span) (use assms(3-6) int64_range [of "now - sp_start_ns s"] assms(8) s'(1) in \<open>simp_all add: finish_def\<close>)
  have "let st = ConsumeClaim db [Message (em_http sent), Closed] (claim_start table) in
     cl_committed st = (if 10 ^ 6 dvd d then 1 else 0) \<and> cl_marked st = 1 \<and>
     cl_table st = table @ (if 10 ^ 6 dvd d then [row_of_span (consumed_span s' (d div 10 ^ 6))] else [])"
    using assms(7) by (simp add: read claim_start_def consumer_flush_def batchSize_def insertBatch_def tx_fails_def tx_stores_def Let_def)
  then show ?thesis using sent(1) by (simp add: consumed_span_def zero_consumer_span_def)
qed

definition demo_sdk_span :: sdk_span where
  "demo_sdk_span = empty_span\<lparr>sp_trace_id := ''t'', sp_span_id := ''s'', sp_tool_name := ''search'', sp_start_ns := 1000\<rparr>"

theorem sdk_spans_need_whole_milliseconds_witness:
  "\<exists>s' sent. EndSpan ''kafka:9092'' 2501000 demo_sdk_span ''ok'' None = (s', sent) \<and>
     cl_marked (ConsumeClaim (\<lambda>_. TxOk) [Message (em_http sent), Closed] (claim_start [])) = 1 \<and>
     cl_table (ConsumeClaim (\<lambda>_. TxOk) [Message (em_http sent), Closed] (claim_start [])) = []"
proof -
  obtain s' sent where run: "EndSpan ''kafka:9092'' 2501000 demo_sdk_span ''ok'' None = (s', sent)" by fastforce
  have d: "int64 (2501000 - sp_start_ns demo_sdk_span) = 2500000" by (simp add: demo_sdk_span_def int64_def)
  have brokers: "kafkaBrokers ''kafka:9092'' \<noteq> []" by (simp add: kafkaBrokers_def)
  have "\<not> 10 ^ 6 dvd (2500000 :: int)" by (simp add: dvd_eq_mod_eq_0)
  with sdk_spans_need_whole_milliseconds [OF brokers run _ _ _ _ _ d, where db = "\<lambda>_. TxOk" and table = "[]"]
  show ?thesis using run by (simp only: Let_def) (simp add: demo_sdk_span_def empty_span_def)
qed


section \<open>Over the life of the processes\<close>

text \<open>
  The consumer keeps its handler over the sessions of its group: with a database that commits every
  transaction, the table grows by the spans of all sessions, in order, and nothing is carried over.
\<close>

lemma sessions_store_in_order:
  assumes "\<And>n. db n = TxOk" "\<forall>es \<in> set sessions. Closed \<notin> set es" "cl_buf st = []"
  shows "cl_table (consume_sessions db (map (\<lambda>es. es @ [Closed]) sessions) st) =
      cl_table st @ map row_of_span (concat (map decoded sessions)) \<and>
    cl_buf (consume_sessions db (map (\<lambda>es. es @ [Closed]) sessions) st) = []"
  using assms(2,3)
proof (induction sessions arbitrary: st)
  case (Cons es sessions)
  let ?st = "ConsumeClaim db (es @ [Closed]) (st\<lparr>cl_closed := False\<rparr>)"
  have "\<not> cl_closed (st\<lparr>cl_closed := False\<rparr>)" by simp
  from claim_run_ok [OF assms(1) _ this, of es] Cons.prems
  have "cl_table ?st = cl_table st @ map row_of_span (decoded es) \<and> cl_buf ?st = []"
    by (simp add: ConsumeClaim_append consumer_flush_ok [OF assms(1)])
  with Cons.IH [of ?st] Cons.prems show ?case by (simp add: consume_sessions_def)
qed (simp add: consume_sessions_def)

text \<open>
  Observation.  The Kafka client of the SDK is made once: when the first attempt fails, no span of the
  process is ever produced, whatever happens later, while the posts to the collector go on.
\<close>

theorem kafka_client_made_once:
  assumes "\<not> pr_once pr" "em_kafka e \<noteq> None" "\<not> nw_client net (kafkaBrokers (Getenv vars ''TRACEFORGE_KAFKA_BROKERS''))"
  shows "pr_produced (fold (send_emitted net' vars) es (send_emitted net vars e pr)) = pr_produced pr"
proof -
  let ?pr = "send_emitted net vars e pr"
  have dead: "pr_once ?pr \<and> \<not> pr_client ?pr \<and> pr_produced ?pr = pr_produced pr"
    using assms by (auto simp: send_emitted_def sendHTTP_def sendKafka_def Let_def split: option.splits)
  have "pr_produced (fold (send_emitted net' vars) es q) = pr_produced q" if "pr_once q" "\<not> pr_client q" for q
    using that
    by (induction es arbitrary: q) (auto simp: send_emitted_def sendHTTP_def sendKafka_def Let_def split: option.splits)
  with dead show ?thesis by simp
qed

definition demo_network :: "bool \<Rightarrow> sdk_network" where
  "demo_network up = \<lparr>nw_post = (\<lambda>_. True), nw_client = (\<lambda>_. up), nw_produce = (\<lambda>_. True)\<rparr>"

theorem kafka_client_made_once_witness:
  "pr_produced (send_emitted (demo_network True) Map.empty \<lparr>em_http = None, em_kafka = Some None\<rparr>
     (send_emitted (demo_network False) Map.empty \<lparr>em_http = None, em_kafka = Some None\<rparr>
       \<lparr>pr_once = False, pr_client = False, pr_posted = [], pr_produced = []\<rparr>)) = []"
  using kafka_client_made_once [of "\<lparr>pr_once = False, pr_client = False, pr_posted = [], pr_produced = []\<rparr>"
      "\<lparr>em_http = None, em_kafka = Some None\<rparr>" "demo_network False" Map.empty "demo_network True" "[\<lparr>em_http = None, em_kafka = Some None\<rparr>]"]
  by (simp add: demo_network_def)

end
