(* ===== verification/Prompt_Fingerprint.thy ===== *)
theory Prompt_Fingerprint
  imports Go_Json
begin

text \<open>
  The exact-match key of a prompt (\<^verbatim>\<open>prompt-fingerprinter/pkg/fingerprint\<close>): the normal form of a
  request, the tenant's rules that run before it, and the key of the cache entry; the store of the
  rules (\<^verbatim>\<open>pkg/rules\<close>) and the handler that changes it (\<^verbatim>\<open>pkg/admin\<close>).

  The canonical JSON is a document; its text and the hexadecimal SHA-256 of the text are the
  argument \<open>digest\<close> of the functions that need it.  The Unicode tables behind
  \<^verbatim>\<open>unicode.IsPunct\<close> and \<^verbatim>\<open>strings.ToLower\<close> are the record \<open>unicode\<close>.  White space and UTF-8
  are spelled out.
\<close>

section \<open>Requests\<close>

record message =
  Role :: string
  Content :: string

record prompt_request =
  Messages :: "message list"
  RequestModel :: string
  Temperature :: real

section \<open>White space\<close>

text \<open>\<^verbatim>\<open>strings.Fields\<close>: \<open>cur\<close> is the word being read.\<close>

function Fields_from :: "string \<Rightarrow> string \<Rightarrow> string list" where
  "Fields_from cur [] = (if cur = [] then [] else [cur])"
| "Fields_from cur (c # s) =
     (case strip_one space_runes (c # s) of
        None \<Rightarrow> Fields_from (cur @ [c]) s
      | Some s' \<Rightarrow>
          if length s' < length (c # s)
          then (if cur = [] then [] else [cur]) @ Fields_from [] s'
          else Fields_from (cur @ [c]) s)"
  by pat_completeness auto
termination
  by (relation "measure (\<lambda>(cur, s). length s)") auto

definition Fields :: "string \<Rightarrow> string list" where
  "Fields s = Fields_from [] s"

fun Join :: "string list \<Rightarrow> string \<Rightarrow> string" where
  "Join [] sep = []"
| "Join [w] sep = w"
| "Join (w # ws) sep = w @ sep @ Join ws sep"

definition collapseWhitespace :: "string \<Rightarrow> string" where
  "collapseWhitespace s = Join (Fields s) '' ''"

section \<open>The normal form\<close>

definition clean_request :: "prompt_request \<Rightarrow> prompt_request" where
  "clean_request req =
     req\<lparr>Messages := map (\<lambda>m. m\<lparr>Content := collapseWhitespace (Content m)\<rparr>) (Messages req)\<rparr>"

definition enc_message :: "message \<Rightarrow> json" where
  "enc_message m = JObj [(''role'', JStr (Role m)), (''content'', JStr (Content m))]"

definition enc_prompt_request :: "prompt_request \<Rightarrow> json" where
  "enc_prompt_request r =
     JObj [(''messages'', JArr (map enc_message (Messages r))), (''model'', JStr (RequestModel r)),
           (''temperature'', enc_float (Temperature r))]"

definition Normalize :: "prompt_request \<Rightarrow> json" where
  "Normalize req = any_norm (enc_prompt_request (clean_request req))"

definition Fingerprint :: "(json \<Rightarrow> string) \<Rightarrow> prompt_request \<Rightarrow> string" where
  "Fingerprint digest req = digest (Normalize req)"

definition RedisKey :: "string \<Rightarrow> string \<Rightarrow> string" where
  "RedisKey tenantID fp = ''fingerprint:'' @ tenantID @ '':'' @ fp"

section \<open>UTF-8\<close>

definition in_range :: "char \<Rightarrow> nat \<Rightarrow> nat \<Rightarrow> bool" where
  "in_range c lo hi \<longleftrightarrow> lo \<le> of_char c \<and> of_char c \<le> hi"

text \<open>The length of the encoding that a text begins with, by the table of \<^verbatim>\<open>unicode/utf8\<close>.\<close>

definition rune_len :: "string \<Rightarrow> nat option" where
  "rune_len s =
     (case s of
        [] \<Rightarrow> None
      | a # t \<Rightarrow>
          if in_range a 0 127 then Some 1
          else if in_range a 194 223 then
            (case t of b # _ \<Rightarrow> if in_range b 128 191 then Some 2 else None | [] \<Rightarrow> None)
          else if in_range a 224 239 then
            (case t of
               b # c # _ \<Rightarrow>
                 if in_range b (if in_range a 224 224 then 160 else 128)
                      (if in_range a 237 237 then 159 else 191) \<and> in_range c 128 191
                 then Some 3 else None
             | _ \<Rightarrow> None)
          else if in_range a 240 244 then
            (case t of
               b # c # d # _ \<Rightarrow>
                 if in_range b (if in_range a 240 240 then 144 else 128)
                      (if in_range a 244 244 then 143 else 191) \<and>
                    in_range c 128 191 \<and> in_range d 128 191
                 then Some 4 else None
             | _ \<Rightarrow> None)
          else None)"

function valid_utf8 :: "string \<Rightarrow> bool" where
  "valid_utf8 s =
     (if s = [] then True
      else case rune_len s of
        None \<Rightarrow> False
      | Some n \<Rightarrow> if 0 < n \<and> n \<le> length s then valid_utf8 (drop n s) else False)"
  by pat_completeness auto
termination
  by (relation "measure length") auto

declare valid_utf8.simps [simp del]

section \<open>Rules\<close>

record prompt_rules =
  StripPunctuation :: bool
  Lowercase :: bool
  MaxPromptBytes :: int

definition no_rules :: prompt_rules where
  "no_rules = \<lparr>StripPunctuation = False, Lowercase = False, MaxPromptBytes = 0\<rparr>"

record unicode =
  strip_punct :: "string \<Rightarrow> string"
  to_lower :: "string \<Rightarrow> string"

text \<open>The loop drops the last byte until what is left is valid.\<close>

function shrink :: "string \<Rightarrow> string" where
  "shrink b = (if b = [] \<or> valid_utf8 b then b else shrink (butlast b))"
  by pat_completeness auto
termination
  by (relation "measure length") auto

declare shrink.simps [simp del]

definition truncateUTF8 :: "string \<Rightarrow> int \<Rightarrow> string" where
  "truncateUTF8 s maxBytes =
     (if int (length s) \<le> maxBytes then s else shrink (take (nat maxBytes) s))"

definition Apply :: "unicode \<Rightarrow> prompt_rules \<Rightarrow> prompt_request \<Rightarrow> prompt_request" where
  "Apply uc r req =
     (if r = no_rules then req
      else req\<lparr>Messages :=
        map (\<lambda>m. let content = Content m;
                     content = (if StripPunctuation r then strip_punct uc content else content);
                     content = (if Lowercase r then to_lower uc content else content);
                     content = (if 0 < MaxPromptBytes r then truncateUTF8 content (MaxPromptBytes r) else content)
                 in m\<lparr>Content := content\<rparr>)
          (Messages req)\<rparr>)"

section \<open>The store of rules and its admin handler\<close>

definition MaxPromptBytesCeiling :: int where
  "MaxPromptBytesCeiling = 1000000"

type_synonym rules_store = "string \<Rightarrow> prompt_rules"

definition NewRulesStore :: rules_store where
  "NewRulesStore = (\<lambda>_. no_rules)"

definition RulesForTenant :: "string \<Rightarrow> rules_store \<Rightarrow> prompt_rules" where
  "RulesForTenant tenantID st = st tenantID"

definition PutRules :: "string \<Rightarrow> prompt_rules \<Rightarrow> rules_store \<Rightarrow> string option \<times> rules_store" where
  "PutRules tenantID r st =
     (if MaxPromptBytes r < 0 then (Some ''rules: max_prompt_bytes must be >= 0'', st)
      else if MaxPromptBytesCeiling < MaxPromptBytes r
      then (Some (''rules: max_prompt_bytes exceeds ceiling of '' @ itoa MaxPromptBytesCeiling), st)
      else (None, st(tenantID := r)))"

definition rules_fields :: "prompt_rules fields" where
  "rules_fields =
     [(''strip_punctuation'', lens StripPunctuation (\<lambda>x r. r\<lparr>StripPunctuation := x\<rparr>) dec_bool),
      (''lowercase'', lens Lowercase (\<lambda>x r. r\<lparr>Lowercase := x\<rparr>) dec_bool),
      (''max_prompt_bytes'', lens MaxPromptBytes (\<lambda>x r. r\<lparr>MaxPromptBytes := x\<rparr>) dec_int64)]"

definition enc_rules :: "prompt_rules \<Rightarrow> json" where
  "enc_rules r = JObj [(''strip_punctuation'', JBool (StripPunctuation r)),
     (''lowercase'', JBool (Lowercase r)), (''max_prompt_bytes'', JInt (MaxPromptBytes r))]"

definition parseRulesTenant :: "string \<Rightarrow> string option" where
  "parseRulesTenant path =
     (if \<not> has_prefix path ''/tenants/'' \<or> \<not> has_suffix path ''/fingerprint-rules'' then None
      else let i = trim_suffix (trim_prefix path ''/tenants/'') ''/fingerprint-rules''
           in if i = [] \<or> contains i ''/'' then None else Some i)"

text \<open>The reply: a status and a JSON body; the text of a JSON error is an argument.\<close>

definition error_body :: "string \<Rightarrow> json" where
  "error_body msg = JObj [(''error'', JStr msg)]"

definition RulesServeHTTP ::
  "string \<Rightarrow> string \<Rightarrow> string \<Rightarrow> payload \<Rightarrow> rules_store \<Rightarrow> (int \<times> json) \<times> rules_store" where
  "RulesServeHTTP decode_error meth path body st =
     (if meth \<noteq> ''PUT'' then ((405, error_body ''only PUT is supported''), st)
      else case parseRulesTenant path of
        None \<Rightarrow> ((400, error_body ''path must be /tenants/{id}/fingerprint-rules''), st)
      | Some tenantID \<Rightarrow>
          (case unmarshal (dec_struct rules_fields) body no_rules of
             None \<Rightarrow> ((400, error_body (''invalid JSON body: '' @ decode_error)), st)
           | Some r \<Rightarrow>
               (case PutRules tenantID r st of
                  (Some err, st') \<Rightarrow> ((422, error_body err), st')
                | (None, st') \<Rightarrow> ((200, enc_rules r), st'))))"

section \<open>Words\<close>

lemma strip_one_None: "strip_one rs s = None \<longleftrightarrow> (\<forall>r\<in>set rs. \<not> has_prefix s r)"
  by (auto simp: strip_one_def filter_empty_conv split: list.splits)
    (metis filter_empty_conv list.distinct(1))

lemma space_runes_nonempty: "r \<in> set space_runes \<Longrightarrow> r \<noteq> []"
  by (auto simp: space_runes_def)

lemma strip_one_Some:
  assumes "strip_one space_runes s = Some s'"
  shows "length s' < length s"
proof -
  obtain r rs where f: "filter (has_prefix s) space_runes = r # rs" and s': "s' = drop (length r) s"
    using assms by (auto simp: strip_one_def split: list.splits)
  then have "r \<in> set (filter (has_prefix s) space_runes)" by simp
  then have "r \<in> set space_runes" "has_prefix s r" by simp_all
  then show ?thesis using space_runes_nonempty by (auto simp: s' has_prefix_iff)
qed

lemma blank_eq_char_of: "CHR '' '' = char_of (n :: nat) \<longleftrightarrow> n mod 256 = 32"
  using char_of_eq_iff [of n "CHR '' ''"] by (auto simp: take_bit_eq_mod)

lemma space_rune_blank: "r \<in> set space_runes \<Longrightarrow> CHR '' '' \<in> set r \<Longrightarrow> r = '' ''"
  by (auto simp: space_runes_def blank_eq_char_of blank_eq_char_of [of 32, simplified, symmetric])

lemma strip_one_blank: "strip_one space_runes (CHR '' '' # t) = Some t"
  by (simp add: strip_one_def space_runes_def blank_eq_char_of)

definition sep_free :: "string \<Rightarrow> bool" where
  "sep_free w \<longleftrightarrow> (\<forall>u v. w = u @ v \<longrightarrow> v \<noteq> [] \<longrightarrow> strip_one space_runes v = None)"

lemma sep_free_tl: "sep_free (c # w) \<Longrightarrow> sep_free w"
  unfolding sep_free_def by (metis append_Cons)

lemma strip_one_prefix: "strip_one rs (v @ t) = None \<Longrightarrow> strip_one rs v = None"
  by (auto simp: strip_one_None has_prefix_iff)

lemma strip_one_before_blank:
  assumes "strip_one space_runes v = None" "v \<noteq> []"
  shows "strip_one space_runes (v @ CHR '' '' # t) = None"
  unfolding strip_one_None
proof (intro ballI notI)
  fix r assume r: "r \<in> set space_runes" "has_prefix (v @ CHR '' '' # t) r"
  then obtain x where "v @ CHR '' '' # t = r @ x" by (auto simp: has_prefix_iff)
  then consider y where "v = r @ y" | y where "r = v @ CHR '' '' # y"
    by (auto simp: append_eq_append_conv2 Cons_eq_append_conv)
  then show False
  proof cases
    case 1
    then show False using assms(1) r by (auto simp: strip_one_None has_prefix_iff)
  next
    case 2
    then have "r = '' ''" using space_rune_blank [OF r(1)] by simp
    with 2 assms(2) show False by (cases v) auto
  qed
qed

lemma Fields_from_word:
  "sep_free w \<Longrightarrow> Fields_from cur (w @ CHR '' '' # t) =
     (if cur @ w = [] then [] else [cur @ w]) @ Fields_from [] t"
proof (induction w arbitrary: cur)
  case Nil
  then show ?case by (simp add: strip_one_blank)
next
  case (Cons c w)
  have "strip_one space_runes (c # w) = None" using Cons.prems unfolding sep_free_def by blast
  then have "strip_one space_runes ((c # w) @ CHR '' '' # t) = None"
    by (rule strip_one_before_blank) simp
  then show ?case using Cons.IH [OF sep_free_tl [OF Cons.prems]] by simp
qed

lemma Fields_from_last:
  "sep_free w \<Longrightarrow> Fields_from cur w = (if cur @ w = [] then [] else [cur @ w])"
proof (induction w arbitrary: cur)
  case (Cons c w)
  have "strip_one space_runes (c # w) = None" using Cons.prems unfolding sep_free_def by blast
  then show ?case using Cons.IH [OF sep_free_tl [OF Cons.prems]] by simp
qed simp

lemma Fields_Join:
  "list_all (\<lambda>w. w \<noteq> [] \<and> sep_free w) ws \<Longrightarrow> Fields (Join ws '' '') = ws"
  unfolding Fields_def
proof (induction ws "'' ''" rule: Join.induct)
  case (3 w v vs)
  then show ?case using Fields_from_word [of w "[]" "Join (v # vs) '' ''"] by simp
qed (simp_all add: Fields_from_last)

lemma Fields_from_words:
  assumes "\<And>u v. cur = u @ v \<Longrightarrow> v \<noteq> [] \<Longrightarrow> strip_one space_runes (v @ s) = None"
  shows "list_all (\<lambda>w. w \<noteq> [] \<and> sep_free w) (Fields_from cur s)"
  using assms
proof (induction cur s rule: Fields_from.induct)
  case (1 cur)
  then show ?case by (simp add: sep_free_def)
next
  case (2 cur c s)
  have cur: "sep_free cur" using 2(4) strip_one_prefix unfolding sep_free_def by blast
  show ?case
  proof (cases "strip_one space_runes (c # s)")
    case None
    have "strip_one space_runes (v @ s) = None" if v_split: "cur @ [c] = u @ v" and v_ne: "v \<noteq> []" for u v
    proof -
      obtain v' where v: "v = v' @ [c]" "cur = u @ v'"
        using v_split v_ne by (cases v rule: rev_cases) auto
      then show ?thesis using 2(4) [of u v'] None by (cases "v' = []") auto
    qed
    then show ?thesis using 2(1) [OF None] None by simp
  next
    case (Some s')
    then show ?thesis using 2(2) [OF Some strip_one_Some [OF Some]] cur strip_one_Some [OF Some] by simp
  qed
qed

lemma Fields_words: "list_all (\<lambda>w. w \<noteq> [] \<and> sep_free w) (Fields s)"
  unfolding Fields_def by (rule Fields_from_words) simp

lemma Fields_collapse [simp]: "Fields (collapseWhitespace s) = Fields s"
  unfolding collapseWhitespace_def by (rule Fields_Join [OF Fields_words])

lemma collapse_eq_iff: "collapseWhitespace s = collapseWhitespace t \<longleftrightarrow> Fields s = Fields t"
  by (metis Fields_collapse collapseWhitespace_def)

lemma collapse_idem: "collapseWhitespace (collapseWhitespace s) = collapseWhitespace s"
  by (simp add: collapse_eq_iff)

section \<open>Which requests share a normal form\<close>

lemma any_norm_enc_float [simp]: "any_norm (enc_float x) = enc_float x"
  by (auto simp: enc_float_def)

lemma enc_float_inject [simp]: "enc_float x = enc_float y \<longleftrightarrow> x = y"
  by (metis dec_float_enc option.inject)

lemma any_list_map: "any_list xs = map any_norm xs"
  by (induction xs) auto

lemma any_norm_message:
  "any_norm (enc_message m) = JObj [(''content'', JStr (Content m)), (''role'', JStr (Role m))]"
  by (simp add: enc_message_def)

lemma any_norm_request:
  "any_norm (enc_prompt_request r) =
     JObj [(''messages'', JArr (map (any_norm \<circ> enc_message) (Messages r))),
           (''model'', JStr (RequestModel r)), (''temperature'', enc_float (Temperature r))]"
  by (simp add: enc_prompt_request_def any_list_map)

lemma map_eq_fields:
  fixes f :: "'a \<Rightarrow> 'b" and g :: "'a \<Rightarrow> 'c" and h :: "'a \<Rightarrow> 'd"
  assumes "\<And>x y. f x = f y \<longleftrightarrow> g x = g y \<and> h x = h y"
  shows "map f xs = map f ys \<longleftrightarrow> map g xs = map g ys \<and> map h xs = map h ys"
  by (induction xs ys rule: list_induct2') (auto simp: assms)

text \<open>
  C17.  Two requests have the same normal form, and so the same fingerprint, exactly when model,
  temperature and the sequence of roles agree and each message has the same sequence of words:
  only white space between the words is forgotten.
\<close>

theorem normalize_iff:
  "Normalize r = Normalize r' \<longleftrightarrow>
     RequestModel r = RequestModel r' \<and> Temperature r = Temperature r' \<and>
     map Role (Messages r) = map Role (Messages r') \<and>
     map (Fields \<circ> Content) (Messages r) = map (Fields \<circ> Content) (Messages r')"
proof -
  let ?f = "\<lambda>m. any_norm (enc_message (m\<lparr>Content := collapseWhitespace (Content m)\<rparr>))"
  have "?f x = ?f y \<longleftrightarrow> Role x = Role y \<and> (Fields \<circ> Content) x = (Fields \<circ> Content) y"
    for x y :: message
    by (auto simp: any_norm_message collapse_eq_iff)
  then have msgs: "map ?f (Messages r) = map ?f (Messages r') \<longleftrightarrow>
      map Role (Messages r) = map Role (Messages r') \<and>
      map (Fields \<circ> Content) (Messages r) = map (Fields \<circ> Content) (Messages r')"
    by (rule map_eq_fields)
  have norm: "Normalize q = JObj [(''messages'', JArr (map ?f (Messages q))),
      (''model'', JStr (RequestModel q)), (''temperature'', enc_float (Temperature q))]" for q
    by (simp add: Normalize_def any_norm_request clean_request_def o_def)
  show ?thesis unfolding norm using msgs by auto
qed

section \<open>Truncation\<close>

lemma rune_len_bounds: "rune_len s = Some n \<Longrightarrow> 1 \<le> n \<and> n \<le> 4 \<and> n \<le> length s"
  by (auto simp: rune_len_def split: list.splits if_splits)

lemma rune_len_take:
  assumes "rune_len s = Some n" "n \<le> m"
  shows "rune_len (take m s) = Some n"
proof -
  obtain a t where s: "s = a # t" using assms(1) by (cases s) (auto simp: rune_len_def)
  have "1 \<le> m" using rune_len_bounds [OF assms(1)] assms(2) by simp
  then consider "m = 1" | "m = 2" | "m = 3" | k where "m = Suc (Suc (Suc (Suc k)))"
    by (metis One_nat_def Suc_1 numeral_3_eq_3 le_SucE not_less_eq_eq old.nat.exhaust zero_le)
  then show ?thesis
    using assms unfolding s
    by cases (auto simp: rune_len_def numeral_2_eq_2 numeral_3_eq_3 split: if_splits list.splits)
qed

lemma valid_utf8_step:
  "rune_len s = Some n \<Longrightarrow> valid_utf8 s \<longleftrightarrow> valid_utf8 (drop n s)"
  using rune_len_bounds [of s n] by (subst valid_utf8.simps) auto

lemma valid_utf8_Nil [simp]: "valid_utf8 []"
  by (simp add: valid_utf8.simps)

lemma valid_utf8_boundary:
  "valid_utf8 s \<Longrightarrow> n \<le> length s \<Longrightarrow> \<exists>m \<le> n. n < m + 4 \<and> valid_utf8 (take m s)"
proof (induction "length s" arbitrary: s n rule: less_induct)
  case less
  show ?case
  proof (cases "s = []")
    case True
    then show ?thesis using less.prems by auto
  next
    case False
    then obtain k where k: "rune_len s = Some k"
      using less.prems(1) by (auto simp: valid_utf8.simps [of s] split: option.splits)
    note b = rune_len_bounds [OF k]
    show ?thesis
    proof (cases "n < k")
      case True
      then show ?thesis using b by (intro exI [of _ 0]) auto
    next
      case False
      have "valid_utf8 (drop k s)" using valid_utf8_step [OF k] less.prems(1) by simp
      moreover have "length (drop k s) < length s" "n - k \<le> length (drop k s)"
        using b less.prems(2) \<open>s \<noteq> []\<close> by auto
      ultimately obtain m where m: "m \<le> n - k" "n - k < m + 4" "valid_utf8 (take m (drop k s))"
        using less.hyps by blast
      have "rune_len (take (k + m) s) = Some k"
        using rune_len_take [OF k] by simp
      then have "valid_utf8 (take (k + m) s)"
        using valid_utf8_step m(3) by (simp add: take_drop add.commute)
      then show ?thesis using m False by (intro exI [of _ "k + m"]) auto
    qed
  qed
qed

lemma shrink_spec:
  "valid_utf8 (shrink b) \<and> shrink b = take (length (shrink b)) b \<and>
   (\<forall>m \<le> length b. valid_utf8 (take m b) \<longrightarrow> m \<le> length (shrink b))"
proof (induction b rule: shrink.induct)
  case (1 b)
  show ?case
  proof (cases "b = [] \<or> valid_utf8 b")
    case True
    then show ?thesis by (auto simp: shrink.simps [of b])
  next
    case False
    then have IH: "valid_utf8 (shrink (butlast b))"
      "shrink (butlast b) = take (length (shrink (butlast b))) (butlast b)"
      "\<And>m. m \<le> length b - 1 \<Longrightarrow> valid_utf8 (take m (butlast b)) \<Longrightarrow> m \<le> length (shrink (butlast b))"
      using 1 by auto
    have len: "length (shrink (butlast b)) \<le> length b - 1"
      using IH(2) by (metis length_butlast length_take min.cobounded1 min.commute)
    have bl: "take m (butlast b) = take m b" if "m \<le> length b - 1" for m
      using that by (simp add: butlast_conv_take min_def)
    have "m \<le> length (shrink (butlast b))" if "m \<le> length b" "valid_utf8 (take m b)" for m
    proof (cases "m = length b")
      case True
      then show ?thesis using that(2) False by simp
    next
      case False
      then show ?thesis using IH(3) [of m] bl [of m] that by simp
    qed
    then show ?thesis using False IH(1,2) bl [OF len] by (auto simp: shrink.simps [of b])
  qed
qed

text \<open>
  Observation.  Cutting a valid text to a positive number of bytes gives a valid prefix of it that is not
  longer than asked; a text that fits is returned whole, and at most three bytes less than asked
  are kept otherwise.
\<close>

theorem truncateUTF8_bounds:
  assumes "valid_utf8 s" "0 \<le> maxBytes"
  shows "valid_utf8 (truncateUTF8 s maxBytes) \<and>
    (\<exists>rest. s = truncateUTF8 s maxBytes @ rest) \<and>
    (if int (length s) \<le> maxBytes then truncateUTF8 s maxBytes = s
     else int (length (truncateUTF8 s maxBytes)) \<le> maxBytes \<and>
       maxBytes < int (length (truncateUTF8 s maxBytes)) + 4)"
proof (cases "int (length s) \<le> maxBytes")
  case True
  then show ?thesis using assms by (simp add: truncateUTF8_def)
next
  case False
  define n where "n = nat maxBytes"
  have n: "int n = maxBytes" "n \<le> length s" using False assms(2) by (auto simp: n_def)
  let ?b = "take n s"
  have t: "truncateUTF8 s maxBytes = shrink ?b" using False by (simp add: truncateUTF8_def n_def)
  have spec: "valid_utf8 (shrink ?b)" "shrink ?b = take (length (shrink ?b)) ?b"
    "\<And>m. m \<le> length ?b \<Longrightarrow> valid_utf8 (take m ?b) \<Longrightarrow> m \<le> length (shrink ?b)"
    using shrink_spec [of ?b] by blast+
  obtain m where m: "m \<le> n" "n < m + 4" "valid_utf8 (take m s)"
    using valid_utf8_boundary [OF assms(1) n(2)] by blast
  then have "m \<le> length (shrink ?b)" using spec(3) [of m] n(2) by (simp add: min_def)
  moreover have "length (shrink ?b) \<le> n"
    using spec(2) n(2) by (metis length_take min.bounded_iff min.cobounded1 min.cobounded2 min_def)
  moreover have "s = shrink ?b @ drop (length (shrink ?b)) s"
    using spec(2) \<open>length (shrink ?b) \<le> n\<close> by (metis append_take_drop_id min.absorb1 take_take)
  ultimately show ?thesis using t spec(1) m(2) n(1) False by auto
qed

lemma truncateUTF8_bounds_witness:
  "valid_utf8 (truncateUTF8 (''ab'' @ [char_of (226::nat), char_of (130::nat), char_of (172::nat)]) 4)"
proof -
  have "valid_utf8 (''ab'' @ [char_of (226::nat), char_of (130::nat), char_of (172::nat)])"
    by (simp add: valid_utf8.simps rune_len_def in_range_def)
  then show ?thesis using truncateUTF8_bounds [of _ 4] by simp
qed

section \<open>The admin handler\<close>

lemma rules_field_decoders:
  "field_decoder rules_fields ''strip_punctuation'' =
     Some (lens StripPunctuation (\<lambda>x r. r\<lparr>StripPunctuation := x\<rparr>) dec_bool)"
  "field_decoder rules_fields ''lowercase'' = Some (lens Lowercase (\<lambda>x r. r\<lparr>Lowercase := x\<rparr>) dec_bool)"
  "field_decoder rules_fields ''max_prompt_bytes'' =
     Some (lens MaxPromptBytes (\<lambda>x r. r\<lparr>MaxPromptBytes := x\<rparr>) dec_int64)"
  by (subst field_decoder_plain, simp add: plain_name_def, simp add: rules_fields_def plain_name_def,
      simp add: rules_fields_def)+

lemma unmarshal_enc_rules:
  assumes "0 \<le> MaxPromptBytes r" "MaxPromptBytes r \<le> MaxPromptBytesCeiling"
  shows "unmarshal (dec_struct rules_fields) (Some (enc_rules r)) no_rules = Some r"
  using assms
  by (simp add: unmarshal_def enc_rules_def rules_field_decoders lens_def no_rules_def
      MaxPromptBytesCeiling_def)

definition rules_inv :: "rules_store \<Rightarrow> bool" where
  "rules_inv st \<longleftrightarrow> (\<forall>t. 0 \<le> MaxPromptBytes (st t) \<and> MaxPromptBytes (st t) \<le> MaxPromptBytesCeiling)"

lemma rules_inv_new: "rules_inv NewRulesStore"
  by (simp add: rules_inv_def NewRulesStore_def no_rules_def MaxPromptBytesCeiling_def)

lemma RulesServeHTTP_cases:
  "RulesServeHTTP e meth path body st = ((code, reply), st') \<Longrightarrow>
     (code \<noteq> 200 \<and> st' = st) \<or>
     (\<exists>t r. code = 200 \<and> meth = ''PUT'' \<and> parseRulesTenant path = Some t \<and>
        unmarshal (dec_struct rules_fields) body no_rules = Some r \<and> reply = enc_rules r \<and>
        0 \<le> MaxPromptBytes r \<and> MaxPromptBytes r \<le> MaxPromptBytesCeiling \<and> st' = st(t := r))"
  by (auto simp: RulesServeHTTP_def PutRules_def split: if_splits option.splits)

text \<open>Requests to the handler, one after the other.\<close>

definition rules_requests :: "(string \<times> string \<times> payload) list \<Rightarrow> rules_store \<Rightarrow> rules_store" where
  "rules_requests rs st = fold (\<lambda>(meth, path, body) s. snd (RulesServeHTTP [] meth path body s)) rs st"

lemma rules_requests_inv: "rules_inv st \<Longrightarrow> rules_inv (rules_requests rs st)"
  unfolding rules_requests_def
proof (induction rs arbitrary: st)
  case (Cons q rs)
  obtain meth path body where q: "q = (meth, path, body)" by (cases q) auto
  obtain reply st' where r: "RulesServeHTTP [] meth path body st = (reply, st')" by fastforce
  have "rules_inv st'"
    using RulesServeHTTP_cases [of "[]" meth path body st "fst reply" "snd reply" st'] r Cons.prems
    by (auto simp: rules_inv_def)
  then show ?case using Cons.IH by (simp add: q r)
qed simp

lemma parseRulesTenant_ok:
  assumes "t \<noteq> []" "CHR ''/'' \<notin> set t"
  shows "parseRulesTenant (''/tenants/'' @ t @ ''/fingerprint-rules'') = Some t"
proof -
  have "has_prefix (''/tenants/'' @ t @ ''/fingerprint-rules'') ''/tenants/''"
    "has_suffix (''/tenants/'' @ t @ ''/fingerprint-rules'') ''/fingerprint-rules''"
    by (simp_all only: has_prefix_iff has_suffix_iff) (blast, metis append.assoc)
  then show ?thesis
    unfolding parseRulesTenant_def Let_def
    by (simp only: trim_prefix_append trim_suffix_append) (simp add: assms contains_char_iff)
qed

text \<open>
  C37.  After any sequence of requests to the admin handler every tenant's cap is between 0 and the
  ceiling, and a PUT of rules with such a cap on a tenant's path is answered with 200 and these
  rules, which are then the tenant's rules, those of every other tenant being unchanged.
\<close>

theorem rules_put_get:
  assumes "t \<noteq> []" "CHR ''/'' \<notin> set t" "0 \<le> MaxPromptBytes r" "MaxPromptBytes r \<le> MaxPromptBytesCeiling"
  shows "let st = rules_requests rs NewRulesStore in
    0 \<le> MaxPromptBytes (RulesForTenant u st) \<and> MaxPromptBytes (RulesForTenant u st) \<le> MaxPromptBytesCeiling \<and>
    (case RulesServeHTTP e ''PUT'' (''/tenants/'' @ t @ ''/fingerprint-rules'') (Some (enc_rules r)) st of
       ((code, reply), st') \<Rightarrow> code = 200 \<and> reply = enc_rules r \<and>
         RulesForTenant u st' = (if u = t then r else RulesForTenant u st))"
proof -
  have "rules_inv (rules_requests rs NewRulesStore)"
    by (rule rules_requests_inv [OF rules_inv_new])
  then show ?thesis
    using assms
    by (simp add: RulesServeHTTP_def parseRulesTenant_ok unmarshal_enc_rules PutRules_def
        RulesForTenant_def rules_inv_def del: append.simps)
qed

lemma rules_put_get_witness:
  "fst (fst (RulesServeHTTP [] ''PUT'' (''/tenants/'' @ ''acme'' @ ''/fingerprint-rules'')
     (Some (enc_rules no_rules)) (rules_requests [(''GET'', [], None)] NewRulesStore))) = 200"
  using rules_put_get [of "''acme''" no_rules "[(''GET'', [], None)]" "''acme''" "[]"]
  by (simp add: no_rules_def MaxPromptBytesCeiling_def Let_def case_prod_beta)

end
