(* ===== verification/Prompt_Stack.thy ===== *)
theory Prompt_Stack
  imports Prompt_Fingerprint
begin

text \<open>
  The two-tier cache (\<^verbatim>\<open>prompt-fingerprinter/pkg/stack\<close>): exact match in Redis first, semantic
  lookup second, with the backfill of the first tier; the in-memory Redis of \<^verbatim>\<open>memstore.go\<close>; and the
  LensAI writer of the exact hits (\<^verbatim>\<open>pkg/lensai\<close>).

  The interface \<^verbatim>\<open>RedisClient\<close> is the locale \<open>redis_client\<close>: what a client promises of \<^verbatim>\<open>Get\<close> and
  \<^verbatim>\<open>Set\<close> with a time to live, calls that fail included.  It is interpreted by the in-memory client and
  by a Redis behind a network, where each call may fail and a failed \<^verbatim>\<open>Set\<close> may have been executed.
  \<open>Get\<close> of the stack takes the two calls as arguments, so its facts hold for both.  Times are
  nanoseconds; the OpenTelemetry spans have no effect on the results and are left out.
\<close>

section \<open>The in-memory Redis\<close>

record mem_entry =
  me_value :: string
  me_expire_at :: "int option"

record mem_redis =
  mr_data :: "string \<rightharpoonup> mem_entry"
  mr_err_on_get :: "string option"

definition mem_expired :: "int \<Rightarrow> mem_entry \<Rightarrow> bool" where
  "mem_expired now e = (case me_expire_at e of None \<Rightarrow> False | Some t \<Rightarrow> t \<le> now)"

text \<open>A read is an error, or the value if there is one.\<close>

definition MemGet :: "int \<Rightarrow> string \<Rightarrow> mem_redis \<Rightarrow> (string + string option) \<times> mem_redis" where
  "MemGet now key m =
     (case mr_err_on_get m of
        Some e \<Rightarrow> (Inl e, m)
      | None \<Rightarrow>
          (case mr_data m key of
             None \<Rightarrow> (Inr None, m)
           | Some e \<Rightarrow>
               if mem_expired now e then (Inr None, m\<lparr>mr_data := (mr_data m)(key := None)\<rparr>)
               else (Inr (Some (me_value e)), m)))"

definition MemSet :: "int \<Rightarrow> string \<Rightarrow> string \<Rightarrow> int \<Rightarrow> mem_redis \<Rightarrow> string option \<times> mem_redis" where
  "MemSet now key v ttl m =
     (None, m\<lparr>mr_data := (mr_data m)(key \<mapsto>
        \<lparr>me_value = v, me_expire_at = (if 0 < ttl then Some (now + ttl) else None)\<rparr>)\<rparr>)"

definition MemContains :: "int \<Rightarrow> string \<Rightarrow> mem_redis \<Rightarrow> bool" where
  "MemContains now key m =
     (case mr_data m key of None \<Rightarrow> False | Some e \<Rightarrow> \<not> mem_expired now e)"

definition MemL2Get ::
  "(string \<rightharpoonup> string) \<Rightarrow> string \<Rightarrow> string \<Rightarrow> prompt_request \<Rightarrow> (string + string option)" where
  "MemL2Get responses err_tenant tenantID req =
     (if err_tenant \<noteq> [] \<and> tenantID = err_tenant
      then Inl (''memL2: simulated failure for tenant '' @ tenantID)
      else Inr (responses tenantID))"

section \<open>Events of exact hits\<close>

record hit_event =
  he_tenant_id :: string
  he_trace_id :: string
  he_timestamp_ms :: u64
  he_latency_ms :: u32
  he_cost_usd :: real
  he_status :: string
  he_source :: string

text \<open>
  \<open>http\<close> is the exchange with the ingest endpoint: no answer, or the status of the answer.  The
  list is what was posted.
\<close>

definition post_event ::
  "int option \<Rightarrow> string \<Rightarrow> hit_event \<Rightarrow> (string \<times> hit_event) list \<Rightarrow> string option \<times> (string \<times> hit_event) list" where
  "post_event http tenantID evt sent =
     (case http of
        None \<Rightarrow> (Some ''lensai: HTTP request failed'', sent)
      | Some code \<Rightarrow>
          (if code \<noteq> 200 \<and> code \<noteq> 202 then Some (''lensai: unexpected status '' @ itoa code) else None,
           sent @ [(tenantID, evt)]))"

definition EmitExactHit ::
  "int option \<Rightarrow> int \<Rightarrow> string \<Rightarrow> string \<Rightarrow> int \<Rightarrow> (string \<times> hit_event) list \<Rightarrow>
   string option \<times> (string \<times> hit_event) list" where
  "EmitExactHit http now tenantID fingerprintKey latency sent =
     (if tenantID = [] then (Some ''lensai: tenant_id is required'', sent)
      else post_event http tenantID
        \<lparr>he_tenant_id = tenantID, he_trace_id = fingerprintKey,
         he_timestamp_ms = word_of_int (now div 10 ^ 6),
         he_latency_ms = word_of_int (tdiv latency (10 ^ 6)), he_cost_usd = 0, he_status = ''ok'',
         he_source = ''cache_hit_exact''\<rparr> sent)"

section \<open>The stack\<close>

datatype tier = TierL1 | TierL2 | TierMiss

record result =
  Hit :: bool
  Tier :: tier
  Response :: string

definition HardTTL :: int where
  "HardTTL = 30 * 24 * 3600 * 10 ^ 9"

type_synonym 'r redis_get = "int \<Rightarrow> string \<Rightarrow> 'r \<Rightarrow> (string + string option) \<times> 'r"
type_synonym 'r redis_set = "int \<Rightarrow> string \<Rightarrow> string \<Rightarrow> int \<Rightarrow> 'r \<Rightarrow> string option \<times> 'r"
type_synonym l2_store = "string \<Rightarrow> prompt_request \<Rightarrow> (string + string option)"

text \<open>
  What a call depends on besides its arguments: the second tier, the rules (if configured), the
  digest and the Unicode tables, and whether metrics and an emitter are configured.
\<close>

record stack_config =
  sc_l2 :: l2_store
  sc_rules :: "(string \<Rightarrow> prompt_rules) option"
  sc_digest :: "json \<Rightarrow> string"
  sc_unicode :: unicode
  sc_metrics :: bool
  sc_emitter :: bool

record 'r stack_state =
  ss_redis :: 'r
  ss_l1_hits :: "string \<Rightarrow> int"
  ss_l2_hits :: "string \<Rightarrow> int"
  ss_misses :: "string \<Rightarrow> int"
  ss_events :: "(string \<times> hit_event) list"

definition incL1Hit :: "stack_config \<Rightarrow> string \<Rightarrow> 'r stack_state \<Rightarrow> 'r stack_state" where
  "incL1Hit c t st = (if sc_metrics c then st\<lparr>ss_l1_hits := (ss_l1_hits st)(t := ss_l1_hits st t + 1)\<rparr> else st)"

definition incL2Hit :: "stack_config \<Rightarrow> string \<Rightarrow> 'r stack_state \<Rightarrow> 'r stack_state" where
  "incL2Hit c t st = (if sc_metrics c then st\<lparr>ss_l2_hits := (ss_l2_hits st)(t := ss_l2_hits st t + 1)\<rparr> else st)"

definition incMiss :: "stack_config \<Rightarrow> string \<Rightarrow> 'r stack_state \<Rightarrow> 'r stack_state" where
  "incMiss c t st = (if sc_metrics c then st\<lparr>ss_misses := (ss_misses st)(t := ss_misses st t + 1)\<rparr> else st)"

definition emit_exact_hit ::
  "stack_config \<Rightarrow> int option \<Rightarrow> int \<Rightarrow> string \<Rightarrow> string \<Rightarrow> int \<Rightarrow> 'r stack_state \<Rightarrow> 'r stack_state" where
  "emit_exact_hit c http now t key latency st =
     (if sc_emitter c
      then st\<lparr>ss_events := snd (EmitExactHit http now t key latency (ss_events st))\<rparr> else st)"

text \<open>One call: its start, how long it has run when a hit is reported, and the ingest's answer.\<close>

record stack_call =
  ca_now :: int
  ca_elapsed :: int
  ca_http :: "int option"

definition effective_request :: "stack_config \<Rightarrow> string \<Rightarrow> prompt_request \<Rightarrow> prompt_request" where
  "effective_request c tenantID req =
     (case sc_rules c of None \<Rightarrow> req | Some rules \<Rightarrow> Apply (sc_unicode c) (rules tenantID) req)"

definition cache_key :: "stack_config \<Rightarrow> string \<Rightarrow> prompt_request \<Rightarrow> string" where
  "cache_key c tenantID req =
     RedisKey tenantID (Fingerprint (sc_digest c) (effective_request c tenantID req))"

definition StackGet ::
  "'r redis_get \<Rightarrow> 'r redis_set \<Rightarrow> stack_config \<Rightarrow> stack_call \<Rightarrow> string \<Rightarrow> prompt_request \<Rightarrow>
   'r stack_state \<Rightarrow> (string + result) \<times> 'r stack_state" where
  "StackGet get put c call tenantID req st =
     (if tenantID = [] then (Inl ''stack: tenant_id is required'', st)
      else
        let key = cache_key c tenantID req;
            (l1, r1) = get (ca_now call) key (ss_redis st);
            st1 = st\<lparr>ss_redis := r1\<rparr>
        in case l1 of
             Inr (Some v) \<Rightarrow>
               (Inr \<lparr>Hit = True, Tier = TierL1, Response = v\<rparr>,
                emit_exact_hit c (ca_http call) (ca_now call + ca_elapsed call) tenantID key
                  (ca_elapsed call) (incL1Hit c tenantID st1))
           | _ \<Rightarrow>
               (case sc_l2 c tenantID (effective_request c tenantID req) of
                  Inl e \<Rightarrow> (Inl (''stack: L2 lookup: '' @ e), st1)
                | Inr None \<Rightarrow> (Inr \<lparr>Hit = False, Tier = TierMiss, Response = []\<rparr>, incMiss c tenantID st1)
                | Inr (Some response) \<Rightarrow>
                    (let st2 = incL2Hit c tenantID st1
                     in (Inr \<lparr>Hit = True, Tier = TierL2, Response = response\<rparr>,
                         st2\<lparr>ss_redis := snd (put (ca_now call) key response HardTTL (ss_redis st2))\<rparr>))))"

text \<open>A sequence of calls.\<close>

type_synonym stack_request = "stack_call \<times> string \<times> prompt_request"

definition stack_calls ::
  "'r redis_get \<Rightarrow> 'r redis_set \<Rightarrow> stack_config \<Rightarrow> stack_request list \<Rightarrow> 'r stack_state \<Rightarrow> 'r stack_state" where
  "stack_calls get put c rs st = fold (\<lambda>(call, t, req) s. snd (StackGet get put c call t req s)) rs st"

section \<open>The promise of a Redis client\<close>

text \<open>A call that leaves the response \<open>w\<close> of the second tier under the key \<open>k\<close>, if its write succeeds.\<close>

fun fills :: "stack_config \<Rightarrow> string \<Rightarrow> string \<Rightarrow> stack_request \<Rightarrow> bool" where
  "fills c k w (call, u, req) = (cache_key c u req = k \<and> sc_l2 c u (effective_request c u req) = Inr (Some w))"

text \<open>
  \<open>view now r k\<close> is the entry of \<open>k\<close> at time \<open>now\<close>; \<open>up r\<close> says that all reads from now on answer.  A
  failed write has been executed or has not.
\<close>

locale redis_client =
  fixes get :: "'r redis_get" and put :: "'r redis_set"
    and view :: "int \<Rightarrow> 'r \<Rightarrow> string \<rightharpoonup> string" and up :: "'r \<Rightarrow> bool"
  assumes get_view: "get now k r = (Inr b, r') \<Longrightarrow> b = view now r k"
    and get_frame: "get now k r = (a, r') \<Longrightarrow> now \<le> t \<Longrightarrow> view t r' = view t r"
    and get_up: "up r \<Longrightarrow> get now k r = (a, r') \<Longrightarrow> up r' \<and> (\<exists>x. a = Inr x)"
    and put_ok: "0 < ttl \<Longrightarrow> put now k v ttl r = (None, r') \<Longrightarrow> now \<le> t \<Longrightarrow>
      view t r' = (view t r)(k := if t < now + ttl then Some v else None)"
    and put_err: "0 < ttl \<Longrightarrow> put now k v ttl r = (Some f, r') \<Longrightarrow>
      (\<forall>t \<ge> now. view t r' = view t r) \<or>
      (\<forall>t \<ge> now. view t r' = (view t r)(k := if t < now + ttl then Some v else None))"
    and put_up: "up r \<Longrightarrow> put now k v ttl r = (e, r') \<Longrightarrow> up r'"
begin

lemma put_cases:
  assumes "0 < ttl" "put now k v ttl r = (e, r')"
  obtains "\<And>t. now \<le> t \<Longrightarrow> view t r' = view t r"
  | "\<And>t. now \<le> t \<Longrightarrow> view t r' = (view t r)(k := if t < now + ttl then Some v else None)"
  using assms put_ok put_err by (cases e) metis+

lemma StackGet_hit:
  assumes "get (ca_now call) (cache_key c t req) (ss_redis st) = (Inr x, r')"
    and "view (ca_now call) (ss_redis st) (cache_key c t req) = Some v" "t \<noteq> []"
  shows "fst (StackGet get put c call t req st) = Inr \<lparr>Hit = True, Tier = TierL1, Response = v\<rparr>"
  using assms get_view [OF assms(1)] by (simp add: StackGet_def Let_def)

lemma redis_counters [simp]:
  "ss_redis (incL1Hit c t st) = ss_redis st" "ss_redis (incL2Hit c t st) = ss_redis st"
  "ss_redis (incMiss c t st) = ss_redis st" "ss_redis (emit_exact_hit c h n t k l st) = ss_redis st"
  by (simp_all add: incL1Hit_def incL2Hit_def incMiss_def emit_exact_hit_def)

text \<open>What a call does to Redis: a read, and a write when the read gave nothing and the second tier did.\<close>

lemma StackGet_redis:
  fixes c u req call st
  defines "key \<equiv> cache_key c u req" and "r' \<equiv> ss_redis (snd (StackGet get put c call u req st))"
  obtains (none) "r' = ss_redis st" | (read) a where "get (ca_now call) key (ss_redis st) = (a, r')"
  | (fill) a r1 w e where "get (ca_now call) key (ss_redis st) = (a, r1)" "a = Inr None \<or> (\<exists>f. a = Inl f)"
      "sc_l2 c u (effective_request c u req) = Inr (Some w)" "put (ca_now call) key w HardTTL r1 = (e, r')"
proof -
  obtain a r1 where g: "get (ca_now call) key (ss_redis st) = (a, r1)" by fastforce
  let ?l2 = "sc_l2 c u (effective_request c u req)"
  consider "u = []" | "u \<noteq> []" "r' = r1"
    | w where "u \<noteq> []" "a = Inr None \<or> (\<exists>f. a = Inl f)" "?l2 = Inr (Some w)" "r' = snd (put (ca_now call) key w HardTTL r1)"
    using g unfolding r'_def key_def StackGet_def Let_def
    by (cases a; cases "projr a"; cases ?l2; cases "projr ?l2") auto
  then show thesis
  proof cases
    case 1
    then show thesis by (intro none) (simp add: r'_def StackGet_def)
  next
    case 2
    then show thesis using g by (intro read) simp
  next
    case (3 w)
    then show thesis using g by (cases "put (ca_now call) key w HardTTL r1") (auto intro: fill)
  qed
qed

definition serves_until :: "int \<Rightarrow> int \<Rightarrow> string \<Rightarrow> string \<Rightarrow> 'r \<Rightarrow> bool" where
  "serves_until now limit k v r \<longleftrightarrow> (\<forall>t. now \<le> t \<longrightarrow> t < limit \<longrightarrow> view t r k = Some v)"

text \<open>An entry stays, unless its read failed and the second tier's answer was written over it.\<close>

lemma StackGet_serves:
  fixes c u req
  assumes s: "serves_until n limit k v (ss_redis st)" and t: "n \<le> ca_now call" "ca_now call < limit" "limit \<le> n + HardTTL"
  defines "r' \<equiv> ss_redis (snd (StackGet get put c call u req st))"
  shows "\<exists>w. serves_until (ca_now call) limit k w r' \<and> (w = v \<or> fills c k w (call, u, req)) \<and>
    (up (ss_redis st) \<longrightarrow> w = v \<and> up r')"
proof -
  let ?now = "ca_now call"
  have live: "view t (ss_redis st) k = Some v" if "?now \<le> t" "t < limit" for t
    using s t that unfolding serves_until_def by auto
  have keep: ?thesis if "\<And>t. ?now \<le> t \<Longrightarrow> view t r' k = view t (ss_redis st) k" "up (ss_redis st) \<Longrightarrow> up r'"
    using that live by (intro exI [of _ v]) (auto simp: serves_until_def)
  show ?thesis
  proof (rule StackGet_redis [where c = c and u = u and req = req and call = call and st = st, folded r'_def])
    assume "r' = ss_redis st"
    then show ?thesis using keep by simp
  next
    fix a
    assume g: "get ?now (cache_key c u req) (ss_redis st) = (a, r')"
    then show ?thesis using keep get_up get_frame [OF g] by auto
  next
    fix a r1 w e
    assume g: "get ?now (cache_key c u req) (ss_redis st) = (a, r1)" and a: "a = Inr None \<or> (\<exists>f. a = Inl f)"
      and l2: "sc_l2 c u (effective_request c u req) = Inr (Some w)" and p: "put ?now (cache_key c u req) w HardTTL r1 = (e, r')"
    have up: "up (ss_redis st) \<Longrightarrow> up r'" using get_up [OF _ g] put_up [OF _ p] by blast
    have "(0::int) < HardTTL" by (simp add: HardTTL_def)
    then show ?thesis
    proof (rule put_cases [OF _ p])
      assume "\<And>t. ?now \<le> t \<Longrightarrow> view t r' = view t r1"
      then show ?thesis using keep up get_frame [OF g] by simp
    next
      assume v': "\<And>t. ?now \<le> t \<Longrightarrow> view t r' = (view t r1)(cache_key c u req := if t < ?now + HardTTL then Some w else None)"
      show ?thesis
      proof (cases "cache_key c u req = k")
        case False
        then show ?thesis using keep up v' get_frame [OF g] by simp
      next
        case True
        then have "a \<noteq> Inr None" using get_view [of ?now k "ss_redis st" None r1] g live [of ?now] t by auto
        then have "\<not> up (ss_redis st)" using a get_up [OF _ g] by auto
        moreover have "serves_until ?now limit k w r'" using v' True t by (auto simp: serves_until_def)
        ultimately show ?thesis using True l2 by (intro exI [of _ w]) auto
      qed
    qed
  qed
qed

lemma stack_calls_serve:
  assumes "serves_until n limit k v (ss_redis st)" "sorted (n # map (ca_now \<circ> fst) rs @ [m])" "m < limit" "limit \<le> n + HardTTL"
  shows "\<exists>w. serves_until m limit k w (ss_redis (stack_calls get put c rs st)) \<and>
    (w = v \<or> (\<exists>q \<in> set rs. fills c k w q)) \<and> (up (ss_redis st) \<longrightarrow> w = v)"
  using assms
proof (induction rs arbitrary: n v st)
  case Nil
  then show ?case by (auto simp: stack_calls_def serves_until_def)
next
  case (Cons q rs)
  obtain call u req where q: "q = (call, u, req)" by (cases q) auto
  let ?st = "snd (StackGet get put c call u req st)"
  have "n \<le> ca_now call" "ca_now call < limit" using Cons.prems by (auto simp: q)
  then obtain v1 where v1: "serves_until (ca_now call) limit k v1 (ss_redis ?st)"
    "v1 = v \<or> fills c k v1 q" "up (ss_redis st) \<longrightarrow> v1 = v \<and> up (ss_redis ?st)"
    using StackGet_serves [OF Cons.prems(1) _ _ Cons.prems(4)] unfolding q by blast
  from Cons.IH [OF v1(1)] Cons.prems
  obtain w where w: "serves_until m limit k w (ss_redis (stack_calls get put c rs ?st))"
    "w = v1 \<or> (\<exists>q \<in> set rs. fills c k w q)" "up (ss_redis ?st) \<longrightarrow> w = v1"
    by (auto simp: q)
  have "stack_calls get put c (q # rs) st = stack_calls get put c rs ?st" by (simp add: q stack_calls_def)
  then show ?case using v1 w by (intro exI [of _ w]) auto
qed

lemma backfill_serves:
  assumes l2: "fst (StackGet get put c call t req st) = Inr \<lparr>Hit = True, Tier = TierL2, Response = v\<rparr>"
    and g: "get (ca_now call) (cache_key c t req) (ss_redis st) = (a, r1)"
    and ok: "fst (put (ca_now call) (cache_key c t req) v HardTTL r1) = None"
  shows "serves_until (ca_now call) (ca_now call + HardTTL) (cache_key c t req) v
      (ss_redis (snd (StackGet get put c call t req st)))"
    and "up (ss_redis st) \<Longrightarrow> up (ss_redis (snd (StackGet get put c call t req st)))"
proof -
  let ?key = "cache_key c t req" and ?now = "ca_now call"
  have "t \<noteq> []" using l2 by (auto simp: StackGet_def)
  then have r: "ss_redis (snd (StackGet get put c call t req st)) = snd (put ?now ?key v HardTTL r1)"
    using l2 g by (auto simp: StackGet_def Let_def split: sum.splits option.splits)
  obtain r2 where p: "put ?now ?key v HardTTL r1 = (None, r2)" using ok by (metis prod.collapse)
  have "(0::int) < HardTTL" by (simp add: HardTTL_def)
  then show "serves_until ?now (?now + HardTTL) ?key v (ss_redis (snd (StackGet get put c call t req st)))"
    using put_ok [OF _ p] by (simp add: serves_until_def r p)
  show "up (ss_redis (snd (StackGet get put c call t req st)))" if "up (ss_redis st)"
    using put_up [OF _ p] get_up [OF that g] by (simp add: r p)
qed

lemma backfill_then_hit:
  assumes l2: "fst (StackGet get put c call t req st) = Inr \<lparr>Hit = True, Tier = TierL2, Response = v\<rparr>"
    and g: "get (ca_now call) (cache_key c t req) (ss_redis st) = (a, r1)"
    and ok: "fst (put (ca_now call) (cache_key c t req) v HardTTL r1) = None"
    and same: "cache_key c t req' = cache_key c t req"
    and times: "sorted (ca_now call # map (ca_now \<circ> fst) rs @ [ca_now call'])"
      "ca_now call' < ca_now call + HardTTL"
    and st': "st' = stack_calls get put c rs (snd (StackGet get put c call t req st))"
    and answered: "get (ca_now call') (cache_key c t req) (ss_redis st') = (Inr x, r2)"
  shows "\<exists>w. fst (StackGet get put c call' t req' st') = Inr \<lparr>Hit = True, Tier = TierL1, Response = w\<rparr> \<and>
    (w = v \<or> (\<exists>q \<in> set rs. fills c (cache_key c t req) w q)) \<and> (up (ss_redis st) \<longrightarrow> w = v)"
proof -
  have t: "t \<noteq> []" using l2 by (auto simp: StackGet_def)
  from stack_calls_serve [OF backfill_serves(1) [OF l2 g ok] times order_refl, of c]
  obtain w where w: "serves_until (ca_now call') (ca_now call + HardTTL) (cache_key c t req) w (ss_redis st')"
    "w = v \<or> (\<exists>q \<in> set rs. fills c (cache_key c t req) w q)" "up (ss_redis st) \<longrightarrow> w = v"
    using backfill_serves(2) [OF l2 g ok] unfolding st' by blast
  have "fst (StackGet get put c call' t req' st') = Inr \<lparr>Hit = True, Tier = TierL1, Response = w\<rparr>"
    using w(1) times(2) t answered by (intro StackGet_hit) (auto simp: serves_until_def same)
  with w show ?thesis by blast
qed

end

section \<open>A Redis behind a network\<close>

text \<open>
  Each call may fail: \<open>gio n\<close> tells whether the \<open>n\<close>-th call, a read, is answered, and \<open>sio n\<close> what becomes
  of it when it is a write.  A failed write may have been executed.
\<close>

datatype set_outcome = SetOk | SetErr bool

record net_redis =
  nr_data :: "string \<rightharpoonup> mem_entry"
  nr_calls :: nat

definition net_view :: "int \<Rightarrow> net_redis \<Rightarrow> string \<rightharpoonup> string" where
  "net_view now r k =
     (case nr_data r k of None \<Rightarrow> None | Some e \<Rightarrow> if mem_expired now e then None else Some (me_value e))"

definition NetGet :: "(nat \<Rightarrow> bool) \<Rightarrow> net_redis redis_get" where
  "NetGet gio now key r =
     (if gio (nr_calls r) then Inr (net_view now r key) else Inl ''redis: read failed'',
      r\<lparr>nr_calls := Suc (nr_calls r)\<rparr>)"

definition NetSet :: "(nat \<Rightarrow> set_outcome) \<Rightarrow> net_redis redis_set" where
  "NetSet sio now key v ttl r =
     (let r1 = r\<lparr>nr_calls := Suc (nr_calls r)\<rparr>;
          stored = r1\<lparr>nr_data := (nr_data r)(key \<mapsto>
            \<lparr>me_value = v, me_expire_at = (if 0 < ttl then Some (now + ttl) else None)\<rparr>)\<rparr>
      in case sio (nr_calls r) of
           SetOk \<Rightarrow> (None, stored)
         | SetErr executed \<Rightarrow> (Some ''redis: write failed'', if executed then stored else r1))"

definition net_up :: "(nat \<Rightarrow> bool) \<Rightarrow> net_redis \<Rightarrow> bool" where
  "net_up gio r \<longleftrightarrow> (\<forall>n \<ge> nr_calls r. gio n)"

lemma net_view_calls [simp]: "net_view t (r\<lparr>nr_calls := n\<rparr>) = net_view t r"
  by (simp add: net_view_def fun_eq_iff)

lemma net_view_stored:
  "net_view t (r\<lparr>nr_calls := n, nr_data := (nr_data r)(k \<mapsto> \<lparr>me_value = v, me_expire_at = Some d\<rparr>)\<rparr>) =
    (net_view t r)(k := if t < d then Some v else None)"
  by (simp add: net_view_def mem_expired_def fun_eq_iff)

interpretation net: redis_client "NetGet gio" "NetSet sio" net_view "net_up gio"
  for gio :: "nat \<Rightarrow> bool" and sio :: "nat \<Rightarrow> set_outcome"
proof unfold_locales
  fix ttl now k v r e r' and t :: int
  assume ttl: "(0::int) < ttl"
  show "net_view t r' = (net_view t r)(k := if t < now + ttl then Some v else None)"
    if "NetSet sio now k v ttl r = (None, r')"
    using that ttl by (auto simp: NetSet_def Let_def net_view_stored split: set_outcome.splits)
  show "(\<forall>t \<ge> now. net_view t r' = net_view t r) \<or>
      (\<forall>t \<ge> now. net_view t r' = (net_view t r)(k := if t < now + ttl then Some v else None))"
    if "NetSet sio now k v ttl r = (Some e, r')"
    using that ttl by (auto simp: NetSet_def Let_def net_view_stored split: set_outcome.splits bool.splits)
qed (auto simp: NetGet_def NetSet_def net_up_def Let_def split: if_splits set_outcome.splits)

section \<open>The in-memory client keeps the promise\<close>

definition mem_view :: "int \<Rightarrow> mem_redis \<Rightarrow> string \<rightharpoonup> string" where
  "mem_view now m k =
     (case mr_data m k of None \<Rightarrow> None | Some e \<Rightarrow> if mem_expired now e then None else Some (me_value e))"

definition mem_up :: "mem_redis \<Rightarrow> bool" where
  "mem_up m \<longleftrightarrow> mr_err_on_get m = None"

lemma mem_expired_mono: "mem_expired now e \<Longrightarrow> now \<le> t \<Longrightarrow> mem_expired t e"
  by (auto simp: mem_expired_def split: option.splits)

interpretation mem: redis_client MemGet MemSet mem_view mem_up
proof unfold_locales
  fix r now k a r' and t :: int
  show "a = mem_view now r k" if "MemGet now k r = (Inr a, r')"
    using that by (auto simp: MemGet_def mem_view_def split: option.splits if_splits)
  show "mem_up r' \<and> (\<exists>x. a = Inr x)" if "mem_up r" "MemGet now k r = (a, r')" for a :: "string + string option"
    using that by (auto simp: MemGet_def mem_up_def split: option.splits if_splits)
  show "mem_view t r' = mem_view t r" if "MemGet now k r = (a, r')" "now \<le> t" for a :: "string + string option"
    using that mem_expired_mono [of now _ t]
    by (auto simp: MemGet_def mem_view_def fun_eq_iff split: option.splits if_splits)
qed (auto simp: MemSet_def mem_view_def mem_up_def mem_expired_def fun_eq_iff)

section \<open>Properties of the stack\<close>

lemma cache_key_same:
  "Normalize (effective_request c t req') = Normalize (effective_request c t req) \<Longrightarrow>
     cache_key c t req' = cache_key c t req"
  by (simp add: cache_key_def Fingerprint_def)

definition demo_digest :: "json \<Rightarrow> string" where
  "demo_digest d = replicate 64 (CHR ''a'')"

definition demo_config :: stack_config where
  "demo_config = \<lparr>sc_l2 = MemL2Get [''acme'' \<mapsto> ''hello''] [], sc_rules = None, sc_digest = demo_digest,
     sc_unicode = \<lparr>strip_punct = id, to_lower = id\<rparr>, sc_metrics = True, sc_emitter = True\<rparr>"

definition demo_state :: "mem_redis stack_state" where
  "demo_state = \<lparr>ss_redis = \<lparr>mr_data = Map.empty, mr_err_on_get = None\<rparr>, ss_l1_hits = (\<lambda>_. 0),
     ss_l2_hits = (\<lambda>_. 0), ss_misses = (\<lambda>_. 0), ss_events = []\<rparr>"

definition demo_call :: "int \<Rightarrow> stack_call" where
  "demo_call t = \<lparr>ca_now = t, ca_elapsed = 10 ^ 6, ca_http = Some 202\<rparr>"

definition demo_request :: "string \<Rightarrow> prompt_request" where
  "demo_request s = \<lparr>Messages = [\<lparr>Role = ''user'', Content = s\<rparr>], RequestModel = ''m'', Temperature = 0\<rparr>"

definition net_state :: "net_redis stack_state" where
  "net_state = \<lparr>ss_redis = \<lparr>nr_data = Map.empty, nr_calls = 0\<rparr>, ss_l1_hits = (\<lambda>_. 0),
     ss_l2_hits = (\<lambda>_. 0), ss_misses = (\<lambda>_. 0), ss_events = []\<rparr>"

text \<open>
  C12.  The backfill, over a Redis whose reads and writes may fail.  Once a request was answered by the
  second tier and its write to Redis was acknowledged, a later request of the same tenant with the
  same normal form within thirty days, whatever calls of whatever tenants come in between, is
  answered from the first tier, provided its own read is answered.  The response is the one of the
  first request, or the one the second tier gave to a call in between with the same key, which is
  possible only when a read has failed: when all reads are answered it is the first response.
\<close>

theorem semantic_hit_backfilled:
  assumes "fst (StackGet (NetGet gio) (NetSet sio) c call t req st) = Inr \<lparr>Hit = True, Tier = TierL2, Response = v\<rparr>"
    and "sio (Suc (nr_calls (ss_redis st))) = SetOk"
    and "Normalize (effective_request c t req') = Normalize (effective_request c t req)"
    and "sorted (ca_now call # map (ca_now \<circ> fst) rs @ [ca_now call'])"
    and "ca_now call' < ca_now call + HardTTL"
    and "st' = stack_calls (NetGet gio) (NetSet sio) c rs (snd (StackGet (NetGet gio) (NetSet sio) c call t req st))"
    and "gio (nr_calls (ss_redis st'))"
  shows "\<exists>w. fst (StackGet (NetGet gio) (NetSet sio) c call' t req' st') = Inr \<lparr>Hit = True, Tier = TierL1, Response = w\<rparr> \<and>
    (w = v \<or> (\<exists>q \<in> set rs. fills c (cache_key c t req) w q)) \<and> ((\<forall>n. gio n) \<longrightarrow> w = v)"
proof -
  let ?key = "cache_key c t req"
  obtain a r1 where g: "NetGet gio (ca_now call) ?key (ss_redis st) = (a, r1)" by fastforce
  then have "nr_calls r1 = Suc (nr_calls (ss_redis st))" by (auto simp: NetGet_def)
  then have ok: "fst (NetSet sio (ca_now call) ?key v HardTTL r1) = None" using assms(2) by (simp add: NetSet_def Let_def)
  obtain x r2 where ans: "NetGet gio (ca_now call') ?key (ss_redis st') = (Inr x, r2)"
    using assms(7) by (simp add: NetGet_def)
  show ?thesis
    using net.backfill_then_hit [OF assms(1) g ok cache_key_same [OF assms(3)] assms(4-6) ans]
    by (auto simp: net_up_def)
qed

lemma semantic_hit_backfilled_witness:
  "fst (StackGet (NetGet (\<lambda>_. True)) (NetSet (\<lambda>n. if n = 1 then SetOk else SetErr False)) demo_config (demo_call 9) ''acme'' (demo_request ''hi'')
     (stack_calls (NetGet (\<lambda>_. True)) (NetSet (\<lambda>n. if n = 1 then SetOk else SetErr False)) demo_config [(demo_call 5, ''other'', demo_request ''x'')]
       (snd (StackGet (NetGet (\<lambda>_. True)) (NetSet (\<lambda>n. if n = 1 then SetOk else SetErr False)) demo_config (demo_call 0) ''acme'' (demo_request ''hi'') net_state)))) =
   Inr \<lparr>Hit = True, Tier = TierL1, Response = ''hello''\<rparr>"
proof -
  let ?sio = "\<lambda>n. if n = 1 then SetOk else SetErr False"
  have l2: "fst (StackGet (NetGet (\<lambda>_. True)) (NetSet ?sio) demo_config (demo_call 0) ''acme'' (demo_request ''hi'') net_state) =
      Inr \<lparr>Hit = True, Tier = TierL2, Response = ''hello''\<rparr>"
    by (simp add: StackGet_def demo_config_def net_state_def demo_call_def NetGet_def net_view_def MemL2Get_def Let_def)
  from semantic_hit_backfilled [OF l2 _ refl _ _ refl, of "[(demo_call 5, ''other'', demo_request ''x'')]" "demo_call 9"]
  show ?thesis by (simp add: net_state_def demo_call_def HardTTL_def)
qed

text \<open>
  Observation.  Keys of the cache never cross tenants: with digests of a fixed length, as SHA-256 has, two
  keys are equal only for the same tenant and the same digest, whatever characters the tenant ids
  contain.
\<close>

theorem cache_keys_injective:
  assumes "\<And>d. length (sc_digest c d) = 64"
  shows "cache_key c t req = cache_key c t' req' \<longleftrightarrow>
    t = t' \<and> Fingerprint (sc_digest c) (effective_request c t req) =
      Fingerprint (sc_digest c) (effective_request c t' req')"
proof -
  have "length (Fingerprint (sc_digest c) q) = 64" for q using assms by (simp add: Fingerprint_def)
  then have "length (CHR '':'' # Fingerprint (sc_digest c) q) = length (CHR '':'' # Fingerprint (sc_digest c) q')"
    for q q' by simp
  from append_eq_append_conv [OF disjI2 [OF this]] show ?thesis
    by (simp add: cache_key_def RedisKey_def)
qed

lemma cache_keys_injective_witness:
  "cache_key demo_config ''a'' (demo_request ''x'') \<noteq> cache_key demo_config ''a:b'' (demo_request ''x'')"
  using cache_keys_injective [of demo_config "''a''" "demo_request ''x''" "''a:b''" "demo_request ''x''"]
  by (simp add: demo_config_def demo_digest_def)

text \<open>
  Observation.  A Redis that fails every read never fails a request: the outcome is the one of the second
  tier, an error only if that tier has one, and the counters say so.
\<close>

theorem redis_down_fails_open:
  assumes "mr_err_on_get (ss_redis st) = Some e" "t \<noteq> []"
  shows "fst (StackGet MemGet MemSet c call t req st) =
    (case sc_l2 c t (effective_request c t req) of
       Inl e2 \<Rightarrow> Inl (''stack: L2 lookup: '' @ e2)
     | Inr None \<Rightarrow> Inr \<lparr>Hit = False, Tier = TierMiss, Response = []\<rparr>
     | Inr (Some v) \<Rightarrow> Inr \<lparr>Hit = True, Tier = TierL2, Response = v\<rparr>)"
  using assms by (auto simp: StackGet_def MemGet_def Let_def split: sum.split option.split)

lemma redis_down_fails_open_witness:
  "fst (StackGet MemGet MemSet demo_config (demo_call 0) ''acme'' (demo_request ''hi'')
     (demo_state\<lparr>ss_redis := \<lparr>mr_data = Map.empty, mr_err_on_get = Some ''down''\<rparr>\<rparr>)) =
   Inr \<lparr>Hit = True, Tier = TierL2, Response = ''hello''\<rparr>"
  using redis_down_fails_open [of "demo_state\<lparr>ss_redis := \<lparr>mr_data = Map.empty, mr_err_on_get = Some ''down''\<rparr>\<rparr>"
      "''down''" "''acme''" demo_config "demo_call 0" "demo_request ''hi''"]
  by (simp add: demo_config_def MemL2Get_def)

end
