(* ===== verification/Replay_Log.thy ===== *)
theory Replay_Log
  imports Go_Json
begin

text \<open>
  The recorded event log of an agent run (\<^verbatim>\<open>agent-replay-engine/pkg/eventlog\<close>), the faults that can
  be injected (\<^verbatim>\<open>pkg/fault\<close>) and the mocker that serves the frozen tool responses
  (\<^verbatim>\<open>pkg/mocker\<close>).

  A file is a list of lines: blank, a JSON text (or bytes that are none), or too long for the
  scanner's buffer of 16 MiB.  The length in bytes of a JSON text is the argument \<open>len\<close> of the writer.  A raw payload is \<open>None\<close> when the field was absent.  The hexadecimal SHA-256 of
  a string is the argument \<open>sha\<close>.  \<^verbatim>\<open>sort.SliceStable\<close> is HOL's \<open>sort_key\<close>, which is stable.
\<close>

section \<open>Events\<close>

record agent_event =
  SeqNum :: int
  EvSpanID :: string
  EvTraceID :: string
  Kind :: string
  Timestamp :: int
  EvToolName :: string
  InputHash :: string
  Payload :: "json option"

type_synonym event_log = "agent_event list"

definition KindToolCall :: string where "KindToolCall = ''tool_call''"
definition KindToolResponse :: string where "KindToolResponse = ''tool_response''"
definition KindFinalOutput :: string where "KindFinalOutput = ''final_output''"

definition zero_agent_event :: agent_event where
  "zero_agent_event = \<lparr>SeqNum = 0, EvSpanID = [], EvTraceID = [], Kind = [], Timestamp = 0,
     EvToolName = [], InputHash = [], Payload = None\<rparr>"

definition agent_event_fields :: "agent_event fields" where
  "agent_event_fields =
     [(''seq_num'', lens SeqNum (\<lambda>x e. e\<lparr>SeqNum := x\<rparr>) dec_int64),
      (''span_id'', lens EvSpanID (\<lambda>x e. e\<lparr>EvSpanID := x\<rparr>) dec_string),
      (''trace_id'', lens EvTraceID (\<lambda>x e. e\<lparr>EvTraceID := x\<rparr>) dec_string),
      (''kind'', lens Kind (\<lambda>x e. e\<lparr>Kind := x\<rparr>) dec_string),
      (''timestamp_ns'', lens Timestamp (\<lambda>x e. e\<lparr>Timestamp := x\<rparr>) dec_int64),
      (''tool_name'', lens EvToolName (\<lambda>x e. e\<lparr>EvToolName := x\<rparr>) dec_string),
      (''input_hash'', lens InputHash (\<lambda>x e. e\<lparr>InputHash := x\<rparr>) dec_string),
      (''payload'', lens Payload (\<lambda>x e. e\<lparr>Payload := x\<rparr>) dec_raw)]"

definition unmarshal_agent_event :: "payload \<Rightarrow> agent_event option" where
  "unmarshal_agent_event p = unmarshal (dec_struct agent_event_fields) p zero_agent_event"

definition marshal_agent_event :: "agent_event \<Rightarrow> payload" where
  "marshal_agent_event e = Some (JObj (
     [(''seq_num'', JInt (SeqNum e)), (''span_id'', JStr (EvSpanID e)), (''trace_id'', JStr (EvTraceID e)),
      (''kind'', JStr (Kind e)), (''timestamp_ns'', JInt (Timestamp e))] @
     enc_str_omit ''tool_name'' (EvToolName e) @ enc_str_omit ''input_hash'' (InputHash e) @
     [(''payload'', case Payload e of None \<Rightarrow> JNull | Some v \<Rightarrow> v)]))"

section \<open>Reading and writing\<close>

datatype jsonl_line = BlankLine | JsonLine payload | LongLine

datatype read_error = BadLine nat | ScanFailed

fun read_lines :: "nat \<Rightarrow> jsonl_line list \<Rightarrow> read_error + event_log" where
  "read_lines n [] = Inr []"
| "read_lines n (BlankLine # ls) = read_lines (n + 1) ls"
| "read_lines n (JsonLine p # ls) =
     (case unmarshal_agent_event p of
        None \<Rightarrow> Inl (BadLine (n + 1))
      | Some ev \<Rightarrow> (case read_lines (n + 1) ls of Inl e \<Rightarrow> Inl e | Inr evs \<Rightarrow> Inr (ev # evs)))"
| "read_lines n (LongLine # ls) = Inl ScanFailed"

definition ReadJSONL :: "jsonl_line list \<Rightarrow> read_error + event_log" where
  "ReadJSONL ls = (case read_lines 0 ls of Inl e \<Rightarrow> Inl e | Inr evs \<Rightarrow> Inr (sort_key SeqNum evs))"

text \<open>
  A line and its newline have to fit into the scanner's buffer; the writer has no limit, so it may
  write a line that no reader of this package accepts.
\<close>

definition scan_limit :: nat where "scan_limit = 16 * 1024 * 1024"

definition WriteJSONL :: "(payload \<Rightarrow> nat) \<Rightarrow> event_log \<Rightarrow> jsonl_line list" where
  "WriteJSONL len events =
     map (\<lambda>ev. let p = marshal_agent_event ev in if len p < scan_limit then JsonLine p else LongLine) events"

text \<open>\<^verbatim>\<open>Scanner.Scan\<close>: the next event and the lines after it, or the end, or an error.\<close>

datatype scan = ScanEvent agent_event "jsonl_line list" | ScanEnd | ScanErr

fun Scan :: "jsonl_line list \<Rightarrow> scan" where
  "Scan [] = ScanEnd"
| "Scan (BlankLine # ls) = Scan ls"
| "Scan (JsonLine p # ls) =
     (case unmarshal_agent_event p of None \<Rightarrow> ScanErr | Some ev \<Rightarrow> ScanEvent ev ls)"
| "Scan (LongLine # ls) = ScanErr"

section \<open>Queries\<close>

fun first_from :: "string \<Rightarrow> agent_event option \<Rightarrow> event_log \<Rightarrow> agent_event option" where
  "first_from kind found [] = found"
| "first_from kind found (ev # evs) =
     (if Kind ev \<noteq> kind then first_from kind found evs
      else case found of
        None \<Rightarrow> first_from kind (Some ev) evs
      | Some f \<Rightarrow> first_from kind (if SeqNum ev < SeqNum f then Some ev else found) evs)"

definition First :: "event_log \<Rightarrow> string \<Rightarrow> agent_event option" where
  "First events kind = first_from kind None events"

definition FilterByTraceID :: "event_log \<Rightarrow> string \<Rightarrow> event_log" where
  "FilterByTraceID events traceID = sort_key SeqNum (filter (\<lambda>ev. EvTraceID ev = traceID) events)"

definition AllOfKind :: "event_log \<Rightarrow> string \<Rightarrow> event_log" where
  "AllOfKind events kind = sort_key SeqNum (filter (\<lambda>ev. Kind ev = kind) events)"

datatype log_error = NonMonotonic int int | DuplicateSpan string int int

fun validate_from :: "(string \<rightharpoonup> int) \<Rightarrow> int option \<Rightarrow> event_log \<Rightarrow> log_error option" where
  "validate_from seen prev [] = None"
| "validate_from seen prev (ev # evs) =
     (if (case prev of None \<Rightarrow> False | Some s \<Rightarrow> SeqNum ev \<le> s)
      then Some (NonMonotonic (SeqNum ev) (the prev))
      else if EvSpanID ev = [] then validate_from seen (Some (SeqNum ev)) evs
      else case seen (EvSpanID ev) of
        Some prior \<Rightarrow> Some (DuplicateSpan (EvSpanID ev) (SeqNum ev) prior)
      | None \<Rightarrow> validate_from (seen(EvSpanID ev \<mapsto> SeqNum ev)) (Some (SeqNum ev)) evs)"

definition ValidateLog :: "event_log \<Rightarrow> log_error option" where
  "ValidateLog events = validate_from Map.empty None events"

section \<open>Faults\<close>

datatype fault_error = ErrTimeout | ErrHTTP500 | ErrStaleCache | UnknownFault string

definition fault_valid :: "string \<Rightarrow> bool" where
  "fault_valid k \<longleftrightarrow> k = ''timeout'' \<or> k = ''http_500'' \<or> k = ''stale_cache''"

definition fault_err :: "string \<Rightarrow> fault_error" where
  "fault_err k =
     (if k = ''timeout'' then ErrTimeout else if k = ''http_500'' then ErrHTTP500
      else if k = ''stale_cache'' then ErrStaleCache else UnknownFault k)"

section \<open>The mocker\<close>

record tool_mocker =
  mk_responses :: "string \<rightharpoonup> json option"
  mk_history :: "string list"
  mk_call_count :: int
  mk_inject :: "(int \<times> string) option"

definition compositeKey :: "(string \<Rightarrow> string) \<Rightarrow> string \<Rightarrow> string \<Rightarrow> string" where
  "compositeKey sha toolName inputHash = sha (toolName @ '':'' @ inputHash)"

definition new_mocker :: "(string \<rightharpoonup> json option) \<Rightarrow> tool_mocker" where
  "new_mocker rs = \<lparr>mk_responses = rs, mk_history = [], mk_call_count = 0, mk_inject = None\<rparr>"

type_synonym call_key = "string \<times> string"

definition call_key_of :: "agent_event \<Rightarrow> call_key" where
  "call_key_of ev = (EvToolName ev, InputHash ev)"

definition keyed :: "agent_event \<Rightarrow> bool" where
  "keyed ev \<longleftrightarrow> EvToolName ev \<noteq> [] \<and> InputHash ev \<noteq> []"

definition index_response ::
  "agent_event \<Rightarrow> (call_key \<rightharpoonup> json option) \<Rightarrow> (call_key \<rightharpoonup> json option)" where
  "index_response ev m =
     (if \<not> keyed ev then m
      else if m (call_key_of ev) \<noteq> None then m
      else m(call_key_of ev \<mapsto> Payload ev))"

definition pair_call ::
  "(string \<Rightarrow> string) \<Rightarrow> (call_key \<rightharpoonup> json option) \<Rightarrow> agent_event \<Rightarrow>
   (string \<rightharpoonup> json option) \<Rightarrow> (string \<rightharpoonup> json option)" where
  "pair_call sha byCall ev rs =
     (if \<not> keyed ev then rs
      else case byCall (call_key_of ev) of
        None \<Rightarrow> rs
      | Some p \<Rightarrow> rs(compositeKey sha (EvToolName ev) (InputHash ev) \<mapsto> p))"

definition LoadFromLog :: "(string \<Rightarrow> string) \<Rightarrow> event_log \<Rightarrow> tool_mocker" where
  "LoadFromLog sha events =
     (let byCall = fold index_response (AllOfKind events KindToolResponse) Map.empty
      in new_mocker (fold (pair_call sha byCall) (AllOfKind events KindToolCall) Map.empty))"

definition Inject :: "int \<Rightarrow> string \<Rightarrow> tool_mocker \<Rightarrow> tool_mocker" where
  "Inject atStep kind m = m\<lparr>mk_inject := (if atStep \<le> 0 then None else Some (atStep, kind))\<rparr>"

text \<open>Streaming: responses seen, calls that wait for theirs, the table and whether the trace was seen.\<close>

record load_state =
  ld_by_call :: "call_key \<rightharpoonup> json option"
  ld_pending :: "call_key set"
  ld_responses :: "string \<rightharpoonup> json option"
  ld_saw :: bool

definition load_event :: "(string \<Rightarrow> string) \<Rightarrow> string \<Rightarrow> agent_event \<Rightarrow> load_state \<Rightarrow> load_state" where
  "load_event sha traceID ev st =
     (if EvTraceID ev \<noteq> traceID then st
      else
        let st = st\<lparr>ld_saw := True\<rparr>; k = call_key_of ev;
            key = compositeKey sha (EvToolName ev) (InputHash ev)
        in if Kind ev = KindToolResponse then
             (if \<not> keyed ev then st
              else
                let st = st\<lparr>ld_by_call := index_response ev (ld_by_call st)\<rparr>
                in if k \<in> ld_pending st
                   then st\<lparr>ld_responses := (ld_responses st)(key \<mapsto> the (ld_by_call st k)),
                           ld_pending := ld_pending st - {k}\<rparr>
                   else st)
           else if Kind ev = KindToolCall then
             (if \<not> keyed ev then st
              else case ld_by_call st k of
                Some p \<Rightarrow> st\<lparr>ld_responses := (ld_responses st)(key \<mapsto> p)\<rparr>
              | None \<Rightarrow> st\<lparr>ld_pending := insert k (ld_pending st)\<rparr>)
           else st)"

lemma Scan_shorter: "Scan ls = ScanEvent ev rest \<Longrightarrow> length rest < length ls"
  by (induction ls rule: Scan.induct) (auto split: option.splits)

function load_loop :: "(string \<Rightarrow> string) \<Rightarrow> string \<Rightarrow> jsonl_line list \<Rightarrow> load_state \<Rightarrow> load_state option" where
  "load_loop sha traceID ls st =
     (case Scan ls of
        ScanEvent ev rest \<Rightarrow> load_loop sha traceID rest (load_event sha traceID ev st)
      | ScanEnd \<Rightarrow> Some st
      | ScanErr \<Rightarrow> None)"
  by pat_completeness auto
termination
  by (relation "measure (\<lambda>(sha, t, ls, st). length ls)") (auto dest: Scan_shorter)

declare load_loop.simps [simp del]

definition LoadFromReader ::
  "(string \<Rightarrow> string) \<Rightarrow> jsonl_line list \<Rightarrow> string \<Rightarrow> (tool_mocker \<times> bool) option" where
  "LoadFromReader sha ls traceID =
     (case load_loop sha traceID ls
        \<lparr>ld_by_call = Map.empty, ld_pending = {}, ld_responses = Map.empty, ld_saw = False\<rparr> of
        None \<Rightarrow> None
      | Some st \<Rightarrow> Some (new_mocker (ld_responses st), ld_saw st))"

datatype mock_error = ErrUnknownCall string string | Injected string string fault_error

definition Respond ::
  "(string \<Rightarrow> string) \<Rightarrow> string \<Rightarrow> string \<Rightarrow> tool_mocker \<Rightarrow> (mock_error + json option) \<times> tool_mocker" where
  "Respond sha toolName inputHash m =
     (let key = compositeKey sha toolName inputHash;
          m = m\<lparr>mk_call_count := mk_call_count m + 1\<rparr>
      in case mk_inject m of
           Some (atStep, kind) \<Rightarrow>
             if mk_call_count m = atStep then (Inl (Injected toolName inputHash (fault_err kind)), m)
             else (case mk_responses m key of
                     None \<Rightarrow> (Inl (ErrUnknownCall toolName inputHash), m)
                   | Some p \<Rightarrow> (Inr p, m\<lparr>mk_history := mk_history m @ [key]\<rparr>))
         | None \<Rightarrow>
             (case mk_responses m key of
                None \<Rightarrow> (Inl (ErrUnknownCall toolName inputHash), m)
              | Some p \<Rightarrow> (Inr p, m\<lparr>mk_history := mk_history m @ [key]\<rparr>)))"

definition CallHistory :: "tool_mocker \<Rightarrow> string list" where
  "CallHistory m = mk_history m"

section \<open>Round trip and validation\<close>

definition storable :: "agent_event \<Rightarrow> bool" where
  "storable e \<longleftrightarrow> Payload e \<noteq> None \<and> - (2 ^ 63) \<le> SeqNum e \<and> SeqNum e < 2 ^ 63 \<and>
     - (2 ^ 63) \<le> Timestamp e \<and> Timestamp e < 2 ^ 63"

lemma agent_event_decoders:
  "field_decoder agent_event_fields ''seq_num'' = Some (lens SeqNum (\<lambda>x e. e\<lparr>SeqNum := x\<rparr>) dec_int64)"
  "field_decoder agent_event_fields ''span_id'' = Some (lens EvSpanID (\<lambda>x e. e\<lparr>EvSpanID := x\<rparr>) dec_string)"
  "field_decoder agent_event_fields ''trace_id'' = Some (lens EvTraceID (\<lambda>x e. e\<lparr>EvTraceID := x\<rparr>) dec_string)"
  "field_decoder agent_event_fields ''kind'' = Some (lens Kind (\<lambda>x e. e\<lparr>Kind := x\<rparr>) dec_string)"
  "field_decoder agent_event_fields ''timestamp_ns'' = Some (lens Timestamp (\<lambda>x e. e\<lparr>Timestamp := x\<rparr>) dec_int64)"
  "field_decoder agent_event_fields ''tool_name'' = Some (lens EvToolName (\<lambda>x e. e\<lparr>EvToolName := x\<rparr>) dec_string)"
  "field_decoder agent_event_fields ''input_hash'' = Some (lens InputHash (\<lambda>x e. e\<lparr>InputHash := x\<rparr>) dec_string)"
  "field_decoder agent_event_fields ''payload'' = Some (lens Payload (\<lambda>x e. e\<lparr>Payload := x\<rparr>) dec_raw)"
  by (subst field_decoder_plain, simp add: plain_name_def, simp add: agent_event_fields_def plain_name_def,
      simp add: agent_event_fields_def)+

lemma unmarshal_marshal_agent_event: "storable e \<Longrightarrow> unmarshal_agent_event (marshal_agent_event e) = Some e"
  unfolding unmarshal_agent_event_def marshal_agent_event_def unmarshal_def
  by (auto simp: storable_def dec_entries_append enc_str_omit_def agent_event_decoders lens_def
      zero_agent_event_def dec_raw_def)

lemma read_lines_write:
  "list_all storable evs \<Longrightarrow> read_lines n (WriteJSONL len evs) =
     (if list_all (\<lambda>ev. len (marshal_agent_event ev) < scan_limit) evs then Inr evs else Inl ScanFailed)"
proof (induction evs arbitrary: n)
  case (Cons ev evs)
  have "WriteJSONL len (ev # evs) =
      (if len (marshal_agent_event ev) < scan_limit then JsonLine (marshal_agent_event ev) else LongLine) # WriteJSONL len evs"
    by (simp add: WriteJSONL_def)
  then show ?case using Cons by (simp add: unmarshal_marshal_agent_event)
qed (simp add: WriteJSONL_def)

definition span_ids :: "event_log \<Rightarrow> string list" where
  "span_ids evs = filter (\<lambda>s. s \<noteq> []) (map EvSpanID evs)"

lemma validate_from_iff:
  "validate_from seen prev evs = None \<longleftrightarrow>
     sorted_wrt (<) ((case prev of None \<Rightarrow> [] | Some s \<Rightarrow> [s]) @ map SeqNum evs) \<and>
     distinct (span_ids evs) \<and> set (span_ids evs) \<inter> dom seen = {}"
proof (induction seen prev evs rule: validate_from.induct)
  case (1 seen prev)
  then show ?case by (simp add: span_ids_def split: option.split)
next
  case (2 seen prev ev evs)
  let ?s = "SeqNum ev"
  have sorted: "sorted_wrt (<) ((case prev of None \<Rightarrow> [] | Some s \<Rightarrow> [s]) @ map SeqNum (ev # evs)) \<longleftrightarrow>
      (case prev of None \<Rightarrow> True | Some s \<Rightarrow> s < ?s) \<and> sorted_wrt (<) (?s # map SeqNum evs)"
    by (cases prev) (auto intro: less_trans)
  show ?case
  proof (cases "case prev of None \<Rightarrow> False | Some s \<Rightarrow> ?s \<le> s")
    case True
    then show ?thesis unfolding sorted by (auto split: option.splits)
  next
    case mono: False
    then have ok: "case prev of None \<Rightarrow> True | Some s \<Rightarrow> s < ?s" by (auto split: option.splits)
    show ?thesis
    proof (cases "EvSpanID ev = []")
      case True
      then show ?thesis using 2(1) [OF mono True] mono ok unfolding sorted by (simp add: span_ids_def)
    next
      case named: False
      have ids: "span_ids (ev # evs) = EvSpanID ev # span_ids evs" using named by (simp add: span_ids_def)
      show ?thesis
      proof (cases "seen (EvSpanID ev)")
        case (Some prior)
        then show ?thesis using mono named unfolding ids by auto
      next
        case None
        have step: "validate_from seen prev (ev # evs) =
            validate_from (seen(EvSpanID ev \<mapsto> ?s)) (Some ?s) evs"
          using mono named None by simp
        have "set (span_ids evs) \<inter> dom (seen(EvSpanID ev \<mapsto> ?s)) = {} \<longleftrightarrow>
            EvSpanID ev \<notin> set (span_ids evs) \<and> set (span_ids evs) \<inter> dom seen = {}"
          by (simp add: Int_insert_right)
        then show ?thesis
          using ok None unfolding step 2(2) [OF mono named None] sorted ids
          by (auto simp: domIff)
      qed
    qed
  qed
qed

text \<open>
  C36.  A log of storable events that is written is read back as its events in the order of their
  sequence numbers, unchanged when it passes validation, exactly when every line fits the scanner's
  buffer of 16 MiB; with one longer line nothing of the log can be read.  Validation passes exactly
  when the sequence numbers increase strictly and no span id other than the empty one occurs twice.
\<close>

theorem log_roundtrip:
  assumes "list_all storable evs"
  shows "(ValidateLog evs = None \<longleftrightarrow>
      sorted_wrt (<) (map SeqNum evs) \<and> distinct (filter (\<lambda>s. s \<noteq> []) (map EvSpanID evs))) \<and>
    ReadJSONL (WriteJSONL len evs) =
      (if list_all (\<lambda>ev. len (marshal_agent_event ev) < 16 * 1024 * 1024) evs
       then Inr (if ValidateLog evs = None then evs else sort_key SeqNum evs) else Inl ScanFailed)"
proof -
  have v: "ValidateLog evs = None \<longleftrightarrow>
      sorted_wrt (<) (map SeqNum evs) \<and> distinct (filter (\<lambda>s. s \<noteq> []) (map EvSpanID evs))"
    by (simp add: ValidateLog_def validate_from_iff span_ids_def)
  have "sorted_wrt (<) (map SeqNum evs) \<Longrightarrow> sort_key SeqNum evs = evs"
    by (simp add: strict_sorted_imp_sorted sort_key_id_if_sorted)
  then show ?thesis
    using v read_lines_write [OF assms, of 0 len] by (simp add: ReadJSONL_def scan_limit_def)
qed

definition demo_event :: "int \<Rightarrow> string \<Rightarrow> string \<Rightarrow> string \<Rightarrow> json \<Rightarrow> agent_event" where
  "demo_event n kind tool hash p = \<lparr>SeqNum = n, EvSpanID = [], EvTraceID = ''t'', Kind = kind, Timestamp = 0,
     EvToolName = tool, InputHash = hash, Payload = Some p\<rparr>"

definition demo_log :: event_log where
  "demo_log =
     [demo_event 1 KindToolCall ''sql'' ''h1'' JNull, demo_event 2 KindToolResponse ''sql'' ''h1'' (JInt 5),
      demo_event 3 KindFinalOutput [] [] (JObj [(''text'', JStr ''done'')])]"

lemma demo_log_storable: "list_all storable demo_log"
  by (simp add: demo_log_def demo_event_def storable_def)

lemma log_roundtrip_witness:
  "ReadJSONL (WriteJSONL (\<lambda>_. 100) demo_log) = Inr demo_log \<and> ReadJSONL (WriteJSONL (\<lambda>_. 2 ^ 24) demo_log) = Inl ScanFailed"
  using log_roundtrip [OF demo_log_storable, of "\<lambda>_. 100"] log_roundtrip [OF demo_log_storable, of "\<lambda>_. 2 ^ 24"]
  by (simp add: ValidateLog_def demo_log_def demo_event_def)

end
