(* ===== verification/Replay_Run.thy ===== *)
theory Replay_Run
  imports Replay_Log
begin

text \<open>
  Replaying a recorded run (\<^verbatim>\<open>agent-replay-engine/pkg/replay\<close>): the batch replay of a loaded log
  and the streaming replay of a file, and the comparison of two runs (\<^verbatim>\<open>pkg/diff\<close>).  The
  theorems relate the two replays, the mocker built from the log and the comparison.
\<close>

section \<open>Batch replay\<close>

datatype replay_error =
  ErrEmptyTrace | ErrNoFinalOutput | StepFailed int mock_error | BadFinalPayload

record replay_result =
  Output :: string
  ReplayHistory :: "string list"
  StepsRun :: int
  StoppedEarly :: bool
  ReplayErr :: "replay_error option"

definition empty_result :: replay_result where
  "empty_result = \<lparr>Output = [], ReplayHistory = [], StepsRun = 0, StoppedEarly = False, ReplayErr = None\<rparr>"

definition failed :: "tool_mocker \<Rightarrow> int \<Rightarrow> replay_error \<Rightarrow> replay_result" where
  "failed m steps e = empty_result\<lparr>ReplayHistory := CallHistory m, StepsRun := steps, ReplayErr := Some e\<rparr>"

definition stopped :: "tool_mocker \<Rightarrow> int \<Rightarrow> replay_result" where
  "stopped m steps = empty_result\<lparr>ReplayHistory := CallHistory m, StepsRun := steps, StoppedEarly := True\<rparr>"

text \<open>The loop over the calls: the result it returned with, if it did, the steps and the mocker.\<close>

fun run_calls ::
  "(string \<Rightarrow> string) \<Rightarrow> int \<Rightarrow> int \<Rightarrow> event_log \<Rightarrow> tool_mocker \<Rightarrow> replay_result option \<times> int \<times> tool_mocker" where
  "run_calls sha stopAt steps [] m = (None, steps, m)"
| "run_calls sha stopAt steps (call # calls) m =
     (if 0 < stopAt \<and> stopAt \<le> steps then (Some (stopped m steps), steps, m)
      else case Respond sha (EvToolName call) (InputHash call) m of
        (Inl e, m') \<Rightarrow> (Some (failed m' steps (StepFailed (steps + 1) e)), steps, m')
      | (Inr _, m') \<Rightarrow> run_calls sha stopAt (steps + 1) calls m')"

definition text_fields :: "string fields" where
  "text_fields = [(''text'', \<lambda>v s. dec_string v s)]"

definition finish_run :: "json option \<Rightarrow> int \<Rightarrow> tool_mocker \<Rightarrow> replay_result" where
  "finish_run payload steps m =
     (case unmarshal (dec_struct text_fields) payload [] of
        None \<Rightarrow> failed m steps BadFinalPayload
      | Some t \<Rightarrow> empty_result\<lparr>Output := t, ReplayHistory := CallHistory m, StepsRun := steps\<rparr>)"

definition RunReplay ::
  "(string \<Rightarrow> string) \<Rightarrow> event_log \<Rightarrow> tool_mocker \<Rightarrow> int \<Rightarrow> replay_result \<times> tool_mocker" where
  "RunReplay sha events m stopAtStep =
     (let calls = AllOfKind events KindToolCall in
      if calls = [] then (empty_result\<lparr>ReplayErr := Some ErrEmptyTrace\<rparr>, m)
      else case run_calls sha stopAtStep 0 calls m of
        (Some r, steps, m') \<Rightarrow> (r, m')
      | (None, steps, m') \<Rightarrow>
          (case First events KindFinalOutput of
             None \<Rightarrow> (failed m' steps ErrNoFinalOutput, m')
           | Some final \<Rightarrow> (finish_run (Payload final) steps m', m')))"

section \<open>Streaming replay\<close>

text \<open>
  The result carries a flag for an I/O or JSON error of the reader.  \<open>saw\<close> is set at the first
  tool call, \<open>final\<close> is the first payload of a final output.
\<close>

function stream_loop ::
  "(string \<Rightarrow> string) \<Rightarrow> string \<Rightarrow> int \<Rightarrow> jsonl_line list \<Rightarrow> int \<Rightarrow> bool \<Rightarrow> json option \<Rightarrow> tool_mocker \<Rightarrow>
   (replay_result \<times> bool) \<times> tool_mocker" where
  "stream_loop sha traceID stopAt ls steps saw final m =
     (case Scan ls of
        ScanErr \<Rightarrow> ((empty_result\<lparr>ReplayHistory := CallHistory m, StepsRun := steps\<rparr>, True), m)
      | ScanEnd \<Rightarrow>
          (if \<not> saw then ((empty_result\<lparr>ReplayErr := Some ErrEmptyTrace\<rparr>, False), m)
           else if final = None then ((failed m steps ErrNoFinalOutput, False), m)
           else ((finish_run final steps m, False), m))
      | ScanEvent ev rest \<Rightarrow>
          if EvTraceID ev \<noteq> traceID then stream_loop sha traceID stopAt rest steps saw final m
          else if Kind ev = KindToolCall then
            (if 0 < stopAt \<and> stopAt \<le> steps then ((stopped m steps, False), m)
             else case Respond sha (EvToolName ev) (InputHash ev) m of
               (Inl e, m') \<Rightarrow> ((failed m' steps (StepFailed (steps + 1) e), False), m')
             | (Inr _, m') \<Rightarrow> stream_loop sha traceID stopAt rest (steps + 1) True final m')
          else if Kind ev = KindFinalOutput then
            stream_loop sha traceID stopAt rest steps saw (if final = None then Payload ev else final) m
          else stream_loop sha traceID stopAt rest steps saw final m)"
  by pat_completeness auto
termination
  by (relation "measure (\<lambda>(sha, t, stop, ls, _). length ls)") (auto dest: Scan_shorter)

declare stream_loop.simps [simp del]

definition RunFromReader ::
  "(string \<Rightarrow> string) \<Rightarrow> jsonl_line list \<Rightarrow> string \<Rightarrow> tool_mocker \<Rightarrow> int \<Rightarrow> (replay_result \<times> bool) \<times> tool_mocker" where
  "RunFromReader sha ls traceID m stopAtStep = stream_loop sha traceID stopAtStep ls 0 False None m"

section \<open>Comparing two runs\<close>

datatype reason = ReasonToolName | ReasonInputHash | ReasonMissingInA | ReasonMissingInB

record divergence =
  StepIndex :: int
  Reason :: reason
  SpanIDA :: string
  SpanIDB :: string
  ToolNameA :: string
  ToolNameB :: string

record diff_result =
  Divergence :: "divergence option"
  StepsCompared :: int
  StepsTotalA :: int
  StepsTotalB :: int

definition Found :: "diff_result \<Rightarrow> bool" where
  "Found r \<longleftrightarrow> (case Divergence r of None \<Rightarrow> False | Some d \<Rightarrow> 0 < StepIndex d)"

text \<open>The loop over the common steps: the first mismatch and its index, counted from \<open>i\<close>.\<close>

fun compare_steps :: "int \<Rightarrow> event_log \<Rightarrow> event_log \<Rightarrow> (int \<times> divergence) option" where
  "compare_steps i (ca # as) (cb # bs) =
     (if EvToolName ca \<noteq> EvToolName cb then
        Some (i, \<lparr>StepIndex = i + 1, Reason = ReasonToolName, SpanIDA = EvSpanID ca, SpanIDB = EvSpanID cb,
                  ToolNameA = EvToolName ca, ToolNameB = EvToolName cb\<rparr>)
      else if InputHash ca \<noteq> InputHash cb then
        Some (i, \<lparr>StepIndex = i + 1, Reason = ReasonInputHash, SpanIDA = EvSpanID ca, SpanIDB = EvSpanID cb,
                  ToolNameA = EvToolName ca, ToolNameB = EvToolName cb\<rparr>)
      else compare_steps (i + 1) as bs)"
| "compare_steps i as bs = None"

definition Compare :: "event_log \<Rightarrow> event_log \<Rightarrow> diff_result" where
  "Compare a b =
     (let callsA = AllOfKind a KindToolCall; callsB = AllOfKind b KindToolCall;
          r = \<lparr>Divergence = None, StepsCompared = 0, StepsTotalA = int (length callsA),
               StepsTotalB = int (length callsB)\<rparr>;
          n = min (length callsA) (length callsB)
      in case compare_steps 0 callsA callsB of
           Some (i, d) \<Rightarrow> r\<lparr>Divergence := Some d, StepsCompared := i\<rparr>
         | None \<Rightarrow>
             (let r = r\<lparr>StepsCompared := int n\<rparr> in
              if length callsA = length callsB then r
              else if n < length callsA then
                r\<lparr>Divergence := Some \<lparr>StepIndex = int n + 1, Reason = ReasonMissingInB,
                   SpanIDA = EvSpanID (callsA ! n), SpanIDB = [],
                   ToolNameA = EvToolName (callsA ! n), ToolNameB = []\<rparr>\<rparr>
              else
                r\<lparr>Divergence := Some \<lparr>StepIndex = int n + 1, Reason = ReasonMissingInA,
                   SpanIDA = [], SpanIDB = EvSpanID (callsB ! n),
                   ToolNameA = [], ToolNameB = EvToolName (callsB ! n)\<rparr>\<rparr>))"

section \<open>Reading in order\<close>

abbreviation is_call :: "string \<Rightarrow> agent_event \<Rightarrow> bool" where
  "is_call t ev \<equiv> EvTraceID ev = t \<and> Kind ev = KindToolCall"

abbreviation is_final :: "string \<Rightarrow> agent_event \<Rightarrow> bool" where
  "is_final t ev \<equiv> EvTraceID ev = t \<and> Kind ev = KindFinalOutput"

lemma kinds_distinct [simp]:
  "KindToolCall \<noteq> KindFinalOutput" "KindFinalOutput \<noteq> KindToolCall"
  "KindToolCall \<noteq> KindToolResponse" "KindToolResponse \<noteq> KindToolCall"
  by (simp_all add: KindToolCall_def KindFinalOutput_def KindToolResponse_def)

lemma scan_read:
  "read_lines n ls = Inr evs \<Longrightarrow>
     (case evs of [] \<Rightarrow> Scan ls = ScanEnd
      | ev # es \<Rightarrow> \<exists>rest k. Scan ls = ScanEvent ev rest \<and> read_lines k rest = Inr es)"
  by (induction n ls arbitrary: evs rule: read_lines.induct)
    (auto split: option.splits sum.splits list.splits)

lemma sorted_filter_key: "sorted (map SeqNum evs) \<Longrightarrow> sorted (map SeqNum (filter P evs))"
  by (simp add: sorted_filter)

lemma sort_key_filter: "sorted (map SeqNum evs) \<Longrightarrow> sort_key SeqNum (filter P evs) = filter P evs"
  by (rule sort_key_id_if_sorted) (rule sorted_filter_key)

text \<open>The events of one run in a file that may hold several.\<close>

abbreviation of_trace :: "string \<Rightarrow> event_log \<Rightarrow> event_log" where
  "of_trace t evs \<equiv> filter (\<lambda>ev. EvTraceID ev = t) evs"

lemma FilterByTraceID_sorted: "sorted (map SeqNum (of_trace t evs)) \<Longrightarrow> FilterByTraceID evs t = of_trace t evs"
  by (simp add: FilterByTraceID_def sort_key_id_if_sorted)

lemma FilterByTraceID_sort: "FilterByTraceID (sort_key SeqNum evs) t = FilterByTraceID evs t"
  by (simp add: FilterByTraceID_def filter_sort sort_key_id_if_sorted)

lemma AllOfKind_sorted:
  "sorted (map SeqNum (of_trace t evs)) \<Longrightarrow>
     AllOfKind (FilterByTraceID evs t) k = filter (\<lambda>ev. EvTraceID ev = t \<and> Kind ev = k) evs"
  using sort_key_filter [of "of_trace t evs" "\<lambda>ev. Kind ev = k"]
  by (simp add: AllOfKind_def FilterByTraceID_sorted conj_commute)

lemma first_from_found:
  "\<forall>ev\<in>set evs. SeqNum f \<le> SeqNum ev \<Longrightarrow> first_from k (Some f) evs = Some f"
  by (induction evs) auto

lemma First_sorted:
  "sorted (map SeqNum evs) \<Longrightarrow> First evs k = find (\<lambda>ev. Kind ev = k) evs"
  unfolding First_def by (induction evs) (auto intro: first_from_found)

lemma find_filter: "find P (filter Q xs) = find (\<lambda>x. Q x \<and> P x) xs"
  by (induction xs) auto

section \<open>The two replays agree\<close>

fun first_payload :: "json option \<Rightarrow> event_log \<Rightarrow> json option" where
  "first_payload final [] = final"
| "first_payload final (ev # evs) = first_payload (if final = None then Payload ev else final) evs"

lemma first_payload_Some: "first_payload (Some p) evs = Some p"
  by (induction evs) auto

definition end_of_run :: "bool \<Rightarrow> json option \<Rightarrow> int \<Rightarrow> tool_mocker \<Rightarrow> replay_result" where
  "end_of_run saw final steps m =
     (if \<not> saw then empty_result\<lparr>ReplayErr := Some ErrEmptyTrace\<rparr>
      else if final = None then failed m steps ErrNoFinalOutput else finish_run final steps m)"

lemma stream_loop_spec:
  assumes "read_lines n ls = Inr evs"
  shows "stream_loop sha t stopAt ls steps saw final m =
    (case run_calls sha stopAt steps (filter (is_call t) evs) m of
       (Some r, _, m') \<Rightarrow> ((r, False), m')
     | (None, steps', m') \<Rightarrow>
         ((end_of_run (saw \<or> filter (is_call t) evs \<noteq> [])
            (first_payload final (filter (is_final t) evs)) steps' m', False), m'))"
  using assms
proof (induction evs arbitrary: ls n steps saw final m)
  case Nil
  then show ?case
    using scan_read [OF Nil] by (simp add: stream_loop.simps [of _ _ _ ls] end_of_run_def)
next
  case (Cons ev evs)
  obtain rest k where s: "Scan ls = ScanEvent ev rest" and r: "read_lines k rest = Inr evs"
    using scan_read [OF Cons.prems] by auto
  note IH = Cons.IH [OF r]
  show ?case
  proof (cases "is_call t ev")
    case True
    then have "\<not> is_final t ev" by simp
    with True have f: "filter (is_call t) (ev # evs) = ev # filter (is_call t) evs"
      "filter (is_final t) (ev # evs) = filter (is_final t) evs" by simp_all
    from True show ?thesis
      unfolding f
      by (simp add: stream_loop.simps [of _ _ _ ls] s IH split: sum.split prod.split option.split)
  next
    case False
    then have c: "filter (is_call t) (ev # evs) = filter (is_call t) evs" by simp
    show ?thesis
    proof (cases "is_final t ev")
      case True
      then have f: "filter (is_final t) (ev # evs) = ev # filter (is_final t) evs" by simp
      show ?thesis unfolding c f first_payload.simps using True by (simp add: stream_loop.simps [of _ _ _ ls] s IH)
    next
      case no: False
      then have f: "filter (is_final t) (ev # evs) = filter (is_final t) evs" by simp
      show ?thesis
        unfolding c f using no False by (auto simp: stream_loop.simps [of _ _ _ ls] s IH)
    qed
  qed
qed

lemma end_of_run_batch:
  assumes "sorted (map SeqNum (of_trace t evs))"
    "list_all (\<lambda>ev. Kind ev = KindFinalOutput \<longrightarrow> Payload ev \<noteq> None) (of_trace t evs)"
  shows "end_of_run True (first_payload None (filter (is_final t) evs)) steps m =
    (case First (FilterByTraceID evs t) KindFinalOutput of
       None \<Rightarrow> failed m steps ErrNoFinalOutput
     | Some final \<Rightarrow> finish_run (Payload final) steps m)"
proof -
  have f: "First (FilterByTraceID evs t) KindFinalOutput = find (is_final t) evs"
    using assms(1) by (simp add: FilterByTraceID_sorted First_sorted find_filter)
  have p: "first_payload None (filter (is_final t) evs) =
      (case find (is_final t) evs of None \<Rightarrow> None | Some ev \<Rightarrow> Payload ev)"
    using assms(2) by (induction evs) (auto simp: first_payload_Some split: if_splits)
  have "Payload ev \<noteq> None" if "find (is_final t) evs = Some ev" for ev
    using that assms(2) by (auto simp: find_Some_iff list_all_iff)
  then show ?thesis unfolding f p by (auto simp: end_of_run_def split: option.split)
qed

lemma stream_equals_batch:
  assumes "read_lines n ls = Inr evs" "sorted (map SeqNum (of_trace t evs))"
    "list_all (\<lambda>ev. Kind ev = KindFinalOutput \<longrightarrow> Payload ev \<noteq> None) (of_trace t evs)"
  shows "RunFromReader sha ls t m stopAt =
    (case RunReplay sha (FilterByTraceID evs t) m stopAt of (r, m') \<Rightarrow> ((r, False), m'))"
proof (cases "filter (is_call t) evs = []")
  case True
  then show ?thesis
    by (simp add: RunFromReader_def stream_loop_spec [OF assms(1)] RunReplay_def
        AllOfKind_sorted [OF assms(2)] end_of_run_def)
next
  case False
  then show ?thesis
    unfolding RunFromReader_def stream_loop_spec [OF assms(1)] RunReplay_def
      AllOfKind_sorted [OF assms(2)] Let_def
    by (cases "run_calls sha stopAt 0 (filter (is_call t) evs) m")
      (auto simp: end_of_run_batch [OF assms(2,3)] split: option.splits)
qed

section \<open>The two mockers agree\<close>

text \<open>
  \<open>table ck K rs calls resp\<close>: the table \<open>rs\<close> holds, under the composite keys of the call keys in \<open>K\<close>,
  exactly the responses \<open>resp\<close> of the \<open>calls\<close>.  It determines \<open>rs\<close>.
\<close>

abbreviation composite :: "(string \<Rightarrow> string) \<Rightarrow> call_key \<Rightarrow> string" where
  "composite sha k \<equiv> compositeKey sha (fst k) (snd k)"

definition table ::
  "(call_key \<Rightarrow> string) \<Rightarrow> call_key set \<Rightarrow> (string \<rightharpoonup> json option) \<Rightarrow> call_key set \<Rightarrow>
   (call_key \<rightharpoonup> json option) \<Rightarrow> bool" where
  "table ck K rs calls resp \<longleftrightarrow>
     (\<forall>k\<in>K. rs (ck k) = (if k \<in> calls then resp k else None)) \<and> (\<forall>key. key \<notin> ck ` K \<longrightarrow> rs key = None)"

lemma table_unique: "table ck K rs c r \<Longrightarrow> table ck K rs' c r \<Longrightarrow> rs = rs'"
  unfolding table_def by (rule ext) (metis imageE)

lemma table_upd:
  assumes "table ck K rs c r" "inj_on ck K" "k \<in> K" "r k = Some p"
  shows "table ck K (rs(ck k \<mapsto> p)) (insert k c) r"
  using assms unfolding table_def by (auto dest: inj_onD)

lemma table_no_response: "table ck K rs c r \<Longrightarrow> r k = None \<Longrightarrow> table ck K rs (insert k c) r"
  unfolding table_def by auto

lemma table_response:
  assumes "table ck K rs c r" "inj_on ck K" "k \<in> K" "k \<in> c"
  shows "table ck K (rs(ck k \<mapsto> p)) c (r(k \<mapsto> p))"
  using assms unfolding table_def by (auto dest: inj_onD)

lemma table_early_response:
  "table ck K rs c r \<Longrightarrow> k \<notin> c \<Longrightarrow> table ck K rs c (r(k \<mapsto> p))"
  unfolding table_def by auto

definition keys_of :: "event_log \<Rightarrow> call_key set" where
  "keys_of evs = call_key_of ` {ev \<in> set evs. keyed ev}"

lemma keys_of_simps [simp]:
  "keys_of [] = {}" "keys_of (evs @ evs') = keys_of evs \<union> keys_of evs'"
  "keys_of [ev] = (if keyed ev then {call_key_of ev} else {})"
  by (auto simp: keys_of_def)

lemma pair_call_table:
  assumes "table (composite sha) K rs c byCall" "inj_on (composite sha) K" "keys_of [ev] \<subseteq> K"
  shows "table (composite sha) K (pair_call sha byCall ev rs) (c \<union> keys_of [ev]) byCall"
  using assms table_upd [OF assms(1,2), of "call_key_of ev"] table_no_response [OF assms(1), of "call_key_of ev"]
  by (auto simp: pair_call_def call_key_of_def split: option.split if_splits)

lemma LoadFromLog_table:
  assumes "inj_on (composite sha) K" "keys_of calls \<subseteq> K"
  shows "table (composite sha) K (fold (pair_call sha byCall) calls Map.empty) (keys_of calls) byCall"
  using assms(2)
proof (induction calls rule: rev_induct)
  case Nil
  then show ?case by (simp add: table_def)
next
  case (snoc ev calls)
  then show ?case
    using pair_call_table [OF _ assms(1), of _ _ byCall ev] by simp
qed

text \<open>The invariant of the streaming load after the events \<open>evs\<close> of the trace.\<close>

definition load_inv :: "(string \<Rightarrow> string) \<Rightarrow> call_key set \<Rightarrow> event_log \<Rightarrow> load_state \<Rightarrow> bool" where
  "load_inv sha K evs st \<longleftrightarrow>
     (let calls = keys_of (filter (\<lambda>ev. Kind ev = KindToolCall) evs);
          resp = fold index_response (filter (\<lambda>ev. Kind ev = KindToolResponse) evs) Map.empty
      in ld_by_call st = resp \<and> ld_pending st = {k \<in> calls. resp k = None} \<and>
         table (composite sha) K (ld_responses st) calls resp \<and> ld_saw st = (evs \<noteq> []))"

lemma load_event_inv:
  assumes inv: "load_inv sha K evs st" and inj: "inj_on (composite sha) K"
    and ev: "EvTraceID ev = t" "keys_of [ev] \<subseteq> K"
  shows "load_inv sha K (evs @ [ev]) (load_event sha t ev st)"
proof -
  define calls resp where "calls = keys_of (filter (\<lambda>ev. Kind ev = KindToolCall) evs)"
    and "resp = fold index_response (filter (\<lambda>ev. Kind ev = KindToolResponse) evs) Map.empty"
  let ?k = "call_key_of ev"
  have st: "ld_by_call st = resp" "ld_pending st = {k \<in> calls. resp k = None}"
    "table (composite sha) K (ld_responses st) calls resp"
    using inv by (simp_all add: load_inv_def Let_def calls_def resp_def)
  have key: "compositeKey sha (EvToolName ev) (InputHash ev) = composite sha ?k"
    by (simp add: call_key_of_def)
  consider (unkeyed) "\<not> keyed ev" | (other) "Kind ev \<noteq> KindToolCall" "Kind ev \<noteq> KindToolResponse"
    | (call) "keyed ev" "Kind ev = KindToolCall" | (response) "keyed ev" "Kind ev = KindToolResponse"
    by blast
  then show ?thesis
  proof cases
    case unkeyed
    then show ?thesis
      using st ev(1) unfolding load_inv_def Let_def load_event_def
      by (simp add: index_response_def flip: calls_def resp_def)
  next
    case other
    then show ?thesis
      using st ev(1) unfolding load_inv_def Let_def load_event_def
      by (simp flip: calls_def resp_def)
  next
    case call
    then have k: "?k \<in> K" using ev(2) by simp
    have split: "keys_of (filter (\<lambda>ev. Kind ev = KindToolCall) (evs @ [ev])) = insert ?k calls"
      "fold index_response (filter (\<lambda>ev. Kind ev = KindToolResponse) (evs @ [ev])) Map.empty = resp"
      using call by (simp_all add: resp_def calls_def)
    show ?thesis
    proof (cases "resp ?k")
      case None
      then have "{k \<in> insert ?k calls. resp k = None} = insert ?k {k \<in> calls. resp k = None}"
        by auto
      then show ?thesis
        using call st ev(1) None table_no_response [OF st(3) None]
        unfolding load_inv_def Let_def load_event_def split by simp
    next
      case (Some p)
      then have "{k \<in> insert ?k calls. resp k = None} = {k \<in> calls. resp k = None}"
        by auto
      then show ?thesis
        using call st ev(1) Some table_upd [OF st(3) inj k Some]
        unfolding load_inv_def Let_def load_event_def split key by simp
    qed
  next
    case response
    then have k: "?k \<in> K" using ev(2) by simp
    have split: "filter (\<lambda>ev. Kind ev = KindToolCall) (evs @ [ev]) = filter (\<lambda>ev. Kind ev = KindToolCall) evs"
      "fold index_response (filter (\<lambda>ev. Kind ev = KindToolResponse) (evs @ [ev])) Map.empty = index_response ev resp"
      using response by (simp_all add: resp_def)
    show ?thesis
    proof (cases "resp ?k")
      case (Some p)
      then have "index_response ev resp = resp" "?k \<notin> ld_pending st"
        using st(2) by (simp_all add: index_response_def)
      then show ?thesis
        using response st ev(1) Some unfolding load_inv_def Let_def load_event_def split
        by (simp flip: calls_def)
    next
      case None
      then have ix: "index_response ev resp = resp(?k \<mapsto> Payload ev)"
        using response by (simp add: index_response_def)
      show ?thesis
      proof (cases "?k \<in> calls")
        case True
        have "{x \<in> calls. (resp(?k \<mapsto> Payload ev)) x = None} = {x \<in> calls. resp x = None} - {?k}"
          by auto
        then show ?thesis
          using response st ev(1) None True table_response [OF st(3) inj k True, of "Payload ev"]
          unfolding load_inv_def Let_def load_event_def split ix key
          by (simp add: ix flip: calls_def)
      next
        case False
        then have "{x \<in> calls. (resp(?k \<mapsto> Payload ev)) x = None} = {x \<in> calls. resp x = None}"
          by auto
        then show ?thesis
          using response st ev(1) None False table_early_response [OF st(3) False, of "Payload ev"]
          unfolding load_inv_def Let_def load_event_def split ix key
          by (simp add: ix flip: calls_def)
      qed
    qed
  qed
qed

lemma load_fold_inv:
  assumes inj: "inj_on (composite sha) K" and keys: "keys_of (filter (\<lambda>ev. EvTraceID ev = t) evs) \<subseteq> K"
  shows "load_inv sha K (filter (\<lambda>ev. EvTraceID ev = t) evs) (fold (load_event sha t) evs
    \<lparr>ld_by_call = Map.empty, ld_pending = {}, ld_responses = Map.empty, ld_saw = False\<rparr>)"
  using keys
proof (induction evs rule: rev_induct)
  case Nil
  then show ?case by (simp add: load_inv_def table_def)
next
  case (snoc ev evs)
  show ?case
  proof (cases "EvTraceID ev = t")
    case True
    then show ?thesis using snoc load_event_inv [OF _ inj] by simp
  next
    case False
    then show ?thesis using snoc by (simp add: load_event_def)
  qed
qed

lemma load_loop_read:
  "read_lines n ls = Inr evs \<Longrightarrow> load_loop sha t ls st = Some (fold (load_event sha t) evs st)"
proof (induction evs arbitrary: n ls st)
  case Nil
  then show ?case using scan_read [OF Nil] by (simp add: load_loop.simps [of _ _ ls])
next
  case (Cons ev evs)
  then obtain rest k where "Scan ls = ScanEvent ev rest" "read_lines k rest = Inr evs"
    using scan_read [OF Cons.prems] by auto
  then show ?case using Cons.IH by (simp add: load_loop.simps [of _ _ ls])
qed

text \<open>
  No two tool calls of the trace have the same composite key; with SHA-256 this is a collision, or
  a colon inside a tool name or an input hash.
\<close>

definition keys_distinct :: "(string \<Rightarrow> string) \<Rightarrow> event_log \<Rightarrow> string \<Rightarrow> bool" where
  "keys_distinct sha evs t \<longleftrightarrow>
     inj_on (composite sha) (keys_of (filter (\<lambda>ev. EvTraceID ev = t) evs))"

lemma keys_of_mono: "set xs \<subseteq> set ys \<Longrightarrow> keys_of xs \<subseteq> keys_of ys"
  by (auto simp: keys_of_def)

lemma mockers_agree:
  assumes "read_lines n ls = Inr evs" "sorted (map SeqNum (of_trace t evs))" "keys_distinct sha evs t"
  shows "LoadFromReader sha ls t = Some (LoadFromLog sha (FilterByTraceID evs t), of_trace t evs \<noteq> [])"
proof -
  let ?evs = "filter (\<lambda>ev. EvTraceID ev = t) evs" and ?K = "keys_of (filter (\<lambda>ev. EvTraceID ev = t) evs)"
  let ?st = "fold (load_event sha t) evs
    \<lparr>ld_by_call = Map.empty, ld_pending = {}, ld_responses = Map.empty, ld_saw = False\<rparr>"
  let ?calls = "filter (\<lambda>ev. Kind ev = KindToolCall) ?evs"
  let ?resp = "fold index_response (filter (\<lambda>ev. Kind ev = KindToolResponse) ?evs) Map.empty"
  have inj: "inj_on (composite sha) ?K" using assms(3) by (simp add: keys_distinct_def)
  have kinds: "AllOfKind (FilterByTraceID evs t) k = filter (\<lambda>ev. Kind ev = k) ?evs" for k
    unfolding AllOfKind_def FilterByTraceID_sorted [OF assms(2)] by (rule sort_key_filter [OF assms(2)])
  have inv: "table (composite sha) ?K (ld_responses ?st) (keys_of ?calls) ?resp" "ld_saw ?st = (?evs \<noteq> [])"
    using load_fold_inv [OF inj order_refl] by (simp_all add: load_inv_def Let_def)
  have "keys_of ?calls \<subseteq> ?K" by (rule keys_of_mono) auto
  from table_unique [OF inv(1) LoadFromLog_table [OF inj this]]
  have "ld_responses ?st = fold (pair_call sha ?resp) ?calls Map.empty" .
  then show ?thesis
    using inv(2) by (simp only: LoadFromReader_def load_loop_read [OF assms(1)] LoadFromLog_def kinds Let_def option.case)
qed

text \<open>
  C7.  A log file may hold the events of several runs in any interleaving.  For a trace whose own
  events stand in the order of their sequence numbers, whose final outputs carry a payload and whose
  calls have distinct keys, the streaming replay with the streamed mocker gives the result of the
  batch replay of the loaded and sorted trace with the batch mocker, whatever step it stops at and
  whatever fault is injected.
\<close>

theorem streaming_replay_equals_batch:
  assumes "read_lines 0 ls = Inr evs" "sorted (map SeqNum (of_trace t evs))" "keys_distinct sha evs t"
    and "list_all (\<lambda>ev. Kind ev = KindFinalOutput \<longrightarrow> Payload ev \<noteq> None) (of_trace t evs)"
  shows "case (LoadFromReader sha ls t, ReadJSONL ls) of
      (Some (m, saw), Inr events) \<Rightarrow>
        fst (RunFromReader sha ls t (Inject atStep kind m) stopAtStep) =
          (fst (RunReplay sha (FilterByTraceID events t)
             (Inject atStep kind (LoadFromLog sha (FilterByTraceID events t))) stopAtStep), False)
    | _ \<Rightarrow> False"
proof -
  have "ReadJSONL ls = Inr (sort_key SeqNum evs)" by (simp add: ReadJSONL_def assms(1))
  then show ?thesis
    using mockers_agree [OF assms(1,2,3)] stream_equals_batch [OF assms(1,2,4)]
    by (simp add: case_prod_beta FilterByTraceID_sort)
qed

text \<open>A file with the demonstration run and an event of another one, out of order.\<close>

definition shared_log :: event_log where
  "shared_log = (demo_event 9 KindToolCall ''web'' ''h9'' JNull)\<lparr>EvTraceID := ''other''\<rparr> # demo_log"

lemma demo_log_read: "read_lines 0 (WriteJSONL (\<lambda>_. 100) demo_log) = Inr demo_log"
  using read_lines_write [OF demo_log_storable, of 0 "\<lambda>_. 100"] by (simp add: scan_limit_def list_all_iff)

lemma shared_log_read: "read_lines 0 (WriteJSONL (\<lambda>_. 100) shared_log) = Inr shared_log"
proof -
  have "list_all storable shared_log" using demo_log_storable by (simp add: shared_log_def demo_event_def storable_def)
  from read_lines_write [OF this, of 0 "\<lambda>_. 100"] show ?thesis by (simp add: scan_limit_def list_all_iff)
qed

lemma streaming_replay_equals_batch_witness:
  "fst (fst (RunFromReader id (WriteJSONL (\<lambda>_. 100) shared_log) ''t''
     (LoadFromLog id (FilterByTraceID shared_log ''t'')) 0)) =
   fst (RunReplay id (FilterByTraceID shared_log ''t'') (LoadFromLog id (FilterByTraceID shared_log ''t'')) 0)"
proof -
  have s: "sorted (map SeqNum (of_trace ''t'' shared_log))" and d: "keys_distinct id shared_log ''t''"
    and p: "list_all (\<lambda>ev. Kind ev = KindFinalOutput \<longrightarrow> Payload ev \<noteq> None) (of_trace ''t'' shared_log)"
    by (auto simp: shared_log_def demo_log_def demo_event_def keys_distinct_def keys_of_def keyed_def call_key_of_def inj_on_def)
  have i: "Inject 0 [] (LoadFromLog id es) = LoadFromLog id es" for es
    by (simp add: Inject_def LoadFromLog_def Let_def new_mocker_def)
  have "ReadJSONL (WriteJSONL (\<lambda>_. 100) shared_log) = Inr (sort_key SeqNum shared_log)"
    by (simp add: ReadJSONL_def shared_log_read)
  then show ?thesis
    using streaming_replay_equals_batch [OF shared_log_read s d p, of 0 "[]" 0]
      mockers_agree [OF shared_log_read s d] by (simp add: i FilterByTraceID_sort)
qed

section \<open>Replay reproduces the run\<close>

lemma index_response_mono: "m k \<noteq> None \<Longrightarrow> fold index_response evs m k \<noteq> None"
  by (induction evs arbitrary: m) (auto simp: index_response_def)

lemma index_response_found:
  "ev \<in> set evs \<Longrightarrow> keyed ev \<Longrightarrow> fold index_response evs m (call_key_of ev) \<noteq> None"
proof (induction evs arbitrary: m)
  case (Cons x evs)
  show ?case
  proof (cases "x = ev")
    case True
    then have "index_response x m (call_key_of ev) \<noteq> None"
      using Cons.prems(2) by (simp add: index_response_def)
    then show ?thesis using index_response_mono [of "index_response x m"] by simp
  next
    case False
    then show ?thesis using Cons.IH [of "index_response x m"] Cons.prems by simp
  qed
qed simp

lemma pair_call_mono: "rs key \<noteq> None \<Longrightarrow> fold (pair_call sha byCall) calls rs key \<noteq> None"
  by (induction calls arbitrary: rs) (auto simp: pair_call_def split: option.split)

lemma pair_call_found:
  "c \<in> set calls \<Longrightarrow> keyed c \<Longrightarrow> byCall (call_key_of c) \<noteq> None \<Longrightarrow>
     fold (pair_call sha byCall) calls rs (compositeKey sha (EvToolName c) (InputHash c)) \<noteq> None"
proof (induction calls arbitrary: rs)
  case (Cons x calls)
  show ?case
  proof (cases "x = c")
    case True
    then have "pair_call sha byCall x rs (compositeKey sha (EvToolName c) (InputHash c)) \<noteq> None"
      using Cons.prems(2,3) by (auto simp: pair_call_def)
    then show ?thesis using pair_call_mono [of "pair_call sha byCall x rs"] by simp
  next
    case False
    then show ?thesis using Cons.IH [of "pair_call sha byCall x rs"] Cons.prems by simp
  qed
qed simp

text \<open>Every tool call of the log names its tool and input and has a recorded response.\<close>

definition complete_log :: "event_log \<Rightarrow> bool" where
  "complete_log events \<longleftrightarrow>
     list_all (\<lambda>c. keyed c \<and>
         list_ex (\<lambda>r. call_key_of r = call_key_of c) (AllOfKind events KindToolResponse))
       (AllOfKind events KindToolCall)"

lemma keyed_call_key: "call_key_of r = call_key_of c \<Longrightarrow> keyed c \<Longrightarrow> keyed r"
  by (simp add: call_key_of_def keyed_def)

lemma LoadFromLog_serves:
  assumes "complete_log events" "c \<in> set (AllOfKind events KindToolCall)"
  shows "mk_responses (LoadFromLog sha events) (compositeKey sha (EvToolName c) (InputHash c)) \<noteq> None"
proof -
  obtain r where "keyed c" "r \<in> set (AllOfKind events KindToolResponse)" "call_key_of r = call_key_of c"
    using assms by (auto simp: complete_log_def list_all_iff list_ex_iff)
  then show ?thesis
    using pair_call_found [OF assms(2)] index_response_found [of r] keyed_call_key
    by (metis LoadFromLog_def new_mocker_def tool_mocker.select_convs(1))
qed

abbreviation call_key_text :: "(string \<Rightarrow> string) \<Rightarrow> agent_event \<Rightarrow> string" where
  "call_key_text sha c \<equiv> compositeKey sha (EvToolName c) (InputHash c)"

lemma run_calls_served:
  assumes "\<And>c. c \<in> set calls \<Longrightarrow> mk_responses m (call_key_text sha c) \<noteq> None" "mk_inject m = None"
  shows "run_calls sha 0 steps calls m =
    (None, steps + int (length calls),
     m\<lparr>mk_history := mk_history m @ map (call_key_text sha) calls,
       mk_call_count := mk_call_count m + int (length calls)\<rparr>)"
  using assms
proof (induction calls arbitrary: steps m)
  case (Cons c calls)
  from Cons.prems(1) obtain p where p: "mk_responses m (call_key_text sha c) = Some p" by force
  let ?m = "m\<lparr>mk_call_count := mk_call_count m + 1, mk_history := mk_history m @ [call_key_text sha c]\<rparr>"
  have "Respond sha (EvToolName c) (InputHash c) m = (Inr p, ?m)"
    using p Cons.prems(2) by (simp add: Respond_def)
  then show ?case using Cons.IH [of ?m "steps + 1"] Cons.prems by (simp add: algebra_simps)
qed simp

lemma run_calls_fault:
  assumes "\<And>c. c \<in> set calls \<Longrightarrow> mk_responses m (call_key_text sha c) \<noteq> None"
    "mk_inject m = Some (mk_call_count m + 1 + int k, kind)" "k < length calls"
  shows "fst (run_calls sha 0 steps calls m) =
    Some (empty_result\<lparr>ReplayHistory := mk_history m @ map (call_key_text sha) (take k calls),
      StepsRun := steps + int k,
      ReplayErr := Some (StepFailed (steps + int k + 1)
        (Injected (EvToolName (calls ! k)) (InputHash (calls ! k)) (fault_err kind)))\<rparr>)"
  using assms
proof (induction calls arbitrary: steps m k)
  case (Cons c calls)
  from Cons.prems(1) obtain p where p: "mk_responses m (call_key_text sha c) = Some p" by force
  let ?m = "m\<lparr>mk_call_count := mk_call_count m + 1, mk_history := mk_history m @ [call_key_text sha c]\<rparr>"
  show ?case
  proof (cases k)
    case 0
    then show ?thesis using Cons.prems by (simp add: Respond_def failed_def CallHistory_def)
  next
    case (Suc j)
    then have "Respond sha (EvToolName c) (InputHash c) m = (Inr p, ?m)"
      using p Cons.prems(2) by (simp add: Respond_def)
    then show ?thesis
      using Cons.IH [of ?m j "steps + 1"] Cons.prems Suc by (simp add: algebra_simps)
  qed
qed simp

lemma LoadFromLog_fresh [simp]:
  "mk_inject (LoadFromLog sha es) = None" "mk_history (LoadFromLog sha es) = []"
  "mk_call_count (LoadFromLog sha es) = 0"
  by (simp_all add: LoadFromLog_def Let_def new_mocker_def)

lemma RunReplay_complete:
  assumes "complete_log events" "AllOfKind events KindToolCall = calls" "calls \<noteq> []"
    and "First events KindFinalOutput = Some f"
    and "unmarshal (dec_struct text_fields) (Payload f) [] = Some txt"
  shows "fst (RunReplay sha events (LoadFromLog sha events) 0) =
      \<lparr>Output = txt, ReplayHistory = map (call_key_text sha) calls, StepsRun = int (length calls),
       StoppedEarly = False, ReplayErr = None\<rparr>"
proof -
  have "mk_responses (LoadFromLog sha events) (call_key_text sha c) \<noteq> None" if "c \<in> set calls" for c
    using LoadFromLog_serves [OF assms(1)] assms(2) that by blast
  from run_calls_served [OF this, of calls 0] assms(2-5) show ?thesis
    by (simp add: RunReplay_def Let_def finish_run_def empty_result_def CallHistory_def)
qed

lemma RunReplay_fault:
  assumes "complete_log events" "AllOfKind events KindToolCall = calls" "calls \<noteq> []" "k < length calls"
  shows "fst (RunReplay sha events (Inject (int k + 1) kind (LoadFromLog sha events)) 0) =
       \<lparr>Output = [], ReplayHistory = map (call_key_text sha) (take k calls), StepsRun = int k,
        StoppedEarly = False,
        ReplayErr = Some (StepFailed (int k + 1)
          (Injected (EvToolName (calls ! k)) (InputHash (calls ! k)) (fault_err kind)))\<rparr>"
proof -
  let ?m = "Inject (int k + 1) kind (LoadFromLog sha events)"
  have "mk_responses ?m (call_key_text sha c) \<noteq> None" if "c \<in> set calls" for c
    using LoadFromLog_serves [OF assms(1), of c sha] assms(2) that by (simp add: Inject_def)
  from run_calls_fault [OF this, where k = k and steps = 0 and calls = calls] assms(4)
  have "fst (run_calls sha 0 0 calls ?m) = Some (empty_result\<lparr>
      ReplayHistory := map (call_key_text sha) (take k calls), StepsRun := int k,
      ReplayErr := Some (StepFailed (int k + 1)
        (Injected (EvToolName (calls ! k)) (InputHash (calls ! k)) (fault_err kind)))\<rparr>)"
    by (simp add: Inject_def)
  then show ?thesis
    using assms(2,3) by (cases "run_calls sha 0 0 calls ?m") (auto simp: RunReplay_def empty_result_def)
qed

text \<open>
  C10.  Replaying a log in which every tool call has a recorded response, with the mocker made
  from it: without a fault the replay serves every call, in order, and returns the recorded final
  text; with a fault injected at a step it serves the steps before and fails at that one with the
  fault.
\<close>

theorem replay_reproduces_run:
  assumes "complete_log events" "AllOfKind events KindToolCall = calls" "calls \<noteq> []"
    and "First events KindFinalOutput = Some f"
    and "unmarshal (dec_struct text_fields) (Payload f) [] = Some txt"
  shows "fst (RunReplay sha events (LoadFromLog sha events) 0) =
      \<lparr>Output = txt, ReplayHistory = map (call_key_text sha) calls, StepsRun = int (length calls),
       StoppedEarly = False, ReplayErr = None\<rparr> \<and>
    (if k < length calls
     then fst (RunReplay sha events (Inject (int k + 1) kind (LoadFromLog sha events)) 0) =
       \<lparr>Output = [], ReplayHistory = map (call_key_text sha) (take k calls), StepsRun = int k,
        StoppedEarly = False,
        ReplayErr = Some (StepFailed (int k + 1)
          (Injected (EvToolName (calls ! k)) (InputHash (calls ! k)) (fault_err kind)))\<rparr>
     else True)"
  using RunReplay_complete [OF assms] RunReplay_fault [OF assms(1,2,3)] by simp

lemma demo_log_calls:
  "AllOfKind demo_log KindToolCall = [demo_event 1 KindToolCall ''sql'' ''h1'' JNull]"
  "AllOfKind demo_log KindToolResponse = [demo_event 2 KindToolResponse ''sql'' ''h1'' (JInt 5)]"
  by (simp_all add: AllOfKind_def demo_log_def demo_event_def KindToolCall_def KindToolResponse_def
      KindFinalOutput_def)

lemma text_decoder: "field_decoder text_fields ''text'' = Some (\<lambda>v s. dec_string v s)"
  by (subst field_decoder_plain, simp add: plain_name_def, simp add: text_fields_def plain_name_def,
      simp add: text_fields_def)

lemma replay_reproduces_run_witness:
  "Output (fst (RunReplay id demo_log (LoadFromLog id demo_log) 0)) = ''done'' \<and>
   StepsRun (fst (RunReplay id demo_log (Inject 1 ''timeout'' (LoadFromLog id demo_log)) 0)) = 0"
proof -
  let ?f = "demo_event 3 KindFinalOutput [] [] (JObj [(''text'', JStr ''done'')])"
  have "complete_log demo_log"
    by (simp add: complete_log_def demo_log_calls) (simp add: demo_event_def keyed_def call_key_of_def)
  moreover have "First demo_log KindFinalOutput = Some ?f"
    by (simp add: First_def demo_log_def demo_event_def KindToolCall_def KindToolResponse_def KindFinalOutput_def)
  moreover have "unmarshal (dec_struct text_fields) (Payload ?f) [] = Some ''done''"
    by (simp add: demo_event_def unmarshal_def text_decoder)
  ultimately show ?thesis
    using replay_reproduces_run [of demo_log _ ?f "''done''" id 0 "''timeout''"] demo_log_calls by simp
qed

section \<open>What the comparison finds\<close>

abbreviation calls_of_log :: "event_log \<Rightarrow> call_key list" where
  "calls_of_log events \<equiv> map call_key_of (AllOfKind events KindToolCall)"

lemma compare_steps_None:
  "compare_steps i as bs = None \<longleftrightarrow>
     take (min (length as) (length bs)) (map call_key_of as) =
     take (min (length as) (length bs)) (map call_key_of bs)"
  by (induction i as bs rule: compare_steps.induct) (auto simp: call_key_of_def)

lemma compare_steps_Some:
  "compare_steps i as bs = Some (j, d) \<Longrightarrow>
     \<exists>n. j = i + int n \<and> n < length as \<and> n < length bs \<and>
       take n (map call_key_of as) = take n (map call_key_of bs) \<and>
       call_key_of (as ! n) \<noteq> call_key_of (bs ! n) \<and> StepIndex d = j + 1 \<and>
       Reason d = (if EvToolName (as ! n) \<noteq> EvToolName (bs ! n) then ReasonToolName else ReasonInputHash) \<and>
       SpanIDA d = EvSpanID (as ! n) \<and> SpanIDB d = EvSpanID (bs ! n)"
proof (induction i as bs rule: compare_steps.induct)
  case (1 i ca as cb bs)
  show ?case
  proof (cases "EvToolName ca = EvToolName cb \<and> InputHash ca = InputHash cb")
    case True
    then have "compare_steps (i + 1) as bs = Some (j, d)" using "1.prems" by simp
    with 1(1) True obtain n where "j = i + 1 + int n \<and> n < length as \<and> n < length bs \<and>
       take n (map call_key_of as) = take n (map call_key_of bs) \<and>
       call_key_of (as ! n) \<noteq> call_key_of (bs ! n) \<and> StepIndex d = j + 1 \<and>
       Reason d = (if EvToolName (as ! n) \<noteq> EvToolName (bs ! n) then ReasonToolName else ReasonInputHash) \<and>
       SpanIDA d = EvSpanID (as ! n) \<and> SpanIDB d = EvSpanID (bs ! n)"
      by blast
    moreover have "call_key_of ca = call_key_of cb" using True by (simp add: call_key_of_def)
    ultimately show ?thesis by (intro exI [of _ "Suc n"]) simp
  next
    case False
    then show ?thesis using "1.prems"
      by (intro exI [of _ 0]) (auto simp: call_key_of_def split: if_splits)
  qed
qed simp_all

text \<open>
  C22.  Comparing two runs finds no divergence exactly when both made the same tool calls, by name
  and input, in the same order.  Otherwise the matching steps before the divergence are a common
  prefix, the reported step is the one after it, and there the two sequences differ: other tool,
  other input, or one of them has ended.
\<close>

theorem compare_finds_first_divergence:
  "let r = Compare a b; A = calls_of_log a; B = calls_of_log b; n = nat (StepsCompared r) in
     (Found r \<longleftrightarrow> A \<noteq> B) \<and> take n A = take n B \<and>
     (case Divergence r of
        None \<Rightarrow> True
      | Some d \<Rightarrow> StepIndex d = int n + 1 \<and>
          (case Reason d of
             ReasonToolName \<Rightarrow> n < length A \<and> n < length B \<and> fst (A ! n) \<noteq> fst (B ! n)
           | ReasonInputHash \<Rightarrow> n < length A \<and> n < length B \<and> fst (A ! n) = fst (B ! n) \<and> snd (A ! n) \<noteq> snd (B ! n)
           | ReasonMissingInA \<Rightarrow> n = length A \<and> n < length B
           | ReasonMissingInB \<Rightarrow> n = length B \<and> n < length A))"
proof -
  define as bs where "as = AllOfKind a KindToolCall" and "bs = AllOfKind b KindToolCall"
  show ?thesis
  proof (cases "compare_steps 0 as bs")
    case (Some p)
    obtain j d where p: "p = (j, d)" by fastforce
    from compare_steps_Some [of 0 as bs j d] Some p obtain n where
      n: "j = int n" "n < length as" "n < length bs"
        "take n (map call_key_of as) = take n (map call_key_of bs)"
        "call_key_of (as ! n) \<noteq> call_key_of (bs ! n)" "StepIndex d = j + 1"
        "Reason d = (if EvToolName (as ! n) \<noteq> EvToolName (bs ! n) then ReasonToolName else ReasonInputHash)"
      by auto
    have "map call_key_of as \<noteq> map call_key_of bs"
      using n(2,3,5) by (metis nth_map)
    moreover have "Divergence (Compare a b) = Some d" "StepsCompared (Compare a b) = int n"
      using Some n(1) p by (simp_all add: Compare_def Let_def flip: as_def bs_def)
    ultimately show ?thesis
      using n by (auto simp: Let_def Found_def call_key_of_def simp flip: as_def bs_def)
  next
    case None
    let ?n = "min (length as) (length bs)"
    have eq: "take ?n (map call_key_of as) = take ?n (map call_key_of bs)"
      using None compare_steps_None by blast
    have r: "StepsCompared (Compare a b) = int ?n"
      using None by (auto simp: Compare_def Let_def simp flip: as_def bs_def)
    show ?thesis
    proof (cases "length as = length bs")
      case True
      then have "map call_key_of as = map call_key_of bs" using eq by simp
      moreover have "Divergence (Compare a b) = None"
        using None True by (simp add: Compare_def Let_def flip: as_def bs_def)
      ultimately show ?thesis using eq r by (simp add: Let_def Found_def flip: as_def bs_def)
    next
      case False
      then have "map call_key_of as \<noteq> map call_key_of bs" by (metis length_map)
      then show ?thesis
        using None False eq r
        by (auto simp: Let_def Found_def Compare_def min_def simp flip: as_def bs_def)
    qed
  qed
qed

end
