(* ===== verification/Replay_Export.thy ===== *)
theory Replay_Export
  imports Replay_Log "HOL-Library.List_Lexorder" "HOL-Library.Char_ord" "HOL-Library.Multiset"
begin

text \<open>
  Exported traces (\<^verbatim>\<open>agent-replay-engine/pkg/export\<close>) and the object store they go to
  (\<^verbatim>\<open>pkg/objectstore\<close>).  The interface \<^verbatim>\<open>ObjectStore\<close> is the locale \<open>object_store\<close>, interpreted by the
  in-memory store; \<^verbatim>\<open>Export\<close> and \<^verbatim>\<open>Verify\<close> take the calls of the interface as arguments.

  The compressed bytes of a log (zstd of its JSON lines) are the argument \<open>archive\<close>, with \<open>None\<close> for
  a failure, and the hexadecimal SHA-256 is the argument \<open>sha\<close>.  Instants are nanoseconds.
\<close>

section \<open>The in-memory store\<close>

record memory_object =
  mo_data :: string
  mo_last_modified :: int

type_synonym memory_store = "string \<rightharpoonup> memory_object"

text \<open>\<open>S3Error\<close> is an error of the MinIO client with its code.\<close>

datatype store_error = ErrNotFound | ErrUnexpectedEOF | S3Error string

text \<open>\<^verbatim>\<open>Put\<close> reads exactly \<open>sz\<close> bytes of the body.\<close>

definition MemoryPut :: "int \<Rightarrow> string \<Rightarrow> string \<Rightarrow> nat \<Rightarrow> memory_store \<Rightarrow> store_error option \<times> memory_store" where
  "MemoryPut now key body sz s =
     (if length body < sz then (Some ErrUnexpectedEOF, s)
      else (None, s(key \<mapsto> \<lparr>mo_data = take sz body, mo_last_modified = now\<rparr>)))"

definition MemoryGet :: "string \<Rightarrow> memory_store \<Rightarrow> store_error + string" where
  "MemoryGet key s = (case s key of None \<Rightarrow> Inl ErrNotFound | Some o1 \<Rightarrow> Inr (mo_data o1))"

definition MemoryDelete :: "string \<Rightarrow> memory_store \<Rightarrow> store_error option \<times> memory_store" where
  "MemoryDelete key s = (if s key = None then (Some ErrNotFound, s) else (None, s(key := None)))"

record stored_meta =
  om_key :: string
  om_size :: int
  om_last_modified :: int

text \<open>\<open>ids\<close> is the order in which the map is visited; the result is sorted by key.\<close>

definition MemoryList :: "string list \<Rightarrow> string \<Rightarrow> memory_store \<Rightarrow> stored_meta list" where
  "MemoryList ids prefix s =
     sort_key om_key
       (concat (map (\<lambda>k. case s k of
                           None \<Rightarrow> []
                         | Some o1 \<Rightarrow>
                             if has_prefix k prefix
                             then [\<lparr>om_key = k, om_size = int (length (mo_data o1)),
                                    om_last_modified = mo_last_modified o1\<rparr>]
                             else [])
          ids))"

section \<open>Export and verification\<close>

datatype export_error =
    ErrEmptyLog | MixedTrace string string | CompressFailed | PutFailed string store_error
  | GetFailed string store_error | ErrChecksumMismatch string string string

fun trace_range_from ::
  "string \<Rightarrow> int \<Rightarrow> int \<Rightarrow> event_log \<Rightarrow> export_error + string \<times> int \<times> int" where
  "trace_range_from t lo hi [] = Inr (t, lo, hi)"
| "trace_range_from t lo hi (ev # evs) =
     (if EvTraceID ev \<noteq> t then Inl (MixedTrace t (EvTraceID ev))
      else trace_range_from t (if SeqNum ev < lo then SeqNum ev else lo)
        (if hi < SeqNum ev then SeqNum ev else hi) evs)"

definition traceRange :: "agent_event \<Rightarrow> event_log \<Rightarrow> export_error + string \<times> int \<times> int" where
  "traceRange ev evs = trace_range_from (EvTraceID ev) (SeqNum ev) (SeqNum ev) evs"

text \<open>The verb \<open>%06d\<close>: zeros after the sign up to six characters.\<close>

definition pad6 :: "int \<Rightarrow> string" where
  "pad6 n =
     (let ds = digits_of (nat \<bar>n\<bar>); sgn1 = (if n < 0 then ''-'' else [])
      in sgn1 @ replicate (6 - length sgn1 - length ds) (CHR ''0'') @ ds)"

definition objectKey :: "string \<Rightarrow> int \<Rightarrow> int \<Rightarrow> string" where
  "objectKey traceID firstSeq lastSeq =
     ''traces/'' @ traceID @ ''/'' @ pad6 firstSeq @ ''-'' @ pad6 lastSeq @ ''.jsonl.zst''"

type_synonym 's store_put = "string \<Rightarrow> string \<Rightarrow> nat \<Rightarrow> 's \<Rightarrow> store_error option \<times> 's"
type_synonym 's store_get = "string \<Rightarrow> 's \<Rightarrow> store_error + string"

definition ExportLog ::
  "'s store_put \<Rightarrow> (event_log \<Rightarrow> string option) \<Rightarrow> (string \<Rightarrow> string) \<Rightarrow> event_log \<Rightarrow> 's \<Rightarrow>
   (export_error + string) \<times> 's" where
  "ExportLog put archive sha events s =
     (case events of
        [] \<Rightarrow> (Inl ErrEmptyLog, s)
      | ev # evs \<Rightarrow>
          (case traceRange ev evs of
             Inl e \<Rightarrow> (Inl e, s)
           | Inr (traceID, firstSeq, lastSeq) \<Rightarrow>
               (case archive events of
                  None \<Rightarrow> (Inl CompressFailed, s)
                | Some compressed \<Rightarrow>
                    (let checksum = sha compressed; key = objectKey traceID firstSeq lastSeq;
                         checksumKey = key @ ''.sha256'' in
                     case put key compressed (length compressed) s of
                       (Some e, s1) \<Rightarrow> (Inl (PutFailed key e), s1)
                     | (None, s1) \<Rightarrow>
                         (case put checksumKey checksum (length checksum) s1 of
                            (Some e, s2) \<Rightarrow> (Inl (PutFailed checksumKey e), s2)
                          | (None, s2) \<Rightarrow> (Inr key, s2))))))"

definition VerifyExport :: "'s store_get \<Rightarrow> (string \<Rightarrow> string) \<Rightarrow> string \<Rightarrow> 's \<Rightarrow> export_error option" where
  "VerifyExport get sha key s =
     (case get key s of
        Inl e \<Rightarrow> Some (GetFailed key e)
      | Inr data \<Rightarrow>
          (case get (key @ ''.sha256'') s of
             Inl e \<Rightarrow> Some (GetFailed (key @ ''.sha256'') e)
           | Inr want \<Rightarrow>
               if sha data \<noteq> want then Some (ErrChecksumMismatch key (sha data) want) else None))"

section \<open>Retention\<close>

datatype retention = RetHot | RetCold | RetExpired

definition day_ns :: int where "day_ns = 24 * 3600 * 10 ^ 9"

definition Classify :: "int \<Rightarrow> retention" where
  "Classify age = (if age < 30 * day_ns then RetHot else if age < 90 * day_ns then RetCold else RetExpired)"

text \<open>\<^verbatim>\<open>Time.Sub\<close> saturates at the ends of a duration.\<close>

definition time_sub :: "int \<Rightarrow> int \<Rightarrow> int" where
  "time_sub a b = max (- (2 ^ 63)) (min (2 ^ 63 - 1) (a - b))"

definition Sweep :: "string list \<Rightarrow> string \<Rightarrow> int \<Rightarrow> memory_store \<Rightarrow> string list" where
  "Sweep ids prefix now s =
     map om_key (filter (\<lambda>o1. Classify (time_sub now (om_last_modified o1)) = RetExpired) (MemoryList ids prefix s))"

section \<open>The promise of an object store\<close>

locale object_store =
  fixes put :: "'s store_put" and get :: "'s store_get" and objects :: "'s \<Rightarrow> string \<rightharpoonup> string"
  assumes get_found: "objects s k = Some d \<Longrightarrow> get k s = Inr d"
    and get_absent: "objects s k = None \<Longrightarrow> get k s = Inl ErrNotFound"
    and put_ok: "put k d (length d) s = (None, s') \<Longrightarrow> objects s' = (objects s)(k \<mapsto> d)"
begin

lemma export_stores:
  assumes "ExportLog put archive sha events s = (Inr key, s')"
  shows "\<exists>data. archive events = Some data \<and>
    objects s' = (objects s)(key \<mapsto> data, key @ ''.sha256'' \<mapsto> sha data)"
proof -
  obtain ev evs where ev: "events = ev # evs" using assms by (cases events) (auto simp: ExportLog_def)
  obtain t lo hi where r: "traceRange ev evs = Inr (t, lo, hi)"
    using assms ev by (cases "traceRange ev evs") (auto simp: ExportLog_def)
  obtain data where d: "archive events = Some data"
    using assms ev r by (cases "archive events") (auto simp: ExportLog_def)
  let ?key = "objectKey t lo hi"
  obtain e s1 where p1: "put ?key data (length data) s = (e, s1)" by fastforce
  obtain e2 s2 where p2: "put (?key @ ''.sha256'') (sha data) (length (sha data)) s1 = (e2, s2)" by fastforce
  have "e = None" "e2 = None" "key = ?key" "s' = s2"
    using assms ev r d p1 p2 by (auto simp: ExportLog_def Let_def split: option.splits)
  then show ?thesis using d put_ok p1 p2 by auto
qed

lemma export_verify:
  assumes "ExportLog put archive sha events s = (Inr key, s')"
  shows "VerifyExport get sha key s' = None"
  using export_stores [OF assms] get_found by (auto simp: VerifyExport_def)

lemma corrupt_detected:
  assumes "ExportLog put archive sha events s = (Inr key, s')"
    and "put key bad (length bad) s' = (None, s'')" "archive events = Some data" "sha bad \<noteq> sha data"
  shows "VerifyExport get sha key s'' = Some (ErrChecksumMismatch key (sha bad) (sha data))"
  using export_stores [OF assms(1)] put_ok [OF assms(2)] get_found assms(3,4)
  by (auto simp: VerifyExport_def)

end

definition memory_view :: "memory_store \<Rightarrow> string \<rightharpoonup> string" where
  "memory_view s k = map_option mo_data (s k)"

interpretation memory: object_store "MemoryPut now" MemoryGet memory_view for now
  by unfold_locales (auto simp: MemoryGet_def MemoryPut_def memory_view_def intro!: ext
      split: option.splits if_splits)

section \<open>Properties\<close>

text \<open>
  Observation.  An export that succeeds is found intact by the verification, and when the archive is later
  replaced by bytes with another digest the verification reports the mismatch with both digests.
\<close>

theorem export_verifies:
  assumes "ExportLog (MemoryPut now) archive sha events s = (Inr key, s')"
    and "archive events = Some data" "sha bad \<noteq> sha data"
  shows "VerifyExport MemoryGet sha key s' = None \<and>
    VerifyExport MemoryGet sha key (snd (MemoryPut later key bad (length bad) s')) =
      Some (ErrChecksumMismatch key (sha bad) (sha data))"
proof
  show "VerifyExport MemoryGet sha key s' = None" by (rule memory.export_verify [OF assms(1)])
  obtain data' where "archive events = Some data'"
    "memory_view s' = (memory_view s)(key \<mapsto> data', key @ ''.sha256'' \<mapsto> sha data')"
    using memory.export_stores [OF assms(1)] by blast
  then have v: "memory_view s' key = Some data" "memory_view s' (key @ ''.sha256'') = Some (sha data)"
    using assms(2) by simp_all
  let ?s = "snd (MemoryPut later key bad (length bad) s')"
  have "MemoryPut later key bad (length bad) s' = (None, ?s)" by (simp add: MemoryPut_def)
  from memory.put_ok [OF this] have "memory_view ?s key = Some bad"
    "memory_view ?s (key @ ''.sha256'') = Some (sha data)" using v by simp_all
  then show "VerifyExport MemoryGet sha key ?s = Some (ErrChecksumMismatch key (sha bad) (sha data))"
    using memory.get_found assms(3) by (simp add: VerifyExport_def)
qed

definition demo_archive :: "event_log \<Rightarrow> string option" where
  "demo_archive evs = Some (map (\<lambda>e. CHR ''z'') evs)"

lemma export_verifies_witness:
  "\<exists>key s'. ExportLog (MemoryPut 0) demo_archive id demo_log Map.empty = (Inr key, s') \<and>
     VerifyExport MemoryGet id key s' = None"
proof -
  have "fst (ExportLog (MemoryPut 0) demo_archive id demo_log Map.empty) =
      Inr (objectKey ''t'' 1 3)"
    by (simp add: ExportLog_def demo_log_def demo_event_def traceRange_def demo_archive_def MemoryPut_def Let_def)
  then obtain s' where e: "ExportLog (MemoryPut 0) demo_archive id demo_log Map.empty = (Inr (objectKey ''t'' 1 3), s')"
    by (metis prod.collapse)
  have "demo_archive demo_log = Some ''zzz''" by (simp add: demo_archive_def demo_log_def)
  from export_verifies [OF e this, of "[]" 0] e show ?thesis by auto
qed

lemma MemoryList_eq:
  assumes "map_order ids s"
  shows "set (MemoryList ids prefix s) =
      {\<lparr>om_key = k, om_size = int (length (mo_data o1)), om_last_modified = mo_last_modified o1\<rparr> | k o1.
        s k = Some o1 \<and> has_prefix k prefix}"
    and "map om_key (MemoryList ids prefix s) = sorted_list_of_set {k \<in> dom s. has_prefix k prefix}"
proof -
  let ?f = "\<lambda>k. case s k of None \<Rightarrow> []
     | Some o1 \<Rightarrow> if has_prefix k prefix
         then [\<lparr>om_key = k, om_size = int (length (mo_data o1)), om_last_modified = mo_last_modified o1\<rparr>] else []"
  show "set (MemoryList ids prefix s) =
      {\<lparr>om_key = k, om_size = int (length (mo_data o1)), om_last_modified = mo_last_modified o1\<rparr> | k o1.
        s k = Some o1 \<and> has_prefix k prefix}"
    using assms unfolding map_order_def MemoryList_def
    by (auto simp: domI split: option.splits if_splits)
  have keys: "map om_key (concat (map ?f ks)) = filter (\<lambda>k. k \<in> dom s \<and> has_prefix k prefix) ks" for ks
    by (induction ks) (auto split: option.splits)
  have m: "mset (map om_key (MemoryList ids prefix s)) =
      mset (filter (\<lambda>k. k \<in> dom s \<and> has_prefix k prefix) ids)"
    unfolding MemoryList_def mset_map mset_sort by (simp only: mset_map [symmetric] keys)
  have "distinct (map om_key (MemoryList ids prefix s))"
    using m assms by (metis distinct_filter map_order_def mset_eq_imp_distinct_iff)
  moreover have "set (map om_key (MemoryList ids prefix s)) = {k \<in> dom s. has_prefix k prefix}"
    using m assms by (metis (no_types, lifting) Collect_cong map_order_def mset_eq_setD set_filter)
  moreover have "sorted (map om_key (MemoryList ids prefix s))"
    unfolding MemoryList_def by (rule sorted_sort_key)
  ultimately show "map om_key (MemoryList ids prefix s) = sorted_list_of_set {k \<in> dom s. has_prefix k prefix}"
    using sorted_list_of_set.idem_if_sorted_distinct by metis
qed

lemma filtered_keys:
  "om_key ` {m \<in> {\<lparr>om_key = k, om_size = f o1, om_last_modified = t o1\<rparr> | k o1. s k = Some o1 \<and> Q k}.
      d \<le> now - om_last_modified m} = {k. \<exists>o1. s k = Some o1 \<and> Q k \<and> d \<le> now - t o1}"
  by (force simp: image_def)

lemma Classify_expired: "Classify (time_sub now t) = RetExpired \<longleftrightarrow> 90 * day_ns \<le> now - t"
  by (auto simp: Classify_def time_sub_def day_ns_def)

text \<open>
  Observation.  A sweep names, in the order of the keys and whatever the order of the map, exactly the
  objects under the prefix that were last modified at least ninety days ago.
\<close>

theorem sweep_exact:
  assumes "map_order ids s"
  shows "Sweep ids prefix now s =
    sorted_list_of_set {k. \<exists>o1. s k = Some o1 \<and> has_prefix k prefix \<and>
      90 * day_ns \<le> now - mo_last_modified o1}"
proof -
  let ?P = "\<lambda>m. 90 * day_ns \<le> now - om_last_modified m"
  have eq: "Sweep ids prefix now s = map om_key (filter ?P (MemoryList ids prefix s))"
    by (simp add: Sweep_def Classify_expired)
  have keys: "map om_key (MemoryList ids prefix s) = sorted_list_of_set {k \<in> dom s. has_prefix k prefix}"
    by (rule MemoryList_eq(2) [OF assms])
  have "sorted (map om_key (MemoryList ids prefix s))" "distinct (map om_key (MemoryList ids prefix s))"
    by (simp_all add: keys)
  then have "sorted (Sweep ids prefix now s)" "distinct (Sweep ids prefix now s)"
    by (simp_all add: eq sorted_filter distinct_map_filter)
  moreover have "set (Sweep ids prefix now s) =
      {k. \<exists>o1. s k = Some o1 \<and> has_prefix k prefix \<and> 90 * day_ns \<le> now - mo_last_modified o1}"
    unfolding eq set_map set_filter MemoryList_eq(1) [OF assms] by (rule filtered_keys)
  ultimately show ?thesis using sorted_list_of_set.idem_if_sorted_distinct by metis
qed

lemma sweep_exact_witness:
  "Sweep [''traces/b'', ''x'', ''traces/a''] ''traces/'' (91 * day_ns)
     [''traces/a'' \<mapsto> \<lparr>mo_data = [], mo_last_modified = 0\<rparr>, ''x'' \<mapsto> \<lparr>mo_data = [], mo_last_modified = 0\<rparr>,
      ''traces/b'' \<mapsto> \<lparr>mo_data = [], mo_last_modified = 2 * day_ns\<rparr>] = [''traces/a'']"
proof -
  let ?s = "[''traces/a'' \<mapsto> \<lparr>mo_data = [], mo_last_modified = 0\<rparr>, ''x'' \<mapsto> \<lparr>mo_data = [], mo_last_modified = 0\<rparr>,
      ''traces/b'' \<mapsto> \<lparr>mo_data = [], mo_last_modified = 2 * day_ns\<rparr>]"
  have "map_order [''traces/b'', ''x'', ''traces/a''] ?s"
    by (auto simp: map_order_def split: if_splits)
  moreover have "{k. \<exists>o1. ?s k = Some o1 \<and> has_prefix k ''traces/'' \<and>
      90 * day_ns \<le> 91 * day_ns - mo_last_modified o1} = {''traces/a''}"
    by (auto simp: day_ns_def split: if_splits)
  ultimately show ?thesis using sweep_exact [of _ ?s "''traces/''" "91 * day_ns"] by simp
qed

end
