(* ===== verification/Replay_Command.thy ===== *)
theory Replay_Command
  imports Replay_Run Replay_Export
begin

text \<open>
  The command line of the replay engine (\<^verbatim>\<open>agent-replay-engine/cmd/traceforge/main.go\<close>) and its object
  store on MinIO (\<^verbatim>\<open>pkg/objectstore/minio.go\<close>).

  The commands take their parsed flags, the files of the process and SHA-256 as arguments and return
  the exit code and the lines on standard output.  MinIO is a bucket whose requests have outcomes
  given by the environment: an error code, and for a write whether it was carried out all the same.
\<close>

section \<open>Commands\<close>

record replay_flags =
  rf_log :: string
  rf_trace_id :: string
  rf_stop_at_step :: int
  rf_inject_timeout :: int

type_synonym log_files = "string \<Rightarrow> jsonl_line list option"

definition runReplay :: "(string \<Rightarrow> string) \<Rightarrow> log_files \<Rightarrow> replay_flags option \<Rightarrow> int \<times> string list" where
  "runReplay sha files parsed =
     (case parsed of
        None \<Rightarrow> (2, [])
      | Some f \<Rightarrow>
        if rf_log f = [] \<or> rf_trace_id f = [] then (2, [])
        else case files (rf_log f) of
          None \<Rightarrow> (1, [])
        | Some ls \<Rightarrow>
          (case LoadFromReader sha ls (rf_trace_id f) of
             None \<Rightarrow> (1, [])
           | Some (m, sawAny) \<Rightarrow>
               if \<not> sawAny then (1, [])
               else
                 let m = (if 0 < rf_inject_timeout f then Inject (rf_inject_timeout f) ''timeout'' m else m);
                     ((result, failed1), m') = RunFromReader sha ls (rf_trace_id f) m (rf_stop_at_step f)
                 in if failed1 then (1, [])
                    else
                      let printed = [''trace_id: '' @ rf_trace_id f, ''steps run: '' @ itoa (StepsRun result)]
                      in if ReplayErr result \<noteq> None then (1, printed)
                         else if StoppedEarly result
                         then (0, printed @ [''stopped early: halted at --stop-at-step='' @ itoa (rf_stop_at_step f)])
                         else (0, printed @ [''output: '' @ Output result])))"

record diff_flags =
  df_log :: string
  df_trace_a :: string
  df_trace_b :: string

definition valueOr :: "string \<Rightarrow> string \<Rightarrow> string" where
  "valueOr s fallback = (if s = [] then fallback else s)"

definition reason_text :: "reason \<Rightarrow> string" where
  "reason_text r =
     (case r of
        ReasonToolName \<Rightarrow> ''tool_name'' | ReasonInputHash \<Rightarrow> ''input_hash''
      | ReasonMissingInA \<Rightarrow> ''missing_in_a'' | ReasonMissingInB \<Rightarrow> ''missing_in_b'')"

definition diff_lines :: "diff_flags \<Rightarrow> diff_result \<Rightarrow> string list" where
  "diff_lines f r =
     [''trace_a: '' @ df_trace_a f @ '' ('' @ itoa (StepsTotalA r) @ '' tool calls)'',
      ''trace_b: '' @ df_trace_b f @ '' ('' @ itoa (StepsTotalB r) @ '' tool calls)''] @
     (if \<not> Found r
      then [''no divergence '' @ map char_of [226, 128, 148 :: nat] @ '' '' @ itoa (StepsCompared r) @ '' shared step(s) matched'']
      else case Divergence r of
        None \<Rightarrow> []
      | Some d \<Rightarrow>
          [''first divergence at step '' @ itoa (StepIndex d) @ '' ('' @ itoa (StepsCompared r) @ '' matching step(s) before it):'',
           ''  reason: '' @ reason_text (Reason d),
           ''  trace_a: span_id='' @ valueOr (SpanIDA d) ''<none>'' @ '' tool_name='' @ valueOr (ToolNameA d) ''<none>'',
           ''  trace_b: span_id='' @ valueOr (SpanIDB d) ''<none>'' @ '' tool_name='' @ valueOr (ToolNameB d) ''<none>''])"

definition runDiff :: "log_files \<Rightarrow> diff_flags option \<Rightarrow> int \<times> string list" where
  "runDiff files parsed =
     (case parsed of
        None \<Rightarrow> (2, [])
      | Some f \<Rightarrow>
        if df_log f = [] \<or> df_trace_a f = [] \<or> df_trace_b f = [] then (2, [])
        else case files (df_log f) of
          None \<Rightarrow> (1, [])
        | Some ls \<Rightarrow>
          (case ReadJSONL ls of
             Inl e \<Rightarrow> (1, [])
           | Inr full \<Rightarrow>
               let logA = FilterByTraceID full (df_trace_a f); logB = FilterByTraceID full (df_trace_b f)
               in if logA = [] then (1, [])
                  else if logB = [] then (1, [])
                  else (0, diff_lines f (Compare logA logB))))"

definition replay_main ::
  "(string \<Rightarrow> string) \<Rightarrow> log_files \<Rightarrow> (string list \<Rightarrow> replay_flags option) \<Rightarrow> (string list \<Rightarrow> diff_flags option) \<Rightarrow>
     string list \<Rightarrow> int \<times> string list" where
  "replay_main sha files parse_replay parse_diff args =
     (case args of
        [] \<Rightarrow> (2, [])
      | cmd # rest \<Rightarrow>
          if cmd = ''replay'' then runReplay sha files (parse_replay rest)
          else if cmd = ''diff'' then runDiff files (parse_diff rest)
          else (2, []))"

section \<open>MinIO\<close>

record bucket =
  bk_objects :: "string \<rightharpoonup> memory_object"
  bk_calls :: nat

datatype s3_outcome = S3Ok | S3Err string bool

text \<open>\<open>s3_reads\<close> is the code of the error of reading a key, if any.\<close>

record s3_env =
  s3_io :: "nat \<Rightarrow> s3_outcome"
  s3_reads :: "string \<Rightarrow> string option"
  s3_list_err :: "string option"
  s3_now :: int

definition translateMinioErr :: "string \<Rightarrow> store_error" where
  "translateMinioErr code = (if code = ''NoSuchKey'' \<or> code = ''NoSuchObject'' then ErrNotFound else S3Error code)"

definition s3_count :: "bucket \<Rightarrow> bucket" where
  "s3_count b = b\<lparr>bk_calls := Suc (bk_calls b)\<rparr>"

definition MinioPut :: "s3_env \<Rightarrow> bucket store_put" where
  "MinioPut env key body sz b =
     (let stored = (s3_count b)\<lparr>bk_objects := (bk_objects b)(key \<mapsto> \<lparr>mo_data = take sz body, mo_last_modified = s3_now env\<rparr>)\<rparr>
      in if length body < sz then (Some ErrUnexpectedEOF, s3_count b)
         else case s3_io env (bk_calls b) of
                S3Ok \<Rightarrow> (None, stored)
              | S3Err code applied \<Rightarrow> (Some (S3Error code), if applied then stored else s3_count b))"

definition s3_stat :: "s3_env \<Rightarrow> string \<Rightarrow> bucket \<Rightarrow> string + memory_object" where
  "s3_stat env key b =
     (case s3_reads env key of
        Some code \<Rightarrow> Inl code
      | None \<Rightarrow> (case bk_objects b key of None \<Rightarrow> Inl ''NoSuchKey'' | Some o1 \<Rightarrow> Inr o1))"

definition MinioGet :: "s3_env \<Rightarrow> bucket store_get" where
  "MinioGet env key b = (case s3_stat env key b of Inl code \<Rightarrow> Inl (translateMinioErr code) | Inr o1 \<Rightarrow> Inr (mo_data o1))"

definition MinioDelete :: "s3_env \<Rightarrow> string \<Rightarrow> bucket \<Rightarrow> store_error option \<times> bucket" where
  "MinioDelete env key b =
     (case s3_stat env key b of
        Inl code \<Rightarrow> (Some (translateMinioErr code), b)
      | Inr _ \<Rightarrow>
          let removed = (s3_count b)\<lparr>bk_objects := (bk_objects b)(key := None)\<rparr>
          in case s3_io env (bk_calls b) of
               S3Ok \<Rightarrow> (None, removed)
             | S3Err code applied \<Rightarrow> (Some (S3Error code), if applied then removed else s3_count b))"

text \<open>The service lists the keys of a prefix in ascending order; \<open>keys\<close> are the keys of the bucket.\<close>

definition MinioList :: "s3_env \<Rightarrow> string list \<Rightarrow> string \<Rightarrow> bucket \<Rightarrow> store_error + stored_meta list" where
  "MinioList env keys prefix b =
     (case s3_list_err env of
        Some code \<Rightarrow> Inl (S3Error code)
      | None \<Rightarrow> Inr (MemoryList keys prefix (bk_objects b)))"

definition bucket_view :: "bucket \<Rightarrow> string \<rightharpoonup> string" where
  "bucket_view b k = map_option mo_data (bk_objects b k)"

text \<open>A bucket that can be read keeps the promise of an object store, whatever its writes do.\<close>

interpretation minio: object_store "MinioPut env" "MinioGet (env\<lparr>s3_reads := \<lambda>_. None\<rparr>)" bucket_view for env
  by unfold_locales
    (auto simp: MinioGet_def s3_stat_def MinioPut_def bucket_view_def translateMinioErr_def s3_count_def Let_def intro!: ext
      split: option.splits if_splits s3_outcome.splits)

section \<open>The command replays what was recorded\<close>

text \<open>
  Observation.  On a log file in order, with payloads for final outputs and distinct keys, the command for a
  trace whose calls all have responses prints the number of recorded calls and the recorded output
  and exits with 0; with a timeout injected at one of the steps it exits with 1 after printing the
  number of steps before it.
\<close>

theorem replay_command_reproduces:
  assumes "files (rf_log f) = Some ls" "rf_log f \<noteq> []" "rf_trace_id f \<noteq> []" "rf_stop_at_step f = 0"
    and "read_lines 0 ls = Inr evs" "sorted (map SeqNum (of_trace (rf_trace_id f) evs))" "keys_distinct sha evs (rf_trace_id f)"
    and "list_all (\<lambda>ev. Kind ev = KindFinalOutput \<longrightarrow> Payload ev \<noteq> None) (of_trace (rf_trace_id f) evs)"
    and "complete_log (FilterByTraceID evs (rf_trace_id f))"
    and "AllOfKind (FilterByTraceID evs (rf_trace_id f)) KindToolCall = calls" "calls \<noteq> []"
    and "First (FilterByTraceID evs (rf_trace_id f)) KindFinalOutput = Some final"
    and "unmarshal (dec_struct text_fields) (Payload final) [] = Some outp"
    and "rf_inject_timeout f \<le> int (length calls)"
  shows "runReplay sha files (Some f) =
    (if 0 < rf_inject_timeout f
     then (1, [''trace_id: '' @ rf_trace_id f, ''steps run: '' @ itoa (rf_inject_timeout f - 1)])
     else (0, [''trace_id: '' @ rf_trace_id f, ''steps run: '' @ itoa (int (length calls)), ''output: '' @ outp]))"
proof -
  let ?t = "rf_trace_id f"
  let ?log = "FilterByTraceID evs ?t"
  have "calls = AllOfKind ?log KindToolCall" using assms(10) by simp
  then have ne: "filter (\<lambda>ev. EvTraceID ev = ?t) evs \<noteq> []"
    using assms(11) by (auto simp: AllOfKind_def FilterByTraceID_sorted [OF assms(6)] simp del: filter_filter)
  then have load: "LoadFromReader sha ls ?t = Some (LoadFromLog sha ?log, True)"
    using mockers_agree [OF assms(5,6,7)] by simp
  have run: "fst (RunFromReader sha ls ?t m stop) = (fst (RunReplay sha ?log m stop), False)" for m stop
    using stream_equals_batch [OF assms(5,6,8), of sha m stop] by (simp add: case_prod_beta)
  have go: "runReplay sha files (Some f) =
      (let m = (if 0 < rf_inject_timeout f then Inject (rf_inject_timeout f) ''timeout'' (LoadFromLog sha ?log) else LoadFromLog sha ?log);
           result = fst (RunReplay sha ?log m 0);
           printed = [''trace_id: '' @ ?t, ''steps run: '' @ itoa (StepsRun result)]
       in if ReplayErr result \<noteq> None then (1, printed)
          else if StoppedEarly result then (0, printed @ [''stopped early: halted at --stop-at-step='' @ itoa 0])
          else (0, printed @ [''output: '' @ Output result]))"
    using assms(1-4) load run by (simp add: runReplay_def Let_def case_prod_beta)
  show ?thesis
  proof (cases "0 < rf_inject_timeout f")
    case False
    then show ?thesis
      unfolding go using RunReplay_complete [OF assms(9,10,11,12,13)] by (simp add: Let_def)
  next
    case True
    define k where "k = nat (rf_inject_timeout f - 1)"
    have k: "rf_inject_timeout f = int k + 1" "k < length calls" using True assms(14) by (auto simp: k_def)
    have "ReplayErr (fst (RunReplay sha ?log (Inject (int k + 1) ''timeout'' (LoadFromLog sha ?log)) 0)) \<noteq> None"
      "StepsRun (fst (RunReplay sha ?log (Inject (int k + 1) ''timeout'' (LoadFromLog sha ?log)) 0)) = int k"
      using RunReplay_fault [OF assms(9,10,11) k(2), of sha "''timeout''"] by simp_all
    then show ?thesis unfolding go using k(1) by (simp add: Let_def)
  qed
qed

theorem replay_command_reproduces_witness:
  "runReplay id (\<lambda>_. Some (WriteJSONL (\<lambda>_. 100) demo_log))
     (Some \<lparr>rf_log = ''run.jsonl'', rf_trace_id = ''t'', rf_stop_at_step = 0, rf_inject_timeout = 0\<rparr>) =
   (0, [''trace_id: t'', ''steps run: 1'', ''output: done''])"
proof -
  let ?f = "demo_event 3 KindFinalOutput [] [] (JObj [(''text'', JStr ''done'')])"
  let ?fl = "\<lparr>rf_log = ''run.jsonl'', rf_trace_id = ''t'', rf_stop_at_step = 0, rf_inject_timeout = 0\<rparr>"
  have s: "sorted (map SeqNum (of_trace ''t'' demo_log))" and d: "keys_distinct id demo_log ''t''"
    and p: "list_all (\<lambda>ev. Kind ev = KindFinalOutput \<longrightarrow> Payload ev \<noteq> None) (of_trace ''t'' demo_log)"
    by (auto simp: demo_log_def demo_event_def keys_distinct_def keys_of_def keyed_def call_key_of_def inj_on_def)
  have t: "FilterByTraceID demo_log ''t'' = demo_log"
    by (simp add: FilterByTraceID_sorted [OF s]) (simp add: demo_log_def demo_event_def)
  have c: "complete_log demo_log"
    by (simp add: complete_log_def demo_log_calls) (simp add: demo_event_def keyed_def call_key_of_def)
  have f: "First demo_log KindFinalOutput = Some ?f"
    by (simp add: First_def demo_log_def demo_event_def KindToolCall_def KindToolResponse_def KindFinalOutput_def)
  have u: "unmarshal (dec_struct text_fields) (Payload ?f) [] = Some ''done''"
    by (simp add: demo_event_def unmarshal_def text_decoder)
  have one: "itoa 1 = ''1''" by code_simp
  show ?thesis
    using replay_command_reproduces [where f = ?fl and ls = "WriteJSONL (\<lambda>_. 100) demo_log" and evs = demo_log and sha = id and
        files = "\<lambda>_. Some (WriteJSONL (\<lambda>_. 100) demo_log)" and calls = "AllOfKind demo_log KindToolCall" and final = ?f and outp = "''done''"]
      demo_log_read s d p t c f u
    by (simp add: demo_log_calls one)
qed

section \<open>Exports on MinIO\<close>

text \<open>
  Observation.  An export to a MinIO bucket that reports success, whatever its requests did before, is found
  intact by the verification when the bucket can be read; a read error of the archive is reported
  with its code, and a missing archive as not found.
\<close>

theorem minio_export_verifies:
  assumes "ExportLog (MinioPut env) archive sha events b = (Inr key, b')"
  shows "VerifyExport (MinioGet (env\<lparr>s3_reads := \<lambda>_. None\<rparr>)) sha key b' = None \<and>
    VerifyExport (MinioGet (env\<lparr>s3_reads := \<lambda>_. Some code\<rparr>)) sha key b' =
      Some (GetFailed key (if code = ''NoSuchKey'' \<or> code = ''NoSuchObject'' then ErrNotFound else S3Error code)) \<and>
    VerifyExport (MinioGet (env\<lparr>s3_reads := \<lambda>_. None\<rparr>)) sha key
      (snd (MinioDelete (env\<lparr>s3_reads := \<lambda>_. None, s3_io := \<lambda>_. S3Ok\<rparr>) key b')) = Some (GetFailed key ErrNotFound)"
proof (intro conjI)
  show "VerifyExport (MinioGet (env\<lparr>s3_reads := \<lambda>_. None\<rparr>)) sha key b' = None"
    by (rule minio.export_verify [OF assms])
  obtain data where "bucket_view b' = (bucket_view b)(key \<mapsto> data, key @ ''.sha256'' \<mapsto> sha data)"
    using minio.export_stores [OF assms] by blast
  then have "bucket_view b' key = Some data" by simp
  then obtain o1 where o1: "bk_objects b' key = Some o1" by (auto simp: bucket_view_def)
  show "VerifyExport (MinioGet (env\<lparr>s3_reads := \<lambda>_. Some code\<rparr>)) sha key b' =
      Some (GetFailed key (if code = ''NoSuchKey'' \<or> code = ''NoSuchObject'' then ErrNotFound else S3Error code))"
    by (simp add: VerifyExport_def MinioGet_def s3_stat_def translateMinioErr_def)
  show "VerifyExport (MinioGet (env\<lparr>s3_reads := \<lambda>_. None\<rparr>)) sha key
      (snd (MinioDelete (env\<lparr>s3_reads := \<lambda>_. None, s3_io := \<lambda>_. S3Ok\<rparr>) key b')) = Some (GetFailed key ErrNotFound)"
    by (simp add: VerifyExport_def MinioGet_def MinioDelete_def s3_stat_def translateMinioErr_def o1 Let_def)
qed

definition demo_s3 :: s3_env where
  "demo_s3 = \<lparr>s3_io = (\<lambda>_. S3Ok), s3_reads = (\<lambda>_. None), s3_list_err = None, s3_now = 1\<rparr>"

theorem minio_export_verifies_witness:
  "\<exists>key b'. ExportLog (MinioPut demo_s3) demo_archive id demo_log \<lparr>bk_objects = Map.empty, bk_calls = 0\<rparr> = (Inr key, b') \<and>
     VerifyExport (MinioGet demo_s3) id key b' = None"
proof -
  obtain key b' where e: "ExportLog (MinioPut demo_s3) demo_archive id demo_log \<lparr>bk_objects = Map.empty, bk_calls = 0\<rparr> = (Inr key, b')"
    by (simp add: ExportLog_def demo_log_def demo_event_def traceRange_def demo_archive_def MinioPut_def demo_s3_def s3_count_def Let_def)
  have "demo_s3\<lparr>s3_reads := \<lambda>_. None\<rparr> = demo_s3" by (simp add: demo_s3_def)
  with minio_export_verifies [OF e] e show ?thesis by auto
qed

end
