(* ===== verification/Cache_Store.thy ===== *)
theory Cache_Store
  imports Prompt_Fingerprint "HOL-Library.Multiset"
begin

text \<open>
  The write side of the semantic cache (\<^verbatim>\<open>semantic-cache-engine\<close>): the hash of a prompt
  (\<^verbatim>\<open>pkg/prompthash\<close>), the OpenAI embedder (\<^verbatim>\<open>pkg/embedder\<close>), the Postgres table
  (\<^verbatim>\<open>pkg/cachestore\<close>) and the worker that embeds and stores pending prompts (\<^verbatim>\<open>pkg/worker\<close>).

  The interfaces \<^verbatim>\<open>Writer\<close> and \<^verbatim>\<open>Embedder\<close> are the locales \<open>entry_writer\<close> and \<open>text_embedder\<close>,
  interpreted by the Postgres writer and the OpenAI embedder; the facts on the worker are proved in
  their union.  A database statement has an outcome of the environment: success, or an error, which
  may be reported although the statement took effect.  Vectors hold reals; the text of a component
  (\<^verbatim>\<open>%g\<close>) and the hexadecimal SHA-256 are arguments.  Instants are nanoseconds.
\<close>

section \<open>Hash of a prompt\<close>

definition NormalizePrompt :: "unicode \<Rightarrow> string \<Rightarrow> string" where
  "NormalizePrompt u prompt = to_lower u (Join (Fields prompt) '' '')"

definition HashPrompt :: "unicode \<Rightarrow> (string \<Rightarrow> string) \<Rightarrow> string \<Rightarrow> string" where
  "HashPrompt u sha prompt = sha (NormalizePrompt u prompt)"

section \<open>Embedder\<close>

definition Dimension :: nat where "Dimension = 1536"

record embedding_item =
  ei_embedding :: "real list option"
  ei_index :: int

record embeddings_response =
  er_data :: "embedding_item list"
  er_error :: "string option"

text \<open>A number beyond the range of \<^verbatim>\<open>float32\<close> is a decoding error; \<^verbatim>\<open>null\<close> makes a slice nil.\<close>

definition dec_float32 :: "real decoder" where
  "dec_float32 v x =
     (case dec_float v x of
        None \<Rightarrow> None
      | Some y \<Rightarrow> if \<bar>y\<bar> < 2 ^ 128 - 2 ^ 103 then Some y else None)"

fun dec_vector :: "real list option decoder" where
  "dec_vector JNull v = Some None"
| "dec_vector (JArr vs) v = map_option Some (dec_elems dec_float32 0 vs)"
| "dec_vector _ v = None"

definition embedding_item_fields :: "embedding_item fields" where
  "embedding_item_fields =
     [(''embedding'', lens ei_embedding (\<lambda>x s. s\<lparr>ei_embedding := x\<rparr>) dec_vector),
      (''index'', lens ei_index (\<lambda>x s. s\<lparr>ei_index := x\<rparr>) dec_int64)]"

definition api_error_fields :: "string fields" where
  "api_error_fields = [(''message'', \<lambda>v s. dec_string v s)]"

definition embeddings_response_fields :: "embeddings_response fields" where
  "embeddings_response_fields =
     [(''data'', lens er_data (\<lambda>x s. s\<lparr>er_data := x\<rparr>)
         (dec_slice (dec_struct embedding_item_fields) \<lparr>ei_embedding = None, ei_index = 0\<rparr>)),
      (''error'', lens er_error (\<lambda>x s. s\<lparr>er_error := x\<rparr>) (dec_ptr (dec_struct api_error_fields) []))]"

text \<open>One exchange with the endpoint: no reply, a body that cannot be read, or status and body.\<close>

datatype http_exchange = NoReply | BrokenBody | HttpReply int payload

datatype embed_error =
  RequestFailed | ReadFailed | DecodeFailed int | ApiError int string | BadStatus int
  | WrongCount nat nat | IndexRange int nat | MissingIndex nat

text \<open>The two loops: each embedding is put at its index, then every index must have one.\<close>

fun place_items ::
  "embedding_item list \<Rightarrow> real list option list \<Rightarrow> embed_error + real list option list" where
  "place_items [] out = Inr out"
| "place_items (d # ds) out =
     (if ei_index d < 0 \<or> int (length out) \<le> ei_index d then Inl (IndexRange (ei_index d) (length out))
      else place_items ds (out[nat (ei_index d) := ei_embedding d]))"

fun all_present :: "nat \<Rightarrow> real list option list \<Rightarrow> embed_error + real list list" where
  "all_present i [] = Inr []"
| "all_present i (None # vs) = Inl (MissingIndex i)"
| "all_present i (Some v # vs) =
     (case all_present (Suc i) vs of Inl e \<Rightarrow> Inl e | Inr r \<Rightarrow> Inr (v # r))"

definition read_embeddings :: "int \<Rightarrow> payload \<Rightarrow> nat \<Rightarrow> embed_error + real list list" where
  "read_embeddings status body n =
     (case unmarshal (dec_struct embeddings_response_fields) body \<lparr>er_data = [], er_error = None\<rparr> of
        None \<Rightarrow> Inl (DecodeFailed status)
      | Some parsed \<Rightarrow>
          if status \<noteq> 200 then
            (case er_error parsed of Some msg \<Rightarrow> Inl (ApiError status msg) | None \<Rightarrow> Inl (BadStatus status))
          else if length (er_data parsed) \<noteq> n then Inl (WrongCount n (length (er_data parsed)))
          else (case place_items (er_data parsed) (replicate n None) of
                  Inl e \<Rightarrow> Inl e
                | Inr out \<Rightarrow> all_present 0 out))"

text \<open>The embedder with the inputs it has posted; the endpoint answers the \<open>n\<close>-th request.\<close>

record openai =
  oa_model :: string
  oa_sent :: "string list list"

definition embeddings_request :: "string \<Rightarrow> string list \<Rightarrow> json" where
  "embeddings_request model texts =
     JObj [(''model'', JStr model), (''input'', JArr (map JStr texts))]"

definition Embed ::
  "(nat \<Rightarrow> json \<Rightarrow> http_exchange) \<Rightarrow> string list \<Rightarrow> openai \<Rightarrow> (embed_error + real list list) \<times> openai" where
  "Embed http texts e =
     (if texts = [] then (Inr [], e)
      else
        (case http (length (oa_sent e)) (embeddings_request (oa_model e) texts) of
           NoReply \<Rightarrow> Inl RequestFailed
         | BrokenBody \<Rightarrow> Inl ReadFailed
         | HttpReply status body \<Rightarrow> read_embeddings status body (length texts),
         e\<lparr>oa_sent := oa_sent e @ [texts]\<rparr>))"

section \<open>The table\<close>

record cache_entry =
  ce_tenant :: string
  ce_hash :: string
  ce_embedding :: "real list"
  ce_response :: string
  ce_created :: "int option"

record cache_row =
  rw_embedding :: string
  rw_response :: string
  rw_created :: int
  rw_last_hit :: int

type_synonym cache_key = "string \<times> string"

datatype pg_outcome = PgOk | PgErr bool

record postgres =
  pg_rows :: "cache_key \<rightharpoonup> cache_row"
  pg_statements :: nat

datatype store_failure =
  BeginTx | WrongDims string string nat | InsertFailed string string | CommitTx
  | QueryFailed | TouchFailed | EmptyVector

definition vectorLiteral :: "(real \<Rightarrow> string) \<Rightarrow> real list \<Rightarrow> string" where
  "vectorLiteral fmt v = ''['' @ Join (map fmt v) '','' @ '']''"

text \<open>\<^verbatim>\<open>INSERT ... ON CONFLICT (tenant_id, prompt_hash) DO NOTHING\<close>.\<close>

definition insert_row :: "(real \<Rightarrow> string) \<Rightarrow> int \<Rightarrow> cache_entry \<Rightarrow> (cache_key \<rightharpoonup> cache_row) \<Rightarrow> (cache_key \<rightharpoonup> cache_row)" where
  "insert_row fmt now e rows =
     (let createdAt = (case ce_created e of None \<Rightarrow> now | Some t \<Rightarrow> t) in
      case rows (ce_tenant e, ce_hash e) of
        Some r \<Rightarrow> rows
      | None \<Rightarrow> rows((ce_tenant e, ce_hash e) \<mapsto>
          \<lparr>rw_embedding = vectorLiteral fmt (ce_embedding e), rw_response = ce_response e,
           rw_created = createdAt, rw_last_hit = createdAt\<rparr>))"

text \<open>
  The loop inside the transaction: the error, the rows the transaction sees and the number of
  statements so far.
\<close>

fun exec_entries ::
  "(nat \<Rightarrow> pg_outcome) \<Rightarrow> (real \<Rightarrow> string) \<Rightarrow> (nat \<Rightarrow> int) \<Rightarrow> cache_entry list \<Rightarrow> (cache_key \<rightharpoonup> cache_row) \<Rightarrow> nat \<Rightarrow>
   store_failure option \<times> (cache_key \<rightharpoonup> cache_row) \<times> nat" where
  "exec_entries io fmt clock [] rows n = (None, rows, n)"
| "exec_entries io fmt clock (e # es) rows n =
     (if length (ce_embedding e) \<noteq> Dimension
      then (Some (WrongDims (ce_tenant e) (ce_hash e) (length (ce_embedding e))), rows, n)
      else if io n \<noteq> PgOk then (Some (InsertFailed (ce_tenant e) (ce_hash e)), rows, Suc n)
      else exec_entries io fmt clock es (insert_row fmt (clock n) e rows) (Suc n))"

definition WriteEntries ::
  "(nat \<Rightarrow> pg_outcome) \<Rightarrow> (real \<Rightarrow> string) \<Rightarrow> (nat \<Rightarrow> int) \<Rightarrow> cache_entry list \<Rightarrow> postgres \<Rightarrow> store_failure option \<times> postgres" where
  "WriteEntries io fmt clock entries db =
     (let n = pg_statements db in
      if entries = [] then (None, db)
      else if io n \<noteq> PgOk then (Some BeginTx, db\<lparr>pg_statements := Suc n\<rparr>)
      else case exec_entries io fmt clock entries (pg_rows db) (Suc n) of
        (Some err, rows, m) \<Rightarrow> (Some err, db\<lparr>pg_statements := m\<rparr>)
      | (None, rows, m) \<Rightarrow>
          (case io m of
             PgOk \<Rightarrow> (None, db\<lparr>pg_rows := rows, pg_statements := Suc m\<rparr>)
           | PgErr applied \<Rightarrow>
               (Some CommitTx, db\<lparr>pg_rows := (if applied then rows else pg_rows db), pg_statements := Suc m\<rparr>)))"

section \<open>The worker\<close>

record pending_prompt =
  pp_tenant :: string
  pp_prompt :: string
  pp_response :: string

record worker_result =
  Received :: nat
  Duplicates :: nat
  Written :: nat

datatype 'x worker_error =
  EmbedFailed nat nat embed_error | VectorCount nat nat nat nat | WriteFailed nat nat 'x

definition BatchSize :: nat where "BatchSize = 32"

fun dedup_prompts ::
  "(string \<Rightarrow> string) \<Rightarrow> cache_key set \<Rightarrow> pending_prompt list \<Rightarrow> (pending_prompt \<times> string) list \<times> nat" where
  "dedup_prompts hash seen [] = ([], 0)"
| "dedup_prompts hash seen (p # ps) =
     (let h = hash (pp_prompt p); k = (pp_tenant p, h) in
      if k \<in> seen then (let (u, d) = dedup_prompts hash seen ps in (u, Suc d))
      else (let (u, d) = dedup_prompts hash (insert k seen) ps in ((p, h) # u, d)))"

definition entries_of :: "int \<Rightarrow> (pending_prompt \<times> string) list \<Rightarrow> real list list \<Rightarrow> cache_entry list" where
  "entries_of now batch vectors =
     map (\<lambda>((p, h), v). \<lparr>ce_tenant = pp_tenant p, ce_hash = h, ce_embedding = v,
            ce_response = pp_response p, ce_created = Some now\<rparr>) (zip batch vectors)"

type_synonym 'e embed_op = "string list \<Rightarrow> 'e \<Rightarrow> (embed_error + real list list) \<times> 'e"
type_synonym ('s, 'x) write_op = "cache_entry list \<Rightarrow> 's \<Rightarrow> 'x option \<times> 's"

text \<open>The loop over the batches, from index \<open>start\<close>; \<open>rest\<close> is \<^verbatim>\<open>unique[start:]\<close>.\<close>

function run_batches ::
  "'e embed_op \<Rightarrow> ('s, 'x) write_op \<Rightarrow> int \<Rightarrow> nat \<Rightarrow> (pending_prompt \<times> string) list \<Rightarrow> nat \<Rightarrow> 'e \<Rightarrow> 's \<Rightarrow>
   'x worker_error option \<times> nat \<times> 'e \<times> 's" where
  "run_batches emb put now start rest written es st =
     (if rest = [] then (None, written, es, st)
      else
        let batch = take BatchSize rest; end1 = start + length batch in
        case emb (map (pp_prompt \<circ> fst) batch) es of
          (Inl e, es') \<Rightarrow> (Some (EmbedFailed start end1 e), written, es', st)
        | (Inr vectors, es') \<Rightarrow>
            if length vectors \<noteq> length batch
            then (Some (VectorCount start end1 (length vectors) (length batch)), written, es', st)
            else
              case put (entries_of now batch vectors) st of
                (Some x, st') \<Rightarrow> (Some (WriteFailed start end1 x), written, es', st')
              | (None, st') \<Rightarrow>
                  run_batches emb put now (start + BatchSize) (drop BatchSize rest)
                    (written + length batch) es' st')"
  by pat_completeness auto
termination
  by (relation "measure (\<lambda>(emb, put, now, start, rest, _). length rest)") (auto simp: BatchSize_def)

declare run_batches.simps [simp del]

definition RunWorker ::
  "'e embed_op \<Rightarrow> ('s, 'x) write_op \<Rightarrow> (string \<Rightarrow> string) \<Rightarrow> int \<Rightarrow> pending_prompt list \<Rightarrow> 'e \<Rightarrow> 's \<Rightarrow>
   (worker_result \<times> 'x worker_error option) \<times> 'e \<times> 's" where
  "RunWorker emb put hash now prompts es st =
     (let (unique, duplicates) = dedup_prompts hash {} prompts;
          (err, written, es', st') = run_batches emb put now 0 unique 0 es st
      in ((\<lparr>Received = length prompts, Duplicates = duplicates, Written = written\<rparr>, err), es', st'))"

section \<open>Interfaces\<close>

definition entry_kv :: "cache_entry \<Rightarrow> cache_key \<times> string" where
  "entry_kv e = ((ce_tenant e, ce_hash e), ce_response e)"

text \<open>
  A writer: \<open>view\<close> is the stored response of a key.  An entry whose key is present is skipped, and a
  failed call has stored the whole batch or nothing.
\<close>

locale entry_writer =
  fixes put :: "('s, 'x) write_op" and view :: "'s \<Rightarrow> cache_key \<rightharpoonup> string"
  assumes write_ok: "put es st = (None, st') \<Longrightarrow> view st' = map_of (map entry_kv es) ++ view st"
    and write_failed: "put es st = (Some x, st') \<Longrightarrow>
      view st' = view st \<or> view st' = map_of (map entry_kv es) ++ view st"

text \<open>An embedder: one request per call, and a vector for each text.\<close>

locale text_embedder =
  fixes emb :: "'e embed_op" and requests :: "'e \<Rightarrow> string list list"
  assumes embed_length: "emb texts es = (Inr vs, es') \<Longrightarrow> length vs = length texts"
    and embed_request: "texts \<noteq> [] \<Longrightarrow> emb texts es = (r, es') \<Longrightarrow> requests es' = requests es @ [texts]"

definition unique_kv :: "pending_prompt \<times> string \<Rightarrow> cache_key \<times> string" where
  "unique_kv u = ((pp_tenant (fst u), snd u), pp_response (fst u))"

definition prompt_kv :: "(string \<Rightarrow> string) \<Rightarrow> pending_prompt \<Rightarrow> cache_key \<times> string" where
  "prompt_kv hash p = ((pp_tenant p, hash (pp_prompt p)), pp_response p)"

lemma entries_of_kv:
  "length vs = length batch \<Longrightarrow> map entry_kv (entries_of now batch vs) = map unique_kv batch"
  by (induction vs batch rule: list_induct2) (auto simp: entries_of_def entry_kv_def unique_kv_def)

lemma dedup_prompts_spec:
  "dedup_prompts hash seen ps = (u, d) \<Longrightarrow>
     distinct (map (fst \<circ> unique_kv) u) \<and> set (map (fst \<circ> unique_kv) u) \<inter> seen = {} \<and>
     set (map (fst \<circ> unique_kv) u) = set (map (fst \<circ> prompt_kv hash) ps) - seen \<and>
     d + length u = length ps \<and>
     (\<forall>k. k \<notin> seen \<longrightarrow> map_of (map unique_kv u) k = map_of (map (prompt_kv hash) ps) k)"
proof (induction ps arbitrary: seen u d)
  case Nil
  then show ?case by simp
next
  case (Cons p ps)
  let ?k = "(pp_tenant p, hash (pp_prompt p))"
  show ?case
  proof (cases "?k \<in> seen")
    case True
    then obtain d' where d: "d = Suc d'" "dedup_prompts hash seen ps = (u, d')"
      using Cons.prems by (auto simp: Let_def split: prod.splits)
    from Cons.IH [OF d(2)] True show ?thesis by (auto simp: d(1) prompt_kv_def)
  next
    case False
    then obtain u' where u: "u = (p, hash (pp_prompt p)) # u'" "dedup_prompts hash (insert ?k seen) ps = (u', d)"
      using Cons.prems by (auto simp: Let_def split: prod.splits)
    from Cons.IH [OF u(2)] False show ?thesis
      unfolding u(1) by (simp add: unique_kv_def prompt_kv_def) (auto simp: unique_kv_def prompt_kv_def)
  qed
qed

locale cache_worker = entry_writer put view + text_embedder emb requests
  for put :: "('s, 'x) write_op" and view :: "'s \<Rightarrow> cache_key \<rightharpoonup> string"
    and emb :: "'e embed_op" and requests :: "'e \<Rightarrow> string list list"
begin

lemma take_batch:
  "take (length (take BatchSize rest) + n) rest = take BatchSize rest @ take n (drop BatchSize rest)"
  by (cases "BatchSize \<le> length rest") (simp_all add: take_add min_def)

lemma run_batches_spec:
  assumes "run_batches emb put now start rest written es st = (err, w, es', st')"
  shows "\<exists>n k sent. written \<le> w \<and> w \<le> written + length rest \<and>
    view st' = map_of (map unique_kv (take n rest)) ++ view st \<and>
    requests es' = requests es @ sent \<and> concat sent = map (pp_prompt \<circ> fst) (take k rest) \<and>
    (n = w - written \<or> err \<noteq> None \<and> n = w - written + BatchSize) \<and>
    (err = None \<longrightarrow> w = written + length rest \<and> k = length rest)"
  using assms
proof (induction "length rest" arbitrary: start rest written es st rule: less_induct)
  case less
  show ?case
  proof (cases "rest = []")
    case True
    then show ?thesis
      using less.prems by (intro exI [of _ 0] exI [of _ "[]"]) (simp add: run_batches.simps)
  next
    case False
    let ?batch = "take BatchSize rest"
    let ?texts = "map (pp_prompt \<circ> fst) ?batch"
    have ne: "?texts \<noteq> []" using False by (simp add: BatchSize_def)
    obtain r es1 where r: "emb ?texts es = (r, es1)" by fastforce
    have q: "requests es1 = requests es @ [?texts]" by (rule embed_request [OF ne r])
    show ?thesis
    proof (cases r)
      case (Inl e)
      then have "w = written" "es' = es1" "st' = st" "err \<noteq> None"
        using less.prems False r by (auto simp: run_batches.simps [of emb] Let_def)
      with q show ?thesis by - (rule exI [of _ 0], rule exI [of _ BatchSize], rule exI [of _ "[?texts]"], auto)
    next
      case (Inr vs)
      have len: "length vs = length ?batch" using embed_length r Inr by fastforce
      note kv = entries_of_kv [OF len, of now]
      obtain x st1 where x: "put (entries_of now ?batch vs) st = (x, st1)" by fastforce
      show ?thesis
      proof (cases x)
        case (Some y)
        then have *: "w = written" "es' = es1" "st' = st1" "err \<noteq> None"
          using less.prems False r Inr len x by (auto simp: run_batches.simps [of emb] Let_def)
        from write_failed [OF x [unfolded Some]] kv
        consider "view st1 = view st" | "view st1 = map_of (map unique_kv ?batch) ++ view st" by auto
        then show ?thesis
        proof cases
          case 1
          with * q show ?thesis by - (rule exI [of _ 0], rule exI [of _ BatchSize], rule exI [of _ "[?texts]"], auto)
        next
          case 2
          with * q show ?thesis by (intro exI [of _ BatchSize] exI [of _ "[?texts]"]) auto
        qed
      next
        case None
        have run: "run_batches emb put now (start + BatchSize) (drop BatchSize rest)
            (written + length ?batch) es1 st1 = (err, w, es', st')"
          using less.prems False r Inr len x None by (simp add: run_batches.simps [of emb] Let_def)
        have "length (drop BatchSize rest) < length rest" using False by (simp add: BatchSize_def)
        from less.hyps [OF this run] obtain n k sent where ih:
          "written + length ?batch \<le> w" "w \<le> written + length ?batch + length (drop BatchSize rest)"
          "view st' = map_of (map unique_kv (take n (drop BatchSize rest))) ++ view st1"
          "requests es' = requests es1 @ sent"
          "concat sent = map (pp_prompt \<circ> fst) (take k (drop BatchSize rest))"
          "n = w - (written + length ?batch) \<or> err \<noteq> None \<and> n = w - (written + length ?batch) + BatchSize"
          "err = None \<longrightarrow> w = written + length ?batch + length (drop BatchSize rest) \<and> k = length (drop BatchSize rest)"
          by blast
        have total: "length ?batch + length (drop BatchSize rest) = length rest" by simp
        have "view st' = map_of (map unique_kv (take (length ?batch + n) rest)) ++ view st"
          unfolding take_batch using ih(3) write_ok [OF x [unfolded None]] kv by simp
        moreover have "requests es' = requests es @ (?texts # sent)" using ih(4) q by simp
        moreover have "concat (?texts # sent) = map (pp_prompt \<circ> fst) (take (length ?batch + k) rest)"
          unfolding take_batch using ih(5) by simp
        ultimately show ?thesis
          using ih(1,2,6,7) total
          by - (rule exI [of _ "length ?batch + n"], rule exI [of _ "length ?batch + k"], rule exI [of _ "?texts # sent"], auto)
      qed
    qed
  qed
qed

text \<open>What a run stores: the first response of each key, up to the batches that were written.\<close>

lemma RunWorker_spec:
  assumes "RunWorker emb put hash now prompts es st = ((res, err), es', st')"
    and "dedup_prompts hash {} prompts = (unique, d)"
  shows "\<exists>n k. Received res = length prompts \<and> Duplicates res = d \<and> Written res \<le> length unique \<and>
    view st' = map_of (map unique_kv (take n unique)) ++ view st \<and>
    (\<exists>sent. requests es' = requests es @ sent \<and> concat sent = map (pp_prompt \<circ> fst) (take k unique)) \<and>
    (n = Written res \<or> err \<noteq> None \<and> n = Written res + BatchSize) \<and>
    (err = None \<longrightarrow> Written res = length unique \<and> k = length unique)"
proof -
  obtain e w es1 st1 where b: "run_batches emb put now 0 unique 0 es st = (e, w, es1, st1)"
    by (metis prod_cases4)
  then have "res = \<lparr>Received = length prompts, Duplicates = d, Written = w\<rparr>" "err = e" "es' = es1" "st' = st1"
    using assms by (auto simp: RunWorker_def Let_def)
  with run_batches_spec [OF b] show ?thesis by fastforce
qed

lemma RunWorker_complete:
  assumes "RunWorker emb put hash now prompts es st = ((res, None), es', st')"
  shows "view st' = map_of (map (prompt_kv hash) prompts) ++ view st"
    and "Written res = card ((fst \<circ> prompt_kv hash) ` set prompts)"
    and "Duplicates res + Written res = length prompts"
proof -
  obtain unique d where u: "dedup_prompts hash {} prompts = (unique, d)" by fastforce
  note spec = dedup_prompts_spec [OF u]
  have all: "take (length unique) unique = unique" by simp
  from RunWorker_spec [OF assms u]
  have v: "view st' = map_of (map unique_kv unique) ++ view st" "Written res = length unique" "Duplicates res = d"
    by auto
  show "view st' = map_of (map (prompt_kv hash) prompts) ++ view st"
    unfolding v using spec by (auto simp: fun_eq_iff map_add_def split: option.splits)
  have "length unique = card (set (map (fst \<circ> unique_kv) unique))"
    using spec by (metis distinct_card length_map)
  also have "\<dots> = card ((fst \<circ> prompt_kv hash) ` set prompts)" using spec by simp
  finally show "Written res = card ((fst \<circ> prompt_kv hash) ` set prompts)" using v by simp
  show "Duplicates res + Written res = length prompts" using spec v by simp
qed

end

section \<open>The Postgres writer and the OpenAI embedder\<close>

definition pg_view :: "postgres \<Rightarrow> cache_key \<rightharpoonup> string" where
  "pg_view db k = map_option rw_response (pg_rows db k)"

lemma insert_row_view:
  "map_option rw_response (insert_row fmt now e rows k) =
     (map_of [entry_kv e] ++ (\<lambda>k. map_option rw_response (rows k))) k"
  by (cases "rows (ce_tenant e, ce_hash e)")
    (auto simp: insert_row_def entry_kv_def map_add_def split: option.splits)

lemma exec_entries_view:
  "exec_entries io fmt clock es rows n = (None, rows', m) \<Longrightarrow>
     (\<lambda>k. map_option rw_response (rows' k)) = map_of (map entry_kv es) ++ (\<lambda>k. map_option rw_response (rows k))"
proof (induction es arbitrary: rows n)
  case (Cons e es)
  then have "exec_entries io fmt clock es (insert_row fmt (clock n) e rows) (Suc n) = (None, rows', m)"
    by (auto split: if_splits)
  from Cons.IH [OF this] show ?case
    by (auto simp: insert_row_view fun_eq_iff map_add_def split: option.splits)
qed simp

interpretation pg: entry_writer "WriteEntries io fmt clock" pg_view for io fmt clock
proof (unfold_locales, goal_cases)
  case (1 es st st')
  then show ?case
    by (auto simp: WriteEntries_def Let_def pg_view_def [abs_def] dest!: exec_entries_view
        split: if_splits prod.splits option.splits pg_outcome.splits)
next
  case (2 es st x st')
  then show ?case
    by (auto simp: WriteEntries_def Let_def pg_view_def [abs_def] dest!: exec_entries_view
        split: if_splits prod.splits option.splits pg_outcome.splits)
qed

lemma place_items_length: "place_items ds out = Inr out' \<Longrightarrow> length out' = length out"
  by (induction ds out rule: place_items.induct) (auto split: if_splits)

lemma all_present_map: "all_present i (map Some vs) = Inr vs"
  by (induction vs arbitrary: i) auto

lemma all_present_iff: "all_present i out = Inr vs \<longleftrightarrow> out = map Some vs"
proof
  show "all_present i out = Inr vs \<Longrightarrow> out = map Some vs"
    by (induction i out arbitrary: vs rule: all_present.induct) (auto split: sum.splits)
qed (simp add: all_present_map)

lemma read_embeddings_length: "read_embeddings status body n = Inr vs \<Longrightarrow> length vs = n"
  by (auto simp: read_embeddings_def all_present_iff dest!: place_items_length
      split: option.splits if_splits sum.splits)

interpretation openai: text_embedder "Embed http" oa_sent for http
  by unfold_locales (auto simp: Embed_def dest: read_embeddings_length split: if_splits http_exchange.splits)

interpretation pgworker: cache_worker "WriteEntries io fmt clock" pg_view "Embed http" oa_sent for io fmt clock http
  by unfold_locales

section \<open>Order of the embeddings\<close>

definition item_slot :: "embedding_item \<Rightarrow> nat \<times> real list option" where
  "item_slot d = (nat (ei_index d), ei_embedding d)"

definition in_slots :: "nat \<Rightarrow> embedding_item \<Rightarrow> bool" where
  "in_slots n d \<longleftrightarrow> 0 \<le> ei_index d \<and> ei_index d < int n"

lemma place_items_ok:
  "list_all (in_slots (length out)) ds \<Longrightarrow> \<exists>out'. place_items ds out = Inr out'"
  by (induction ds out rule: place_items.induct) (auto simp: in_slots_def)

lemma place_items_spec:
  "place_items ds out = Inr out' \<Longrightarrow>
     list_all (in_slots (length out)) ds \<and> length out' = length out \<and>
     (\<forall>i < length out. out' ! i = (case map_of (rev (map item_slot ds)) i of None \<Rightarrow> out ! i | Some v \<Rightarrow> v))"
proof (induction ds out rule: place_items.induct)
  case (2 d ds out)
  then have r: "0 \<le> ei_index d" "ei_index d < int (length out)"
    and p: "place_items ds (out[nat (ei_index d) := ei_embedding d]) = Inr out'" by (auto split: if_splits)
  then have "\<not> (ei_index d < 0 \<or> int (length out) \<le> ei_index d)" by auto
  from 2(1) [OF this p] r show ?case
    by (auto simp: in_slots_def item_slot_def map_add_def nth_list_update split: option.splits)
qed auto

lemma distinct_of_cover:
  assumes "{..<length xs} \<subseteq> set xs"
  shows "distinct xs \<and> set xs = {..<length xs}"
proof
  have "card {..<length xs} \<le> card (set xs)" by (rule card_mono [OF _ assms]) simp
  then show d: "distinct xs" using card_length [of xs] by (simp add: card_distinct)
  show "set xs = {..<length xs}"
    using card_subset_eq [OF _ assms] distinct_card [OF d] by simp
qed

lemma place_all_present:
  assumes "place_items ds (replicate (length ds) None) = Inr (map Some vs)"
  shows "distinct (map fst (map item_slot ds)) \<and> set (map fst (map item_slot ds)) = {..<length ds} \<and>
    (\<forall>d \<in> set ds. ei_embedding d = Some (vs ! nat (ei_index d)))"
proof -
  from place_items_spec [OF assms]
  have len: "length vs = length ds"
    and at: "\<And>i. i < length ds \<Longrightarrow>
      Some (vs ! i) = (case map_of (rev (map item_slot ds)) i of None \<Rightarrow> None | Some v \<Rightarrow> v)"
    by (auto split: option.splits)
  have "i \<in> set (map fst (map item_slot ds))" if "i < length ds" for i
    using at [OF that] by (auto split: option.splits dest!: map_of_SomeD)
      (metis fst_conv image_eqI)
  then have "{..<length (map fst (map item_slot ds))} \<subseteq> set (map fst (map item_slot ds))" by auto
  from distinct_of_cover [OF this]
  have d: "distinct (map fst (map item_slot ds))" "set (map fst (map item_slot ds)) = {..<length ds}" by auto
  have "ei_embedding d = Some (vs ! nat (ei_index d))" if "d \<in> set ds" for d
  proof -
    have "nat (ei_index d) < length ds" using d(2) that by (auto simp: item_slot_def)
    moreover have "map_of (rev (map item_slot ds)) (nat (ei_index d)) = Some (ei_embedding d)"
      using d(1) that by (intro map_of_is_SomeI) (auto simp: item_slot_def rev_map [symmetric])
    ultimately show ?thesis using at by force
  qed
  with d show ?thesis by blast
qed

lemma place_items_iff:
  "place_items ds (replicate (length ds) None) = Inr (map Some vs) \<longleftrightarrow>
     length vs = length ds \<and>
     mset (map (\<lambda>d. (ei_index d, ei_embedding d)) ds) = mset (map (\<lambda>i. (int i, Some (vs ! i))) [0..<length ds])"
    (is "?placed \<longleftrightarrow> ?len \<and> ?perm")
proof
  assume p: ?placed
  from place_items_spec [OF p] have r: "list_all (in_slots (length ds)) ds" and len: ?len by auto
  note all = place_all_present [OF p]
  let ?f = "\<lambda>i. (int i, Some (vs ! i))"
  have "mset (map (\<lambda>d. nat (ei_index d)) ds) = mset [0..<length ds]"
    using all by (intro set_eq_iff_mset_eq_distinct [THEN iffD1]) (auto simp: item_slot_def o_def)
  moreover have "map (\<lambda>d. (ei_index d, ei_embedding d)) ds = map ?f (map (\<lambda>d. nat (ei_index d)) ds)"
    using all r by (auto simp: list_all_iff in_slots_def)
  ultimately have ?perm by (simp only: mset_map)
  with len show "?len \<and> ?perm" by blast
next
  assume a: "?len \<and> ?perm"
  let ?g = "\<lambda>d. (ei_index d, ei_embedding d)" and ?f = "\<lambda>i. (int i, Some (vs ! i))"
  have "set (map ?g ds) = set (map ?f [0..<length ds])" by (rule mset_eq_setD) (use a in blast)
  then have s: "?g ` set ds = ?f ` {..<length ds}" by (simp add: atLeast0LessThan)
  have mem: "\<exists>i < length ds. ei_index d = int i \<and> ei_embedding d = Some (vs ! i)" if "d \<in> set ds" for d
  proof -
    have "?g d \<in> ?f ` {..<length ds}" using that s by blast
    then show ?thesis by auto
  qed
  then have "list_all (in_slots (length ds)) ds" by (fastforce simp: list_all_iff in_slots_def)
  then obtain out where out: "place_items ds (replicate (length ds) None) = Inr out"
    using place_items_ok [of "replicate (length ds) None" ds] by auto
  note spec = place_items_spec [OF out]
  have "out ! i = Some (vs ! i)" if "i < length ds" for i
  proof -
    have "?f i \<in> ?g ` set ds" using that s by blast
    then obtain d where d: "d \<in> set ds" "ei_index d = int i" by auto
    then have "i \<in> fst ` set (rev (map item_slot ds))" by (force simp: item_slot_def image_iff)
    then obtain v where v: "map_of (rev (map item_slot ds)) i = Some v" by (metis map_of_eq_None_iff not_Some_eq)
    then have "v = Some (vs ! i)" using mem by (fastforce simp: item_slot_def dest!: map_of_SomeD)
    with v spec that show ?thesis by simp
  qed
  then have "out = map Some vs" using spec a by (intro nth_equalityI) auto
  with out show ?placed by simp
qed

section \<open>Properties\<close>

text \<open>
  Observation.  For a reply with status 200 that decodes, the embedder returns vectors exactly when the items
  of the reply are, in some order, the vectors paired with their indices, each index once: the
  result is in the order of the inputs whatever the order of the reply, and a missing, repeated or
  foreign index or a null vector is an error.
\<close>

theorem embed_in_input_order:
  assumes "texts \<noteq> []"
    and "http (length (oa_sent e)) (embeddings_request (oa_model e) texts) = HttpReply 200 body"
    and "unmarshal (dec_struct embeddings_response_fields) body \<lparr>er_data = [], er_error = None\<rparr> = Some parsed"
  shows "fst (Embed http texts e) = Inr vs \<longleftrightarrow>
    length vs = length texts \<and>
    mset (map (\<lambda>d. (ei_index d, ei_embedding d)) (er_data parsed)) =
      mset (map (\<lambda>i. (int i, Some (vs ! i))) [0..<length texts])"
proof (cases "length (er_data parsed) = length texts")
  case True
  have "fst (Embed http texts e) = Inr vs \<longleftrightarrow>
      place_items (er_data parsed) (replicate (length (er_data parsed)) None) = Inr (map Some vs)"
    using assms True by (auto simp: Embed_def read_embeddings_def all_present_iff split: sum.splits)
  with True place_items_iff [of "er_data parsed" vs] show ?thesis by simp
next
  case False
  moreover have "mset (map (\<lambda>d. (ei_index d, ei_embedding d)) (er_data parsed)) \<noteq>
      mset (map (\<lambda>i. (int i, Some (vs ! i))) [0..<length texts])"
    using False by (auto dest: arg_cong [of _ _ size])
  ultimately show ?thesis using assms by (simp add: Embed_def read_embeddings_def)
qed

text \<open>A service that embeds every text as the zero vector, listing the items backwards.\<close>

definition zero_item :: "nat \<Rightarrow> json" where
  "zero_item i = JObj [(''index'', JInt (int i)), (''embedding'', JArr (replicate Dimension (JInt 0)))]"

definition zero_body :: "nat \<Rightarrow> payload" where
  "zero_body n = Some (JObj [(''data'', JArr (map zero_item (rev [0..<n])))])"

fun zero_service :: "nat \<Rightarrow> json \<Rightarrow> http_exchange" where
  "zero_service k (JObj [m, (_, JArr texts)]) = HttpReply 200 (zero_body (length texts))"
| "zero_service k _ = NoReply"

lemma zero_elems: "dec_elems dec_float32 0 (replicate n (JInt 0)) = Some (replicate n 0)"
  by (induction n) (simp_all add: dec_float32_def)

lemma embedding_item_field:
  "field_decoder embedding_item_fields ''index'' = Some (lens ei_index (\<lambda>x s. s\<lparr>ei_index := x\<rparr>) dec_int64)"
  "field_decoder embedding_item_fields ''embedding'' =
     Some (lens ei_embedding (\<lambda>x s. s\<lparr>ei_embedding := x\<rparr>) dec_vector)"
  by (subst field_decoder_plain, simp add: plain_name_def, simp add: embedding_item_fields_def plain_name_def,
      simp add: embedding_item_fields_def)+

lemma zero_item_decodes:
  assumes "int i < 2 ^ 63"
  shows "dec_struct embedding_item_fields (zero_item i) \<lparr>ei_embedding = None, ei_index = 0\<rparr> =
    Some \<lparr>ei_embedding = Some (replicate Dimension 0), ei_index = int i\<rparr>"
  using assms by (simp add: zero_item_def embedding_item_field lens_def zero_elems)

lemma zero_body_decodes:
  assumes "int n < 2 ^ 63"
  shows "unmarshal (dec_struct embeddings_response_fields) (zero_body n) \<lparr>er_data = [], er_error = None\<rparr> =
    Some \<lparr>er_data = map (\<lambda>i. \<lparr>ei_embedding = Some (replicate Dimension 0), ei_index = int i\<rparr>) (rev [0..<n]),
          er_error = None\<rparr>"
proof -
  have "dec_elems (dec_struct embedding_item_fields) \<lparr>ei_embedding = None, ei_index = 0\<rparr> (map zero_item is) =
      Some (map (\<lambda>i. \<lparr>ei_embedding = Some (replicate Dimension 0), ei_index = int i\<rparr>) is)"
    if "\<forall>i \<in> set is. int i < 2 ^ 63" for "is"
    using that by (induction "is") (simp_all add: zero_item_decodes)
  moreover have "\<forall>i \<in> set (rev [0..<n]). int i < 2 ^ 63" using assms by auto
  ultimately show ?thesis
    by (simp add: zero_body_def unmarshal_def embeddings_response_fields_def field_decoder_def lens_def)
qed

lemma zero_service_embeds:
  assumes "int (length texts) < 2 ^ 63"
  shows "fst (Embed zero_service texts e) = Inr (replicate (length texts) (replicate Dimension 0))"
proof (cases "texts = []")
  case False
  let ?n = "length texts"
  let ?parsed = "\<lparr>er_data = map (\<lambda>i. \<lparr>ei_embedding = Some (replicate Dimension (0 :: real)), ei_index = int i\<rparr>) (rev [0..<?n]),
          er_error = None :: string option\<rparr>"
  have "read_embeddings 200 (zero_body ?n) ?n = Inr (replicate ?n (replicate Dimension 0))"
  proof -
    have len: "length (er_data ?parsed) = ?n" by simp
    have "mset (map (\<lambda>d. (ei_index d, ei_embedding d)) (er_data ?parsed)) =
        mset (map (\<lambda>i. (int i, Some (replicate Dimension 0))) (rev [0..<?n]))" by (simp add: o_def)
    also have "\<dots> = mset (map (\<lambda>i. (int i, Some (replicate ?n (replicate Dimension 0) ! i))) [0..<?n])"
    proof -
      have "map (\<lambda>i. (int i, Some (replicate Dimension (0 :: real)))) [0..<?n] =
          map (\<lambda>i. (int i, Some (replicate ?n (replicate Dimension 0) ! i))) [0..<?n]" by simp
      then show ?thesis by (simp only: rev_map [symmetric] mset_rev)
    qed
    finally have "place_items (er_data ?parsed) (replicate ?n None) =
        Inr (map Some (replicate ?n (replicate Dimension 0)))"
      using place_items_iff [of "er_data ?parsed" "replicate ?n (replicate Dimension 0)"] unfolding len by simp
    then show ?thesis
      by (simp add: read_embeddings_def zero_body_decodes [OF assms] all_present_iff)
  qed
  with False show ?thesis by (simp add: Embed_def embeddings_request_def)
qed (simp add: Embed_def)

theorem embed_in_input_order_witness:
  "fst (Embed zero_service [''b'', ''a''] \<lparr>oa_model = ''m'', oa_sent = []\<rparr>) =
     Inr [replicate Dimension 0, replicate Dimension 0] \<and>
   fst (Embed (\<lambda>k r. HttpReply 200 (zero_body 1)) [''b'', ''a''] \<lparr>oa_model = ''m'', oa_sent = []\<rparr>) \<noteq>
     Inr [replicate Dimension 0, replicate Dimension 0]"
proof -
  let ?e = "\<lparr>oa_model = ''m'', oa_sent = []\<rparr>"
  let ?items = "\<lambda>n. \<lparr>er_data = map (\<lambda>i. \<lparr>ei_embedding = Some (replicate Dimension 0), ei_index = int i\<rparr>) (rev [0..<n]),
      er_error = None\<rparr>"
  have d: "unmarshal (dec_struct embeddings_response_fields) (zero_body n) \<lparr>er_data = [], er_error = None\<rparr> =
      Some (?items n)" if "n \<le> 2" for n
    by (rule zero_body_decodes) (use that in simp)
  have two: "zero_service (length (oa_sent ?e)) (embeddings_request (oa_model ?e) [''b'', ''a'']) =
      HttpReply 200 (zero_body 2)"
    by (simp add: embeddings_request_def numeral_2_eq_2)
  have "fst (Embed zero_service [''b'', ''a''] ?e) = Inr [replicate Dimension 0, replicate Dimension 0]"
    using embed_in_input_order [of "[''b'', ''a'']" zero_service ?e "zero_body 2" "?items 2"
      "[replicate Dimension 0, replicate Dimension 0]"] d [of 2] two
    by (simp add: numeral_2_eq_2 upt_rec)
  moreover have "fst (Embed (\<lambda>k r. HttpReply 200 (zero_body 1)) [''b'', ''a''] ?e) \<noteq>
      Inr [replicate Dimension 0, replicate Dimension 0]"
    using embed_in_input_order [of "[''b'', ''a'']" "\<lambda>k r. HttpReply 200 (zero_body 1)" ?e "zero_body 1" "?items 1"
      "[replicate Dimension 0, replicate Dimension 0]"] d [of 1] by simp
  ultimately show ?thesis by simp
qed

text \<open>
  C25.  A run of the worker over Postgres and OpenAI that ends without error leaves, for each tenant
  and hash, the response that was there, else the first response of the input; it has written as
  many entries as there are different keys, and the rest of the input are duplicates.  A run that
  fails has stored the batches counted as written and at most one batch more, and in any case no
  stored response is changed.
\<close>

theorem worker_caches_first_responses:
  assumes "RunWorker (Embed http) (WriteEntries io fmt clock) (HashPrompt u sha) now prompts es db = ((res, err), es', db')"
  shows "Received res = length prompts \<and>
    (if err = None
     then pg_view db' = map_of (map (prompt_kv (HashPrompt u sha)) prompts) ++ pg_view db \<and>
       Written res = card ((fst \<circ> prompt_kv (HashPrompt u sha)) ` set prompts) \<and>
       Duplicates res + Written res = Received res
     else \<exists>n \<in> {Written res, Written res + BatchSize}.
       pg_view db' = map_of (map unique_kv (take n (fst (dedup_prompts (HashPrompt u sha) {} prompts)))) ++ pg_view db)"
proof -
  obtain unique d where u: "dedup_prompts (HashPrompt u sha) {} prompts = (unique, d)" by fastforce
  from pgworker.RunWorker_spec [OF assms u]
  have "Received res = length prompts"
    "\<exists>n \<in> {Written res, Written res + BatchSize}. pg_view db' = map_of (map unique_kv (take n unique)) ++ pg_view db"
    by blast+
  moreover have "pg_view db' = map_of (map (prompt_kv (HashPrompt u sha)) prompts) ++ pg_view db"
    "Written res = card ((fst \<circ> prompt_kv (HashPrompt u sha)) ` set prompts)"
    "Duplicates res + Written res = length prompts" if "err = None"
    using pgworker.RunWorker_complete [OF assms [unfolded that]] by auto
  ultimately show ?thesis using u by simp
qed

section \<open>A healthy environment\<close>

lemma exec_entries_ok:
  assumes "\<forall>n. io n = PgOk" "list_all (\<lambda>e. length (ce_embedding e) = Dimension) es"
  shows "\<exists>rows' m. exec_entries io fmt clock es rows n = (None, rows', m)"
  using assms(2) by (induction es arbitrary: rows n) (auto simp: assms(1))

lemma WriteEntries_ok:
  assumes "\<forall>n. io n = PgOk" "list_all (\<lambda>e. length (ce_embedding e) = Dimension) es"
  shows "\<exists>db'. WriteEntries io fmt clock es db = (None, db')"
proof -
  obtain rows m where "exec_entries io fmt clock es (pg_rows db) (Suc (pg_statements db)) = (None, rows, m)"
    using exec_entries_ok [OF assms] by blast
  then show ?thesis by (simp add: WriteEntries_def Let_def assms(1))
qed

lemma run_batches_ok:
  assumes "\<forall>n. io n = PgOk"
    and "\<forall>texts e. texts \<noteq> [] \<and> length texts \<le> BatchSize \<longrightarrow>
      (\<exists>vs. fst (Embed http texts e) = Inr vs \<and> list_all (\<lambda>v. length v = Dimension) vs)"
  shows "fst (run_batches (Embed http) (WriteEntries io fmt clock) now start rest written es db) = None"
proof (induction "length rest" arbitrary: start rest written es db rule: less_induct)
  case less
  show ?case
  proof (cases "rest = []")
    case False
    let ?batch = "take BatchSize rest"
    let ?texts = "map (pp_prompt \<circ> fst) ?batch"
    have "?texts \<noteq> []" "length ?texts \<le> BatchSize" using False by (simp_all add: BatchSize_def)
    then obtain vs es1 where e: "Embed http ?texts es = (Inr vs, es1)" "list_all (\<lambda>v. length v = Dimension) vs"
      using assms(2) by (metis prod.collapse)
    then have len: "length vs = length ?batch" using openai.embed_length by fastforce
    then have "list_all (\<lambda>e. length (ce_embedding e) = Dimension) (entries_of now ?batch vs)"
      using e(2) by (auto simp: entries_of_def list_all_iff dest: set_zip_rightD)
    then obtain db1 where w: "WriteEntries io fmt clock (entries_of now ?batch vs) db = (None, db1)"
      using WriteEntries_ok assms(1) by metis
    have "length (drop BatchSize rest) < length rest" using False by (simp add: BatchSize_def)
    from less [OF this] show ?thesis
      by (subst run_batches.simps) (use False e(1) len w in \<open>simp add: Let_def\<close>)
  qed (simp add: run_batches.simps)
qed

lemma RunWorker_ok:
  assumes "\<forall>n. io n = PgOk"
    and "\<forall>texts e. texts \<noteq> [] \<and> length texts \<le> BatchSize \<longrightarrow>
      (\<exists>vs. fst (Embed http texts e) = Inr vs \<and> list_all (\<lambda>v. length v = Dimension) vs)"
  shows "snd (fst (RunWorker (Embed http) (WriteEntries io fmt clock) hash now ps es db)) = None"
  using run_batches_ok [OF assms, where now = now and start = 0 and rest = "fst (dedup_prompts hash {} ps)" and
      written = 0 and es = es and db = db and fmt = fmt and clock = clock]
  by (auto simp: RunWorker_def Let_def split: prod.splits)

text \<open>
  Observation.  When the database executes every statement and the embedding service answers every request
  with vectors of the right dimension, a run over any input ends without error, and running it
  again changes no stored response.
\<close>

theorem worker_completes:
  assumes "\<forall>n. io n = PgOk"
    and "\<forall>texts e. texts \<noteq> [] \<and> length texts \<le> BatchSize \<longrightarrow>
      (\<exists>vs. fst (Embed http texts e) = Inr vs \<and> list_all (\<lambda>v. length v = Dimension) vs)"
  shows "let run = RunWorker (Embed http) (WriteEntries io fmt clock) hash;
      (r1, es1, db1) = run now prompts es db; (r2, es2, db2) = run later prompts es1 db1
    in snd r1 = None \<and> snd r2 = None \<and> pg_view db2 = pg_view db1"
proof -
  let ?run = "RunWorker (Embed http) (WriteEntries io fmt clock) hash"
  note none = RunWorker_ok [OF assms, of fmt clock hash]
  obtain a1 es1 db1 where r1: "?run now prompts es db = ((a1, None), es1, db1)"
    by (metis none prod.collapse)
  obtain a2 es2 db2 where r2: "?run later prompts es1 db1 = ((a2, None), es2, db2)"
    by (metis none prod.collapse)
  from pgworker.RunWorker_complete(1) [OF r1] pgworker.RunWorker_complete(1) [OF r2]
  have "pg_view db2 = pg_view db1" by (auto simp: fun_eq_iff map_add_def split: option.splits)
  with r1 r2 show ?thesis by simp
qed

definition demo_prompts :: "pending_prompt list" where
  "demo_prompts =
     [\<lparr>pp_tenant = ''acme'', pp_prompt = ''hi'', pp_response = ''one''\<rparr>,
      \<lparr>pp_tenant = ''acme'', pp_prompt = '' hi '', pp_response = ''two''\<rparr>]"

definition plain_text :: unicode where
  "plain_text = \<lparr>strip_punct = id, to_lower = id\<rparr>"

abbreviation "healthy_run db \<equiv> RunWorker (Embed zero_service) (WriteEntries (\<lambda>_. PgOk) (\<lambda>_. ''0'') (\<lambda>_. 0))
  (HashPrompt plain_text (\<lambda>_. ''h'')) 0 demo_prompts \<lparr>oa_model = ''m'', oa_sent = []\<rparr> db"

lemma zero_service_healthy:
  "\<forall>texts e. texts \<noteq> [] \<and> length texts \<le> BatchSize \<longrightarrow>
     (\<exists>vs. fst (Embed zero_service texts e) = Inr vs \<and> list_all (\<lambda>v. length v = Dimension) vs)"
  by (auto simp: zero_service_embeds BatchSize_def list_all_iff)

theorem worker_completes_witness:
  "snd (fst (healthy_run \<lparr>pg_rows = Map.empty, pg_statements = 0\<rparr>)) = None"
  using worker_completes [of "\<lambda>_. PgOk" zero_service "\<lambda>_. ''0''" "\<lambda>_. 0" "HashPrompt plain_text (\<lambda>_. ''h'')" 0 demo_prompts
    "\<lparr>oa_model = ''m'', oa_sent = []\<rparr>" "\<lparr>pg_rows = Map.empty, pg_statements = 0\<rparr>" 0, OF _ zero_service_healthy]
  by (simp add: Let_def case_prod_beta)

lemma demo_keys:
  "map (prompt_kv (HashPrompt plain_text (\<lambda>_. ''h''))) demo_prompts = [((''acme'', ''h''), ''one''), ((''acme'', ''h''), ''two'')]"
  by (simp add: demo_prompts_def prompt_kv_def HashPrompt_def)

theorem worker_caches_first_responses_witness:
  "pg_view (snd (snd (healthy_run \<lparr>pg_rows = Map.empty, pg_statements = 0\<rparr>))) (''acme'', ''h'') = Some ''one'' \<and>
   Written (fst (fst (healthy_run \<lparr>pg_rows = Map.empty, pg_statements = 0\<rparr>))) = 1"
proof -
  let ?db = "\<lparr>pg_rows = Map.empty, pg_statements = 0\<rparr>"
  obtain res es' db' where r: "healthy_run ?db = ((res, None), es', db')"
    using RunWorker_ok [OF _ zero_service_healthy, of "\<lambda>_. PgOk"] by (metis prod.collapse)
  have "(fst \<circ> prompt_kv (HashPrompt plain_text (\<lambda>_. ''h''))) ` set demo_prompts = {(''acme'', ''h'')}"
    using arg_cong [OF demo_keys, of "\<lambda>l. fst ` set l"] by (simp add: image_comp)
  moreover have "pg_view ?db = Map.empty" by (simp add: pg_view_def [abs_def])
  ultimately show ?thesis using worker_caches_first_responses [OF r] r by (simp add: demo_keys)
qed

end
