(* ===== verification/Cache_Lookup.thy ===== *)
theory Cache_Lookup
  imports Cache_Store
begin

text \<open>
  The read side of the semantic cache (\<^verbatim>\<open>semantic-cache-engine\<close>): the tenants' thresholds
  (\<^verbatim>\<open>pkg/config\<close>), the queries of the store (\<^verbatim>\<open>pkg/cachestore/reader.go\<close>), the lookup
  (\<^verbatim>\<open>pkg/lookup\<close>), the events it emits (\<^verbatim>\<open>pkg/lensai\<close>), the feedback webhook (\<^verbatim>\<open>pkg/feedback\<close>), the
  rates computed from the events (\<^verbatim>\<open>pkg/analytics\<close>), the in-memory reader of the load test
  (\<^verbatim>\<open>pkg/loadtest/memstore.go\<close>), and the loops of the two commands that drive worker and lookup.

  The interface \<^verbatim>\<open>Reader\<close> is the locale \<open>cache_reader\<close>, extended by \<open>exact_reader\<close> for stores whose
  exact search is complete.  The index scan of pgvector is the argument \<open>pick\<close>, which names the row it
  finds, and the cosine similarity of two vector literals is the argument \<open>sim\<close>, which is not a
  number when one of the vectors is zero.
\<close>

section \<open>Thresholds\<close>

definition DefaultThreshold :: real where "DefaultThreshold = 92 / 100"

record tenant_threshold =
  SimilarityThreshold :: real

record threshold_config =
  tc_default :: tenant_threshold
  tc_tenants :: "string \<rightharpoonup> tenant_threshold"

definition empty_threshold_config :: threshold_config where
  "empty_threshold_config = \<lparr>tc_default = \<lparr>SimilarityThreshold = 0\<rparr>, tc_tenants = Map.empty\<rparr>"

definition tenant_threshold_fields :: "tenant_threshold fields" where
  "tenant_threshold_fields =
     [(''similarity_threshold'', lens SimilarityThreshold (\<lambda>x s. s\<lparr>SimilarityThreshold := x\<rparr>) dec_float)]"

definition threshold_config_fields :: "threshold_config fields" where
  "threshold_config_fields =
     [(''default'', lens tc_default (\<lambda>x s. s\<lparr>tc_default := x\<rparr>) (dec_struct tenant_threshold_fields)),
      (''tenants'', lens tc_tenants (\<lambda>x s. s\<lparr>tc_tenants := x\<rparr>)
         (dec_map (dec_struct tenant_threshold_fields) \<lparr>SimilarityThreshold = 0\<rparr>))]"

text \<open>\<^verbatim>\<open>Load\<close>: the file is \<open>None\<close> when it cannot be read.\<close>

definition LoadThresholds :: "payload option \<Rightarrow> threshold_config option" where
  "LoadThresholds file =
     (case file of
        None \<Rightarrow> None
      | Some data \<Rightarrow>
          (case unmarshal (dec_struct threshold_config_fields) data empty_threshold_config of
             None \<Rightarrow> None
           | Some cfg \<Rightarrow>
               Some (if SimilarityThreshold (tc_default cfg) = 0
                     then cfg\<lparr>tc_default := \<lparr>SimilarityThreshold = DefaultThreshold\<rparr>\<rparr> else cfg)))"

definition Threshold :: "threshold_config \<Rightarrow> string \<Rightarrow> real" where
  "Threshold c tenantID =
     (case tc_tenants c tenantID of
        Some tc \<Rightarrow> SimilarityThreshold tc
      | None \<Rightarrow>
          if SimilarityThreshold (tc_default c) \<noteq> 0 then SimilarityThreshold (tc_default c)
          else DefaultThreshold)"

section \<open>Queries\<close>

text \<open>
  A \<^verbatim>\<open>float64\<close> read from the database: the cosine distance of pgvector is \<^verbatim>\<open>NaN\<close> for a zero vector.
  The comparison \<^verbatim>\<open><\<close> is false for it.
\<close>

datatype similarity = NaN | Sim real

fun below :: "similarity \<Rightarrow> real \<Rightarrow> bool" where
  "below NaN y = False"
| "below (Sim x) y = (x < y)"

record cache_match =
  cm_hash :: string
  cm_response :: string
  cm_similarity :: similarity

definition touchLastHit ::
  "(nat \<Rightarrow> pg_outcome) \<Rightarrow> (nat \<Rightarrow> int) \<Rightarrow> string \<Rightarrow> string \<Rightarrow> postgres \<Rightarrow> bool \<times> postgres" where
  "touchLastHit io clock tenantID promptHash db =
     (let n = pg_statements db; db1 = db\<lparr>pg_statements := Suc n\<rparr>;
          touched = (case pg_rows db (tenantID, promptHash) of
            None \<Rightarrow> db1
          | Some r \<Rightarrow> db1\<lparr>pg_rows := (pg_rows db)((tenantID, promptHash) \<mapsto> r\<lparr>rw_last_hit := clock n\<rparr>)\<rparr>)
      in case io n of PgOk \<Rightarrow> (True, touched) | PgErr applied \<Rightarrow> (False, if applied then touched else db1))"

type_synonym 's find_exact_op = "string \<Rightarrow> string \<Rightarrow> 's \<Rightarrow> (store_failure + cache_match option) \<times> 's"
type_synonym 's find_nearest_op = "string \<Rightarrow> real list \<Rightarrow> 's \<Rightarrow> (store_failure + cache_match option) \<times> 's"

definition FindExact :: "(nat \<Rightarrow> pg_outcome) \<Rightarrow> (nat \<Rightarrow> int) \<Rightarrow> postgres find_exact_op" where
  "FindExact io clock tenantID promptHash db =
     (let n = pg_statements db; db1 = db\<lparr>pg_statements := Suc n\<rparr> in
      if io n \<noteq> PgOk then (Inl QueryFailed, db1)
      else case pg_rows db (tenantID, promptHash) of
        None \<Rightarrow> (Inr None, db1)
      | Some r \<Rightarrow>
          (case touchLastHit io clock tenantID promptHash db1 of
             (False, db2) \<Rightarrow> (Inl TouchFailed, db2)
           | (True, db2) \<Rightarrow>
               (Inr (Some \<lparr>cm_hash = promptHash, cm_response = rw_response r, cm_similarity = Sim 1\<rparr>), db2)))"

definition FindNearest ::
  "(nat \<Rightarrow> pg_outcome) \<Rightarrow> (real \<Rightarrow> string) \<Rightarrow> (string \<Rightarrow> string \<Rightarrow> (cache_key \<rightharpoonup> cache_row) \<Rightarrow> string option) \<Rightarrow>
   (string \<Rightarrow> string \<Rightarrow> similarity) \<Rightarrow> postgres find_nearest_op" where
  "FindNearest io fmt pick sim tenantID embedding db =
     (let n = pg_statements db; db1 = db\<lparr>pg_statements := Suc n\<rparr>; q = vectorLiteral fmt embedding in
      if embedding = [] then (Inl EmptyVector, db)
      else if io n \<noteq> PgOk then (Inl QueryFailed, db1)
      else case pick tenantID q (pg_rows db) of
        None \<Rightarrow> (Inr None, db1)
      | Some h \<Rightarrow>
          (case pg_rows db (tenantID, h) of
             None \<Rightarrow> (Inr None, db1)
           | Some r \<Rightarrow>
               (Inr (Some \<lparr>cm_hash = h, cm_response = rw_response r, cm_similarity = sim (rw_embedding r) q\<rparr>), db1)))"

text \<open>The in-memory reader of the load test; its simulated latency has no effect on the answers.\<close>

record mem_store =
  ms_nearest :: "string \<rightharpoonup> cache_match"

definition Seed :: "string \<Rightarrow> cache_match \<Rightarrow> mem_store \<Rightarrow> mem_store" where
  "Seed tenantID m s = s\<lparr>ms_nearest := (ms_nearest s)(tenantID \<mapsto> m)\<rparr>"

definition MemFindExact :: "mem_store find_exact_op" where
  "MemFindExact tenantID promptHash s = (Inr None, s)"

definition MemFindNearest :: "mem_store find_nearest_op" where
  "MemFindNearest tenantID embedding s = (Inr (ms_nearest s tenantID), s)"

section \<open>Events\<close>

record cache_event =
  cev_tenant :: string
  cev_model :: string
  cev_trace :: string
  cev_timestamp_ms :: u64
  cev_latency_ms :: u32
  cev_cost_usd :: real
  cev_status :: string
  cev_source :: string

text \<open>
  The writer keeps what the endpoint has received, with the tenant header; the exchange of the
  \<open>n\<close>-th request is \<open>None\<close> without an answer, else its status.
\<close>

record lens_writer =
  lw_posted :: "(string \<times> cache_event) list"
  lw_requests :: nat

definition post_cache_event ::
  "(nat \<Rightarrow> int option) \<Rightarrow> string \<Rightarrow> cache_event \<Rightarrow> lens_writer \<Rightarrow> bool \<times> lens_writer" where
  "post_cache_event http tenantID evt w =
     (let n = lw_requests w; w1 = w\<lparr>lw_requests := Suc n\<rparr> in
      case http n of
        None \<Rightarrow> (False, w1)
      | Some code \<Rightarrow> (code = 200 \<or> code = 202, w1\<lparr>lw_posted := lw_posted w @ [(tenantID, evt)]\<rparr>))"

definition base_event :: "string \<Rightarrow> string \<Rightarrow> int \<Rightarrow> cache_event" where
  "base_event tenantID modelID now =
     \<lparr>cev_tenant = tenantID, cev_model = modelID, cev_trace = [], cev_timestamp_ms = word_of_int (now div 10 ^ 6),
      cev_latency_ms = 0, cev_cost_usd = 0, cev_status = [], cev_source = []\<rparr>"

definition EmitCacheHit ::
  "(nat \<Rightarrow> int option) \<Rightarrow> (nat \<Rightarrow> int) \<Rightarrow> string \<Rightarrow> string \<Rightarrow> string \<Rightarrow> int \<Rightarrow> lens_writer \<Rightarrow> bool \<times> lens_writer" where
  "EmitCacheHit http clock tenantID modelID matched latency w =
     (if tenantID = [] \<or> matched = [] then (False, w)
      else post_cache_event http tenantID
        ((base_event tenantID modelID (clock (lw_requests w)))\<lparr>cev_trace := matched,
           cev_latency_ms := word_of_int (tdiv latency (10 ^ 6)), cev_status := ''ok'', cev_source := ''cache_hit''\<rparr>) w)"

definition EmitCacheMiss ::
  "(nat \<Rightarrow> int option) \<Rightarrow> (nat \<Rightarrow> int) \<Rightarrow> string \<Rightarrow> string \<Rightarrow> int \<Rightarrow> lens_writer \<Rightarrow> bool \<times> lens_writer" where
  "EmitCacheMiss http clock tenantID modelID latency w =
     (if tenantID = [] then (False, w)
      else post_cache_event http tenantID
        ((base_event tenantID modelID (clock (lw_requests w)))\<lparr>
           cev_latency_ms := word_of_int (tdiv latency (10 ^ 6)), cev_status := ''ok'', cev_source := ''cache_miss''\<rparr>) w)"

definition EmitCacheFeedback ::
  "(nat \<Rightarrow> int option) \<Rightarrow> (nat \<Rightarrow> int) \<Rightarrow> string \<Rightarrow> string \<Rightarrow> string \<Rightarrow> lens_writer \<Rightarrow> bool \<times> lens_writer" where
  "EmitCacheFeedback http clock tenantID modelID matched w =
     (if tenantID = [] \<or> matched = [] then (False, w)
      else post_cache_event http tenantID
        ((base_event tenantID modelID (clock (lw_requests w)))\<lparr>cev_trace := matched,
           cev_status := ''thumbs_down'', cev_source := ''cache_feedback''\<rparr>) w)"

section \<open>Lookup\<close>

definition LookupModelID :: string where "LookupModelID = ''semantic-cache-lookup''"

record lookup_result =
  LookupHit :: bool
  LookupResponse :: string
  MatchedPromptHash :: string
  Similarity :: similarity
  LookupThreshold :: real
  EmitErr :: bool

datatype lookup_error =
  TenantRequired | PromptRequired | ExactFailed store_failure | EmbedPrompt embed_error
  | EmbedCount nat | NearestFailed store_failure

text \<open>The emitter of a lookup: the two calls on its state.\<close>

record 'm emitter =
  em_hit :: "string \<Rightarrow> string \<Rightarrow> string \<Rightarrow> int \<Rightarrow> 'm \<Rightarrow> bool \<times> 'm"
  em_miss :: "string \<Rightarrow> string \<Rightarrow> int \<Rightarrow> 'm \<Rightarrow> bool \<times> 'm"

record ('s, 'e, 'm) lookup_env =
  le_config :: threshold_config
  le_hash :: "string \<Rightarrow> string"
  le_embed :: "'e embed_op"
  le_exact :: "'s find_exact_op"
  le_nearest :: "'s find_nearest_op"
  le_emitter :: "'m emitter option"

definition finishHit ::
  "'m emitter option \<Rightarrow> string \<Rightarrow> cache_match \<Rightarrow> real \<Rightarrow> int \<Rightarrow> 'm \<Rightarrow> lookup_result \<times> 'm" where
  "finishHit em tenantID m threshold latency w =
     (let r = \<lparr>LookupHit = True, LookupResponse = cm_response m, MatchedPromptHash = cm_hash m,
               Similarity = cm_similarity m, LookupThreshold = threshold, EmitErr = False\<rparr>
      in case em of
           None \<Rightarrow> (r, w)
         | Some e \<Rightarrow>
             (let (ok, w') = em_hit e tenantID LookupModelID (cm_hash m) latency w
              in (r\<lparr>EmitErr := \<not> ok\<rparr>, w')))"

definition finishMiss :: "'m emitter option \<Rightarrow> string \<Rightarrow> real \<Rightarrow> int \<Rightarrow> 'm \<Rightarrow> lookup_result \<times> 'm" where
  "finishMiss em tenantID threshold latency w =
     (let r = \<lparr>LookupHit = False, LookupResponse = [], MatchedPromptHash = [], Similarity = Sim 0,
               LookupThreshold = threshold, EmitErr = False\<rparr>
      in case em of
           None \<Rightarrow> (r, w)
         | Some e \<Rightarrow>
             (let (ok, w') = em_miss e tenantID LookupModelID latency w in (r\<lparr>EmitErr := \<not> ok\<rparr>, w')))"

text \<open>\<open>latency\<close> is what \<^verbatim>\<open>time.Since(start)\<close> gives when the event is emitted.\<close>

definition Lookup ::
  "('s, 'e, 'm) lookup_env \<Rightarrow> string \<Rightarrow> string \<Rightarrow> int \<Rightarrow> 's \<times> 'e \<times> 'm \<Rightarrow>
   (lookup_error + lookup_result) \<times> 's \<times> 'e \<times> 'm" where
  "Lookup env tenantID prompt latency st =
     (case st of (s, e, w) \<Rightarrow>
        if tenantID = [] then (Inl TenantRequired, s, e, w)
        else if prompt = [] then (Inl PromptRequired, s, e, w)
        else
          let threshold = Threshold (le_config env) tenantID; hash = le_hash env prompt in
          case le_exact env tenantID hash s of
            (Inl f, s1) \<Rightarrow> (Inl (ExactFailed f), s1, e, w)
          | (Inr (Some m), s1) \<Rightarrow>
              (let (r, w1) = finishHit (le_emitter env) tenantID m threshold latency w in (Inr r, s1, e, w1))
          | (Inr None, s1) \<Rightarrow>
              (case le_embed env [prompt] e of
                 (Inl f, e1) \<Rightarrow> (Inl (EmbedPrompt f), s1, e1, w)
               | (Inr vectors, e1) \<Rightarrow>
                   if length vectors \<noteq> 1 then (Inl (EmbedCount (length vectors)), s1, e1, w)
                   else case le_nearest env tenantID (vectors ! 0) s1 of
                     (Inl f, s2) \<Rightarrow> (Inl (NearestFailed f), s2, e1, w)
                   | (Inr None, s2) \<Rightarrow>
                       (let (r, w1) = finishMiss (le_emitter env) tenantID threshold latency w in (Inr r, s2, e1, w1))
                   | (Inr (Some m), s2) \<Rightarrow>
                       if below (cm_similarity m) threshold
                       then (let (r, w1) = finishMiss (le_emitter env) tenantID threshold latency w in (Inr r, s2, e1, w1))
                       else (let (r, w1) = finishHit (le_emitter env) tenantID m threshold latency w in (Inr r, s2, e1, w1))))"

section \<open>Feedback and rates\<close>

record feedback_request =
  fb_tenant :: string
  fb_hash :: string

definition feedback_fields :: "feedback_request fields" where
  "feedback_fields =
     [(''tenant_id'', lens fb_tenant (\<lambda>x s. s\<lparr>fb_tenant := x\<rparr>) dec_string),
      (''prompt_hash'', lens fb_hash (\<lambda>x s. s\<lparr>fb_hash := x\<rparr>) dec_string)]"

text \<open>The status of the answer; the body is decoded as one JSON value.\<close>

definition FeedbackServeHTTP ::
  "(string \<Rightarrow> string \<Rightarrow> string \<Rightarrow> 'm \<Rightarrow> bool \<times> 'm) \<Rightarrow> string \<Rightarrow> payload \<Rightarrow> 'm \<Rightarrow> int \<times> 'm" where
  "FeedbackServeHTTP emit meth body w =
     (if meth \<noteq> ''POST'' then (405, w)
      else case unmarshal (dec_struct feedback_fields) body \<lparr>fb_tenant = [], fb_hash = []\<rparr> of
        None \<Rightarrow> (400, w)
      | Some req \<Rightarrow>
          if fb_tenant req = [] \<or> fb_hash req = [] then (400, w)
          else (let (ok, w') = emit (fb_tenant req) LookupModelID (fb_hash req) w
                in (if ok then 202 else 502, w')))"

definition HitRate :: "int \<Rightarrow> int \<Rightarrow> real" where
  "HitRate hits misses = (let total = int64 (hits + misses) in if total = 0 then 0 else of_int hits / of_int total)"

definition FalsePositiveRateProxy :: "int \<Rightarrow> int \<Rightarrow> real" where
  "FalsePositiveRateProxy thumbsDown hits = (if hits = 0 then 0 else of_int thumbsDown / of_int hits)"

definition EstimatedCostSaved :: "int \<Rightarrow> real \<Rightarrow> real" where
  "EstimatedCostSaved hits avgInferenceCostUSD = of_int hits * avgInferenceCostUSD"

text \<open>\<^verbatim>\<open>countIf(source = ...)\<close> of the documented queries, for one tenant.\<close>

definition count_source :: "string \<Rightarrow> string \<Rightarrow> (string \<times> cache_event) list \<Rightarrow> int" where
  "count_source tenantID src posted =
     int (length (filter (\<lambda>(_, e). cev_tenant e = tenantID \<and> cev_source e = src) posted))"

section \<open>The commands\<close>

text \<open>A line of an input file: empty, a record, or longer than the scanner's buffer.\<close>

datatype text_line = EmptyLine | RecordLine payload | OverlongLine

datatype parse_error = BadRecord nat | MissingFields nat | ScanError

fun parse_records ::
  "('a decoder) \<Rightarrow> 'a \<Rightarrow> ('a \<Rightarrow> bool) \<Rightarrow> nat \<Rightarrow> text_line list \<Rightarrow> parse_error + 'a list" where
  "parse_records d z ok n [] = Inr []"
| "parse_records d z ok n (EmptyLine # ls) = parse_records d z ok (Suc n) ls"
| "parse_records d z ok n (OverlongLine # ls) = Inl ScanError"
| "parse_records d z ok n (RecordLine p # ls) =
     (case unmarshal d p z of
        None \<Rightarrow> Inl (BadRecord (Suc n))
      | Some x \<Rightarrow>
          if \<not> ok x then Inl (MissingFields (Suc n))
          else (case parse_records d z ok (Suc n) ls of Inl e \<Rightarrow> Inl e | Inr xs \<Rightarrow> Inr (x # xs)))"

definition prompt_line_fields :: "pending_prompt fields" where
  "prompt_line_fields =
     [(''tenant_id'', lens pp_tenant (\<lambda>x s. s\<lparr>pp_tenant := x\<rparr>) dec_string),
      (''prompt'', lens pp_prompt (\<lambda>x s. s\<lparr>pp_prompt := x\<rparr>) dec_string),
      (''response'', lens pp_response (\<lambda>x s. s\<lparr>pp_response := x\<rparr>) dec_string)]"

definition parsePrompts :: "text_line list \<Rightarrow> parse_error + pending_prompt list" where
  "parsePrompts ls =
     parse_records (dec_struct prompt_line_fields) \<lparr>pp_tenant = [], pp_prompt = [], pp_response = []\<rparr>
       (\<lambda>p. pp_tenant p \<noteq> [] \<and> pp_prompt p \<noteq> []) 0 ls"

record query_line =
  ql_tenant :: string
  ql_prompt :: string

definition query_line_fields :: "query_line fields" where
  "query_line_fields =
     [(''tenant_id'', lens ql_tenant (\<lambda>x s. s\<lparr>ql_tenant := x\<rparr>) dec_string),
      (''prompt'', lens ql_prompt (\<lambda>x s. s\<lparr>ql_prompt := x\<rparr>) dec_string)]"

definition parseQueries :: "text_line list \<Rightarrow> parse_error + query_line list" where
  "parseQueries ls =
     parse_records (dec_struct query_line_fields) \<lparr>ql_tenant = [], ql_prompt = []\<rparr>
       (\<lambda>q. ql_tenant q \<noteq> [] \<and> ql_prompt q \<noteq> []) 0 ls"

text \<open>The loop of \<^verbatim>\<open>cachelookup\<close>: hits, misses and the state, or the first error.\<close>

fun lookup_queries ::
  "('s, 'e, 'm) lookup_env \<Rightarrow> (nat \<Rightarrow> int) \<Rightarrow> query_line list \<Rightarrow> nat \<Rightarrow> nat \<Rightarrow> 's \<times> 'e \<times> 'm \<Rightarrow>
   (lookup_error + nat \<times> nat) \<times> 's \<times> 'e \<times> 'm" where
  "lookup_queries env lat [] hits misses st = (Inr (hits, misses), st)"
| "lookup_queries env lat (q # qs) hits misses st =
     (case Lookup env (ql_tenant q) (ql_prompt q) (lat (hits + misses)) st of
        (Inl e, st') \<Rightarrow> (Inl e, st')
      | (Inr r, st') \<Rightarrow>
          if LookupHit r then lookup_queries env lat qs (Suc hits) misses st'
          else lookup_queries env lat qs hits (Suc misses) st')"

section \<open>The interface of a store\<close>

text \<open>A reader: what it returns is stored for the tenant that asks, and reading changes no response.\<close>

locale cache_reader =
  fixes exact :: "'s find_exact_op" and nearest :: "'s find_nearest_op" and view :: "'s \<Rightarrow> cache_key \<rightharpoonup> string"
  assumes exact_sound: "exact t h s = (Inr (Some m), s') \<Longrightarrow> cm_hash m = h \<and> view s (t, h) = Some (cm_response m)"
    and nearest_sound: "nearest t v s = (Inr (Some m), s') \<Longrightarrow> view s (t, cm_hash m) = Some (cm_response m)"
    and exact_keeps: "exact t h s = (x, s') \<Longrightarrow> view s' = view s"
    and nearest_keeps: "nearest t v s = (x, s') \<Longrightarrow> view s' = view s"
begin

text \<open>The three ways a lookup returns a result.\<close>

lemma Lookup_cases:
  assumes "le_exact env = exact" "le_nearest env = nearest"
    and "Lookup env t p latency (s, e, w) = (Inr r, s', e', w')"
  obtains (hit_exact) m where "exact t (le_hash env p) s = (Inr (Some m), s')" "e' = e"
      "(r, w') = finishHit (le_emitter env) t m (Threshold (le_config env) t) latency w"
  | (hit_nearest) m v s1 where "exact t (le_hash env p) s = (Inr None, s1)" "nearest t v s1 = (Inr (Some m), s')"
      "\<not> below (cm_similarity m) (Threshold (le_config env) t)"
      "(r, w') = finishHit (le_emitter env) t m (Threshold (le_config env) t) latency w"
  | (miss) x v s1 where "exact t (le_hash env p) s = (Inr None, s1)" "nearest t v s1 = (Inr x, s')"
      "\<And>m. x = Some m \<Longrightarrow> below (cm_similarity m) (Threshold (le_config env) t)"
      "(r, w') = finishMiss (le_emitter env) t (Threshold (le_config env) t) latency w"
proof -
  obtain x s1 where x: "exact t (le_hash env p) s = (x, s1)" by fastforce
  show thesis
  proof (cases x)
    case (Inl f)
    then show thesis using assms x by (simp add: Lookup_def split: if_splits)
  next
    case (Inr y)
    show thesis
    proof (cases y)
      case (Some m)
      then show thesis
        using assms x Inr by (intro hit_exact [of m]) (auto simp: Lookup_def Let_def split: if_splits prod.splits)
    next
      case None
      obtain vs e1 where v: "le_embed env [p] e = (Inr vs, e1)" "length vs = 1"
        using assms x Inr None by (auto simp: Lookup_def Let_def split: if_splits prod.splits sum.splits)
      obtain z s2 where z: "nearest t (vs ! 0) s1 = (z, s2)" by fastforce
      show thesis
      proof (cases z)
        case (Inl f)
        then show thesis using assms x Inr None v z by (simp add: Lookup_def Let_def split: if_splits)
      next
        case (Inr n)
        note run = assms x \<open>x = Inr y\<close> None v z Inr
        show thesis
        proof (cases "\<exists>m. n = Some m \<and> \<not> below (cm_similarity m) (Threshold (le_config env) t)")
          case True
          then obtain m where m: "n = Some m" "\<not> below (cm_similarity m) (Threshold (le_config env) t)" by blast
          then have "(r, w') = finishHit (le_emitter env) t m (Threshold (le_config env) t) latency w" "s2 = s'"
            using run by (auto simp: Lookup_def Let_def split: if_splits prod.splits)
          then show thesis using run m by (intro hit_nearest [of s1 "vs ! 0" m]) auto
        next
          case False
          then have "(r, w') = finishMiss (le_emitter env) t (Threshold (le_config env) t) latency w" "s2 = s'"
            using run by (cases n; auto simp: Lookup_def Let_def split: if_splits prod.splits)+
          then show thesis using run False by (intro miss [of s1 "vs ! 0" n]) auto
        qed
      qed
    qed
  qed
qed

lemma finishHit_result:
  "(r, w') = finishHit em t m threshold latency w \<Longrightarrow>
     LookupHit r \<and> LookupResponse r = cm_response m \<and> MatchedPromptHash r = cm_hash m \<and>
     Similarity r = cm_similarity m \<and> LookupThreshold r = threshold"
  by (auto simp: finishHit_def Let_def split: option.splits prod.splits)

lemma finishMiss_result: "(r, w') = finishMiss em t threshold latency w \<Longrightarrow> \<not> LookupHit r \<and> LookupThreshold r = threshold"
  by (auto simp: finishMiss_def Let_def split: option.splits prod.splits)

lemma Lookup_sound:
  assumes env: "le_exact env = exact" "le_nearest env = nearest"
    and run: "Lookup env t p latency (s, e, w) = (Inr r, s', e', w')"
  shows "view s' = view s \<and> LookupThreshold r = Threshold (le_config env) t \<and>
    (LookupHit r \<longrightarrow> view s (t, MatchedPromptHash r) = Some (LookupResponse r) \<and>
      (MatchedPromptHash r = le_hash env p \<or> \<not> below (Similarity r) (Threshold (le_config env) t)))"
proof (rule Lookup_cases [OF env run])
  fix m
  assume "exact t (le_hash env p) s = (Inr (Some m), s')"
    and "(r, w') = finishHit (le_emitter env) t m (Threshold (le_config env) t) latency w"
  then show ?thesis using finishHit_result exact_sound exact_keeps by metis
next
  fix m v s1
  assume "exact t (le_hash env p) s = (Inr None, s1)" "nearest t v s1 = (Inr (Some m), s')"
    and "\<not> below (cm_similarity m) (Threshold (le_config env) t)"
    and "(r, w') = finishHit (le_emitter env) t m (Threshold (le_config env) t) latency w"
  then show ?thesis using finishHit_result nearest_sound exact_keeps nearest_keeps by metis
next
  fix x v s1
  assume "exact t (le_hash env p) s = (Inr None, s1)" "nearest t v s1 = (Inr x, s')"
    and "(r, w') = finishMiss (le_emitter env) t (Threshold (le_config env) t) latency w"
  then show ?thesis using finishMiss_result exact_keeps nearest_keeps by metis
qed

end

text \<open>A store whose exact search finds every entry.\<close>

locale exact_reader = cache_reader +
  assumes exact_complete: "exact t h s = (Inr None, s') \<Longrightarrow> view s (t, h) = None"
begin

lemma Lookup_stored:
  assumes env: "le_exact env = exact" "le_nearest env = nearest"
    and "t \<noteq> []" "p \<noteq> []" "view s (t, le_hash env p) = Some resp"
    and "exact t (le_hash env p) s = (Inr x, s1)"
  shows "\<exists>r w'. Lookup env t p latency (s, e, w) = (Inr r, s1, e, w') \<and> LookupHit r \<and>
    LookupResponse r = resp \<and> MatchedPromptHash r = le_hash env p"
proof -
  obtain m where "x = Some m" using exact_complete assms(5,6) by (cases x) auto
  then have m: "exact t (le_hash env p) s = (Inr (Some m), s1)" "cm_hash m = le_hash env p" "cm_response m = resp"
    using assms(5,6) exact_sound by fastforce+
  obtain r w' where f: "(r, w') = finishHit (le_emitter env) t m (Threshold (le_config env) t) latency w"
    by (metis prod.collapse)
  then show ?thesis
    using assms(1,3,4) m finishHit_result [OF f] by (auto simp: Lookup_def Let_def split: prod.splits)
qed

end

lemma touch_view: "touchLastHit io clock t h db = (ok, db') \<Longrightarrow> pg_view db' = pg_view db"
  by (auto simp: touchLastHit_def Let_def pg_view_def fun_eq_iff split: option.splits pg_outcome.splits if_splits)

lemma statements_view [simp]: "pg_view (db\<lparr>pg_statements := n\<rparr>) = pg_view db"
  by (simp add: pg_view_def fun_eq_iff)

interpretation pgread: exact_reader "FindExact io clock" "FindNearest io fmt pick sim" pg_view for io clock fmt pick sim
proof (unfold_locales, goal_cases)
  case (1 t h s m s')
  then show ?case
    by (auto simp: FindExact_def Let_def pg_view_def split: if_splits option.splits prod.splits bool.splits)
next
  case (2 t v s m s')
  then show ?case
    by (auto simp: FindNearest_def Let_def pg_view_def split: if_splits option.splits)
next
  case (3 t h s x s')
  then show ?case
    by (auto simp: FindExact_def Let_def dest!: touch_view split: if_splits option.splits prod.splits bool.splits)
next
  case (4 t v s x s')
  then show ?case by (auto simp: FindNearest_def Let_def split: if_splits option.splits)
next
  case (5 t h s s')
  then show ?case
    by (auto simp: FindExact_def Let_def pg_view_def split: if_splits option.splits prod.splits bool.splits)
qed

definition mem_view :: "mem_store \<Rightarrow> cache_key \<rightharpoonup> string" where
  "mem_view s k =
     (case ms_nearest s (fst k) of
        None \<Rightarrow> None
      | Some m \<Rightarrow> if cm_hash m = snd k then Some (cm_response m) else None)"

interpretation memread: cache_reader MemFindExact MemFindNearest mem_view
  by unfold_locales (auto simp: MemFindExact_def MemFindNearest_def mem_view_def)

section \<open>Properties\<close>

text \<open>The result without the flag of the emission, which an emitter alone decides.\<close>

abbreviation outcome :: "lookup_error + lookup_result \<Rightarrow> lookup_error + lookup_result" where
  "outcome x \<equiv> (case x of Inl f \<Rightarrow> Inl f | Inr r \<Rightarrow> Inr (r\<lparr>EmitErr := False\<rparr>))"

lemma finish_outcome:
  "(fst (finishHit em t m threshold latency w))\<lparr>EmitErr := False\<rparr> = fst (finishHit None t m threshold latency w)"
  "(fst (finishMiss em t threshold latency w))\<lparr>EmitErr := False\<rparr> = fst (finishMiss None t threshold latency w)"
  by (auto simp: finishHit_def finishMiss_def Let_def split: option.splits prod.splits)

lemma Lookup_outcome:
  "outcome (fst (Lookup env t p latency (s, e, w))) = fst (Lookup (env\<lparr>le_emitter := None\<rparr>) t p latency (s, e, w))"
  by (auto simp: Lookup_def Let_def case_prod_beta finish_outcome split: sum.splits option.splits)

text \<open>
  C13.  Tenant isolation of the lookup over Postgres, whatever the database, the embedding service
  and the index scan do.  A hit carries a response stored for the tenant that asked, under the
  reported hash; it was found by the hash of the prompt, or its similarity reaches the tenant's
  threshold, or the similarity is not a number, which passes the comparison.  A miss means that
  nothing is stored under the hash of the prompt.  Reading changes no stored response, and the
  outcome does not depend on the emission of the event.
\<close>

theorem lookup_serves_own_tenant:
  assumes "le_exact env = FindExact io clock" "le_nearest env = FindNearest io fmt pick sim"
    and "Lookup env t p latency (db, e, w) = (Inr r, db', e', w')"
  shows "(if LookupHit r
      then pg_view db (t, MatchedPromptHash r) = Some (LookupResponse r) \<and>
        (MatchedPromptHash r = le_hash env p \<or>
         (case Similarity r of Sim x \<Rightarrow> Threshold (le_config env) t \<le> x | NaN \<Rightarrow> True))
      else pg_view db (t, le_hash env p) = None) \<and>
    pg_view db' = pg_view db \<and>
    fst (Lookup (env\<lparr>le_emitter := None\<rparr>) t p latency (db, e, w)) = Inr (r\<lparr>EmitErr := False\<rparr>)"
proof -
  have below: "\<not> below x y \<longleftrightarrow> (case x of Sim x \<Rightarrow> y \<le> x | NaN \<Rightarrow> True)" for x y by (cases x) auto
  note sound = pgread.Lookup_sound [OF assms, unfolded below]
  have "pg_view db (t, le_hash env p) = None" if "\<not> LookupHit r"
  proof (rule pgread.Lookup_cases [OF assms])
  qed (use that in \<open>auto dest: pgread.finishHit_result pgread.exact_complete\<close>)
  then show ?thesis
    using sound Lookup_outcome [of env t p latency db e w] assms(3) by simp
qed

lemma FindExact_ok:
  assumes "\<forall>n. io n = PgOk"
  shows "\<exists>x db'. FindExact io clock t h db = (Inr x, db')"
  by (auto simp: FindExact_def touchLastHit_def Let_def assms split: option.splits)

text \<open>
  C11.  Worker and lookup together: after a run of the worker without error, while the database
  executes its statements, every prompt of the input is a hit for its tenant, and so is every
  prompt that differs from it only in white space and case, with the response the worker left
  there, without a request to the embedding service and whatever the threshold.
\<close>

theorem worked_prompts_hit:
  assumes "RunWorker (Embed http) (WriteEntries io fmt clock) (HashPrompt u sha) now prompts es db = ((res, None), es', db')"
    and "pp \<in> set prompts" "pp_tenant pp \<noteq> []" "q \<noteq> []" "NormalizePrompt u q = NormalizePrompt u (pp_prompt pp)"
    and "le_exact env = FindExact io' clock" "le_nearest env = FindNearest io' fmt pick sim"
    and "le_hash env = HashPrompt u sha" "\<forall>n. io' n = PgOk"
  shows "\<exists>r db'' w'. Lookup env (pp_tenant pp) q latency (db', e, w) = (Inr r, db'', e, w') \<and> LookupHit r \<and>
    (case pg_view db (pp_tenant pp, HashPrompt u sha q) of
       Some old \<Rightarrow> LookupResponse r = old
     | None \<Rightarrow> map_of (map (prompt_kv (HashPrompt u sha)) prompts) (pp_tenant pp, HashPrompt u sha q) = Some (LookupResponse r))"
proof -
  let ?k = "(pp_tenant pp, HashPrompt u sha q)" and ?m = "map_of (map (prompt_kv (HashPrompt u sha)) prompts)"
  have "HashPrompt u sha q = HashPrompt u sha (pp_prompt pp)" using assms(5) by (simp add: HashPrompt_def)
  then have "(?k, pp_response pp) \<in> set (map (prompt_kv (HashPrompt u sha)) prompts)"
    using assms(2) by (force simp: prompt_kv_def)
  then obtain first where first: "?m ?k = Some first" by (metis weak_map_of_SomeI)
  have view: "pg_view db' = ?m ++ pg_view db" by (rule pgworker.RunWorker_complete(1) [OF assms(1)])
  obtain resp where resp: "pg_view db' ?k = Some resp"
    "resp = (case pg_view db ?k of Some old \<Rightarrow> old | None \<Rightarrow> first)"
    unfolding view by (cases "pg_view db ?k") (auto simp: map_add_def first)
  obtain x db'' where "FindExact io' clock (pp_tenant pp) (le_hash env q) db' = (Inr x, db'')"
    using FindExact_ok [OF assms(9)] by blast
  from pgread.Lookup_stored [OF assms(6,7,3,4) _ this] resp(1) assms(8)
  obtain r w' where "Lookup env (pp_tenant pp) q latency (db', e, w) = (Inr r, db'', e, w')" "LookupHit r"
    "LookupResponse r = resp" by metis
  then show ?thesis using resp(2) first by (intro exI [of _ r] exI [of _ db''] exI [of _ w']) (auto split: option.splits)
qed

definition lens_emitter :: "(nat \<Rightarrow> int option) \<Rightarrow> (nat \<Rightarrow> int) \<Rightarrow> lens_writer emitter" where
  "lens_emitter http clock = \<lparr>em_hit = EmitCacheHit http clock, em_miss = EmitCacheMiss http clock\<rparr>"

lemma post_cache_event_ok:
  "http (lw_requests w) = Some 200 \<Longrightarrow> post_cache_event http t evt w =
     (True, w\<lparr>lw_requests := Suc (lw_requests w), lw_posted := lw_posted w @ [(t, evt)]\<rparr>)"
  by (simp add: post_cache_event_def Let_def)

lemma Lookup_event:
  assumes "le_exact env = FindExact io clock" "le_nearest env = FindNearest io fmt pick sim"
    and em: "le_emitter env = Some (lens_emitter http clock')" "\<forall>n. http n = Some 200"
    and keys: "\<forall>k \<in> dom (pg_view db). snd k \<noteq> []"
    and run: "Lookup env t p latency (db, e, w) = (Inr r, db', e', w')"
  shows "\<exists>evt. lw_posted w' = lw_posted w @ [(t, evt)] \<and> cev_tenant evt = t \<and>
    cev_source evt = (if LookupHit r then ''cache_hit'' else ''cache_miss'')"
proof -
  have t: "t \<noteq> []" using run by (auto simp: Lookup_def)
  have hit: ?thesis
    if "(r, w') = finishHit (le_emitter env) t m threshold latency w" "pg_view db (t, cm_hash m) = Some x" for m threshold x
  proof -
    have "cm_hash m \<noteq> []" using keys that(2) by force
    with that(1) t em show ?thesis
      by (auto simp: finishHit_def Let_def lens_emitter_def EmitCacheHit_def base_event_def post_cache_event_ok)
  qed
  show ?thesis
  proof (rule pgread.Lookup_cases [OF assms(1,2) run])
    fix m v s1
    assume "FindExact io clock t (le_hash env p) db = (Inr None, s1)"
      and "FindNearest io fmt pick sim t v s1 = (Inr (Some m), db')"
      and "(r, w') = finishHit (le_emitter env) t m (Threshold (le_config env) t) latency w"
    then show ?thesis using hit pgread.nearest_sound pgread.exact_keeps by metis
  next
    assume "(r, w') = finishMiss (le_emitter env) t (Threshold (le_config env) t) latency w"
    then show ?thesis using t em
      by (auto simp: finishMiss_def Let_def lens_emitter_def EmitCacheMiss_def base_event_def post_cache_event_ok)
  qed (use hit pgread.exact_sound in metis)
qed

lemma lookup_queries_events:
  assumes "le_exact env = FindExact io clock" "le_nearest env = FindNearest io fmt pick sim"
    and "le_emitter env = Some (lens_emitter http clock')" "\<forall>n. http n = Some 200"
    and "\<forall>k \<in> dom (pg_view db). snd k \<noteq> []" "list_all (\<lambda>q. ql_tenant q = t) qs"
    and "lookup_queries env lat qs h m (db, e, w) = (Inr (hits, misses), db', e', w')"
  shows "hits + misses = h + m + length qs \<and> h \<le> hits \<and>
    count_source t ''cache_hit'' (lw_posted w') = count_source t ''cache_hit'' (lw_posted w) + int (hits - h) \<and>
    count_source t ''cache_miss'' (lw_posted w') = count_source t ''cache_miss'' (lw_posted w) + int misses - int m"
  using assms(5,6,7)
proof (induction qs arbitrary: h m db e w)
  case (Cons q qs)
  obtain x db1 e1 w1 where l: "Lookup env (ql_tenant q) (ql_prompt q) (lat (h + m)) (db, e, w) = (x, db1, e1, w1)"
    by (metis prod_cases4)
  obtain r where r: "x = Inr r" using Cons.prems(3) l by (cases x) auto
  note l = l [unfolded r]
  have v: "pg_view db1 = pg_view db" using pgread.Lookup_sound [OF assms(1,2) l] by blast
  obtain evt where evt: "lw_posted w1 = lw_posted w @ [(t, evt)]" "cev_tenant evt = t"
    "cev_source evt = (if LookupHit r then ''cache_hit'' else ''cache_miss'')"
    using Lookup_event [OF assms(1-4) Cons.prems(1) l] Cons.prems(2) by auto
  show ?case
  proof (cases "LookupHit r")
    case True
    with Cons.prems l have "lookup_queries env lat qs (Suc h) m (db1, e1, w1) = (Inr (hits, misses), db', e', w')" by simp
    from Cons.IH [OF _ _ this] Cons.prems v evt True show ?thesis by (auto simp: count_source_def)
  next
    case False
    with Cons.prems l have "lookup_queries env lat qs h (Suc m) (db1, e1, w1) = (Inr (hits, misses), db', e', w')" by simp
    from Cons.IH [OF _ _ this] Cons.prems v evt False show ?thesis by (auto simp: count_source_def)
  qed
qed simp

text \<open>
  Observation.  The hit rate of the dashboard is the share of hits: when a tenant's queries are looked up
  one after the other and every event is accepted, the rate computed from the events is the number
  of hits the command reports over the number of queries.
\<close>

theorem hit_rate_measures_lookups:
  assumes "le_exact env = FindExact io clock" "le_nearest env = FindNearest io fmt pick sim"
    and "le_emitter env = Some (lens_emitter http clock')" "\<forall>n. http n = Some 200"
    and "\<forall>k \<in> dom (pg_view db). snd k \<noteq> []" "list_all (\<lambda>q. ql_tenant q = t) qs" "length qs < 2 ^ 63"
    and "lookup_queries env lat qs 0 0 (db, e, \<lparr>lw_posted = [], lw_requests = n\<rparr>) = (Inr (hits, misses), db', e', w')"
  shows "hits + misses = length qs \<and>
    HitRate (count_source t ''cache_hit'' (lw_posted w')) (count_source t ''cache_miss'' (lw_posted w')) =
      real hits / real (length qs)"
proof -
  from lookup_queries_events [OF assms(1-6,8)]
  have c: "hits + misses = length qs" "count_source t ''cache_hit'' (lw_posted w') = int hits"
    "count_source t ''cache_miss'' (lw_posted w') = int misses" by (auto simp: count_source_def)
  have "int64 (int hits + int misses) = int (length qs)"
    using assms(7) c(1) by (subst int64_id) auto
  with c show ?thesis by (simp add: HitRate_def Let_def)
qed

definition demo_lookup_env :: "(postgres, openai, lens_writer) lookup_env" where
  "demo_lookup_env =
     \<lparr>le_config = empty_threshold_config, le_hash = HashPrompt plain_text (\<lambda>_. ''h''), le_embed = Embed zero_service,
      le_exact = FindExact (\<lambda>_. PgOk) (\<lambda>_. 0), le_nearest = FindNearest (\<lambda>_. PgOk) (\<lambda>_. ''0'') (\<lambda>_ _ _. None) (\<lambda>_ _. Sim 0),
      le_emitter = Some (lens_emitter (\<lambda>_. Some 200) (\<lambda>_. 0))\<rparr>"

definition demo_table :: postgres where
  "demo_table = \<lparr>pg_rows = [(''acme'', ''h'') \<mapsto>
     \<lparr>rw_embedding = ''[]'', rw_response = ''one'', rw_created = 0, rw_last_hit = 0\<rparr>], pg_statements = 0\<rparr>"

abbreviation "demo_writer \<equiv> \<lparr>lw_posted = [], lw_requests = 0\<rparr>"
abbreviation "demo_openai \<equiv> \<lparr>oa_model = ''m'', oa_sent = []\<rparr>"

lemma demo_lookup:
  "\<exists>r db' w'. Lookup demo_lookup_env ''acme'' ''hi'' 0 (demo_table, demo_openai, demo_writer) =
     (Inr r, db', demo_openai, w') \<and> LookupHit r \<and> LookupResponse r = ''one''"
  by (simp add: Lookup_def demo_lookup_env_def demo_table_def FindExact_def touchLastHit_def Let_def HashPrompt_def
      finishHit_def case_prod_beta)

theorem lookup_serves_own_tenant_witness:
  "\<exists>r db' e' w'. Lookup demo_lookup_env ''acme'' ''hi'' 0 (demo_table, demo_openai, demo_writer) = (Inr r, db', e', w') \<and>
     LookupHit r \<and> pg_view demo_table (''acme'', MatchedPromptHash r) = Some (LookupResponse r)"
proof -
  obtain r db' w' where l: "Lookup demo_lookup_env ''acme'' ''hi'' 0 (demo_table, demo_openai, demo_writer) =
     (Inr r, db', demo_openai, w')" "LookupHit r" using demo_lookup by blast
  have "le_exact demo_lookup_env = FindExact (\<lambda>_. PgOk) (\<lambda>_. 0)"
    "le_nearest demo_lookup_env = FindNearest (\<lambda>_. PgOk) (\<lambda>_. ''0'') (\<lambda>_ _ _. None) (\<lambda>_ _. Sim 0)"
    by (simp_all add: demo_lookup_env_def)
  from lookup_serves_own_tenant [OF this l(1)] l show ?thesis by auto
qed

theorem worked_prompts_hit_witness:
  "\<exists>db' r db'' w'. db' = snd (snd (healthy_run \<lparr>pg_rows = Map.empty, pg_statements = 0\<rparr>)) \<and>
     Lookup demo_lookup_env ''acme'' ''hi'' 0 (db', demo_openai, demo_writer) = (Inr r, db'', demo_openai, w') \<and>
     LookupResponse r = ''one''"
proof -
  let ?db = "\<lparr>pg_rows = Map.empty, pg_statements = 0\<rparr>"
  obtain res es' db' where r: "healthy_run ?db = ((res, None), es', db')"
    using RunWorker_ok [OF _ zero_service_healthy, of "\<lambda>_. PgOk"] by (metis prod.collapse)
  have "\<lparr>pp_tenant = ''acme'', pp_prompt = ''hi'', pp_response = ''one''\<rparr> \<in> set demo_prompts"
    by (simp add: demo_prompts_def)
  from worked_prompts_hit [OF r this, of "''hi''" demo_lookup_env "\<lambda>_. PgOk" "\<lambda>_ _ _. None" "\<lambda>_ _. Sim 0" 0 demo_openai demo_writer]
  show ?thesis using r by (auto simp: demo_lookup_env_def pg_view_def demo_keys HashPrompt_def)
qed

theorem hit_rate_measures_lookups_witness:
  "\<exists>s w'. lookup_queries demo_lookup_env (\<lambda>_. 0) [\<lparr>ql_tenant = ''acme'', ql_prompt = ''hi''\<rparr>] 0 0
       (demo_table, demo_openai, demo_writer) = (Inr (1, 0), s, demo_openai, w') \<and>
     HitRate (count_source ''acme'' ''cache_hit'' (lw_posted w')) (count_source ''acme'' ''cache_miss'' (lw_posted w')) = 1"
proof -
  obtain r s w' where l: "Lookup demo_lookup_env ''acme'' ''hi'' 0 (demo_table, demo_openai, demo_writer) =
     (Inr r, s, demo_openai, w')" "LookupHit r" using demo_lookup by blast
  let ?q = "\<lparr>ql_tenant = ''acme'', ql_prompt = ''hi''\<rparr>"
  from l have q: "lookup_queries demo_lookup_env (\<lambda>_. 0) [?q] 0 0 (demo_table, demo_openai, demo_writer) =
      (Inr (1, 0), s, demo_openai, w')" by simp
  have keys: "\<forall>k \<in> dom (pg_view demo_table). snd k \<noteq> []"
    by (auto simp: pg_view_def demo_table_def split: if_splits)
  have "HitRate (count_source ''acme'' ''cache_hit'' (lw_posted w')) (count_source ''acme'' ''cache_miss'' (lw_posted w')) =
      real 1 / real (length [?q])"
    by (rule hit_rate_measures_lookups [THEN conjunct2, OF _ _ _ _ keys _ _ q]) (auto simp: demo_lookup_env_def)
  with q show ?thesis by auto
qed

text \<open>
  Observation.  The bookkeeping of a hit can turn it into an error: when the entry is found and the update of
  its last hit fails, the lookup fails, whatever else is stored, and the caller gets no response.
\<close>

theorem failed_touch_fails_lookup:
  assumes "le_exact env = FindExact io clock" "t \<noteq> []" "p \<noteq> []"
    and "pg_view db (t, le_hash env p) = Some resp"
    and "io (pg_statements db) = PgOk" "io (Suc (pg_statements db)) = PgErr applied"
  shows "fst (Lookup env t p latency (db, e, w)) = Inl (ExactFailed TouchFailed)"
  using assms
  by (auto simp: Lookup_def FindExact_def touchLastHit_def pg_view_def Let_def split: option.splits)

theorem failed_touch_fails_lookup_witness:
  "fst (Lookup (demo_lookup_env\<lparr>le_exact := FindExact (\<lambda>n. if n = 0 then PgOk else PgErr False) (\<lambda>_. 0)\<rparr>)
     ''acme'' ''hi'' 0 (demo_table, demo_openai, demo_writer)) = Inl (ExactFailed TouchFailed)"
  by (rule failed_touch_fails_lookup [where io = "\<lambda>n. if n = 0 then PgOk else PgErr False" and
        clock = "\<lambda>_. 0" and applied = False])
    (auto simp: demo_lookup_env_def demo_table_def pg_view_def HashPrompt_def)

text \<open>
  Observation.  A tenant entry without a threshold in the configuration file switches the comparison off for
  that tenant: its threshold is zero, not the default, so that every candidate the index finds with a
  similarity that is not negative is a hit.
\<close>

theorem override_without_threshold:
  "\<exists>cfg. LoadThresholds (Some (Some (JObj [(''tenants'', JObj [(''acme'', JObj [])])]))) = Some cfg \<and>
     Threshold cfg ''acme'' = 0 \<and> Threshold cfg ''other'' = DefaultThreshold"
proof -
  have "field_decoder threshold_config_fields ''tenants'' =
      Some (lens tc_tenants (\<lambda>x s. s\<lparr>tc_tenants := x\<rparr>) (dec_map (dec_struct tenant_threshold_fields) \<lparr>SimilarityThreshold = 0\<rparr>))"
    by (subst field_decoder_plain, simp add: plain_name_def, simp add: threshold_config_fields_def plain_name_def,
        simp add: threshold_config_fields_def)
  then show ?thesis
    by (simp add: LoadThresholds_def unmarshal_def lens_def empty_threshold_config_def Threshold_def DefaultThreshold_def)
qed

text \<open>
  The feedback webhook answers 202 exactly for a POST whose body names a tenant and a hash and
  whose event was accepted, and only a request with both of them emits anything.
\<close>

lemma feedback_accepted_iff:
  assumes "unmarshal (dec_struct feedback_fields) body \<lparr>fb_tenant = [], fb_hash = []\<rparr> = Some req"
  shows "fst (FeedbackServeHTTP (EmitCacheFeedback http clock) meth body w) = 202 \<longleftrightarrow>
      meth = ''POST'' \<and> fb_tenant req \<noteq> [] \<and> fb_hash req \<noteq> [] \<and>
      (http (lw_requests w) = Some 200 \<or> http (lw_requests w) = Some 202)"
    and "lw_requests (snd (FeedbackServeHTTP (EmitCacheFeedback http clock) meth body w)) =
      lw_requests w + (if meth = ''POST'' \<and> fb_tenant req \<noteq> [] \<and> fb_hash req \<noteq> [] then 1 else 0)"
  using assms
  by (auto simp: FeedbackServeHTTP_def EmitCacheFeedback_def post_cache_event_def Let_def split: option.splits)

text \<open>
  Observation.  A similarity that is not a number is a hit at every threshold: when the query vector or
  the stored vector is zero, the lookup serves the response of an unrelated prompt.
\<close>

theorem nan_similarity_hits:
  assumes "le_exact env = FindExact io clock" "le_nearest env = FindNearest io fmt pick sim"
    and "t \<noteq> []" "p \<noteq> []" "v \<noteq> []" "\<forall>n. io n = PgOk"
    and "pg_rows db (t, le_hash env p) = None" "le_embed env [p] e = (Inr [v], e')"
    and "pick t (vectorLiteral fmt v) (pg_rows db) = Some h" "pg_rows db (t, h) = Some row"
    and "sim (rw_embedding row) (vectorLiteral fmt v) = NaN"
  shows "\<exists>r db' w'. Lookup env t p latency (db, e, w) = (Inr r, db', e', w') \<and> LookupHit r \<and>
    LookupResponse r = rw_response row \<and> MatchedPromptHash r = h \<and> Similarity r = NaN"
  using assms
  by (auto simp: Lookup_def FindExact_def FindNearest_def finishHit_def Let_def split: option.splits prod.splits)

definition zero_vector_env :: "(postgres, openai, lens_writer) lookup_env" where
  "zero_vector_env =
     demo_lookup_env\<lparr>le_hash := (\<lambda>_. ''other''), le_embed := (\<lambda>_ e. (Inr [[0]], e)),
       le_nearest := FindNearest (\<lambda>_. PgOk) (\<lambda>_. ''0'') (\<lambda>_ _ _. Some ''h'') (\<lambda>_ _. NaN)\<rparr>"

theorem nan_similarity_hits_witness:
  "\<exists>r db' w'. Lookup zero_vector_env ''acme'' ''bye'' 0 (demo_table, demo_openai, demo_writer) = (Inr r, db', demo_openai, w') \<and>
     LookupHit r \<and> LookupResponse r = ''one'' \<and> LookupThreshold r = DefaultThreshold"
proof -
  obtain r db' w' where l: "Lookup zero_vector_env ''acme'' ''bye'' 0 (demo_table, demo_openai, demo_writer) = (Inr r, db', demo_openai, w')"
    "LookupHit r" "LookupResponse r = ''one''"
    using nan_similarity_hits [where env = zero_vector_env and io = "\<lambda>_. PgOk" and clock = "\<lambda>_. 0" and fmt = "\<lambda>_. ''0''" and
        pick = "\<lambda>_ _ _. Some ''h''" and sim = "\<lambda>_ _. NaN" and t = "''acme''" and p = "''bye''" and v = "[0]" and db = demo_table and
        e = demo_openai and e' = demo_openai and h = "''h''" and latency = 0 and w = demo_writer and
        row = "\<lparr>rw_embedding = ''[]'', rw_response = ''one'', rw_created = 0, rw_last_hit = 0\<rparr>"]
    by (auto simp: zero_vector_env_def demo_lookup_env_def demo_table_def)
  then have "LookupThreshold r = Threshold (le_config zero_vector_env) ''acme''"
    using pgread.Lookup_sound [where env = zero_vector_env and io = "\<lambda>_. PgOk" and clock = "\<lambda>_. 0" and fmt = "\<lambda>_. ''0''" and
        pick = "\<lambda>_ _ _. Some ''h''" and sim = "\<lambda>_ _. NaN", OF _ _ l(1)]
    by (simp add: zero_vector_env_def demo_lookup_env_def)
  with l show ?thesis
    by (auto simp: zero_vector_env_def demo_lookup_env_def Threshold_def empty_threshold_config_def)
qed

end
