(* ===== verification/Cache_Eval.thy ===== *)
theory Cache_Eval
  imports Cache_Lookup
begin

text \<open>
  Measuring the semantic cache (\<^verbatim>\<open>semantic-cache-engine\<close>): the lexical similarity
  (\<^verbatim>\<open>pkg/localsim\<close>), the sweep over thresholds (\<^verbatim>\<open>cmd/threshold-sweep\<close>) and the accounting of the
  load test (\<^verbatim>\<open>pkg/loadtest\<close>).

  The split of a text into lower-case words is an argument, because it rests on the Unicode tables.
  The order in which Go visits a map is a list, as in \<^const>\<open>map_order\<close>.
\<close>

section \<open>Lexical similarity\<close>

definition termFreq :: "string list \<Rightarrow> string \<rightharpoonup> real" where
  "termFreq tokens =
     foldl (\<lambda>freq tok. freq(tok \<mapsto> (case freq tok of None \<Rightarrow> 0 | Some x \<Rightarrow> x) + 1)) Map.empty tokens"

text \<open>The two loops: dot product and norm over the first map, norm over the second.\<close>

fun dot_and_norm :: "(string \<rightharpoonup> real) \<Rightarrow> (string \<rightharpoonup> real) \<Rightarrow> string list \<Rightarrow> real \<times> real \<Rightarrow> real \<times> real" where
  "dot_and_norm fa fb [] acc = acc"
| "dot_and_norm fa fb (term # ts) (dot, normA) =
     (let freqA = the (fa term) in
      dot_and_norm fa fb ts
        ((case fb term of None \<Rightarrow> dot | Some freqB \<Rightarrow> dot + freqA * freqB), normA + freqA * freqA))"

definition norm_sum :: "(string \<rightharpoonup> real) \<Rightarrow> string list \<Rightarrow> real" where
  "norm_sum fb ts = foldl (\<lambda>n term. n + the (fb term) * the (fb term)) 0 ts"

definition TokenCosineSimilarity ::
  "(string \<Rightarrow> string list) \<Rightarrow> string list \<Rightarrow> string list \<Rightarrow> string \<Rightarrow> string \<Rightarrow> real" where
  "TokenCosineSimilarity tokenize orderA orderB a b =
     (let fa = termFreq (tokenize a); fb = termFreq (tokenize b) in
      if fa = Map.empty \<or> fb = Map.empty then 0
      else
        let (dot, normA) = dot_and_norm fa fb orderA (0, 0); normB = norm_sum fb orderB;
            denom = sqrt normA * sqrt normB
        in if denom = 0 then 0 else dot / denom)"

section \<open>The sweep\<close>

record labeled_pair =
  PromptA :: string
  PromptB :: string
  IsDuplicate :: bool

definition labeled_pair_fields :: "labeled_pair fields" where
  "labeled_pair_fields =
     [(''prompt_a'', lens PromptA (\<lambda>x s. s\<lparr>PromptA := x\<rparr>) dec_string),
      (''prompt_b'', lens PromptB (\<lambda>x s. s\<lparr>PromptB := x\<rparr>) dec_string),
      (''duplicate'', lens IsDuplicate (\<lambda>x s. s\<lparr>IsDuplicate := x\<rparr>) dec_bool)]"

definition parsePairs :: "text_line list \<Rightarrow> parse_error + labeled_pair list" where
  "parsePairs ls =
     parse_records (dec_struct labeled_pair_fields) \<lparr>PromptA = [], PromptB = [], IsDuplicate = False\<rparr>
       (\<lambda>p. PromptA p \<noteq> [] \<and> PromptB p \<noteq> []) 0 ls"

definition countDuplicates :: "labeled_pair list \<Rightarrow> nat" where
  "countDuplicates pairs = foldl (\<lambda>n p. if IsDuplicate p then Suc n else n) 0 pairs"

type_synonym scored_pair = "labeled_pair \<times> real"

record sweep_result =
  SweepThreshold :: real
  TP :: nat
  FP :: nat
  FN :: nat
  TN :: nat
  Precision :: "real option"
  Recall :: "real option"
  FalsePositiveRate :: "real option"

text \<open>The loop over the pairs with its four counters.\<close>

fun classify_pairs :: "real \<Rightarrow> scored_pair list \<Rightarrow> nat \<times> nat \<times> nat \<times> nat \<Rightarrow> nat \<times> nat \<times> nat \<times> nat" where
  "classify_pairs threshold [] c = c"
| "classify_pairs threshold ((p, similarity) # ss) (tp, fp, fn, tn) =
     (let predicted = threshold \<le> similarity in
      classify_pairs threshold ss
        (if predicted \<and> IsDuplicate p then (Suc tp, fp, fn, tn)
         else if predicted \<and> \<not> IsDuplicate p then (tp, Suc fp, fn, tn)
         else if \<not> predicted \<and> IsDuplicate p then (tp, fp, Suc fn, tn)
         else (tp, fp, fn, Suc tn)))"

text \<open>A rate with its validity flag is an option.\<close>

definition rate :: "nat \<Rightarrow> nat \<Rightarrow> real option" where
  "rate num den = (if den > 0 then Some (real num / real den) else None)"

definition sweep_one :: "scored_pair list \<Rightarrow> real \<Rightarrow> sweep_result" where
  "sweep_one scored threshold =
     (case classify_pairs threshold scored (0, 0, 0, 0) of
        (tp, fp, fn, tn) \<Rightarrow>
          \<lparr>SweepThreshold = threshold, TP = tp, FP = fp, FN = fn, TN = tn, Precision = rate tp (tp + fp),
           Recall = rate tp (tp + fn), FalsePositiveRate = rate fp (fp + tn)\<rparr>)"

definition ThresholdSweep :: "scored_pair list \<Rightarrow> real list \<Rightarrow> sweep_result list" where
  "ThresholdSweep scored thresholds = map (sweep_one scored) (sort thresholds)"

section \<open>The load test\<close>

record load_config =
  QPS :: int
  LoadDuration :: int
  Concurrency :: int
  LoadTenant :: string

datatype call_outcome = CallError | CallDone bool int

record load_result =
  Requests :: int
  LoadErrors :: int
  LoadHits :: int
  LoadMisses :: int
  P50 :: int
  P95 :: int
  P99 :: int

datatype load_error = QpsNotPositive | DurationNotPositive | ConcurrencyNotPositive | LoadTenantRequired

definition percentile :: "int list \<Rightarrow> real \<Rightarrow> int" where
  "percentile xs p = (if length xs = 1 then xs ! 0 else xs ! nat \<lfloor>p * real (length xs - 1)\<rfloor>)"

definition computePercentiles :: "int list \<Rightarrow> int \<times> int \<times> int" where
  "computePercentiles durations =
     (if durations = [] then (0, 0, 0)
      else let xs = sort durations in (percentile xs (50 / 100), percentile xs (95 / 100), percentile xs (99 / 100)))"

definition done_latencies :: "call_outcome list \<Rightarrow> int list" where
  "done_latencies outcomes =
     concat (map (\<lambda>c. case c of CallError \<Rightarrow> [] | CallDone hit latency \<Rightarrow> [latency]) outcomes)"

text \<open>
  The calls finish in some order with the outcomes of \<open>outcomes\<close>, one for each tick before the
  context was cancelled.  A ticker with interval zero panics.
\<close>

definition LoadRun :: "load_config \<Rightarrow> (nat \<Rightarrow> call_outcome list) \<Rightarrow> (load_error + load_result) go" where
  "LoadRun cfg outcomes =
     (if QPS cfg \<le> 0 then Return (Inl QpsNotPositive)
      else if LoadDuration cfg \<le> 0 then Return (Inl DurationNotPositive)
      else if Concurrency cfg \<le> 0 then Return (Inl ConcurrencyNotPositive)
      else if LoadTenant cfg = [] then Return (Inl LoadTenantRequired)
      else
        let interval = tdiv (10 ^ 9) (QPS cfg) in
        if interval = 0 then Panic ''integer divide by zero''
        else
          let calls = outcomes (nat (tdiv (LoadDuration cfg) interval));
              latencies = done_latencies calls;
              errs = int (length (filter (\<lambda>c. c = CallError) calls));
              hits = int (length (filter (\<lambda>c. case c of CallDone hit _ \<Rightarrow> hit | CallError \<Rightarrow> False) calls));
              (p50, p95, p99) = computePercentiles latencies
          in Return (Inr \<lparr>Requests = int (length latencies) + errs, LoadErrors = errs, LoadHits = hits,
                          LoadMisses = int (length latencies) - hits, P50 = p50, P95 = p95, P99 = p99\<rparr>))"

section \<open>The similarity in closed form\<close>

lemma termFreq_snoc:
  "termFreq (ts @ [t]) = (termFreq ts)(t \<mapsto> (case termFreq ts t of None \<Rightarrow> 0 | Some x \<Rightarrow> x) + 1)"
  by (simp add: termFreq_def)

lemma termFreq_eq: "termFreq ts t = (if t \<in> set ts then Some (real (count_list ts t)) else None)"
  by (induction ts rule: rev_induct) (auto simp: termFreq_snoc termFreq_def)

lemma dom_termFreq [simp]: "dom (termFreq ts) = set ts"
  by (auto simp: termFreq_eq split: if_splits)

lemma dot_and_norm_sum:
  "set xs \<subseteq> set ta \<Longrightarrow> dot_and_norm (termFreq ta) (termFreq tb) xs (d, n) =
     (d + (\<Sum>t\<leftarrow>xs. real (count_list ta t) * real (count_list tb t)), n + (\<Sum>t\<leftarrow>xs. (real (count_list ta t))\<^sup>2))"
  by (induction xs arbitrary: d n) (auto simp: termFreq_eq Let_def power2_eq_square count_list_0_iff)

lemma norm_sum_eq: "set xs \<subseteq> set tb \<Longrightarrow> norm_sum (termFreq tb) xs = (\<Sum>t\<leftarrow>xs. (real (count_list tb t))\<^sup>2)"
proof -
  assume "set xs \<subseteq> set tb"
  then have "foldl (\<lambda>n t. n + the (termFreq tb t) * the (termFreq tb t)) n xs = n + (\<Sum>t\<leftarrow>xs. (real (count_list tb t))\<^sup>2)" for n
    by (induction xs arbitrary: n) (auto simp: termFreq_eq power2_eq_square)
  then show ?thesis by (simp add: norm_sum_def)
qed

definition freq_norm :: "string list \<Rightarrow> real" where
  "freq_norm ts = sqrt (\<Sum>t\<in>set ts. (real (count_list ts t))\<^sup>2)"

lemma freq_norm_nonneg [simp]: "0 \<le> freq_norm ts"
  by (simp add: freq_norm_def sum_nonneg)

lemma freq_norm_pos: "ts \<noteq> [] \<Longrightarrow> 0 < freq_norm ts"
proof -
  assume "ts \<noteq> []"
  then obtain t where t: "t \<in> set ts" by (cases ts) auto
  then have "0 < (real (count_list ts t))\<^sup>2" by (simp add: count_list_0_iff)
  also have "\<dots> \<le> (\<Sum>t\<in>set ts. (real (count_list ts t))\<^sup>2)" using t by (intro member_le_sum) auto
  finally show ?thesis by (simp add: freq_norm_def)
qed

lemma similarity_eq:
  assumes "map_order orderA (termFreq (tokenize a))" "map_order orderB (termFreq (tokenize b))"
  shows "TokenCosineSimilarity tokenize orderA orderB a b =
    (if tokenize a = [] \<or> tokenize b = [] then 0
     else (\<Sum>t\<in>set (tokenize a) \<inter> set (tokenize b). real (count_list (tokenize a) t) * real (count_list (tokenize b) t)) /
       (freq_norm (tokenize a) * freq_norm (tokenize b)))"
proof -
  let ?a = "tokenize a" and ?b = "tokenize b"
  have o: "distinct orderA" "set orderA = set ?a" "distinct orderB" "set orderB = set ?b"
    using assms by (auto simp: map_order_def)
  have empty: "termFreq ts = Map.empty \<longleftrightarrow> ts = []" for ts
    by (metis dom_eq_empty_conv dom_termFreq set_empty)
  have "(\<Sum>t\<in>set ?a. real (count_list ?a t) * real (count_list ?b t)) =
      (\<Sum>t\<in>set ?a \<inter> set ?b. real (count_list ?a t) * real (count_list ?b t))"
    by (rule sum.mono_neutral_right) (auto simp: count_list_0_iff)
  then have dn: "dot_and_norm (termFreq ?a) (termFreq ?b) orderA (0, 0) =
      (\<Sum>t\<in>set ?a \<inter> set ?b. real (count_list ?a t) * real (count_list ?b t), (freq_norm ?a)\<^sup>2)"
    using o by (simp add: dot_and_norm_sum sum_list_distinct_conv_sum_set freq_norm_def sum_nonneg)
  have nb: "norm_sum (termFreq ?b) orderB = (freq_norm ?b)\<^sup>2"
    using o by (simp add: norm_sum_eq sum_list_distinct_conv_sum_set freq_norm_def sum_nonneg)
  show ?thesis
    using freq_norm_pos [of ?a] freq_norm_pos [of ?b]
    by (simp add: TokenCosineSimilarity_def Let_def dn nb empty)
qed

text \<open>The inequality of Cauchy and Schwarz for two families of reals.\<close>

lemma cauchy_schwarz:
  fixes f g :: "'a \<Rightarrow> real"
  assumes "finite S"
  shows "(\<Sum>i\<in>S. f i * g i) \<le> sqrt (\<Sum>i\<in>S. (f i)\<^sup>2) * sqrt (\<Sum>i\<in>S. (g i)\<^sup>2)"
proof -
  define A B where "A = sqrt (\<Sum>i\<in>S. (f i)\<^sup>2)" and "B = sqrt (\<Sum>i\<in>S. (g i)\<^sup>2)"
  have sq: "A\<^sup>2 = (\<Sum>i\<in>S. (f i)\<^sup>2)" "B\<^sup>2 = (\<Sum>i\<in>S. (g i)\<^sup>2)" by (simp_all add: A_def B_def sum_nonneg)
  have nn: "0 \<le> A" "0 \<le> B" by (simp_all add: A_def B_def sum_nonneg)
  show ?thesis
  proof (cases "A = 0 \<or> B = 0")
    case True
    then have "(\<forall>i\<in>S. f i = 0) \<or> (\<forall>i\<in>S. g i = 0)"
      using sq assms by (auto simp: sum_nonneg_eq_0_iff)
    then have "(\<Sum>i\<in>S. f i * g i) = 0" by (auto intro!: sum.neutral)
    then show ?thesis using nn by (simp flip: A_def B_def)
  next
    case False
    have "0 \<le> (\<Sum>i\<in>S. (B * f i - A * g i)\<^sup>2)" by (simp add: sum_nonneg)
    also have "\<dots> = B\<^sup>2 * (\<Sum>i\<in>S. (f i)\<^sup>2) + A\<^sup>2 * (\<Sum>i\<in>S. (g i)\<^sup>2) - 2 * (A * B) * (\<Sum>i\<in>S. f i * g i)"
      by (simp add: power2_diff sum.distrib sum_subtractf sum_distrib_left power_mult_distrib algebra_simps)
    also have "\<dots> = 2 * (A * B) * (A * B - (\<Sum>i\<in>S. f i * g i))"
      unfolding sq [symmetric] by (simp add: power2_eq_square algebra_simps)
    finally have "0 \<le> (A * B) * (A * B - (\<Sum>i\<in>S. f i * g i))" by simp
    moreover have "0 < A * B" using False nn by simp
    ultimately have "0 \<le> A * B - (\<Sum>i\<in>S. f i * g i)" by (simp add: zero_le_mult_iff)
    then show ?thesis by (simp flip: A_def B_def)
  qed
qed

lemma dot_bound:
  "(\<Sum>t\<in>set xs \<inter> set ys. real (count_list xs t) * real (count_list ys t)) \<le> freq_norm xs * freq_norm ys"
proof -
  let ?S = "set xs \<union> set ys"
  have "(\<Sum>t\<in>set xs \<inter> set ys. real (count_list xs t) * real (count_list ys t)) =
      (\<Sum>t\<in>?S. real (count_list xs t) * real (count_list ys t))"
    by (rule sum.mono_neutral_left) (auto simp: count_list_0_iff)
  also have "\<dots> \<le> sqrt (\<Sum>t\<in>?S. (real (count_list xs t))\<^sup>2) * sqrt (\<Sum>t\<in>?S. (real (count_list ys t))\<^sup>2)"
    by (rule cauchy_schwarz) simp
  also have "(\<Sum>t\<in>?S. (real (count_list xs t))\<^sup>2) = (\<Sum>t\<in>set xs. (real (count_list xs t))\<^sup>2)"
    by (rule sum.mono_neutral_right) (auto simp: count_list_0_iff)
  also have "(\<Sum>t\<in>?S. (real (count_list ys t))\<^sup>2) = (\<Sum>t\<in>set ys. (real (count_list ys t))\<^sup>2)"
    by (rule sum.mono_neutral_right) (auto simp: count_list_0_iff)
  finally show ?thesis by (simp add: freq_norm_def)
qed

lemma dot_self: "(\<Sum>t\<in>set xs \<inter> set xs. real (count_list xs t) * real (count_list xs t)) = freq_norm xs * freq_norm xs"
  by (simp add: freq_norm_def sum_nonneg flip: power2_eq_square)

section \<open>Properties\<close>

text \<open>
  Observation.  The lexical similarity is a number between 0 and 1, whatever the order in which Go visits the
  maps, does not depend on the order of its arguments, and is 1 for two texts with the same words in
  any order.
\<close>

theorem lexical_similarity_bounds:
  assumes "map_order orderA (termFreq (tokenize a))" "map_order orderB (termFreq (tokenize b))"
  shows "0 \<le> TokenCosineSimilarity tokenize orderA orderB a b \<and>
    TokenCosineSimilarity tokenize orderA orderB a b \<le> 1 \<and>
    TokenCosineSimilarity tokenize orderA orderB a b = TokenCosineSimilarity tokenize orderB orderA b a \<and>
    (if tokenize a \<noteq> [] \<and> mset (tokenize a) = mset (tokenize b)
     then TokenCosineSimilarity tokenize orderA orderB a b = 1 else True)"
proof -
  let ?a = "tokenize a" and ?b = "tokenize b" and ?s = "TokenCosineSimilarity tokenize orderA orderB a b"
  note eq = similarity_eq [of _ tokenize]
  have "0 \<le> ?s" by (simp add: eq [OF assms] sum_nonneg)
  moreover have "?s \<le> 1"
    using freq_norm_pos [of ?a] freq_norm_pos [of ?b] dot_bound [of ?a ?b]
    by (simp add: eq [OF assms] divide_le_eq)
  moreover have "?s = TokenCosineSimilarity tokenize orderB orderA b a"
    by (simp add: eq [OF assms] eq [OF assms(2,1)] Int_commute mult.commute)
  moreover have "?s = 1" if ne: "?a \<noteq> []" and m: "mset ?a = mset ?b"
  proof -
    have c: "count_list ?b = count_list ?a" using m by (metis count_mset ext)
    have s: "set ?b = set ?a" using m by (metis mset_eq_setD)
    have "freq_norm ?b = freq_norm ?a" by (simp add: freq_norm_def c s)
    moreover have "?b \<noteq> []" using ne s by auto
    ultimately show ?thesis
      using freq_norm_pos [OF ne] dot_self [of ?a] ne by (simp add: eq [OF assms] c s)
  qed
  ultimately show ?thesis by auto
qed

theorem lexical_similarity_bounds_witness:
  "TokenCosineSimilarity (\<lambda>_. [''a'', ''b'']) [''a'', ''b''] [''b'', ''a''] ''a b'' ''b a'' = 1"
proof -
  have "map_order [''a'', ''b''] (termFreq [''a'', ''b''])" "map_order [''b'', ''a''] (termFreq [''a'', ''b''])"
    by (auto simp: map_order_def)
  from lexical_similarity_bounds [of _ "\<lambda>_. [''a'', ''b'']" "''a b''" _ "''b a''", OF this] show ?thesis by simp
qed

lemma classify_pairs_eq:
  "classify_pairs th ss (tp, fp, fn, tn) =
     (tp + length (filter (\<lambda>(p, s). th \<le> s \<and> IsDuplicate p) ss), fp + length (filter (\<lambda>(p, s). th \<le> s \<and> \<not> IsDuplicate p) ss),
      fn + length (filter (\<lambda>(p, s). \<not> th \<le> s \<and> IsDuplicate p) ss), tn + length (filter (\<lambda>(p, s). \<not> th \<le> s \<and> \<not> IsDuplicate p) ss))"
  by (induction th ss "(tp, fp, fn, tn)" arbitrary: tp fp fn tn rule: classify_pairs.induct) (auto simp: Let_def)

lemma sweep_counts:
  "TP (sweep_one ss th) = length (filter (\<lambda>(p, s). th \<le> s \<and> IsDuplicate p) ss)"
  "FP (sweep_one ss th) = length (filter (\<lambda>(p, s). th \<le> s \<and> \<not> IsDuplicate p) ss)"
  "FN (sweep_one ss th) = length (filter (\<lambda>(p, s). \<not> th \<le> s \<and> IsDuplicate p) ss)"
  "TN (sweep_one ss th) = length (filter (\<lambda>(p, s). \<not> th \<le> s \<and> \<not> IsDuplicate p) ss)"
  "SweepThreshold (sweep_one ss th) = th"
  by (simp_all add: sweep_one_def classify_pairs_eq)

lemma filter_length_mono: "(\<And>x. P x \<Longrightarrow> Q x) \<Longrightarrow> length (filter P xs) \<le> length (filter Q xs)"
  by (induction xs) (auto simp: le_SucI)

lemma sweep_partition:
  "TP (sweep_one ss th) + FN (sweep_one ss th) = countDuplicates (map fst ss)"
  "TP (sweep_one ss th) + FP (sweep_one ss th) + FN (sweep_one ss th) + TN (sweep_one ss th) = length ss"
proof -
  have c: "foldl (\<lambda>n p. if IsDuplicate p then Suc n else n) n ps = n + length (filter IsDuplicate ps)" for n ps
    by (induction ps arbitrary: n) auto
  have "length (filter (\<lambda>(p, s). th \<le> s \<and> IsDuplicate p) ss) + length (filter (\<lambda>(p, s). \<not> th \<le> s \<and> IsDuplicate p) ss) =
      length (filter IsDuplicate (map fst ss))"
    by (induction ss) auto
  then show "TP (sweep_one ss th) + FN (sweep_one ss th) = countDuplicates (map fst ss)"
    by (simp add: sweep_counts countDuplicates_def c)
  show "TP (sweep_one ss th) + FP (sweep_one ss th) + FN (sweep_one ss th) + TN (sweep_one ss th) = length ss"
    unfolding sweep_counts by (induction ss) auto
qed

text \<open>
  Observation.  The sweep reports one line per threshold in ascending order; in each line the four counts add
  up to the number of pairs and the true positives and false negatives to the number of duplicates;
  and a higher threshold never finds more true or false positives.
\<close>

theorem sweep_monotone:
  "map SweepThreshold (ThresholdSweep scored thresholds) = sort thresholds \<and>
   list_all (\<lambda>r. TP r + FP r + FN r + TN r = length scored \<and> TP r + FN r = countDuplicates (map fst scored))
     (ThresholdSweep scored thresholds) \<and>
   sorted_wrt (\<lambda>r r'. TP r' \<le> TP r \<and> FP r' \<le> FP r) (ThresholdSweep scored thresholds)"
proof -
  have "TP (sweep_one scored th') \<le> TP (sweep_one scored th) \<and> FP (sweep_one scored th') \<le> FP (sweep_one scored th)"
    if "th \<le> th'" for th th'
    unfolding sweep_counts using that by (auto intro!: filter_length_mono)
  then have "sorted_wrt (\<lambda>r r'. TP r' \<le> TP r \<and> FP r' \<le> FP r) (ThresholdSweep scored thresholds)"
    unfolding ThresholdSweep_def sorted_wrt_map
    by (intro sorted_wrt_mono_rel [OF _ sorted_sort]) auto
  then show ?thesis
    by (simp add: ThresholdSweep_def o_def sweep_counts(5) list_all_iff sweep_partition)
qed

lemma sorted_rank:
  assumes "sorted xs" "k < length xs"
  shows "k < length (filter (\<lambda>x. x \<le> xs ! k) xs)"
proof -
  have "filter (\<lambda>x. x \<le> xs ! k) (take (Suc k) xs) = take (Suc k) xs"
    using assms by (auto simp: filter_id_conv in_set_conv_nth intro!: sorted_nth_mono)
  moreover have "filter (\<lambda>x. x \<le> xs ! k) xs =
      filter (\<lambda>x. x \<le> xs ! k) (take (Suc k) xs) @ filter (\<lambda>x. x \<le> xs ! k) (drop (Suc k) xs)"
    by (metis append_take_drop_id filter_append)
  ultimately show ?thesis using assms(2) by simp
qed

lemma percentile_nth:
  assumes "xs \<noteq> []"
  shows "percentile xs p = xs ! (nat \<lfloor>p * real (length xs - 1)\<rfloor>)"
  using assms by (cases "length xs = 1") (auto simp: percentile_def)

lemma percentile_index:
  assumes "xs \<noteq> []" "0 \<le> p" "p \<le> 1"
  shows "nat \<lfloor>p * real (length xs - 1)\<rfloor> < length xs"
    and "p * real (length xs - 1) < real (nat \<lfloor>p * real (length xs - 1)\<rfloor>) + 1"
proof -
  have "p * real (length xs - 1) \<le> real (length xs - 1)" using assms by (simp add: mult_left_le_one_le)
  then have "\<lfloor>p * real (length xs - 1)\<rfloor> \<le> int (length xs - 1)" by linarith
  then show "nat \<lfloor>p * real (length xs - 1)\<rfloor> < length xs" using assms(1) by (cases xs) auto
  have "0 \<le> \<lfloor>p * real (length xs - 1)\<rfloor>" using assms(2) by simp
  then show "p * real (length xs - 1) < real (nat \<lfloor>p * real (length xs - 1)\<rfloor>) + 1" by linarith
qed

lemma percentile_spec:
  assumes "ds \<noteq> []" "0 \<le> p" "p \<le> 1"
  shows "percentile (sort ds) p \<in> set ds"
    and "p * real (length ds - 1) < real (length (filter (\<lambda>d. d \<le> percentile (sort ds) p) ds))"
proof -
  let ?xs = "sort ds"
  let ?k = "nat \<lfloor>p * real (length ?xs - 1)\<rfloor>"
  have ne: "?xs \<noteq> []" using assms(1) by (metis length_0_conv length_sort)
  note k = percentile_index [OF ne assms(2,3)]
  have nth: "percentile ?xs p = ?xs ! ?k" by (rule percentile_nth [OF ne])
  with k(1) show "percentile ?xs p \<in> set ds" by (metis nth_mem set_sort)
  have "?k < length (filter (\<lambda>d. d \<le> ?xs ! ?k) ?xs)" by (rule sorted_rank [OF _ k(1)]) simp
  also have "\<dots> = length (filter (\<lambda>d. d \<le> ?xs ! ?k) ds)" by (metis filter_sort length_sort)
  finally have "real ?k + 1 \<le> real (length (filter (\<lambda>d. d \<le> ?xs ! ?k) ds))" by linarith
  then show "p * real (length ds - 1) < real (length (filter (\<lambda>d. d \<le> percentile ?xs p) ds))"
    unfolding nth using k(2) by (simp del: of_nat_diff)
qed

lemma percentile_mono:
  assumes "ds \<noteq> []" "0 \<le> p" "p \<le> q" "q \<le> 1"
  shows "percentile (sort ds) p \<le> percentile (sort ds) q"
proof -
  have ne: "sort ds \<noteq> []" using assms(1) by (metis length_0_conv length_sort)
  have "\<lfloor>p * real (length (sort ds) - 1)\<rfloor> \<le> \<lfloor>q * real (length (sort ds) - 1)\<rfloor>"
    using assms(3) by (intro floor_mono mult_right_mono) auto
  then have "nat \<lfloor>p * real (length (sort ds) - 1)\<rfloor> \<le> nat \<lfloor>q * real (length (sort ds) - 1)\<rfloor>" by (rule nat_mono)
  moreover have "nat \<lfloor>q * real (length (sort ds) - 1)\<rfloor> < length (sort ds)"
    by (rule percentile_index(1) [OF ne]) (use assms in auto)
  ultimately show ?thesis unfolding percentile_nth [OF ne] by (rule sorted_nth_mono [OF sorted_sort])
qed

lemma load_split:
  "int (length calls) = int (length (done_latencies calls)) + int (length (filter (\<lambda>c. c = CallError) calls))"
  "length (filter (\<lambda>c. case c of CallDone hit _ \<Rightarrow> hit | CallError \<Rightarrow> False) calls) \<le> length (done_latencies calls)"
  by (induction calls) (auto simp: done_latencies_def split: call_outcome.splits)

text \<open>
  Observation.  The load test on a valid configuration panics exactly when more than a billion requests per
  second are asked for.  Otherwise every call is counted once, as an error, a hit or a miss, and the
  percentiles are zero when no call succeeded, else observed latencies in ascending order with at
  least the promised share of the latencies at or below the 99th.
\<close>

theorem load_test_accounting:
  assumes "0 < QPS cfg" "0 < LoadDuration cfg" "0 < Concurrency cfg" "LoadTenant cfg \<noteq> []"
  shows "case LoadRun cfg outcomes of
      Panic msg \<Rightarrow> 10 ^ 9 < QPS cfg
    | Return (Inl e) \<Rightarrow> False
    | Return (Inr r) \<Rightarrow>
        let calls = outcomes (nat (LoadDuration cfg div (10 ^ 9 div QPS cfg))); ds = done_latencies calls in
        QPS cfg \<le> 10 ^ 9 \<and> Requests r = int (length calls) \<and>
        Requests r = LoadErrors r + LoadHits r + LoadMisses r \<and> 0 \<le> LoadMisses r \<and>
        (if ds = [] then P50 r = 0 \<and> P95 r = 0 \<and> P99 r = 0
         else {P50 r, P95 r, P99 r} \<subseteq> set ds \<and> P50 r \<le> P95 r \<and> P95 r \<le> P99 r \<and>
           99 / 100 * real (length ds - 1) < real (length (filter (\<lambda>d. d \<le> P99 r) ds)))"
proof (cases "10 ^ 9 < QPS cfg")
  case True
  then have "tdiv (10 ^ 9) (QPS cfg) = 0" using assms(1) by (simp add: tdiv_nonneg)
  then show ?thesis using assms True by (simp add: LoadRun_def Let_def)
next
  case False
  have i: "tdiv (10 ^ 9) (QPS cfg) = 10 ^ 9 div QPS cfg" using assms(1) by (simp add: tdiv_nonneg)
  have pos: "0 < 10 ^ 9 div QPS cfg" using False assms(1) by (simp add: pos_imp_zdiv_pos_iff)
  then have d: "tdiv (LoadDuration cfg) (10 ^ 9 div QPS cfg) = LoadDuration cfg div (10 ^ 9 div QPS cfg)"
    using assms(2) by (simp add: tdiv_nonneg)
  define calls where "calls = outcomes (nat (LoadDuration cfg div (10 ^ 9 div QPS cfg)))"
  define ds where "ds = done_latencies calls"
  define errs where "errs = int (length (filter (\<lambda>c. c = CallError) calls))"
  define hits where "hits = int (length (filter (\<lambda>c. case c of CallDone hit _ \<Rightarrow> hit | CallError \<Rightarrow> False) calls))"
  obtain a b c where abc: "computePercentiles ds = (a, b, c)" by (metis prod_cases3)
  have run: "LoadRun cfg outcomes = Return (Inr \<lparr>Requests = int (length ds) + errs, LoadErrors = errs, LoadHits = hits,
      LoadMisses = int (length ds) - hits, P50 = a, P95 = b, P99 = c\<rparr>)"
    unfolding LoadRun_def Let_def i d calls_def [symmetric] ds_def [symmetric] errs_def [symmetric] hits_def [symmetric] abc
    using assms pos by simp
  have counts: "int (length calls) = int (length ds) + errs" "hits \<le> int (length ds)"
    using load_split [of calls] by (simp_all add: errs_def hits_def ds_def)
  have "if ds = [] then a = 0 \<and> b = 0 \<and> c = 0
      else {a, b, c} \<subseteq> set ds \<and> a \<le> b \<and> b \<le> c \<and>
        99 / 100 * real (length ds - 1) < real (length (filter (\<lambda>d. d \<le> c) ds))"
  proof (cases "ds = []")
    case True
    then show ?thesis using abc by (simp add: computePercentiles_def)
  next
    case False
    then have "a = percentile (sort ds) (50 / 100)" "b = percentile (sort ds) (95 / 100)" "c = percentile (sort ds) (99 / 100)"
      using abc by (simp_all add: computePercentiles_def Let_def)
    moreover from this have "99 / 100 * real (length ds - 1) < real (length (filter (\<lambda>d. d \<le> c) ds))"
      using percentile_spec(2) [OF False, of "99 / 100"] by simp
    ultimately show ?thesis using False percentile_spec(1) [OF False] percentile_mono [OF False] by simp
  qed
  then show ?thesis
    unfolding run go.case sum.case Let_def calls_def [symmetric] ds_def [symmetric] using counts False by (cases "ds = []"; simp)
qed

theorem load_test_accounting_witness:
  "case LoadRun \<lparr>QPS = 2, LoadDuration = 2 * 10 ^ 9, Concurrency = 1, LoadTenant = ''t''\<rparr>
      (\<lambda>n. take n [CallDone True 5, CallError, CallDone False 3]) of
     Return (Inr r) \<Rightarrow> Requests r = 3 \<and> LoadErrors r + LoadHits r + LoadMisses r = 3 \<and> P50 r \<le> P99 r
   | _ \<Rightarrow> False"
  using load_test_accounting [of "\<lparr>QPS = 2, LoadDuration = 2 * 10 ^ 9, Concurrency = 1, LoadTenant = ''t''\<rparr>"
      "\<lambda>n. take n [CallDone True 5, CallError, CallDone False 3]"]
  by (auto simp: Let_def done_latencies_def split: go.splits sum.splits)

end
