(* ===== verification/Bench_Run.thy ===== *)
theory Bench_Run
  imports Prompt_Fingerprint
begin

text \<open>
  The benchmark runner (\<^verbatim>\<open>agent-benchmark-runner\<close>): tasks and their validation (\<^verbatim>\<open>pkg/task\<close>), the
  grading of a run (\<^verbatim>\<open>pkg/criteria\<close>), the comparison of two agents (\<^verbatim>\<open>pkg/compare\<close>), the batch of
  repetitions under bounded concurrency and its summary (\<^verbatim>\<open>pkg/orchestrator\<close>), the agent as a
  subprocess (\<^verbatim>\<open>pkg/subprocess\<close>), the rows and events of a batch (\<^verbatim>\<open>pkg/store\<close>, \<^verbatim>\<open>pkg/lensai\<close>) and
  the exit code of the command.

  A decoded YAML file is a value of type \<open>bench_task\<close>, or \<open>None\<close> when it does not decode.  The verb
  \<^verbatim>\<open>%q\<close> is the argument \<open>quote\<close>.  The goroutines of a batch are the steps of the relation
  \<open>batch_step\<close>.
\<close>

section \<open>Tasks\<close>

record criterion =
  CriterionKind :: string
  CrValue :: string
  CrValues :: "string list"
  CrMax :: int

record bench_task =
  TaskID :: string
  TaskSeed :: int
  TaskPrompt :: string
  TimeoutSeconds :: int
  ToolsAllowed :: "string list option"
  SuccessCriteria :: "criterion list"

datatype criterion_error = NeedsValue | NeedsValues | NeedsMax | TypeRequired | UnknownType string

datatype task_error =
  TaskIdRequired | TaskPromptRequired | TimeoutNotPositive | NoCriteria | BadCriterion nat criterion_error
  | TaskDecodeFailed

definition validate_criterion :: "criterion \<Rightarrow> criterion_error option" where
  "validate_criterion c =
     (if CriterionKind c = ''final_output_contains'' \<or> CriterionKind c = ''final_output_exact'' then
        (if CrValue c = [] then Some NeedsValue else None)
      else if CriterionKind c = ''tool_call_sequence'' then (if CrValues c = [] then Some NeedsValues else None)
      else if CriterionKind c = ''max_tool_calls'' then (if CrMax c \<le> 0 then Some NeedsMax else None)
      else if CriterionKind c = [] then Some TypeRequired
      else Some (UnknownType (CriterionKind c)))"

fun validate_criteria :: "nat \<Rightarrow> criterion list \<Rightarrow> task_error option" where
  "validate_criteria i [] = None"
| "validate_criteria i (c # cs) =
     (case validate_criterion c of Some e \<Rightarrow> Some (BadCriterion i e) | None \<Rightarrow> validate_criteria (Suc i) cs)"

definition ValidateTask :: "bench_task \<Rightarrow> task_error option" where
  "ValidateTask t =
     (if TaskID t = [] then Some TaskIdRequired
      else if TaskPrompt t = [] then Some TaskPromptRequired
      else if TimeoutSeconds t \<le> 0 then Some TimeoutNotPositive
      else if SuccessCriteria t = [] then Some NoCriteria
      else validate_criteria 0 (SuccessCriteria t))"

definition LoadYAML :: "bench_task option \<Rightarrow> task_error + bench_task" where
  "LoadYAML decoded =
     (case decoded of
        None \<Rightarrow> Inl TaskDecodeFailed
      | Some t \<Rightarrow> (case ValidateTask t of Some e \<Rightarrow> Inl e | None \<Rightarrow> Inr t))"

section \<open>Grading\<close>

record run_outcome =
  FinalOutput :: string
  ToolCalls :: "string list"

record criterion_result =
  CrCriterion :: criterion
  CrPassed :: bool
  CrDetail :: string

definition does_or_not :: "bool \<Rightarrow> string" where
  "does_or_not passed = (if passed then ''does'' else ''does not'')"

definition equalSequence :: "string list \<Rightarrow> string list \<Rightarrow> bool" where
  "equalSequence a b \<longleftrightarrow> length a = length b \<and> list_all (\<lambda>i. a ! i = b ! i) [0..<length a]"

definition show_list :: "string list \<Rightarrow> string" where
  "show_list ws = ''['' @ Join ws '' '' @ '']''"

definition EvaluateCriterion :: "(string \<Rightarrow> string) \<Rightarrow> criterion \<Rightarrow> run_outcome \<Rightarrow> criterion_result" where
  "EvaluateCriterion quote c outcome =
     (if CriterionKind c = ''final_output_contains'' then
        (let passed = contains (FinalOutput outcome) (CrValue c)
         in \<lparr>CrCriterion = c, CrPassed = passed,
             CrDetail = ''final output '' @ does_or_not passed @ '' contain '' @ quote (CrValue c)\<rparr>)
      else if CriterionKind c = ''final_output_exact'' then
        (let passed = (FinalOutput outcome = CrValue c)
         in \<lparr>CrCriterion = c, CrPassed = passed,
             CrDetail = ''final output '' @ does_or_not passed @ '' equal '' @ quote (CrValue c)\<rparr>)
      else if CriterionKind c = ''tool_call_sequence'' then
        \<lparr>CrCriterion = c, CrPassed = equalSequence (ToolCalls outcome) (CrValues c),
         CrDetail = ''tool call sequence '' @ show_list (ToolCalls outcome) @ '' vs expected '' @ show_list (CrValues c)\<rparr>
      else if CriterionKind c = ''max_tool_calls'' then
        (let n = int (length (ToolCalls outcome))
         in \<lparr>CrCriterion = c, CrPassed = n \<le> CrMax c,
             CrDetail = itoa n @ '' tool calls, max allowed '' @ itoa (CrMax c)\<rparr>)
      else \<lparr>CrCriterion = c, CrPassed = False, CrDetail = ''unknown criterion type '' @ quote (CriterionKind c)\<rparr>)"

definition EvaluateAll :: "(string \<Rightarrow> string) \<Rightarrow> criterion list \<Rightarrow> run_outcome \<Rightarrow> criterion_result list" where
  "EvaluateAll quote cs outcome = map (\<lambda>c. EvaluateCriterion quote c outcome) cs"

fun AllPassed :: "criterion_result list \<Rightarrow> bool" where
  "AllPassed [] = True"
| "AllPassed (r # rs) = (if \<not> CrPassed r then False else AllPassed rs)"

section \<open>Comparing two agents\<close>

record agent_run =
  AgentName :: string
  AgentOutcome :: run_outcome

record agent_divergence =
  DivStep :: nat
  DivToolA :: string
  DivToolB :: string

record compare_result =
  CmpTaskID :: string
  CmpAgentA :: string
  CmpAgentB :: string
  CmpResultsA :: "criterion_result list"
  CmpResultsB :: "criterion_result list"
  CmpPassedA :: bool
  CmpPassedB :: bool
  SequenceMatch :: bool
  CmpDivergence :: "agent_divergence option"

text \<open>The loop over the common steps from index \<open>i\<close>, then the comparison of the lengths.\<close>

fun first_divergence :: "nat \<Rightarrow> string list \<Rightarrow> string list \<Rightarrow> agent_divergence option" where
  "first_divergence i (a # as) (b # bs) =
     (if a \<noteq> b then Some \<lparr>DivStep = i, DivToolA = a, DivToolB = b\<rparr> else first_divergence (Suc i) as bs)"
| "first_divergence i [] [] = None"
| "first_divergence i (a # as) [] = Some \<lparr>DivStep = i, DivToolA = a, DivToolB = []\<rparr>"
| "first_divergence i [] (b # bs) = Some \<lparr>DivStep = i, DivToolA = [], DivToolB = b\<rparr>"

definition CompareAgents :: "(string \<Rightarrow> string) \<Rightarrow> bench_task \<Rightarrow> agent_run \<Rightarrow> agent_run \<Rightarrow> compare_result" where
  "CompareAgents quote t runA runB =
     (let resultsA = EvaluateAll quote (SuccessCriteria t) (AgentOutcome runA);
          resultsB = EvaluateAll quote (SuccessCriteria t) (AgentOutcome runB);
          d = first_divergence 0 (ToolCalls (AgentOutcome runA)) (ToolCalls (AgentOutcome runB))
      in \<lparr>CmpTaskID = TaskID t, CmpAgentA = AgentName runA, CmpAgentB = AgentName runB,
          CmpResultsA = resultsA, CmpResultsB = resultsB, CmpPassedA = AllPassed resultsA,
          CmpPassedB = AllPassed resultsB, SequenceMatch = (d = None), CmpDivergence = d\<rparr>)"

section \<open>A batch\<close>

record batch_config =
  BatchTask :: bench_task
  BatchAgent :: string
  Repetitions :: int
  MaxParallel :: int

datatype run_error = AgentFailed string | ContextDone

record run_result =
  RepetitionIndex :: nat
  RunSeed :: int
  RunOutcome :: run_outcome
  RunResults :: "criterion_result list"
  RunPassed :: bool
  StepCount :: nat
  RunErr :: "run_error option"

text \<open>\<^verbatim>\<open>fnv.New64a\<close> over the decimal text of both numbers, read as a signed integer.\<close>

definition deriveSeed :: "int \<Rightarrow> nat \<Rightarrow> int" where
  "deriveSeed base repetitionIndex = sint (fnv64a (itoa base @ '':'' @ itoa (int repetitionIndex)))"

definition failed_run :: "nat \<Rightarrow> int \<Rightarrow> run_error \<Rightarrow> run_result" where
  "failed_run i seed e =
     \<lparr>RepetitionIndex = i, RunSeed = seed, RunOutcome = \<lparr>FinalOutput = [], ToolCalls = []\<rparr>, RunResults = [],
      RunPassed = False, StepCount = 0, RunErr = Some e\<rparr>"

type_synonym agent_func = "bench_task \<Rightarrow> int \<Rightarrow> string + run_outcome"

text \<open>\<open>agent i\<close> is the call of the agent in repetition \<open>i\<close>.\<close>

definition runOne :: "(string \<Rightarrow> string) \<Rightarrow> batch_config \<Rightarrow> (nat \<Rightarrow> agent_func) \<Rightarrow> nat \<Rightarrow> run_result" where
  "runOne quote cfg agent i =
     (let seed = deriveSeed (TaskSeed (BatchTask cfg)) i in
      case agent i (BatchTask cfg) seed of
        Inl e \<Rightarrow> failed_run i seed (AgentFailed e)
      | Inr outcome \<Rightarrow>
          (let graded = EvaluateAll quote (SuccessCriteria (BatchTask cfg)) outcome
           in \<lparr>RepetitionIndex = i, RunSeed = seed, RunOutcome = outcome, RunResults = graded,
               RunPassed = AllPassed graded, StepCount = length (ToolCalls outcome), RunErr = None\<rparr>))"

text \<open>The result of a repetition that found the context cancelled before it got a slot.\<close>

definition skipped_run :: "batch_config \<Rightarrow> nat \<Rightarrow> run_result" where
  "skipped_run cfg i = failed_run i (deriveSeed (TaskSeed (BatchTask cfg)) i) ContextDone"

text \<open>
  The state of a batch: the loop counter, the repetitions whose goroutine holds a slot of the
  semaphore, the slice of results, and whether the context has been cancelled.  A repetition is
  skipped only when \<^verbatim>\<open>ctx.Done()\<close> is ready; when a slot is free as well, the select may take
  either branch.
\<close>

record batch_state =
  bs_next :: nat
  bs_running :: "nat list"
  bs_results :: "run_result option list"
  bs_cancelled :: bool

definition batch_start :: "batch_config \<Rightarrow> batch_state" where
  "batch_start cfg = \<lparr>bs_next = 0, bs_running = [], bs_results = replicate (nat (Repetitions cfg)) None, bs_cancelled = False\<rparr>"

inductive batch_step :: "(string \<Rightarrow> string) \<Rightarrow> batch_config \<Rightarrow> (nat \<Rightarrow> agent_func) \<Rightarrow> batch_state \<Rightarrow> batch_state \<Rightarrow> bool"
  for quote cfg agent where
  spawn: "bs_next s < nat (Repetitions cfg) \<Longrightarrow> length (bs_running s) < nat (MaxParallel cfg) \<Longrightarrow>
    batch_step quote cfg agent s (s\<lparr>bs_next := Suc (bs_next s), bs_running := bs_running s @ [bs_next s]\<rparr>)"
| skip: "bs_next s < nat (Repetitions cfg) \<Longrightarrow> bs_cancelled s \<Longrightarrow>
    batch_step quote cfg agent s
      (s\<lparr>bs_next := Suc (bs_next s), bs_results := (bs_results s)[bs_next s := Some (skipped_run cfg (bs_next s))]\<rparr>)"
| finish: "i \<in> set (bs_running s) \<Longrightarrow>
    batch_step quote cfg agent s
      (s\<lparr>bs_running := remove1 i (bs_running s), bs_results := (bs_results s)[i := Some (runOne quote cfg agent i)]\<rparr>)"
| cancel: "\<not> bs_cancelled s \<Longrightarrow> batch_step quote cfg agent s (s\<lparr>bs_cancelled := True\<rparr>)"

text \<open>The batch returns when the loop is over and \<^verbatim>\<open>wg.Wait\<close> sees no goroutine.\<close>

definition batch_done :: "batch_config \<Rightarrow> batch_state \<Rightarrow> bool" where
  "batch_done cfg s \<longleftrightarrow> bs_next s = nat (Repetitions cfg) \<and> bs_running s = []"

datatype batch_error = RepetitionsNotPositive | ParallelNotPositive | AgentRequired

definition check_config :: "batch_config \<Rightarrow> bool \<Rightarrow> batch_error option" where
  "check_config cfg has_agent =
     (if Repetitions cfg \<le> 0 then Some RepetitionsNotPositive
      else if MaxParallel cfg \<le> 0 then Some ParallelNotPositive
      else if \<not> has_agent then Some AgentRequired else None)"

section \<open>Summary\<close>

record batch_summary =
  SumN :: nat
  SumCompleted :: nat
  SumPassed :: nat
  PassRate :: real
  CILow :: real
  CIHigh :: real
  MedianSteps :: real
  P95Steps :: real

definition wilsonZ95 :: real where "wilsonZ95 = 1959963984540054 / 10 ^ 15"

definition wilsonInterval :: "nat \<Rightarrow> nat \<Rightarrow> real \<times> real" where
  "wilsonInterval k n =
     (if n = 0 then (0, 0)
      else
        let p = real k / real n; z = wilsonZ95; nf = real n;
            denom = 1 + z * z / nf;
            center = p + z * z / (2 * nf);
            margin = z * sqrt (p * (1 - p) / nf + z * z / (4 * nf * nf));
            low = (center - margin) / denom;
            high = (center + margin) / denom
        in (if low < 0 then 0 else low, if high > 1 then 1 else high))"

definition step_percentile :: "real list \<Rightarrow> real \<Rightarrow> real" where
  "step_percentile values p =
     (if values = [] then 0
      else
        let xs = sort values in
        if length xs = 1 then xs ! 0
        else
          let rank = p * real (length xs - 1); lo = \<lfloor>rank\<rfloor>; hi = \<lceil>rank\<rceil> in
          if lo = hi then xs ! nat lo
          else let frac = rank - of_int lo in xs ! nat lo * (1 - frac) + xs ! nat hi * frac)"

text \<open>The loop over the results: completed, passed and the steps of the completed ones.\<close>

fun summarize_loop :: "run_result list \<Rightarrow> nat \<times> nat \<times> real list \<Rightarrow> nat \<times> nat \<times> real list" where
  "summarize_loop [] acc = acc"
| "summarize_loop (r # rs) (completed, passed, steps) =
     (if RunErr r \<noteq> None then summarize_loop rs (completed, passed, steps)
      else summarize_loop rs
        (Suc completed, if RunPassed r then Suc passed else passed, steps @ [real (StepCount r)]))"

definition Summarize :: "run_result list \<Rightarrow> batch_summary" where
  "Summarize results =
     (case summarize_loop results (0, 0, []) of
        (completed, passed, steps) \<Rightarrow>
          let s = \<lparr>SumN = length results, SumCompleted = completed, SumPassed = passed, PassRate = 0, CILow = 0,
                   CIHigh = 0, MedianSteps = 0, P95Steps = 0\<rparr>
          in if completed = 0 then s
             else s\<lparr>PassRate := real passed / real completed, CILow := fst (wilsonInterval passed completed),
                    CIHigh := snd (wilsonInterval passed completed), MedianSteps := step_percentile steps (1 / 2),
                    P95Steps := step_percentile steps (95 / 100)\<rparr>)"

section \<open>Subprocess, rows and events\<close>

definition enc_criterion :: "criterion \<Rightarrow> json" where
  "enc_criterion c =
     JObj ([(''type'', JStr (CriterionKind c))] @ enc_str_omit ''value'' (CrValue c) @
       (if CrValues c = [] then [] else [(''values'', JArr (map JStr (CrValues c)))]) @
       (if CrMax c = 0 then [] else [(''max'', JInt (CrMax c))]))"

definition stdin_payload :: "bench_task \<Rightarrow> int \<Rightarrow> json" where
  "stdin_payload t seed =
     JObj [(''task'', JObj
        [(''task_id'', JStr (TaskID t)), (''seed'', JInt (TaskSeed t)), (''prompt'', JStr (TaskPrompt t)),
         (''timeout_seconds'', JInt (TimeoutSeconds t)),
         (''tools_allowed'', case ToolsAllowed t of None \<Rightarrow> JNull | Some ws \<Rightarrow> JArr (map JStr ws)),
         (''success_criteria'', JArr (map enc_criterion (SuccessCriteria t)))]),
       (''seed'', JInt seed)]"

definition outcome_fields :: "run_outcome fields" where
  "outcome_fields =
     [(''final_output'', lens FinalOutput (\<lambda>x s. s\<lparr>FinalOutput := x\<rparr>) dec_string),
      (''tool_call_sequence'', lens ToolCalls (\<lambda>x s. s\<lparr>ToolCalls := x\<rparr>) (dec_slice dec_string []))]"

text \<open>A command that ran: it failed (or was killed), or wrote its standard output.\<close>

datatype command_exit = CommandFailed string | CommandOutput payload

definition AgentFunc :: "(json \<Rightarrow> command_exit) \<Rightarrow> agent_func" where
  "AgentFunc command t seed =
     (case command (stdin_payload t seed) of
        CommandFailed e \<Rightarrow> Inl e
      | CommandOutput out \<Rightarrow>
          (case unmarshal (dec_struct outcome_fields) out \<lparr>FinalOutput = [], ToolCalls = []\<rparr> of
             None \<Rightarrow> Inl ''subprocess: decode stdout as RunOutcome''
           | Some outcome \<Rightarrow> Inr outcome))"

record run_record =
  RecTaskID :: string
  RecAgent :: string
  RecIndex :: u32
  RecSeed :: int
  RecPassed :: bool
  RecSteps :: u32
  RecError :: string
  RecTimestamp :: int

text \<open>\<open>ctx_err\<close> is the text of \<^verbatim>\<open>ctx.Err()\<close>.\<close>

definition err_text :: "string \<Rightarrow> run_error option \<Rightarrow> string" where
  "err_text ctx_err e =
     (case e of None \<Rightarrow> [] | Some ContextDone \<Rightarrow> ctx_err | Some (AgentFailed m) \<Rightarrow> m)"

definition NewRunRecords :: "string \<Rightarrow> string \<Rightarrow> string \<Rightarrow> run_result list \<Rightarrow> int \<Rightarrow> run_record list" where
  "NewRunRecords ctx_err taskID agentName results ts =
     map (\<lambda>r. \<lparr>RecTaskID = taskID, RecAgent = agentName, RecIndex = word_of_nat (RepetitionIndex r),
               RecSeed = RunSeed r, RecPassed = RunPassed r, RecSteps = word_of_nat (StepCount r),
               RecError = err_text ctx_err (RunErr r), RecTimestamp = ts\<rparr>) results"

datatype batch_insert = InsertOk | PrepareErr | AppendErr nat | SendErr

text \<open>One batch insert: the rows are stored when the batch was sent.\<close>

definition WriteRuns :: "batch_insert \<Rightarrow> run_record list \<Rightarrow> run_record list \<Rightarrow> bool \<times> run_record list" where
  "WriteRuns env records table =
     (if records = [] then (True, table)
      else case env of
        PrepareErr \<Rightarrow> (False, table)
      | AppendErr i \<Rightarrow> if i < length records then (False, table) else (True, table @ records)
      | SendErr \<Rightarrow> (False, table)
      | InsertOk \<Rightarrow> (True, table @ records))"

definition batchStatus :: "batch_summary \<Rightarrow> string" where
  "batchStatus s = (if SumCompleted s = 0 then ''error'' else if PassRate s = 1 then ''pass'' else ''fail'')"

record batch_params =
  BpTask :: string
  BpAgent :: string
  BpTenant :: string
  BpBatch :: string
  BpDuration :: int
  BpCompletedAt :: "int option"

record bench_event =
  be_event_id :: string
  be_tenant :: string
  be_model :: string
  be_trace :: string
  be_timestamp_ms :: u64
  be_latency_ms :: u32
  be_prompt_tokens :: u32
  be_completion_tokens :: u32
  be_cost_usd :: real
  be_status :: string
  be_request_id :: string
  be_source :: string

definition BatchEvent :: "int \<Rightarrow> batch_summary \<Rightarrow> batch_params \<Rightarrow> bench_event" where
  "BatchEvent now summary p =
     \<lparr>be_event_id = BpBatch p, be_tenant = BpTenant p, be_model = BpAgent p, be_trace = BpTask p,
      be_timestamp_ms = word_of_int ((case BpCompletedAt p of None \<Rightarrow> now | Some t \<Rightarrow> t) div 10 ^ 6),
      be_latency_ms = (if 0 < BpDuration p then word_of_int (tdiv (BpDuration p) (10 ^ 6)) else 0),
      be_prompt_tokens = 0, be_completion_tokens = 0, be_cost_usd = 0,
      be_status = batchStatus summary, be_request_id = BpBatch p, be_source = ''benchmark_run''\<rparr>"

text \<open>The exchange with the ingest endpoint and what it received.\<close>

definition InsertBatchEvent ::
  "int option \<Rightarrow> int \<Rightarrow> batch_summary \<Rightarrow> batch_params \<Rightarrow> bench_event list \<Rightarrow> bool \<times> bench_event list" where
  "InsertBatchEvent http now summary p posted =
     (if BpTenant p = [] then (False, posted)
      else case http of
        None \<Rightarrow> (False, posted)
      | Some code \<Rightarrow> (code = 200 \<or> code = 202, posted @ [BatchEvent now summary p]))"

section \<open>The command\<close>

fun firstOutcome :: "run_result list \<Rightarrow> run_outcome option" where
  "firstOutcome [] = None"
| "firstOutcome (r # rs) = (if RunErr r = None then Some (RunOutcome r) else firstOutcome rs)"

definition batch_passed :: "batch_summary \<Rightarrow> bool" where
  "batch_passed s \<longleftrightarrow> 0 < SumCompleted s \<and> SumPassed s = SumCompleted s"

section \<open>Batches\<close>

inductive_cases batch_stepE: "batch_step quote cfg agent s s'"

abbreviation "batch_reaches quote cfg agent \<equiv> (batch_step quote cfg agent)\<^sup>*\<^sup>*"

text \<open>
  Slots are bounded, the repetitions in flight are different ones that were started, and every other
  started repetition has its result at its index.
\<close>

definition batch_inv :: "(string \<Rightarrow> string) \<Rightarrow> batch_config \<Rightarrow> (nat \<Rightarrow> agent_func) \<Rightarrow> batch_state \<Rightarrow> bool" where
  "batch_inv quote cfg agent s \<longleftrightarrow>
     bs_next s \<le> nat (Repetitions cfg) \<and> length (bs_results s) = nat (Repetitions cfg) \<and>
     distinct (bs_running s) \<and> set (bs_running s) \<subseteq> {..<bs_next s} \<and> length (bs_running s) \<le> nat (MaxParallel cfg) \<and>
     (\<forall>i < bs_next s. i \<notin> set (bs_running s) \<longrightarrow>
        bs_results s ! i = Some (runOne quote cfg agent i) \<or>
        bs_cancelled s \<and> bs_results s ! i = Some (skipped_run cfg i))"

lemma batch_inv_start: "batch_inv quote cfg agent (batch_start cfg)"
  by (simp add: batch_inv_def batch_start_def)

lemma batch_inv_step: "batch_step quote cfg agent s s' \<Longrightarrow> batch_inv quote cfg agent s \<Longrightarrow> batch_inv quote cfg agent s'"
proof (induction rule: batch_step.induct)
  case (spawn s)
  then have "bs_next s \<notin> set (bs_running s)" by (auto simp: batch_inv_def)
  with spawn show ?case by (auto simp: batch_inv_def less_Suc_eq)
next
  case (skip s)
  then show ?case by (auto simp: batch_inv_def less_Suc_eq nth_list_update)
next
  case (finish i s)
  then have "length (remove1 i (bs_running s)) \<le> nat (MaxParallel cfg)"
    by (auto simp: batch_inv_def length_remove1)
  moreover have "i < length (bs_results s)" using finish by (auto simp: batch_inv_def)
  ultimately show ?case
    using finish
    by (auto simp: batch_inv_def nth_list_update set_remove1_eq)
next
  case (cancel s)
  then show ?case by (simp add: batch_inv_def)
qed

lemma batch_inv_reachable: "batch_reaches quote cfg agent (batch_start cfg) s \<Longrightarrow> batch_inv quote cfg agent s"
  by (induction rule: rtranclp_induct) (auto simp: batch_inv_start intro: batch_inv_step)

text \<open>Each repetition is started once and finishes once, and the context is cancelled at most once.\<close>

definition batch_left :: "batch_config \<Rightarrow> batch_state \<Rightarrow> nat" where
  "batch_left cfg s =
     2 * (nat (Repetitions cfg) - bs_next s) + length (bs_running s) + (if bs_cancelled s then 0 else 1)"

lemma batch_step_decreases: "batch_step quote cfg agent s s' \<Longrightarrow> batch_left cfg s' < batch_left cfg s"
  by (induction rule: batch_step.induct) (auto simp: batch_left_def length_remove1 dest: length_pos_if_in_set)

text \<open>A batch that is not done can move on by itself: a goroutine finishes, or a slot is free.\<close>

lemma batch_progress:
  assumes "batch_inv quote cfg agent s" "\<not> batch_done cfg s" "0 < MaxParallel cfg"
  shows "\<exists>s'. batch_step quote cfg agent s s' \<and> bs_cancelled s' = bs_cancelled s"
proof (cases "bs_running s")
  case (Cons i rest)
  then have "i \<in> set (bs_running s)" by simp
  then show ?thesis using batch_step.finish [of i s quote cfg agent] by fastforce
next
  case Nil
  then have "bs_next s < nat (Repetitions cfg)" using assms by (auto simp: batch_inv_def batch_done_def)
  moreover have "length (bs_running s) < nat (MaxParallel cfg)" using Nil assms(3) by simp
  ultimately show ?thesis using batch_step.spawn [of s cfg quote agent] by fastforce
qed

lemma batch_completes:
  assumes "0 < MaxParallel cfg"
  shows "batch_inv quote cfg agent s \<Longrightarrow>
    \<exists>s'. batch_reaches quote cfg agent s s' \<and> batch_done cfg s' \<and> bs_cancelled s' = bs_cancelled s"
proof (induction "batch_left cfg s" arbitrary: s rule: less_induct)
  case less
  show ?case
  proof (cases "batch_done cfg s")
    case False
    then obtain s1 where s1: "batch_step quote cfg agent s s1" "bs_cancelled s1 = bs_cancelled s"
      using batch_progress less.prems assms by blast
    with less.hyps [OF batch_step_decreases] batch_inv_step less.prems show ?thesis
      by (metis converse_rtranclp_into_rtranclp)
  qed blast
qed

lemma batch_steps_bounded: "\<not> (batch_step quote cfg agent ^^ Suc (batch_left cfg s)) s s'"
proof
  have "(batch_step quote cfg agent ^^ n) a b \<Longrightarrow> n + batch_left cfg b \<le> batch_left cfg a" for n a b
    by (induction n arbitrary: b) (auto dest!: batch_step_decreases, fastforce)
  moreover assume "(batch_step quote cfg agent ^^ Suc (batch_left cfg s)) s s'"
  ultimately show False by fastforce
qed

text \<open>
  C16.  A batch over a valid configuration, under every interleaving of its goroutines and a
  cancellation at any time or never: no more than the configured number of repetitions is in flight;
  every run of steps is bounded, and a reachable state that is not done has a step that is not a
  cancellation and from it the batch completes without one, so no batch is ever stuck waiting for a
  slot; and in a completed batch the result at each index is that repetition's own graded run, or,
  only when the context was cancelled, the record of its cancellation.
\<close>

theorem batch_results_by_index:
  assumes "check_config cfg True = None" "batch_reaches quote cfg agent (batch_start cfg) s"
  shows "int (length (bs_running s)) \<le> MaxParallel cfg \<and>
    (\<exists>n. \<forall>s'. \<not> (batch_step quote cfg agent ^^ Suc n) s s') \<and>
    (batch_done cfg s \<or> (\<exists>s'. batch_step quote cfg agent s s' \<and> bs_cancelled s' = bs_cancelled s)) \<and>
    (\<exists>s'. batch_reaches quote cfg agent s s' \<and> batch_done cfg s' \<and> bs_cancelled s' = bs_cancelled s) \<and>
    (if batch_done cfg s
     then length (bs_results s) = nat (Repetitions cfg) \<and>
       list_all2 (\<lambda>r i. r = Some (runOne quote cfg agent i) \<or> bs_cancelled s \<and> r = Some (skipped_run cfg i))
         (bs_results s) [0..<nat (Repetitions cfg)]
     else True)"
proof -
  have inv: "batch_inv quote cfg agent s" by (rule batch_inv_reachable [OF assms(2)])
  have par: "0 < MaxParallel cfg" using assms(1) by (simp add: check_config_def split: if_splits)
  have "int (length (bs_running s)) \<le> MaxParallel cfg"
    using inv par by (auto simp: batch_inv_def)
  moreover have "length (bs_results s) = nat (Repetitions cfg) \<and>
      list_all2 (\<lambda>r i. r = Some (runOne quote cfg agent i) \<or> bs_cancelled s \<and> r = Some (skipped_run cfg i))
        (bs_results s) [0..<nat (Repetitions cfg)]" if "batch_done cfg s"
    using inv that by (auto simp: batch_inv_def batch_done_def list_all2_conv_all_nth)
  ultimately show ?thesis
    using batch_completes [OF par inv] batch_progress [OF inv _ par] batch_steps_bounded by meson
qed

definition demo_task :: bench_task where
  "demo_task = \<lparr>TaskID = ''t'', TaskSeed = 7, TaskPrompt = ''p'', TimeoutSeconds = 1, ToolsAllowed = None,
     SuccessCriteria = [\<lparr>CriterionKind = ''max_tool_calls'', CrValue = [], CrValues = [], CrMax = 1\<rparr>]\<rparr>"

definition demo_batch :: batch_config where
  "demo_batch = \<lparr>BatchTask = demo_task, BatchAgent = ''a'', Repetitions = 2, MaxParallel = 1\<rparr>"

definition demo_agent :: "nat \<Rightarrow> agent_func" where
  "demo_agent i t seed = Inr \<lparr>FinalOutput = [], ToolCalls = [''x'']\<rparr>"

theorem batch_results_by_index_witness:
  "\<exists>s. batch_reaches id demo_batch demo_agent (batch_start demo_batch) s \<and> batch_done demo_batch s \<and>
     \<not> bs_cancelled s \<and> bs_results s = map (\<lambda>i. Some (runOne id demo_batch demo_agent i)) [0..<2]"
proof -
  have ok: "check_config demo_batch True = None" by (simp add: check_config_def demo_batch_def)
  have "\<not> bs_cancelled (batch_start demo_batch)" by (simp add: batch_start_def)
  with batch_results_by_index [OF ok rtranclp.rtrancl_refl, of id demo_agent]
  obtain s where s: "batch_reaches id demo_batch demo_agent (batch_start demo_batch) s" "batch_done demo_batch s"
    "\<not> bs_cancelled s" by auto
  from batch_results_by_index [OF ok s(1)] s
  have "list_all2 (\<lambda>r i. r = Some (runOne id demo_batch demo_agent i)) (bs_results s) [0..<2]"
    by (simp add: demo_batch_def)
  then have "bs_results s = map (\<lambda>i. Some (runOne id demo_batch demo_agent i)) [0..<2]"
    by (auto simp: list_all2_conv_all_nth intro!: nth_equalityI)
  with s show ?thesis by blast
qed

section \<open>Grading and comparison\<close>

text \<open>What a criterion asks of a run.\<close>

definition satisfies :: "criterion \<Rightarrow> run_outcome \<Rightarrow> bool" where
  "satisfies c outcome \<longleftrightarrow>
     CriterionKind c = ''final_output_contains'' \<and> (\<exists>a b. FinalOutput outcome = a @ CrValue c @ b) \<or>
     CriterionKind c = ''final_output_exact'' \<and> FinalOutput outcome = CrValue c \<or>
     CriterionKind c = ''tool_call_sequence'' \<and> ToolCalls outcome = CrValues c \<or>
     CriterionKind c = ''max_tool_calls'' \<and> int (length (ToolCalls outcome)) \<le> CrMax c"

lemma contains_iff: "contains s p \<longleftrightarrow> (\<exists>a b. s = a @ p @ b)"
proof (induction s)
  case Nil
  then show ?case by (cases p) auto
next
  case (Cons c s)
  have "(\<exists>a b. c # s = a @ p @ b) \<longleftrightarrow> has_prefix (c # s) p \<or> (\<exists>a b. s = a @ p @ b)"
    by (auto simp: has_prefix_iff Cons_eq_append_conv)
  with Cons show ?case by simp
qed

lemma equalSequence_iff [simp]: "equalSequence a b \<longleftrightarrow> a = b"
  by (auto simp: equalSequence_def list_all_iff intro: nth_equalityI)

lemma EvaluateCriterion_passed: "CrPassed (EvaluateCriterion quote c outcome) \<longleftrightarrow> satisfies c outcome"
  by (auto simp: EvaluateCriterion_def satisfies_def contains_iff Let_def)

lemma AllPassed_iff: "AllPassed rs \<longleftrightarrow> list_all CrPassed rs"
  by (induction rs) auto

lemma EvaluateAll_passed: "AllPassed (EvaluateAll quote cs outcome) \<longleftrightarrow> list_all (\<lambda>c. satisfies c outcome) cs"
  by (simp add: AllPassed_iff EvaluateAll_def list_all_iff EvaluateCriterion_passed)

lemma first_divergence_None: "first_divergence i as bs = None \<longleftrightarrow> as = bs"
  by (induction i as bs rule: first_divergence.induct) auto

lemma first_divergence_Some:
  "first_divergence i as bs = Some d \<Longrightarrow>
     \<exists>n. DivStep d = i + n \<and> take n as = take n bs \<and> (n < length as \<or> n < length bs) \<and>
       (if n < length as \<and> n < length bs then as ! n \<noteq> bs ! n else n = length as \<or> n = length bs) \<and>
       DivToolA d = (if n < length as then as ! n else []) \<and> DivToolB d = (if n < length bs then bs ! n else [])"
proof (induction i as bs rule: first_divergence.induct)
  case (1 i a as b bs)
  show ?case
  proof (cases "a = b")
    case False
    with 1(2) show ?thesis by (intro exI [of _ 0]) auto
  next
    case True
    with 1 obtain n where "DivStep d = Suc i + n" "take n as = take n bs" "n < length as \<or> n < length bs"
      "if n < length as \<and> n < length bs then as ! n \<noteq> bs ! n else n = length as \<or> n = length bs"
      "DivToolA d = (if n < length as then as ! n else [])" "DivToolB d = (if n < length bs then bs ! n else [])"
      by auto
    with True show ?thesis by (intro exI [of _ "Suc n"]) auto
  qed
qed (auto intro!: exI [of _ 0])

text \<open>
  Observation.  Comparing two agents on a validated task: each agent passes exactly when its run satisfies
  every criterion; the sequences match exactly when the tool calls are equal; and a reported
  divergence is the first step at which they differ, with the tools of both sides.
\<close>

theorem compare_agents_correct:
  "let r = CompareAgents quote t runA runB; as = ToolCalls (AgentOutcome runA); bs = ToolCalls (AgentOutcome runB) in
     (CmpPassedA r \<longleftrightarrow> list_all (\<lambda>c. satisfies c (AgentOutcome runA)) (SuccessCriteria t)) \<and>
     (CmpPassedB r \<longleftrightarrow> list_all (\<lambda>c. satisfies c (AgentOutcome runB)) (SuccessCriteria t)) \<and>
     (SequenceMatch r \<longleftrightarrow> as = bs) \<and>
     (case CmpDivergence r of
        None \<Rightarrow> as = bs
      | Some d \<Rightarrow> let n = DivStep d in
          take n as = take n bs \<and> (n < length as \<or> n < length bs) \<and>
          (if n < length as \<and> n < length bs then as ! n \<noteq> bs ! n else n = length as \<or> n = length bs) \<and>
          DivToolA d = (if n < length as then as ! n else []) \<and> DivToolB d = (if n < length bs then bs ! n else []))"
proof -
  let ?as = "ToolCalls (AgentOutcome runA)" and ?bs = "ToolCalls (AgentOutcome runB)"
  show ?thesis
  proof (cases "first_divergence 0 ?as ?bs")
    case None
    moreover from this have "?as = ?bs" by (simp add: first_divergence_None)
    ultimately show ?thesis by (simp add: CompareAgents_def Let_def EvaluateAll_passed)
  next
    case (Some d)
    then have "?as \<noteq> ?bs" by (metis first_divergence_None option.distinct(1))
    with Some first_divergence_Some [OF Some] show ?thesis
      by (auto simp: CompareAgents_def Let_def EvaluateAll_passed)
  qed
qed

section \<open>The summary\<close>

text \<open>The square of the margin exceeds the square of the distance of the rate to the centre.\<close>

lemma wilson_margin:
  fixes p n z :: real
  assumes "0 \<le> p" "p \<le> 1" "0 < n" "0 \<le> z"
  defines "margin \<equiv> z * sqrt (p * (1 - p) / n + z * z / (4 * n * n))"
  shows "\<bar>z * z * (1 - 2 * p) / (2 * n)\<bar> \<le> margin"
proof -
  have pp: "0 \<le> p * (1 - p)" using assms by simp
  have rad: "0 \<le> p * (1 - p) / n + z * z / (4 * n * n)"
    using pp assms(3) by (intro add_nonneg_nonneg) auto
  have "margin\<^sup>2 = z\<^sup>2 * (p * (1 - p) / n + z * z / (4 * n * n))"
    using rad by (simp add: margin_def power_mult_distrib)
  also have "\<dots> = (z * z * (1 - 2 * p) / (2 * n))\<^sup>2 + z\<^sup>2 * (p * (1 - p)) / n + z ^ 4 * (p * (1 - p)) / n\<^sup>2"
    using assms(3) by (simp add: field_simps power2_eq_square power4_eq_xxxx)
  finally have "(z * z * (1 - 2 * p) / (2 * n))\<^sup>2 \<le> margin\<^sup>2"
    using pp assms(3) by simp
  moreover have "0 \<le> margin" using rad assms(4) by (simp add: margin_def)
  ultimately show ?thesis by (metis abs_le_square_iff abs_of_nonneg)
qed

lemma wilson_contains:
  assumes "k \<le> n" "0 < n"
  shows "0 \<le> fst (wilsonInterval k n)" "fst (wilsonInterval k n) \<le> real k / real n"
    and "real k / real n \<le> snd (wilsonInterval k n)" "snd (wilsonInterval k n) \<le> 1"
proof -
  define p z nf where "p = real k / real n" and "z = wilsonZ95" and "nf = real n"
  define margin where "margin = z * sqrt (p * (1 - p) / nf + z * z / (4 * nf * nf))"
  have p: "0 \<le> p" "p \<le> 1" and nf: "0 < nf" and z: "0 \<le> z"
    using assms by (simp_all add: p_def nf_def z_def wilsonZ95_def)
  have m: "\<bar>z * z * (1 - 2 * p) / (2 * nf)\<bar> \<le> margin" unfolding margin_def by (rule wilson_margin [OF p nf z])
  have d: "0 < 1 + z * z / nf" using nf by (simp add: add_pos_nonneg)
  have c: "p + z * z / (2 * nf) = p * (1 + z * z / nf) + z * z * (1 - 2 * p) / (2 * nf)"
    using nf by (simp add: field_simps)
  have "p * (1 + z * z / nf) \<le> p + z * z / (2 * nf) + margin" "p + z * z / (2 * nf) - margin \<le> p * (1 + z * z / nf)"
    unfolding c using abs_le_D1 [OF m] abs_le_D2 [OF m] by linarith+
  then have lo: "(p + z * z / (2 * nf) - margin) / (1 + z * z / nf) \<le> p"
    and hi: "p \<le> (p + z * z / (2 * nf) + margin) / (1 + z * z / nf)"
    using d by (simp_all add: divide_le_eq le_divide_eq)
  have w: "wilsonInterval k n =
      (if (p + z * z / (2 * nf) - margin) / (1 + z * z / nf) < 0 then 0 else (p + z * z / (2 * nf) - margin) / (1 + z * z / nf),
       if (p + z * z / (2 * nf) + margin) / (1 + z * z / nf) > 1 then 1 else (p + z * z / (2 * nf) + margin) / (1 + z * z / nf))"
    using assms(2) by (simp only: wilsonInterval_def Let_def p_def z_def nf_def margin_def neq0_conv if_False) simp
  show "0 \<le> fst (wilsonInterval k n)" "fst (wilsonInterval k n) \<le> real k / real n"
    "real k / real n \<le> snd (wilsonInterval k n)" "snd (wilsonInterval k n) \<le> 1"
    using lo hi p unfolding w p_def [symmetric] by (simp_all split: if_splits)
qed

lemma summarize_loop_eq:
  "summarize_loop rs (c, p, st) =
     (c + length (filter (\<lambda>r. RunErr r = None) rs), p + length (filter (\<lambda>r. RunErr r = None \<and> RunPassed r) rs),
      st @ map (real \<circ> StepCount) (filter (\<lambda>r. RunErr r = None) rs))"
  by (induction rs arbitrary: c p st) auto

text \<open>
  Observation.  The summary of a batch: the counts are those of the completed and the passed repetitions, and
  when at least one completed, the confidence interval lies within 0 and 1 and contains the pass
  rate; a batch without a completed repetition reports zeros.
\<close>

theorem summary_interval_contains_rate:
  "let s = Summarize results; completed = filter (\<lambda>r. RunErr r = None) results in
     SumN s = length results \<and> SumCompleted s = length completed \<and> SumPassed s = length (filter RunPassed completed) \<and>
     (if completed = [] then PassRate s = 0 \<and> CILow s = 0 \<and> CIHigh s = 0
      else PassRate s = real (SumPassed s) / real (SumCompleted s) \<and>
        0 \<le> CILow s \<and> CILow s \<le> PassRate s \<and> PassRate s \<le> CIHigh s \<and> CIHigh s \<le> 1)"
proof -
  let ?c = "filter (\<lambda>r. RunErr r = None) results"
  have p: "length (filter (\<lambda>r. RunErr r = None \<and> RunPassed r) results) = length (filter RunPassed ?c)"
    by (simp add: conj_commute)
  show ?thesis
  proof (cases "?c = []")
    case True
    then have "length (filter (\<lambda>r. RunErr r = None \<and> RunPassed r) results) = 0" unfolding p by simp
    with True show ?thesis by (simp add: Summarize_def summarize_loop_eq Let_def)
  next
    case False
    have "length (filter RunPassed ?c) \<le> length ?c" by (rule length_filter_le)
    with False wilson_contains [of "length (filter RunPassed ?c)" "length ?c"] show ?thesis
      by (simp add: Summarize_def summarize_loop_eq Let_def p del: filter_filter)
  qed
qed

text \<open>A batch in which at least one repetition completed and every completed one passed.\<close>

definition all_passed :: "run_result list \<Rightarrow> bool" where
  "all_passed rs \<longleftrightarrow> list_ex (\<lambda>r. RunErr r = None) rs \<and> list_all RunPassed (filter (\<lambda>r. RunErr r = None) rs)"

lemma firstOutcome_defined: "firstOutcome rs \<noteq> None \<longleftrightarrow> list_ex (\<lambda>r. RunErr r = None) rs"
  by (induction rs) auto

lemma batch_passed_iff: "batch_passed (Summarize rs) \<longleftrightarrow> all_passed rs"
proof -
  have all: "length (filter (\<lambda>r. RunErr r = None \<and> RunPassed r) rs) = length (filter (\<lambda>r. RunErr r = None) rs) \<longleftrightarrow>
      list_all RunPassed (filter (\<lambda>r. RunErr r = None) rs)" for rs
  proof (induction rs)
    case (Cons r rs)
    have "length (filter (\<lambda>r. RunErr r = None \<and> RunPassed r) rs) \<le> length (filter (\<lambda>r. RunErr r = None) rs)"
      by (induction rs) auto
    with Cons show ?case by auto
  qed simp
  have "filter (\<lambda>r. RunErr r = None) rs \<noteq> [] \<longleftrightarrow> list_ex (\<lambda>r. RunErr r = None) rs" by (induction rs) auto
  then show ?thesis by (auto simp: all_passed_def batch_passed_def Summarize_def summarize_loop_eq Let_def all)
qed

end
