(* ===== verification/Bench_Report.thy ===== *)
theory Bench_Report
  imports Bench_Run
begin

text \<open>
  The reports of the benchmark runner (\<^verbatim>\<open>agent-benchmark-runner/pkg/report\<close>): the report of a
  comparison with its markdown and JSON forms, the timeline, the flame graph by cost and the landing
  page.

  A drawing is a list of elements with their coordinates and the texts between the tags;
  \<open>show_svg\<close> prints an element as the format strings of the sources do.  The text of a cost
  (\<^verbatim>\<open>%.4f\<close>) and the style sheet of the landing page are arguments.
\<close>

section \<open>Report\<close>

record bench_report =
  RpTaskID :: string
  RpAgentA :: string
  RpAgentB :: string
  ToolCallsA :: "string list"
  ToolCallsB :: "string list"
  RpPassedA :: bool
  RpPassedB :: bool
  RpMatch :: bool
  DivergenceStep :: int
  Headline :: string

definition headline :: "bench_report \<Rightarrow> string" where
  "headline r =
     (let base = itoa (int (length (ToolCallsA r))) @ '' calls vs '' @ itoa (int (length (ToolCallsB r))) in
      if RpMatch r then base @ '', sequences matched''
      else base @ '', diverged at step '' @ itoa (DivergenceStep r))"

definition BuildReport :: "compare_result \<Rightarrow> string list \<Rightarrow> string list \<Rightarrow> bench_report" where
  "BuildReport res callsA callsB =
     (let r = \<lparr>RpTaskID = CmpTaskID res, RpAgentA = CmpAgentA res, RpAgentB = CmpAgentB res, ToolCallsA = callsA,
               ToolCallsB = callsB, RpPassedA = CmpPassedA res, RpPassedB = CmpPassedB res,
               RpMatch = SequenceMatch res,
               DivergenceStep = (case CmpDivergence res of None \<Rightarrow> - 1 | Some d \<Rightarrow> int (DivStep d)), Headline = []\<rparr>
      in r\<lparr>Headline := headline r\<rparr>)"

definition nl :: string where "nl = [char_of (10 :: nat)]"
definition em_dash :: string where "em_dash = map (char_of :: nat \<Rightarrow> char) [226, 128, 148]"
definition ellipsis :: string where "ellipsis = map (char_of :: nat \<Rightarrow> char) [226, 128, 166]"

definition passFail :: "bool \<Rightarrow> string" where
  "passFail passed = (if passed then ''PASS'' else ''FAIL'')"

definition markdown_row :: "string \<Rightarrow> nat \<Rightarrow> bool \<Rightarrow> string" where
  "markdown_row agent calls passed = ''| '' @ agent @ '' | '' @ itoa (int calls) @ '' | '' @ passFail passed @ '' |'' @ nl"

definition RenderMarkdown :: "bench_report \<Rightarrow> string" where
  "RenderMarkdown r =
     ''# Benchmark Report '' @ em_dash @ '' '' @ RpTaskID r @ nl @ nl @
     ''**'' @ Headline r @ ''**'' @ nl @ nl @
     ''| Agent | Calls | Result |'' @ nl @ ''|---|---|---|'' @ nl @
     markdown_row (RpAgentA r) (length (ToolCallsA r)) (RpPassedA r) @
     markdown_row (RpAgentB r) (length (ToolCallsB r)) (RpPassedB r) @ nl @
     (if RpMatch r then ''Tool call sequences matched exactly.'' @ nl
      else ''Tool call sequences diverged at step '' @ itoa (DivergenceStep r) @ ''.'' @ nl)"

definition enc_report :: "bench_report \<Rightarrow> json" where
  "enc_report r =
     JObj [(''task_id'', JStr (RpTaskID r)), (''agent_a'', JStr (RpAgentA r)), (''agent_b'', JStr (RpAgentB r)),
       (''tool_calls_a'', JArr (map JStr (ToolCallsA r))), (''tool_calls_b'', JArr (map JStr (ToolCallsB r))),
       (''passed_a'', JBool (RpPassedA r)), (''passed_b'', JBool (RpPassedB r)),
       (''sequence_match'', JBool (RpMatch r)), (''divergence_step'', JInt (DivergenceStep r)),
       (''headline'', JStr (Headline r))]"

section \<open>Drawings\<close>

text \<open>\<^verbatim>\<open>html.EscapeString\<close>.\<close>

definition escape_char :: "char \<Rightarrow> string" where
  "escape_char c =
     (if c = CHR ''&'' then ''&amp;'' else if of_char c = (39 :: nat) then ''&#39;''
      else if c = CHR ''<'' then ''&lt;'' else if c = CHR ''>'' then ''&gt;''
      else if of_char c = (34 :: nat) then ''&#34;'' else [c])"

definition EscapeString :: "string \<Rightarrow> string" where
  "EscapeString s = concat (map escape_char s)"

definition truncateLabel :: "string \<Rightarrow> nat \<Rightarrow> string" where
  "truncateLabel s max1 =
     (if length s \<le> max1 then s else if max1 \<le> 1 then take max1 s else take (max1 - 1) s @ ellipsis)"

text \<open>
  A box with its title, an empty dashed slot, and a text with its font size, colour and anchor.
\<close>

datatype svg =
  SvgBox int int int int string string "string option" string
  | SvgSlot int int int int string
  | SvgText int int int string bool string

definition dq :: string where "dq = [char_of (34 :: nat)]"

definition attr :: "string \<Rightarrow> string \<Rightarrow> string" where
  "attr k v = '' '' @ k @ ''='' @ dq @ v @ dq"

fun show_svg :: "svg \<Rightarrow> string" where
  "show_svg (SvgBox x y w h fill stroke strokeW title) =
     ''<rect'' @ attr ''x'' (itoa x) @ attr ''y'' (itoa y) @ attr ''width'' (itoa w) @ attr ''height'' (itoa h) @
     attr ''fill'' fill @ attr ''stroke'' stroke @ (case strokeW of None \<Rightarrow> [] | Some v \<Rightarrow> attr ''stroke-width'' v) @
     attr ''rx'' ''4'' @ ''><title>'' @ title @ ''</title></rect>'' @ nl"
| "show_svg (SvgSlot x y w h stroke) =
     ''<rect'' @ attr ''x'' (itoa x) @ attr ''y'' (itoa y) @ attr ''width'' (itoa w) @ attr ''height'' (itoa h) @
     attr ''fill'' ''none'' @ attr ''stroke'' stroke @ attr ''stroke-dasharray'' ''3,3'' @ attr ''rx'' ''4'' @ ''/>'' @ nl"
| "show_svg (SvgText x y sz fill middle content) =
     ''<text'' @ attr ''x'' (itoa x) @ attr ''y'' (itoa y) @ attr ''font-size'' (itoa sz) @ attr ''fill'' fill @
     (if middle then attr ''text-anchor'' ''middle'' else []) @ ''>'' @ content @ ''</text>'' @ nl"

definition svg_document :: "int \<Rightarrow> int \<Rightarrow> svg list \<Rightarrow> string" where
  "svg_document width height elems =
     ''<svg'' @ attr ''xmlns'' ''http://www.w3.org/2000/svg'' @ attr ''viewBox'' (''0 0 '' @ itoa width @ '' '' @ itoa height) @
     attr ''width'' (itoa width) @ attr ''height'' (itoa height) @ attr ''font-family'' ''monospace'' @ ''>'' @ nl @
     ''<rect'' @ attr ''x'' ''0'' @ attr ''y'' ''0'' @ attr ''width'' (itoa width) @ attr ''height'' (itoa height) @
     attr ''fill'' ''none'' @ ''/>'' @ nl @ concat (map show_svg elems) @ ''</svg>'' @ nl"

section \<open>Timeline\<close>

definition textColor :: string where "textColor = ''#f0f4f8''"
definition mutedText :: string where "mutedText = ''#8ba3bd''"
definition strokeBeyond :: string where "strokeBeyond = ''#33475b''"
definition matched_colors :: "string \<times> string" where "matched_colors = (''#0d2137'', ''#4a90d9'')"
definition divergent_colors :: "string \<times> string" where "divergent_colors = (''#5f1e26'', ''#e0665a'')"
definition beyond_colors :: "string \<times> string" where "beyond_colors = (''#13202f'', strokeBeyond)"

text \<open>The layout constants are written out: boxes of 88 by 32 with gap 8, margins 16, gutter 96.\<close>

definition box_x :: "nat \<Rightarrow> int" where
  "box_x i = 16 + 96 + int i * (88 + 8)"

definition box_colors :: "bool \<Rightarrow> int \<Rightarrow> nat \<Rightarrow> string \<times> string" where
  "box_colors sequenceMatch divergenceStep i =
     (if \<not> sequenceMatch \<and> int i = divergenceStep then divergent_colors
      else if \<not> sequenceMatch \<and> divergenceStep < int i then beyond_colors
      else matched_colors)"

definition row_slot :: "string list \<Rightarrow> int \<Rightarrow> int \<Rightarrow> bool \<Rightarrow> nat \<Rightarrow> svg list" where
  "row_slot seq y divergenceStep sequenceMatch i =
     (if length seq \<le> i then [SvgSlot (box_x i) y 88 32 strokeBeyond]
      else
        let (fill, stroke) = box_colors sequenceMatch divergenceStep i in
        [SvgBox (box_x i) y 88 32 fill stroke None (EscapeString (seq ! i)),
         SvgText (box_x i + 44) (y + 16 + 4) 10 textColor True (EscapeString (truncateLabel (seq ! i) 12))])"

definition renderRow :: "string \<Rightarrow> string list \<Rightarrow> int \<Rightarrow> nat \<Rightarrow> int \<Rightarrow> bool \<Rightarrow> svg list" where
  "renderRow agentName seq y n divergenceStep sequenceMatch =
     SvgText 16 (y + 16 + 4) 11 textColor False (truncateLabel agentName 14) #
     concat (map (row_slot seq y divergenceStep sequenceMatch) [0..<n])"

definition timeline_steps :: "bench_report \<Rightarrow> nat" where
  "timeline_steps r = max (length (ToolCallsA r)) (length (ToolCallsB r))"

definition timeline_elems :: "bench_report \<Rightarrow> svg list" where
  "timeline_elems r =
     (let n = timeline_steps r; rowAY = 16 + 18; rowBY = rowAY + 32 + 40 in
      map (\<lambda>i. SvgText (box_x i + 44 - 4) (16 + 18 - 6) 10 mutedText False (itoa (int i))) [0..<n] @
      renderRow (RpAgentA r) (ToolCallsA r) rowAY n (DivergenceStep r) (RpMatch r) @
      renderRow (RpAgentB r) (ToolCallsB r) rowBY n (DivergenceStep r) (RpMatch r))"

definition RenderTimelineSVG :: "bench_report \<Rightarrow> string" where
  "RenderTimelineSVG r =
     (let cols = max (timeline_steps r) 1; width = 16 * 2 + 96 + int cols * 88 + (int cols - 1) * 8;
          height = 16 + 18 + 32 + 40 + 32 + 16
      in svg_document width height (timeline_elems r))"

section \<open>Landing page\<close>

definition landing_row :: "string \<Rightarrow> nat \<Rightarrow> bool \<Rightarrow> string" where
  "landing_row agent calls passed =
     ''<tr><td>'' @ EscapeString agent @ ''</td><td>'' @ itoa (int calls) @ ''</td><td class='' @ dq @
     (if passed then ''pass'' else ''fail'') @ dq @ ''>'' @ passFail passed @ ''</td></tr>'' @ nl"

definition RenderLandingHTML :: "string \<Rightarrow> bench_report \<Rightarrow> string \<Rightarrow> string" where
  "RenderLandingHTML css r lensaiLink =
     ''<!DOCTYPE html>'' @ nl @ ''<html lang='' @ dq @ ''en'' @ dq @ ''>'' @ nl @ ''<head>'' @ nl @
     ''<meta charset='' @ dq @ ''utf-8'' @ dq @ ''>'' @ nl @
     ''<title>Benchmark Report '' @ em_dash @ '' '' @ EscapeString (RpTaskID r) @ ''</title>'' @ nl @ css @
     ''</head>'' @ nl @ ''<body>'' @ nl @ ''<main>'' @ nl @
     ''<h1>Benchmark Report '' @ em_dash @ '' '' @ EscapeString (RpTaskID r) @ ''</h1>'' @ nl @
     ''<p class='' @ dq @ ''headline'' @ dq @ ''>'' @ EscapeString (Headline r) @ ''</p>'' @ nl @
     ''<table>'' @ nl @ ''<thead><tr><th>Agent</th><th>Calls</th><th>Result</th></tr></thead>'' @ nl @ ''<tbody>'' @ nl @
     landing_row (RpAgentA r) (length (ToolCallsA r)) (RpPassedA r) @
     landing_row (RpAgentB r) (length (ToolCallsB r)) (RpPassedB r) @
     ''</tbody>'' @ nl @ ''</table>'' @ nl @
     ''<div class='' @ dq @ ''timeline'' @ dq @ ''>'' @ nl @ RenderTimelineSVG r @ ''</div>'' @ nl @
     (if lensaiLink = [] then []
      else ''<p class='' @ dq @ ''lensai'' @ dq @ ''><a href='' @ dq @ EscapeString lensaiLink @ dq @
        ''>View this batch in LensAI &rarr;</a></p>'' @ nl) @
     ''</main>'' @ nl @ ''</body>'' @ nl @ ''</html>'' @ nl"

section \<open>Flame graph\<close>

record cost_report =
  CostBase :: bench_report
  CostsA :: "real list"
  CostsB :: "real list"

definition BuildCostReport :: "bench_report \<Rightarrow> real list \<Rightarrow> real list \<Rightarrow> cost_report option" where
  "BuildCostReport r costsA costsB =
     (if length costsA \<noteq> length (ToolCallsA r) then None
      else if length costsB \<noteq> length (ToolCallsB r) then None
      else Some \<lparr>CostBase = r, CostsA = costsA, CostsB = costsB\<rparr>)"

definition flameMinWidth :: int where "flameMinWidth = 40"
definition flameMaxWidth :: int where "flameMaxWidth = 220"
definition flameGap :: int where "flameGap = 4"

definition widthForCost :: "real \<Rightarrow> real \<Rightarrow> int" where
  "widthForCost cost maxCost =
     (if maxCost \<le> 0 \<or> cost \<le> 0 then flameMinWidth
      else
        let ratio = cost / maxCost; ratio = (if ratio > 1 then 1 else ratio)
        in flameMinWidth + \<lfloor>ratio * of_int (flameMaxWidth - flameMinWidth)\<rfloor>)"

text \<open>\<^verbatim>\<open>hexRGB\<close> is only called on the four colour constants, which are well-formed.\<close>

definition hex_digit :: "char \<Rightarrow> nat" where
  "hex_digit c = (let n = of_char c in if n \<ge> 97 then n - 87 else n - 48)"

definition hexRGB :: "string \<Rightarrow> nat \<times> nat \<times> nat" where
  "hexRGB s =
     (case trim_prefix s ''#'' of
        [a, b, c, d, e, f] \<Rightarrow>
          (16 * hex_digit a + hex_digit b, 16 * hex_digit c + hex_digit d, 16 * hex_digit e + hex_digit f)
      | _ \<Rightarrow> (0, 0, 0))"

definition lerpByte :: "nat \<Rightarrow> nat \<Rightarrow> real \<Rightarrow> nat" where
  "lerpByte a b t =
     (let v = real a + t * (real b - real a) in if v < 0 then 0 else if v > 255 then 255 else nat \<lfloor>v\<rfloor>)"

definition hex_char :: "nat \<Rightarrow> char" where
  "hex_char n = (if n < 10 then char_of (48 + n) else char_of (87 + n))"

definition hex2 :: "nat \<Rightarrow> string" where
  "hex2 n = [hex_char (n div 16), hex_char (n mod 16)]"

definition lerpHex :: "string \<Rightarrow> string \<Rightarrow> real \<Rightarrow> string" where
  "lerpHex a b t =
     (case (hexRGB a, hexRGB b) of
        ((ar, ag, ab), (br, bg, bb)) \<Rightarrow> ''#'' @ hex2 (lerpByte ar br t) @ hex2 (lerpByte ag bg t) @ hex2 (lerpByte ab bb t))"

definition costColor :: "real \<Rightarrow> real \<Rightarrow> string \<times> string" where
  "costColor cost maxCost =
     (if maxCost \<le> 0 then (''#0d2137'', ''#4a90d9'')
      else
        let t = cost / maxCost; t = (if t < 0 then 0 else t); t = (if t > 1 then 1 else t)
        in (lerpHex ''#0d2137'' ''#e0665a'' t, lerpHex ''#4a90d9'' ''#ffb199'' t))"

definition rowWidth :: "real list \<Rightarrow> real \<Rightarrow> int" where
  "rowWidth costs maxCost =
     (if costs = [] then 0
      else foldl (\<lambda>total c. total + widthForCost c maxCost) 0 costs + flameGap * int (length costs - 1))"

definition peakCost :: "real list \<Rightarrow> real list \<Rightarrow> real" where
  "peakCost costsA costsB = foldl (\<lambda>m c. if c > m then c else m) (foldl (\<lambda>m c. if c > m then c else m) 0 costsA) costsB"

fun peak_from :: "nat \<Rightarrow> (nat \<times> real) option \<Rightarrow> real list \<Rightarrow> nat option" where
  "peak_from i best [] = map_option fst best"
| "peak_from i best (c # cs) =
     peak_from (Suc i) (case best of None \<Rightarrow> Some (i, c) | Some (j, m) \<Rightarrow> if c > m then Some (i, c) else Some (j, m)) cs"

text \<open>\<^verbatim>\<open>peakIndex\<close>, with \<open>None\<close> for -1.\<close>

definition peakIndex :: "real list \<Rightarrow> nat option" where
  "peakIndex costs = peak_from 0 None costs"

fun flame_boxes :: "(real \<Rightarrow> string) \<Rightarrow> real list \<Rightarrow> real \<Rightarrow> int \<Rightarrow> nat \<Rightarrow> int \<Rightarrow> string list \<Rightarrow> svg list" where
  "flame_boxes fmt4 costs maxCost y i x [] = []"
| "flame_boxes fmt4 costs maxCost y i x (call # calls) =
     (let cost = (if i < length costs then costs ! i else 0);
          w = widthForCost cost maxCost; (fill, stroke) = costColor cost maxCost;
          strokeW = (if peakIndex costs = Some i then ''3'' else ''1'')
      in SvgBox x y w 32 fill stroke (Some strokeW) (EscapeString call @ '': $'' @ fmt4 cost) #
         SvgText (x + w div 2) (y + 16 + 4) 10 textColor True (EscapeString (truncateLabel call 12)) #
         flame_boxes fmt4 costs maxCost y (Suc i) (x + w + flameGap) calls)"

definition renderFlameRow :: "(real \<Rightarrow> string) \<Rightarrow> string \<Rightarrow> string list \<Rightarrow> real list \<Rightarrow> int \<Rightarrow> real \<Rightarrow> svg list" where
  "renderFlameRow fmt4 agentName seq costs y maxCost =
     SvgText 16 (y + 16 + 4) 11 textColor False (truncateLabel agentName 14) #
     flame_boxes fmt4 costs maxCost y 0 (16 + 96) seq"

definition flame_width :: "cost_report \<Rightarrow> int" where
  "flame_width cr =
     (let maxCost = peakCost (CostsA cr) (CostsB cr);
          rowMax = max (rowWidth (CostsA cr) maxCost) (rowWidth (CostsB cr) maxCost);
          width = 16 * 2 + 96 + rowMax
      in if width < 16 * 2 + 96 + flameMinWidth then 16 * 2 + 96 + flameMinWidth else width)"

definition RenderFlameGraphSVG :: "(real \<Rightarrow> string) \<Rightarrow> cost_report \<Rightarrow> string" where
  "RenderFlameGraphSVG fmt4 cr =
     (let maxCost = peakCost (CostsA cr) (CostsB cr); rowAY = 16 + 20; rowBY = rowAY + 32 + 44;
          height = rowBY + 32 + 16; r = CostBase cr
      in svg_document (flame_width cr) height
           (SvgText 16 (16 + 20 - 8) 10 mutedText False ''cost, coolest to hottest'' #
            renderFlameRow fmt4 (RpAgentA r) (ToolCallsA r) (CostsA cr) rowAY maxCost @
            renderFlameRow fmt4 (RpAgentB r) (ToolCallsB r) (CostsB cr) rowBY maxCost))"


section \<open>The flame graph fits\<close>

text \<open>The horizontal extents (left edge, width) and the stroke widths of the boxes of a drawing.\<close>

fun box_extent :: "svg \<Rightarrow> (int \<times> int) list" where
  "box_extent (SvgBox x y w h fill stroke strokeW title) = [(x, w)]"
| "box_extent _ = []"

fun box_stroke :: "svg \<Rightarrow> string option list" where
  "box_stroke (SvgBox x y w h fill stroke strokeW title) = [strokeW]"
| "box_stroke _ = []"

abbreviation box_extents :: "svg list \<Rightarrow> (int \<times> int) list" where
  "box_extents es \<equiv> concat (map box_extent es)"

abbreviation box_strokes :: "svg list \<Rightarrow> string option list" where
  "box_strokes es \<equiv> concat (map box_stroke es)"

text \<open>Boxes of the given widths from left to right, with the gap between them.\<close>

fun side_by_side :: "int \<Rightarrow> int list \<Rightarrow> (int \<times> int) list" where
  "side_by_side x [] = []"
| "side_by_side x (w # ws) = (x, w) # side_by_side (x + w + flameGap) ws"

lemma side_by_side_snd: "map snd (side_by_side x ws) = ws"
  by (induction x ws rule: side_by_side.induct) auto

lemma side_by_side_right:
  "e \<in> set (side_by_side x ws) \<Longrightarrow> list_all (\<lambda>v. 0 \<le> v) ws \<Longrightarrow>
     x \<le> fst e \<and> fst e + snd e + flameGap \<le> x + sum_list ws + flameGap * int (length ws)"
proof (induction x ws rule: side_by_side.induct)
  case (2 x v ws)
  have nn: "0 \<le> sum_list ws" using 2(3) by (auto simp: list_all_iff intro: sum_list_nonneg)
  show ?case
  proof (cases "e = (x, v)")
    case True
    with nn show ?thesis by (simp add: flameGap_def)
  next
    case False
    with 2 have "x + v + flameGap \<le> fst e"
      "fst e + snd e + flameGap \<le> x + v + flameGap + sum_list ws + flameGap * int (length ws)" "0 \<le> v" by simp_all
    then show ?thesis by (simp add: flameGap_def)
  qed
qed simp

lemma side_by_side_gaps:
  "list_all2 (\<lambda>(x, w) (x', w'). x' = x + w + flameGap) (butlast (side_by_side x ws)) (tl (side_by_side x ws))"
proof (induction x ws rule: side_by_side.induct)
  case (2 x w ws)
  then show ?case by (cases ws) auto
qed simp

lemma widthForCost_bounds: "flameMinWidth \<le> widthForCost c m \<and> widthForCost c m \<le> flameMaxWidth"
proof (cases "m \<le> 0 \<or> c \<le> 0")
  case False
  define r where "r = (if c / m > 1 then 1 else c / m)"
  have r: "0 \<le> r" "r \<le> 1" using False by (auto simp: r_def)
  then have "0 \<le> r * 180" "r * 180 \<le> 180" by auto
  then have "0 \<le> \<lfloor>r * 180\<rfloor>" "\<lfloor>r * 180\<rfloor> \<le> 180" by linarith+
  moreover have "widthForCost c m = 40 + \<lfloor>r * 180\<rfloor>"
    using False by (simp add: widthForCost_def r_def Let_def flameMinWidth_def flameMaxWidth_def)
  ultimately show ?thesis by (simp add: flameMinWidth_def flameMaxWidth_def)
qed (auto simp: widthForCost_def flameMinWidth_def flameMaxWidth_def)

lemma widthForCost_mono: "c \<le> c' \<Longrightarrow> widthForCost c m \<le> widthForCost c' m"
proof (cases "m \<le> 0 \<or> c \<le> 0")
  case True
  then have "widthForCost c m = flameMinWidth" by (auto simp: widthForCost_def)
  then show ?thesis using widthForCost_bounds by simp
next
  case False
  moreover assume "c \<le> c'"
  ultimately have le: "(if c / m > 1 then 1 else c / m) * 180 \<le> (if c' / m > 1 then 1 else c' / m) * 180"
    and pos: "\<not> (m \<le> 0 \<or> c' \<le> 0)" using divide_right_mono [of c c' m] by auto
  show ?thesis
    using floor_mono [OF le] False pos
    by (simp only: widthForCost_def Let_def if_False flameMinWidth_def flameMaxWidth_def) simp
qed

lemma widthForCost_max: "0 < m \<Longrightarrow> widthForCost m m = flameMaxWidth"
  by (simp add: widthForCost_def Let_def flameMinWidth_def flameMaxWidth_def)

lemma rowWidth_eq:
  "costs \<noteq> [] \<Longrightarrow> rowWidth costs m =
     sum_list (map (\<lambda>c. widthForCost c m) costs) + flameGap * int (length costs - 1)"
proof -
  have "foldl (\<lambda>total c. total + widthForCost c m) t costs = t + sum_list (map (\<lambda>c. widthForCost c m) costs)" for t
    by (induction costs arbitrary: t) auto
  then show "costs \<noteq> [] \<Longrightarrow> ?thesis" by (simp add: rowWidth_def)
qed

lemma flame_boxes_extents:
  "length calls = length costs - i \<Longrightarrow> i \<le> length costs \<Longrightarrow>
     box_extents (flame_boxes fmt4 costs m y i x calls) = side_by_side x (map (\<lambda>c. widthForCost c m) (drop i costs)) \<and>
     box_strokes (flame_boxes fmt4 costs m y i x calls) =
       map (\<lambda>j. Some (if peakIndex costs = Some j then ''3'' else ''1'')) [i..<length costs]"
proof (induction calls arbitrary: i x)
  case (Cons call calls)
  then have i: "i < length costs" by auto
  then have d: "drop i costs = costs ! i # drop (Suc i) costs" "[i..<length costs] = i # [Suc i..<length costs]"
    by (simp_all add: Cons_nth_drop_Suc upt_conv_Cons)
  from Cons.prems Cons.IH [of "Suc i"] i show ?case by (simp add: d Let_def split: prod.split)
qed simp

text \<open>The first position of the greatest element.\<close>

definition is_peak :: "real list \<Rightarrow> nat \<Rightarrow> bool" where
  "is_peak cs k \<longleftrightarrow> k < length cs \<and> (\<forall>l < length cs. cs ! l \<le> cs ! k) \<and> (\<forall>l < k. cs ! l < cs ! k)"

lemma peak_from_peak: "is_peak pre j \<Longrightarrow> \<exists>k. peak_from (length pre) (Some (j, pre ! j)) cs = Some k \<and> is_peak (pre @ cs) k"
proof (induction cs arbitrary: pre j)
  case (Cons c cs)
  show ?case
  proof (cases "c > pre ! j")
    case True
    with Cons.prems have "is_peak (pre @ [c]) (length pre)"
      by (fastforce simp: is_peak_def nth_append less_Suc_eq)
    from Cons.IH [OF this] True show ?thesis by simp
  next
    case False
    with Cons.prems have "is_peak (pre @ [c]) j" "j < length pre"
      by (auto simp: is_peak_def nth_append less_Suc_eq)
    with Cons.IH [OF this(1)] False show ?thesis by (simp add: nth_append)
  qed
qed simp

lemma peakIndex_defined: "costs \<noteq> [] \<Longrightarrow> \<exists>k. peakIndex costs = Some k \<and> is_peak costs k"
  using peak_from_peak [of "[hd costs]" 0 "tl costs"]
  by (cases costs) (auto simp: peakIndex_def is_peak_def)

text \<open>
  A row of the flame graph: one box per call whose width is the width of its cost, within the
  limits, to the right of the label gutter and within the margin of the drawing, each box one gap
  after the one before it, and the heavy stroke on the first most expensive call only.
\<close>

definition flame_row_fits :: "svg list \<Rightarrow> real list \<Rightarrow> real \<Rightarrow> int \<Rightarrow> bool" where
  "flame_row_fits row costs m width \<longleftrightarrow>
     map snd (box_extents row) = map (\<lambda>c. widthForCost c m) costs \<and>
     list_all (\<lambda>(x, w). 112 \<le> x \<and> x + w + 16 \<le> width \<and> flameMinWidth \<le> w \<and> w \<le> flameMaxWidth) (box_extents row) \<and>
     list_all2 (\<lambda>(x, w) (x', w'). x' = x + w + flameGap) (butlast (box_extents row)) (tl (box_extents row)) \<and>
     (costs = [] \<or>
      (\<exists>k. is_peak costs k \<and> box_strokes row = map (\<lambda>j. Some (if j = k then ''3'' else ''1'')) [0..<length costs]))"

lemma renderFlameRow_fits:
  assumes "length calls = length costs" "128 + rowWidth costs m \<le> width"
  shows "flame_row_fits (renderFlameRow fmt4 name calls costs y m) costs m width"
proof -
  let ?ws = "map (\<lambda>c. widthForCost c m) costs"
  have ex: "box_extents (renderFlameRow fmt4 name calls costs y m) = side_by_side 112 ?ws"
    and st: "box_strokes (renderFlameRow fmt4 name calls costs y m) =
      map (\<lambda>j. Some (if peakIndex costs = Some j then ''3'' else ''1'')) [0..<length costs]"
    using flame_boxes_extents [of calls costs 0 fmt4 m y 112] assms(1) by (simp_all add: renderFlameRow_def)
  have w: "flameMinWidth \<le> w \<and> w \<le> flameMaxWidth" if "(x, w) \<in> set (side_by_side 112 ?ws)" for x w
  proof -
    have "w \<in> set (map snd (side_by_side 112 ?ws))" using that by force
    then show ?thesis unfolding side_by_side_snd using widthForCost_bounds by auto
  qed
  have "0 \<le> widthForCost c m" for c using widthForCost_bounds [of c m] by (simp add: flameMinWidth_def)
  then have nn: "list_all (\<lambda>v. 0 \<le> v) ?ws" by (simp add: list_all_iff)
  have r: "112 \<le> x \<and> x + w + 16 \<le> width" if "(x, w) \<in> set (side_by_side 112 ?ws)" for x w
  proof -
    from that have "costs \<noteq> []" by auto
    with side_by_side_right [OF that nn] assms(2) show ?thesis
      by (cases costs) (simp_all add: rowWidth_eq flameGap_def)
  qed
  have "costs = [] \<or> (\<exists>k. is_peak costs k \<and> box_strokes (renderFlameRow fmt4 name calls costs y m) =
      map (\<lambda>j. Some (if j = k then ''3'' else ''1'')) [0..<length costs])"
  proof (cases "costs = []")
    case False
    then obtain k where "peakIndex costs = Some k" "is_peak costs k" using peakIndex_defined by blast
    then show ?thesis unfolding st by (intro disjI2 exI [of _ k]) auto
  qed simp
  then show ?thesis
    unfolding flame_row_fits_def ex using w r by (auto simp: side_by_side_snd side_by_side_gaps list_all_iff)
qed

lemma peakCost_greatest: "list_all (\<lambda>c. c \<le> peakCost costsA costsB) (costsA @ costsB) \<and> 0 \<le> peakCost costsA costsB"
proof -
  have f: "m \<le> foldl (\<lambda>m c. if c > m then c else m) m cs \<and> list_all (\<lambda>c. c \<le> foldl (\<lambda>m c. if c > m then c else m) m cs) cs"
    for m :: real and cs
  proof (induction cs arbitrary: m)
    case (Cons c cs)
    from Cons [of "if c > m then c else m"] show ?case by (auto split: if_splits)
  qed simp
  show ?thesis
    using f [of 0 costsA] f [of "foldl (\<lambda>m c. if c > m then c else m) 0 costsA" costsB]
    by (auto simp: peakCost_def list_all_iff intro: order_trans)
qed

text \<open>
  Observation.  The flame graph of a report with costs: costs that do not belong one to one to the calls are
  refused; otherwise both rows fit their drawing, their boxes have the widths of their costs with the
  gap between them and the first most expensive call of a row is the one with the heavy stroke; a
  costlier call is never narrower, no cost exceeds the scale, and the most expensive call of the
  report has the full width.
\<close>

theorem flame_graph_fits:
  "case BuildCostReport r costsA costsB of
     None \<Rightarrow> length costsA \<noteq> length (ToolCallsA r) \<or> length costsB \<noteq> length (ToolCallsB r)
   | Some cr \<Rightarrow>
       let m = peakCost (CostsA cr) (CostsB cr) in
       CostBase cr = r \<and> CostsA cr = costsA \<and> CostsB cr = costsB \<and>
       flame_row_fits (renderFlameRow fmt4 (RpAgentA r) (ToolCallsA r) costsA yA m) costsA m (flame_width cr) \<and>
       flame_row_fits (renderFlameRow fmt4 (RpAgentB r) (ToolCallsB r) costsB yB m) costsB m (flame_width cr) \<and>
       list_all (\<lambda>c. c \<le> m) (costsA @ costsB) \<and> mono (\<lambda>c. widthForCost c m) \<and>
       (if 0 < m then widthForCost m m = flameMaxWidth else list_all (\<lambda>c. widthForCost c m = flameMinWidth) (costsA @ costsB))"
proof (cases "length costsA = length (ToolCallsA r) \<and> length costsB = length (ToolCallsB r)")
  case True
  define cr where "cr = \<lparr>CostBase = r, CostsA = costsA, CostsB = costsB\<rparr>"
  have b: "BuildCostReport r costsA costsB = Some cr" using True by (simp add: BuildCostReport_def cr_def)
  define m where "m = peakCost costsA costsB"
  have "128 + rowWidth costsA m \<le> flame_width cr" "128 + rowWidth costsB m \<le> flame_width cr"
    by (simp_all add: flame_width_def Let_def cr_def m_def)
  with True have "flame_row_fits (renderFlameRow fmt4 (RpAgentA r) (ToolCallsA r) costsA yA m) costsA m (flame_width cr)"
    "flame_row_fits (renderFlameRow fmt4 (RpAgentB r) (ToolCallsB r) costsB yB m) costsB m (flame_width cr)"
    by (simp_all add: renderFlameRow_fits)
  moreover have "mono (\<lambda>c. widthForCost c m)" by (intro monoI widthForCost_mono)
  moreover have "list_all (\<lambda>c. widthForCost c m = flameMinWidth) (costsA @ costsB)" if "\<not> 0 < m"
    using that by (simp add: widthForCost_def list_all_iff)
  ultimately show ?thesis
    using peakCost_greatest [of costsA costsB] widthForCost_max [of m]
    by (simp add: b Let_def m_def [symmetric]) (simp add: cr_def m_def)
qed (auto simp: BuildCostReport_def)

section \<open>The timeline marks the divergence\<close>

fun box_color :: "svg \<Rightarrow> (string \<times> string) list" where
  "box_color (SvgBox x y w h fill stroke strokeW title) = [(fill, stroke)]"
| "box_color _ = []"

fun empty_slot :: "svg \<Rightarrow> int list" where
  "empty_slot (SvgSlot x y w h stroke) = [x]"
| "empty_slot _ = []"

abbreviation box_colorings :: "svg list \<Rightarrow> (string \<times> string) list" where
  "box_colorings es \<equiv> concat (map box_color es)"

abbreviation empty_slots :: "svg list \<Rightarrow> int list" where
  "empty_slots es \<equiv> concat (map empty_slot es)"

lemma take_eq_iff_le:
  assumes "take n as = take n bs" "take (Suc n) as \<noteq> take (Suc n) bs"
  shows "take j as = take j bs \<longleftrightarrow> j \<le> n"
proof
  show "j \<le> n" if "take j as = take j bs"
  proof (rule ccontr)
    assume "\<not> j \<le> n"
    then have "take (Suc n) (take j as) = take (Suc n) as" "take (Suc n) (take j bs) = take (Suc n) bs"
      by (simp_all add: min_def)
    with that assms(2) show False by metis
  qed
  show "take j as = take j bs" if "j \<le> n" using assms(1) that by (metis min.absorb1 take_take)
qed

lemma first_divergence_takes:
  assumes "first_divergence 0 as bs = Some d"
  shows "take j as = take j bs \<longleftrightarrow> j \<le> DivStep d"
proof -
  obtain n where n: "DivStep d = n" "take n as = take n bs" "n < length as \<or> n < length bs"
    "if n < length as \<and> n < length bs then as ! n \<noteq> bs ! n else n = length as \<or> n = length bs"
    using first_divergence_Some [OF assms] by auto
  have "take (Suc n) as \<noteq> take (Suc n) bs"
  proof (cases "n < length as \<and> n < length bs")
    case True
    with n(4) show ?thesis by (auto simp: take_Suc_conv_app_nth)
  next
    case False
    with n(3,4) have "min (length as) (Suc n) \<noteq> min (length bs) (Suc n)" by auto
    then show ?thesis by (metis length_take)
  qed
  with n(1,2) take_eq_iff_le show ?thesis by blast
qed

lemma renderRow_colors:
  "box_colorings (renderRow nm seq y n d mt) = map (box_colors mt d) [0..<min n (length seq)]"
  "empty_slots (renderRow nm seq y n d mt) = map box_x [length seq..<n]"
proof -
  have "concat (map box_color (concat (map (row_slot seq y d mt) [0..<n]))) = map (box_colors mt d) [0..<min n (length seq)]"
    by (induction n) (auto simp: row_slot_def min_def not_less_eq_eq dest: le_antisym split: prod.splits)
  moreover have "concat (map empty_slot (concat (map (row_slot seq y d mt) [0..<n]))) = map box_x [length seq..<n]"
    by (induction n) (auto simp: row_slot_def split: prod.splits)
  ultimately show "box_colorings (renderRow nm seq y n d mt) = map (box_colors mt d) [0..<min n (length seq)]"
    "empty_slots (renderRow nm seq y n d mt) = map box_x [length seq..<n]"
    by (simp_all add: renderRow_def)
qed

text \<open>The colours of step \<open>i\<close> by what the two sequences have in common.\<close>

definition step_colors :: "string list \<Rightarrow> string list \<Rightarrow> nat \<Rightarrow> string \<times> string" where
  "step_colors as bs i =
     (if take (Suc i) as = take (Suc i) bs then matched_colors
      else if take i as = take i bs then divergent_colors else beyond_colors)"

lemma report_box_colors:
  fixes quote t runA runB
  defines "as \<equiv> ToolCalls (AgentOutcome runA)" and "bs \<equiv> ToolCalls (AgentOutcome runB)"
  defines "r \<equiv> BuildReport (CompareAgents quote t runA runB) as bs"
  shows "box_colors (RpMatch r) (DivergenceStep r) = step_colors as bs"
proof
  fix i
  show "box_colors (RpMatch r) (DivergenceStep r) i = step_colors as bs i"
  proof (cases "first_divergence 0 as bs")
    case None
    then have "as = bs" by (simp add: first_divergence_None)
    with None show ?thesis
      by (simp add: r_def BuildReport_def CompareAgents_def Let_def as_def bs_def box_colors_def step_colors_def)
  next
    case (Some d)
    then have "RpMatch r = False" "DivergenceStep r = int (DivStep d)"
      by (simp_all add: r_def BuildReport_def CompareAgents_def Let_def as_def bs_def)
    then show ?thesis
      by (auto simp: box_colors_def step_colors_def first_divergence_takes [OF Some])
  qed
qed

text \<open>
  Observation.  The timeline of the report of two agents: each row has one box per tool call, drawn as
  matched while the sequences agree up to and including the step, as divergent at the first step
  where they differ and as beyond after it; and the shorter row has an empty slot at each step the
  other still has.
\<close>

theorem timeline_marks_divergence:
  "let as = ToolCalls (AgentOutcome runA); bs = ToolCalls (AgentOutcome runB);
       r = BuildReport (CompareAgents quote t runA runB) as bs; n = timeline_steps r;
       rowA = renderRow nmA as yA n (DivergenceStep r) (RpMatch r);
       rowB = renderRow nmB bs yB n (DivergenceStep r) (RpMatch r)
   in box_colorings rowA = map (step_colors as bs) [0..<length as] \<and>
      box_colorings rowB = map (step_colors as bs) [0..<length bs] \<and>
      empty_slots rowA = map box_x [length as..<length bs] \<and>
      empty_slots rowB = map box_x [length bs..<length as]"
proof -
  let ?as = "ToolCalls (AgentOutcome runA)" and ?bs = "ToolCalls (AgentOutcome runB)"
  let ?r = "BuildReport (CompareAgents quote t runA runB) ?as ?bs"
  have n: "timeline_steps ?r = max (length ?as) (length ?bs)"
    by (simp add: timeline_steps_def BuildReport_def Let_def)
  have e: "[a..<max a b] = [a..<b]" "[b..<max a b] = [b..<a]" for a b :: nat by (auto simp: max_def)
  show ?thesis
    unfolding Let_def renderRow_colors report_box_colors n by (simp add: e min_def max_def)
qed

section \<open>Escaping\<close>

lemma EscapeString_no_markup: "set (EscapeString s) \<inter> {CHR ''<'', CHR ''>''} = {}"
proof -
  have "set (escape_char c) \<inter> {CHR ''<'', CHR ''>''} = {}" for c by (simp add: escape_char_def)
  then show ?thesis unfolding EscapeString_def by (induction s) auto
qed

fun svg_content :: "svg \<Rightarrow> string" where
  "svg_content (SvgBox x y w h fill stroke strokeW title) = title"
| "svg_content (SvgSlot x y w h stroke) = []"
| "svg_content (SvgText x y sz fill middle content) = content"

text \<open>
  Observation.  The texts of a row of the timeline after its first one, which come from tool calls, hold no
  markup character whatever the agents called; the first one, the agent's name, is printed
  unescaped, so an agent whose name holds a tag puts that tag into the drawing.
\<close>

theorem timeline_escapes_calls_not_names:
  "list_all (\<lambda>e. set (svg_content e) \<inter> {CHR ''<'', CHR ''>''} = {}) (tl (renderRow nm seq y n d mt)) \<and>
   svg_content (hd (renderRow ''<b>'' seq y n d mt)) = ''<b>''"
  by (auto simp: renderRow_def row_slot_def truncateLabel_def list_all_iff EscapeString_no_markup [simplified]
      split: if_splits prod.splits)

section \<open>The command line\<close>

record bench_flags =
  fl_task :: string
  fl_a_name :: string
  fl_a_cmd :: string
  fl_b_name :: string
  fl_b_cmd :: string
  fl_repetitions :: int
  fl_max_parallel :: int
  fl_lensai_url :: string
  fl_tenant :: string
  fl_dashboard :: string

definition flags_ok :: "bench_flags \<Rightarrow> bool" where
  "flags_ok f \<longleftrightarrow>
     \<not> (fl_task f = [] \<or> fl_a_cmd f = []) \<and>
     \<not> (fl_b_cmd f \<noteq> [] \<and> fl_b_name f = []) \<and>
     \<not> (fl_lensai_url f \<noteq> [] \<and> fl_tenant f = []) \<and>
     \<not> (fl_dashboard f \<noteq> [] \<and> fl_tenant f = [])"

definition lensai_link :: "bench_flags \<Rightarrow> string \<Rightarrow> string" where
  "lensai_link f taskID =
     (if fl_dashboard f = [] then []
      else rev (dropWhile (\<lambda>c. c = CHR ''/'') (rev (fl_dashboard f))) @ ''/tenants/'' @ fl_tenant f @ ''/traces/'' @ taskID)"

text \<open>The three files of a report; a write that fails ends the sequence.\<close>

definition report_files :: "string \<Rightarrow> bench_report \<Rightarrow> string \<Rightarrow> (string \<times> (string + json)) list" where
  "report_files css rep link =
     [(RpTaskID rep @ ''-report.md'', Inl (RenderMarkdown rep)), (RpTaskID rep @ ''-report.json'', Inr (enc_report rep)),
      (RpTaskID rep @ ''-landing.html'', Inl (RenderLandingHTML css rep link))]"

text \<open>
  The environment of the command: the parser of the flags, the task file, the batches (the results
  of running a shell command under a configuration), how many of the files can be written, the clock
  and the answer of the ingest endpoint.
\<close>

record bench_env =
  env_parse :: "string list \<Rightarrow> bench_flags option"
  env_load :: "string \<Rightarrow> task_error + bench_task"
  env_batch :: "string \<Rightarrow> batch_config \<Rightarrow> run_result list"
  env_files :: nat
  env_start :: int
  env_done :: int
  env_http :: "int option"

record bench_outcome =
  bo_code :: int
  bo_files :: "(string \<times> (string + json)) list"
  bo_posted :: "bench_event list"

definition exit_with :: "int \<Rightarrow> bench_outcome" where
  "exit_with code = \<lparr>bo_code = code, bo_files = [], bo_posted = []\<rparr>"

definition batch_config_of :: "bench_flags \<Rightarrow> bench_task \<Rightarrow> string \<Rightarrow> batch_config" where
  "batch_config_of f t nm =
     \<lparr>BatchTask = t, BatchAgent = nm, Repetitions = fl_repetitions f, MaxParallel = fl_max_parallel f\<rparr>"

text \<open>The report of a second agent: \<open>None\<close> when it was not needed.\<close>

definition compare_report ::
  "(string \<Rightarrow> string) \<Rightarrow> bench_flags \<Rightarrow> bench_task \<Rightarrow> run_result list \<Rightarrow> run_result list \<Rightarrow> bench_report option" where
  "compare_report quote f t resultsA resultsB =
     (case (firstOutcome resultsA, firstOutcome resultsB) of
        (Some outA, Some outB) \<Rightarrow>
          Some (BuildReport
            (CompareAgents quote t \<lparr>AgentName = fl_a_name f, AgentOutcome = outA\<rparr>
               \<lparr>AgentName = fl_b_name f, AgentOutcome = outB\<rparr>)
            (ToolCalls outA) (ToolCalls outB))
      | _ \<Rightarrow> None)"

definition bench_finish :: "bench_env \<Rightarrow> bench_flags \<Rightarrow> bench_task \<Rightarrow> run_result list \<Rightarrow> bool \<Rightarrow>
    (string \<times> (string + json)) list \<Rightarrow> bench_outcome" where
  "bench_finish env f t resultsA allPassed files =
     (let posted =
            (if fl_lensai_url f = [] then []
             else snd (InsertBatchEvent (env_http env) (env_done env) (Summarize resultsA)
               \<lparr>BpTask = TaskID t, BpAgent = fl_a_name f, BpTenant = fl_tenant f,
                BpBatch = TaskID t @ ''-'' @ itoa (env_start env), BpDuration = env_done env - env_start env,
                BpCompletedAt = Some (env_done env)\<rparr> []))
      in \<lparr>bo_code = (if \<not> allPassed then 1 else 0), bo_files = files, bo_posted = posted\<rparr>)"

definition bench_run :: "(string \<Rightarrow> string) \<Rightarrow> string \<Rightarrow> bench_env \<Rightarrow> string list \<Rightarrow> bench_outcome" where
  "bench_run quote css env args =
     (if args = [] \<or> hd args \<noteq> ''run'' then exit_with 2
      else case env_parse env (tl args) of
        None \<Rightarrow> exit_with 2
      | Some f \<Rightarrow>
        if \<not> flags_ok f then exit_with 2
        else case env_load env (fl_task f) of
          Inl e \<Rightarrow> exit_with 1
        | Inr t \<Rightarrow>
          (case check_config (batch_config_of f t (fl_a_name f)) True of
             Some e \<Rightarrow> exit_with 1
           | None \<Rightarrow>
               let resultsA = env_batch env (fl_a_cmd f) (batch_config_of f t (fl_a_name f));
                   passedA = batch_passed (Summarize resultsA) in
               if fl_b_cmd f = [] then bench_finish env f t resultsA passedA []
               else
                 (case check_config (batch_config_of f t (fl_b_name f)) True of
                    Some e \<Rightarrow> exit_with 1
                  | None \<Rightarrow>
                      let resultsB = env_batch env (fl_b_cmd f) (batch_config_of f t (fl_b_name f));
                          allPassed = (passedA \<and> batch_passed (Summarize resultsB)) in
                      (case compare_report quote f t resultsA resultsB of
                         None \<Rightarrow> bench_finish env f t resultsA allPassed []
                       | Some rep \<Rightarrow>
                           let files = report_files css rep (lensai_link f (TaskID t)) in
                           if env_files env < length files
                           then \<lparr>bo_code = 1, bo_files = take (env_files env) files, bo_posted = []\<rparr>
                           else bench_finish env f t resultsA allPassed files))))"

lemma length_report_files: "length (report_files css rep link) = 3"
  by (simp add: report_files_def)

lemma bench_finish_code: "bo_code (bench_finish env f t rs ok files) = 0 \<longleftrightarrow> ok"
  by (simp add: bench_finish_def Let_def)

lemma compare_report_defined:
  "compare_report quote f t ra rb = None \<longleftrightarrow> \<not> (list_ex (\<lambda>r. RunErr r = None) ra \<and> list_ex (\<lambda>r. RunErr r = None) rb)"
  unfolding firstOutcome_defined [symmetric] by (auto simp: compare_report_def split: option.splits)

lemma bench_finish_posted:
  "list_all (\<lambda>e. be_status e = batchStatus (Summarize rs) \<and> be_source e = ''benchmark_run'' \<and> be_tenant e \<noteq> [])
     (bo_posted (bench_finish env f t rs ok files)) \<and> length (bo_posted (bench_finish env f t rs ok files)) \<le> 1"
  by (simp add: bench_finish_def Let_def InsertBatchEvent_def BatchEvent_def split: option.splits)

lemma batchStatus_pass: "batchStatus (Summarize rs) = ''pass'' \<longleftrightarrow> all_passed rs"
  unfolding batch_passed_iff [symmetric]
  by (auto simp: batchStatus_def batch_passed_def Summarize_def summarize_loop_eq Let_def)

text \<open>
  Observation.  The command exits with 0 exactly when its arguments are usable, the task loads, the batch
  sizes are positive, every agent that was asked for had a completed repetition and no completed
  repetition that failed a criterion, and with two agents all three files of the report could be
  written.  It exits with 2 before it has written or posted anything, and it posts at most one event,
  which is marked as passed exactly when the first agent's batch passed.
\<close>

theorem bench_exit_code:
  "let o1 = bench_run quote css env args in
   (bo_code o1 = 0 \<longleftrightarrow>
     (\<exists>f t. args = ''run'' # tl args \<and> env_parse env (tl args) = Some f \<and> flags_ok f \<and>
        env_load env (fl_task f) = Inr t \<and> 0 < fl_repetitions f \<and> 0 < fl_max_parallel f \<and>
        all_passed (env_batch env (fl_a_cmd f) (batch_config_of f t (fl_a_name f))) \<and>
        (fl_b_cmd f = [] \<or>
         all_passed (env_batch env (fl_b_cmd f) (batch_config_of f t (fl_b_name f))) \<and> 3 \<le> env_files env))) \<and>
   (if bo_code o1 = 2 then bo_files o1 = [] \<and> bo_posted o1 = [] else True) \<and>
   length (bo_posted o1) \<le> 1 \<and>
   list_all (\<lambda>e. \<exists>f t. env_parse env (tl args) = Some f \<and> env_load env (fl_task f) = Inr t \<and>
       (be_status e = ''pass'' \<longleftrightarrow> all_passed (env_batch env (fl_a_cmd f) (batch_config_of f t (fl_a_name f)))))
     (bo_posted o1)"
proof (cases "args = [] \<or> hd args \<noteq> ''run'' \<or> env_parse env (tl args) = None")
  case True
  then show ?thesis by (cases args) (auto simp: bench_run_def exit_with_def Let_def)
next
  case False
  then obtain f where f: "env_parse env (tl args) = Some f" and args: "args = ''run'' # tl args"
    by (cases args) auto
  show ?thesis
  proof (cases "flags_ok f \<and> (\<exists>t. env_load env (fl_task f) = Inr t) \<and> 0 < fl_repetitions f \<and> 0 < fl_max_parallel f")
    case no: False
    then show ?thesis
      using f False
      by (cases "env_load env (fl_task f)")
        (auto simp: bench_run_def exit_with_def Let_def check_config_def batch_config_of_def)
  next
    case True
    then obtain t where t: "env_load env (fl_task f) = Inr t" by blast
    have cfg: "check_config (batch_config_of f t nm) True = None" for nm
      using True by (simp add: check_config_def batch_config_of_def)
    define ra where "ra = env_batch env (fl_a_cmd f) (batch_config_of f t (fl_a_name f))"
    define rb where "rb = env_batch env (fl_b_cmd f) (batch_config_of f t (fl_b_name f))"
    define rep where "rep = compare_report quote f t ra rb"
    have run: "bench_run quote css env args =
        (if fl_b_cmd f = [] then bench_finish env f t ra (all_passed ra) []
         else case rep of None \<Rightarrow> bench_finish env f t ra (all_passed ra \<and> all_passed rb) []
           | Some r \<Rightarrow>
               if env_files env < 3
               then \<lparr>bo_code = 1, bo_files = take (env_files env) (report_files css r (lensai_link f (TaskID t))), bo_posted = []\<rparr>
               else bench_finish env f t ra (all_passed ra \<and> all_passed rb) (report_files css r (lensai_link f (TaskID t))))"
      using False True f t cfg
      by (simp add: bench_run_def Let_def batch_passed_iff ra_def rb_def rep_def length_report_files split: option.split)
    have code: "bo_code (bench_run quote css env args) = 0 \<longleftrightarrow>
        all_passed ra \<and> (fl_b_cmd f = [] \<or> all_passed rb \<and> 3 \<le> env_files env)"
      using compare_report_defined [of quote f t ra rb]
      by (auto simp: run bench_finish_code rep_def all_passed_def split: option.splits)
    have posted: "length (bo_posted (bench_run quote css env args)) \<le> 1"
      "list_all (\<lambda>e. be_status e = ''pass'' \<longleftrightarrow> all_passed ra) (bo_posted (bench_run quote css env args))"
      using bench_finish_posted [of ra env f t] batchStatus_pass [of ra] by (auto simp: run list_all_iff split: option.splits)
    have "bo_code (bench_run quote css env args) \<noteq> 2"
      by (auto simp: run bench_finish_def Let_def split: option.splits)
    moreover have "list_all (\<lambda>e. \<exists>f t. env_parse env (tl args) = Some f \<and> env_load env (fl_task f) = Inr t \<and>
        (be_status e = ''pass'' \<longleftrightarrow> all_passed (env_batch env (fl_a_cmd f) (batch_config_of f t (fl_a_name f)))))
      (bo_posted (bench_run quote css env args))"
      using posted(2) f t by (auto simp: list_all_iff ra_def)
    ultimately show ?thesis using code posted(1) args f t True by (auto simp: Let_def ra_def rb_def)
  qed
qed

end
