(* ===== verification/Tool_Calls.thy ===== *)
theory Tool_Calls
  imports Go_Json Call_Graph
begin

text \<open>
  Normalised tool calls (\<^verbatim>\<open>tool-call-analyzer\<close>): the canonical record with its cost and category
  (\<^verbatim>\<open>pkg/types\<close>), the adapters of the vendors and their registry (\<^verbatim>\<open>pkg/adapter\<close>) and the statistics
  per tool (\<^verbatim>\<open>pkg/stats\<close>).

  An adapter is a record of its three operations; the locale \<open>tool_adapter\<close> states what the registry
  relies on, and each adapter of the repository interprets it.  \<^verbatim>\<open>strings.ToLower\<close> is the argument
  \<open>lower\<close>, the text of a raw JSON value the argument \<open>raw_text\<close>.  Ranging over the buckets of the
  aggregator visits the keys in an order given as a list.
\<close>

section \<open>Tool calls\<close>

record cost_estimate =
  InputTokens :: int
  OutputTokens :: int
  CostModelName :: string
  CostUSD :: real

record retry_meta =
  RetryCount :: int
  AttemptCostUSD :: real
  TotalCostUSD :: real
  LastErrorMsg :: string
  RetryReason :: string

record tool_call =
  TcID :: string
  TcTraceID :: string
  TcSpanID :: string
  TcName :: string
  TcVendor :: string
  TcCategory :: string
  TcInputJSON :: string
  TcOutputJSON :: string
  TcStartedAtNs :: int
  TcFinishedAtNs :: int
  TcDurationMs :: int
  TcCost :: cost_estimate
  TcRetries :: retry_meta

definition zero_tool_call :: tool_call where
  "zero_tool_call =
     \<lparr>TcID = [], TcTraceID = [], TcSpanID = [], TcName = [], TcVendor = [], TcCategory = [], TcInputJSON = [],
      TcOutputJSON = [], TcStartedAtNs = 0, TcFinishedAtNs = 0, TcDurationMs = 0,
      TcCost = \<lparr>InputTokens = 0, OutputTokens = 0, CostModelName = [], CostUSD = 0\<rparr>,
      TcRetries = \<lparr>RetryCount = 0, AttemptCostUSD = 0, TotalCostUSD = 0, LastErrorMsg = [], RetryReason = []\<rparr>\<rparr>"

datatype adapter_error = ErrNilInput | ErrUnknownFormat | ErrMissingField

definition perMillionUSD :: "(string \<times> real \<times> real) list" where
  "perMillionUSD =
     [(''gpt-4o'', 5 / 2, 10), (''gpt-4o-mini'', 15 / 100, 6 / 10), (''gpt-4-turbo'', 10, 30),
      (''claude-opus-4-8'', 15, 75), (''claude-sonnet-4-6'', 3, 15), (''claude-haiku-4-5-20251001'', 8 / 10, 4)]"

definition EstimateCost :: "int \<Rightarrow> int \<Rightarrow> string \<Rightarrow> real" where
  "EstimateCost inputTokens outputTokens modelName =
     (case map_of perMillionUSD modelName of
        None \<Rightarrow> 0
      | Some (rin, rout) \<Rightarrow> of_int inputTokens / 10 ^ 6 * rin + of_int outputTokens / 10 ^ 6 * rout)"

definition NewRetryMeta :: "int \<Rightarrow> real \<Rightarrow> string \<Rightarrow> string \<Rightarrow> retry_meta" where
  "NewRetryMeta retryCount attemptCostUSD lastErr reason =
     \<lparr>RetryCount = retryCount, AttemptCostUSD = attemptCostUSD,
      TotalCostUSD = attemptCostUSD * of_int (int64 (retryCount + 1)), LastErrorMsg = lastErr, RetryReason = reason\<rparr>"

definition CategoryHTTP :: string where "CategoryHTTP = ''http''"
definition CategoryDB :: string where "CategoryDB = ''db''"
definition CategoryCode :: string where "CategoryCode = ''code''"
definition CategoryFile :: string where "CategoryFile = ''file''"
definition CategoryAgent :: string where "CategoryAgent = ''agent''"

definition AllCategories :: "string list" where
  "AllCategories = [CategoryHTTP, CategoryDB, CategoryCode, CategoryFile, CategoryAgent]"

definition category_keywords :: "(string \<times> string list) list" where
  "category_keywords =
     [(CategoryDB, [''sql'', ''query'', ''db'', ''database'', ''vector'', ''redis'', ''elastic'', ''search_db'', ''pg_'', ''mysql'']),
      (CategoryCode, [''run_'', ''exec'', ''python'', ''bash'', ''shell'', ''compile'', ''interpret'', ''code_'']),
      (CategoryFile, [''file'', ''read_'', ''write_'', ''dir'', ''s3'', ''gcs'', ''blob'', ''fs_'', ''upload'', ''download'']),
      (CategoryAgent, [''agent'', ''delegate'', ''llm_'', ''chain'', ''subagent'', ''model_call''])]"

fun first_category :: "string \<Rightarrow> (string \<times> string list) list \<Rightarrow> string" where
  "first_category s [] = CategoryHTTP"
| "first_category s ((cat, kws) # rest) = (if list_ex (contains s) kws then cat else first_category s rest)"

definition ClassifyByName :: "(string \<Rightarrow> string) \<Rightarrow> string \<Rightarrow> string" where
  "ClassifyByName lower name = first_category (lower name) category_keywords"

section \<open>Adapters\<close>

text \<open>The bytes handed to an adapter: nil, or the document they hold (if any).\<close>

type_synonym raw_bytes = "payload option"

record adapter =
  Vendor :: string
  CanHandle :: "raw_bytes \<Rightarrow> bool"
  ParseCall :: "raw_bytes \<Rightarrow> adapter_error + tool_call"

record openai_raw =
  OaID :: string
  OaType :: string
  OaName :: string
  OaArguments :: string

definition openai_function_fields :: "openai_raw fields" where
  "openai_function_fields =
     [(''name'', lens OaName (\<lambda>x r. r\<lparr>OaName := x\<rparr>) dec_string),
      (''arguments'', lens OaArguments (\<lambda>x r. r\<lparr>OaArguments := x\<rparr>) dec_string)]"

definition openai_fields :: "openai_raw fields" where
  "openai_fields =
     [(''id'', lens OaID (\<lambda>x r. r\<lparr>OaID := x\<rparr>) dec_string),
      (''type'', lens OaType (\<lambda>x r. r\<lparr>OaType := x\<rparr>) dec_string),
      (''function'', dec_struct openai_function_fields)]"

definition read_openai :: "payload \<Rightarrow> openai_raw option" where
  "read_openai b = unmarshal (dec_struct openai_fields) b \<lparr>OaID = [], OaType = [], OaName = [], OaArguments = []\<rparr>"

definition openai_adapter :: "(string \<Rightarrow> string) \<Rightarrow> adapter" where
  "openai_adapter lower =
     \<lparr>Vendor = ''openai'',
      CanHandle = (\<lambda>b. case b of None \<Rightarrow> False | Some p \<Rightarrow>
        (case read_openai p of None \<Rightarrow> False | Some r \<Rightarrow> OaType r = ''function'' \<and> OaName r \<noteq> [])),
      ParseCall = (\<lambda>b. case b of None \<Rightarrow> Inl ErrNilInput | Some p \<Rightarrow>
        (case read_openai p of
           None \<Rightarrow> Inl ErrUnknownFormat
         | Some r \<Rightarrow>
             if OaName r = [] then Inl ErrMissingField
             else Inr (zero_tool_call\<lparr>TcID := OaID r, TcName := OaName r, TcVendor := ''openai'',
               TcCategory := ClassifyByName lower (OaName r), TcInputJSON := OaArguments r\<rparr>)))\<rparr>"

record anthropic_raw =
  AnType :: string
  AnID :: string
  AnName :: string
  AnInput :: "json option"

definition anthropic_fields :: "anthropic_raw fields" where
  "anthropic_fields =
     [(''type'', lens AnType (\<lambda>x r. r\<lparr>AnType := x\<rparr>) dec_string),
      (''id'', lens AnID (\<lambda>x r. r\<lparr>AnID := x\<rparr>) dec_string),
      (''name'', lens AnName (\<lambda>x r. r\<lparr>AnName := x\<rparr>) dec_string),
      (''input'', lens AnInput (\<lambda>x r. r\<lparr>AnInput := x\<rparr>) dec_raw)]"

definition read_anthropic :: "payload \<Rightarrow> anthropic_raw option" where
  "read_anthropic b = unmarshal (dec_struct anthropic_fields) b \<lparr>AnType = [], AnID = [], AnName = [], AnInput = None\<rparr>"

definition input_or_braces :: "(json \<Rightarrow> string) \<Rightarrow> json option \<Rightarrow> string" where
  "input_or_braces raw_text v = (case v of None \<Rightarrow> ''{}'' | Some j \<Rightarrow> raw_text j)"

definition anthropic_adapter :: "(string \<Rightarrow> string) \<Rightarrow> (json \<Rightarrow> string) \<Rightarrow> adapter" where
  "anthropic_adapter lower raw_text =
     \<lparr>Vendor = ''anthropic'',
      CanHandle = (\<lambda>b. case b of None \<Rightarrow> False | Some p \<Rightarrow>
        (case read_anthropic p of None \<Rightarrow> False | Some r \<Rightarrow> AnType r = ''tool_use'' \<and> AnName r \<noteq> [])),
      ParseCall = (\<lambda>b. case b of None \<Rightarrow> Inl ErrNilInput | Some p \<Rightarrow>
        (case read_anthropic p of
           None \<Rightarrow> Inl ErrUnknownFormat
         | Some r \<Rightarrow>
             if AnName r = [] then Inl ErrMissingField
             else Inr (zero_tool_call\<lparr>TcID := AnID r, TcName := AnName r, TcVendor := ''anthropic'',
               TcCategory := ClassifyByName lower (AnName r), TcInputJSON := input_or_braces raw_text (AnInput r)\<rparr>)))\<rparr>"

record langchain_raw =
  LcType :: string
  LcTool :: string
  LcToolInput :: "json option"
  LcLog :: string

definition langchain_fields :: "langchain_raw fields" where
  "langchain_fields =
     [(''type'', lens LcType (\<lambda>x r. r\<lparr>LcType := x\<rparr>) dec_string),
      (''tool'', lens LcTool (\<lambda>x r. r\<lparr>LcTool := x\<rparr>) dec_string),
      (''tool_input'', lens LcToolInput (\<lambda>x r. r\<lparr>LcToolInput := x\<rparr>) dec_raw),
      (''log'', lens LcLog (\<lambda>x r. r\<lparr>LcLog := x\<rparr>) dec_string)]"

definition read_langchain :: "payload \<Rightarrow> langchain_raw option" where
  "read_langchain b = unmarshal (dec_struct langchain_fields) b \<lparr>LcType = [], LcTool = [], LcToolInput = None, LcLog = []\<rparr>"

definition langchain_adapter :: "(string \<Rightarrow> string) \<Rightarrow> (json \<Rightarrow> string) \<Rightarrow> adapter" where
  "langchain_adapter lower raw_text =
     \<lparr>Vendor = ''langchain'',
      CanHandle = (\<lambda>b. case b of None \<Rightarrow> False | Some p \<Rightarrow>
        (case read_langchain p of None \<Rightarrow> False | Some r \<Rightarrow> LcType r = ''AgentAction'' \<and> LcTool r \<noteq> [])),
      ParseCall = (\<lambda>b. case b of None \<Rightarrow> Inl ErrNilInput | Some p \<Rightarrow>
        (case read_langchain p of
           None \<Rightarrow> Inl ErrUnknownFormat
         | Some r \<Rightarrow>
             if LcTool r = [] then Inl ErrMissingField
             else Inr (zero_tool_call\<lparr>TcName := LcTool r, TcVendor := ''langchain'',
               TcCategory := ClassifyByName lower (LcTool r), TcInputJSON := input_or_braces raw_text (LcToolInput r)\<rparr>)))\<rparr>"

section \<open>Registry\<close>

definition default_adapters :: "(string \<Rightarrow> string) \<Rightarrow> (json \<Rightarrow> string) \<Rightarrow> adapter list" where
  "default_adapters lower raw_text =
     [anthropic_adapter lower raw_text, openai_adapter lower, langchain_adapter lower raw_text]"

fun RegistryParse :: "adapter list \<Rightarrow> raw_bytes \<Rightarrow> adapter_error + tool_call" where
  "RegistryParse [] raw = Inl ErrUnknownFormat"
| "RegistryParse (a # as) raw = (if CanHandle a raw then ParseCall a raw else RegistryParse as raw)"

fun RegistryVendor :: "adapter list \<Rightarrow> raw_bytes \<Rightarrow> string" where
  "RegistryVendor [] raw = []"
| "RegistryVendor (a # as) raw = (if CanHandle a raw then Vendor a else RegistryVendor as raw)"

section \<open>Statistics\<close>

record call_record =
  CrTool :: tool_call
  CrDurationMs :: u64
  CrHasError :: bool

record tool_stats =
  TsToolName :: string
  TsVendor :: string
  CallCount :: int
  ErrorCount :: int
  CostUSDSum :: real
  P99Ms :: u64

definition P99 :: "u64 list \<Rightarrow> u64" where
  "P99 durations =
     (if durations = [] then 0
      else let sorted1 = sort durations in sorted1 ! nat \<lfloor>real (length sorted1 - 1) * (99 / 100)\<rfloor>)"

type_synonym stats_key = "string \<times> string"
type_synonym bucket = "tool_stats \<times> u64 list"

definition record_key :: "call_record \<Rightarrow> stats_key" where
  "record_key r = (TcName (CrTool r), TcVendor (CrTool r))"

definition empty_bucket :: "stats_key \<Rightarrow> bucket" where
  "empty_bucket k =
     (\<lparr>TsToolName = fst k, TsVendor = snd k, CallCount = 0, ErrorCount = 0, CostUSDSum = 0, P99Ms = 0\<rparr>, [])"

definition add_record :: "(stats_key \<rightharpoonup> bucket) \<Rightarrow> call_record \<Rightarrow> (stats_key \<rightharpoonup> bucket)" where
  "add_record m r =
     (let k = record_key r; b = (case m k of None \<Rightarrow> empty_bucket k | Some b \<Rightarrow> b)
      in m(k \<mapsto> ((fst b)\<lparr>CallCount := CallCount (fst b) + 1,
                      CostUSDSum := CostUSDSum (fst b) + CostUSD (TcCost (CrTool r)),
                      ErrorCount := ErrorCount (fst b) + (if CrHasError r then 1 else 0)\<rparr>,
                  snd b @ [CrDurationMs r])))"

definition stats_buckets :: "call_record list \<Rightarrow> (stats_key \<rightharpoonup> bucket)" where
  "stats_buckets records = foldl add_record Map.empty records"

definition Aggregate :: "stats_key list \<Rightarrow> call_record list \<Rightarrow> tool_stats list" where
  "Aggregate ks records =
     map (\<lambda>k. case stats_buckets records k of None \<Rightarrow> fst (empty_bucket k) | Some b \<Rightarrow> (fst b)\<lparr>P99Ms := P99 (snd b)\<rparr>) ks"

definition IsAlertThreshold :: "real \<Rightarrow> u64 \<Rightarrow> u64 \<Rightarrow> bool" where
  "IsAlertThreshold alertThresholdPct durationMs traceDurationMs =
     (if traceDurationMs = 0 then False
      else real (unat durationMs) / real (unat traceDurationMs) * 100 > alertThresholdPct)"

section \<open>What the registry relies on\<close>

text \<open>The value of the field \<^verbatim>\<open>type\<close> as every adapter decodes it: the last string under that name.\<close>

definition type_update :: "string \<Rightarrow> string \<times> json \<Rightarrow> string" where
  "type_update t e = (if json_fold (fst e) = ''type'' then (case snd e of JStr x \<Rightarrow> x | _ \<Rightarrow> t) else t)"

definition doc_type :: "raw_bytes \<Rightarrow> string" where
  "doc_type raw = (case raw of Some (Some (JObj kvs)) \<Rightarrow> foldl type_update [] kvs | _ \<Rightarrow> [])"

lemma dec_entries_type:
  assumes step: "\<forall>k d v s s'. field_decoder fs k = Some d \<longrightarrow> d v s = Some s' \<longrightarrow> get s' = type_update (get s) (k, v)"
    and has: "\<forall>k. field_decoder fs k = None \<longrightarrow> json_fold k \<noteq> ''type''"
  shows "dec_entries fs kvs s = Some s' \<Longrightarrow> get s' = foldl type_update (get s) kvs"
proof (induction kvs arbitrary: s)
  case (Cons e kvs)
  obtain k v where e: "e = (k, v)" by (cases e)
  show ?case
  proof (cases "field_decoder fs k")
    case None
    then have "json_fold k \<noteq> ''type''" using has by blast
    then have "type_update (get s) e = get s" by (simp add: type_update_def e)
    with None Cons e show ?thesis by simp
  next
    case (Some d)
    with Cons.prems obtain s1 where s1: "d v s = Some s1" "dec_entries fs kvs s1 = Some s'"
      by (auto simp: e split: option.splits)
    have "get s1 = type_update (get s) e" using step Some s1(1) unfolding e by blast
    with Cons.IH [OF s1(2)] show ?thesis by simp
  qed
qed simp

lemma field_decoder_cases:
  "field_decoder fs k = Some d \<Longrightarrow> \<exists>n. (n, d) \<in> set fs \<and> json_fold n = json_fold k"
  by (fastforce simp: field_decoder_def find_Some_iff in_set_conv_nth)

lemma field_decoder_none:
  "field_decoder fs k = None \<Longrightarrow> (n, d) \<in> set fs \<Longrightarrow> json_fold n \<noteq> json_fold k"
  by (fastforce simp: field_decoder_def find_None_iff)

text \<open>A struct with the field \<^verbatim>\<open>type\<close>, whose other fields leave it alone.\<close>

lemma unmarshal_type:
  assumes step: "\<forall>n d v s s'. (n, d) \<in> set fs \<longrightarrow> d v s = Some s' \<longrightarrow>
      get s' = (if n = ''type'' then (case v of JStr x \<Rightarrow> x | _ \<Rightarrow> get s) else get s)"
    and plain: "list_all plain_name (map fst fs)" and has: "''type'' \<in> set (map fst fs)"
    and start: "unmarshal (dec_struct fs) p z = Some r" "get z = []"
  shows "get r = doc_type (Some p)"
proof -
  have fold: "json_fold n = n" if "(n, d) \<in> set fs" for n d
    using plain that by (auto simp: list_all_iff intro!: json_fold_plain)
  have "get r' = foldl type_update (get s) kvs" if "dec_entries fs kvs s = Some r'" for kvs s r'
  proof (rule dec_entries_type [OF _ _ that]; intro allI impI)
    fix k d v s s' assume k: "field_decoder fs k = Some d" "d v s = Some s'"
    from field_decoder_cases [OF k(1)] fold obtain n where n: "(n, d) \<in> set fs" "n = json_fold k" by auto
    with step k(2) show "get s' = type_update (get s) (k, v)" by (auto simp: type_update_def)
  next
    fix k assume k: "field_decoder fs k = None"
    obtain d where d: "(''type'', d) \<in> set fs" using has by auto
    show "json_fold k \<noteq> ''type''" using field_decoder_none [OF k d] unfolding fold [OF d] by (rule not_sym)
  qed
  with start show ?thesis
    by (cases p; cases "the p") (auto simp: unmarshal_def doc_type_def)
qed

lemma dec_string_value: "dec_string v t = Some t' \<Longrightarrow> t' = (case v of JStr x \<Rightarrow> x | _ \<Rightarrow> t)"
  by (cases v) auto

lemma openai_function_keeps_type:
  "dec_struct openai_function_fields v r = Some r' \<Longrightarrow> OaType r' = OaType r"
proof -
  have "dec_entries openai_function_fields kvs r = Some r' \<Longrightarrow> OaType r' = OaType r" for kvs
  proof (induction kvs arbitrary: r)
    case (Cons e kvs)
    then show ?case
      by (cases e) (auto simp: openai_function_fields_def lens_def dest!: field_decoder_cases split: option.splits)
  qed simp
  then show "dec_struct openai_function_fields v r = Some r' \<Longrightarrow> OaType r' = OaType r" by (cases v) auto
qed

lemmas read_simps = lens_def dec_string_value openai_function_keeps_type plain_name_def

lemma openai_type: "read_openai p = Some r \<Longrightarrow> OaType r = doc_type (Some p)"
  unfolding read_openai_def by (rule unmarshal_type [of openai_fields]) (auto simp: openai_fields_def read_simps)

lemma anthropic_type: "read_anthropic p = Some r \<Longrightarrow> AnType r = doc_type (Some p)"
  unfolding read_anthropic_def by (rule unmarshal_type [of anthropic_fields]) (auto simp: anthropic_fields_def read_simps)

lemma langchain_type: "read_langchain p = Some r \<Longrightarrow> LcType r = doc_type (Some p)"
  unfolding read_langchain_def by (rule unmarshal_type [of langchain_fields]) (auto simp: langchain_fields_def read_simps)

lemma ClassifyByName_known: "ClassifyByName lower name \<in> set AllCategories"
  by (simp add: ClassifyByName_def category_keywords_def AllCategories_def)

text \<open>
  An adapter for one kind of document: what it recognises has that kind, and it turns it into a call
  of its vendor with a name and a known category.
\<close>

locale tool_adapter =
  fixes a :: adapter and kind :: string
  assumes handled_kind: "CanHandle a raw \<Longrightarrow> doc_type raw = kind"
    and handled_parses: "CanHandle a raw \<Longrightarrow>
      \<exists>tc. ParseCall a raw = Inr tc \<and> TcVendor tc = Vendor a \<and> TcName tc \<noteq> [] \<and> TcCategory tc \<in> set AllCategories"

text \<open>A registry of adapters for different kinds.\<close>

locale adapter_registry =
  fixes as :: "adapter list" and kind_of :: "adapter \<Rightarrow> string"
  assumes adapters: "a \<in> set as \<Longrightarrow> tool_adapter a (kind_of a)"
    and kinds_differ: "a \<in> set as \<Longrightarrow> b \<in> set as \<Longrightarrow> kind_of a = kind_of b \<Longrightarrow> a = b"
begin

lemma handler_unique: "a \<in> set as \<Longrightarrow> b \<in> set as \<Longrightarrow> CanHandle a raw \<Longrightarrow> CanHandle b raw \<Longrightarrow> a = b"
  using tool_adapter.handled_kind [OF adapters] kinds_differ by metis

lemma parse_by_handler:
  "a \<in> set bs \<Longrightarrow> set bs \<subseteq> set as \<Longrightarrow> CanHandle a raw \<Longrightarrow>
     RegistryParse bs raw = ParseCall a raw \<and> RegistryVendor bs raw = Vendor a"
  by (induction bs) (auto dest: handler_unique)

lemma parse_unhandled:
  "\<forall>a \<in> set bs. \<not> CanHandle a raw \<Longrightarrow> RegistryParse bs raw = Inl ErrUnknownFormat \<and> RegistryVendor bs raw = []"
  by (induction bs) auto

lemma parse_order: "set bs = set as \<Longrightarrow> RegistryParse bs raw = RegistryParse as raw"
  using parse_by_handler [of _ bs raw] parse_by_handler [of _ as raw] parse_unhandled [of bs raw] parse_unhandled [of as raw]
  by (cases "\<exists>a \<in> set as. CanHandle a raw") auto

lemma parse_detects:
  "if (\<exists>a \<in> set as. CanHandle a raw)
   then \<exists>a tc. a \<in> set as \<and> CanHandle a raw \<and> RegistryParse as raw = Inr tc \<and> RegistryVendor as raw = Vendor a \<and>
     TcVendor tc = Vendor a \<and> TcName tc \<noteq> [] \<and> TcCategory tc \<in> set AllCategories \<and> doc_type raw = kind_of a
   else RegistryParse as raw = Inl ErrUnknownFormat \<and> RegistryVendor as raw = []"
proof (cases "\<exists>a \<in> set as. CanHandle a raw")
  case True
  then obtain a where a: "a \<in> set as" "CanHandle a raw" by blast
  obtain tc where "ParseCall a raw = Inr tc" "TcVendor tc = Vendor a" "TcName tc \<noteq> []" "TcCategory tc \<in> set AllCategories"
    using tool_adapter.handled_parses [OF adapters [OF a(1)] a(2)] by blast
  moreover have "doc_type raw = kind_of a" by (rule tool_adapter.handled_kind [OF adapters [OF a(1)] a(2)])
  ultimately show ?thesis using True a parse_by_handler [OF a(1) order.refl a(2)] by auto
qed (use parse_unhandled [of as raw] in simp)

end

interpretation openai: tool_adapter "openai_adapter lower" "''function''"
  by unfold_locales (auto simp: openai_adapter_def ClassifyByName_known dest: openai_type split: option.splits)

interpretation anthropic: tool_adapter "anthropic_adapter lower raw_text" "''tool_use''"
  by unfold_locales (auto simp: anthropic_adapter_def ClassifyByName_known dest: anthropic_type split: option.splits)

interpretation langchain: tool_adapter "langchain_adapter lower raw_text" "''AgentAction''"
  by unfold_locales (auto simp: langchain_adapter_def ClassifyByName_known dest: langchain_type split: option.splits)

definition vendor_kind :: "string \<Rightarrow> string" where
  "vendor_kind v = (if v = ''anthropic'' then ''tool_use'' else if v = ''openai'' then ''function'' else ''AgentAction'')"

interpretation default_registry: adapter_registry "default_adapters lower raw_text" "\<lambda>a. vendor_kind (Vendor a)"
proof (rule adapter_registry.intro)
  have v: "Vendor (openai_adapter lower) = ''openai''" "Vendor (anthropic_adapter lower raw_text) = ''anthropic''"
    "Vendor (langchain_adapter lower raw_text) = ''langchain''"
    by (simp_all add: openai_adapter_def anthropic_adapter_def langchain_adapter_def)
  show "tool_adapter a (vendor_kind (Vendor a))" if "a \<in> set (default_adapters lower raw_text)" for a
    using that openai.tool_adapter_axioms anthropic.tool_adapter_axioms langchain.tool_adapter_axioms
    by (auto simp: default_adapters_def v vendor_kind_def)
  show "a = b" if "a \<in> set (default_adapters lower raw_text)" "b \<in> set (default_adapters lower raw_text)"
    "vendor_kind (Vendor a) = vendor_kind (Vendor b)" for a b
    using that by (auto simp: default_adapters_def v vendor_kind_def)
qed

text \<open>
  C32.  The registry: a payload is either refused as unknown or becomes a call with a name, a known
  category and the vendor that the registry reports, whose kind is the type of the document; and the
  order in which the adapters are asked makes no difference.
\<close>

theorem registry_detects_vendor:
  assumes "set as = set (default_adapters lower raw_text)"
  shows "RegistryParse as raw = RegistryParse (default_adapters lower raw_text) raw \<and>
    (case RegistryParse (default_adapters lower raw_text) raw of
       Inl e \<Rightarrow> e = ErrUnknownFormat \<and> RegistryVendor (default_adapters lower raw_text) raw = [] \<and>
         list_all (\<lambda>a. \<not> CanHandle a raw) as
     | Inr tc \<Rightarrow> TcVendor tc = RegistryVendor (default_adapters lower raw_text) raw \<and> TcName tc \<noteq> [] \<and>
         TcCategory tc \<in> set AllCategories \<and> doc_type raw = vendor_kind (TcVendor tc))"
  using default_registry.parse_order [OF assms] default_registry.parse_detects [of lower raw_text raw] assms
  by (cases "\<exists>a \<in> set (default_adapters lower raw_text). CanHandle a raw") (auto simp: list_all_iff)

theorem registry_detects_vendor_witness:
  "\<exists>tc. RegistryParse (rev (default_adapters id (\<lambda>j. [])))
      (Some (Some (JObj [(''type'', JStr ''tool_use''), (''name'', JStr ''run_sql'')]))) = Inr tc \<and>
     TcVendor tc = ''anthropic'' \<and> TcName tc \<noteq> []"
proof -
  let ?raw = "Some (Some (JObj [(''type'', JStr ''tool_use''), (''name'', JStr ''run_sql'')]))"
  have f: "field_decoder anthropic_fields ''type'' = Some (lens AnType (\<lambda>x r. r\<lparr>AnType := x\<rparr>) dec_string)"
    "field_decoder anthropic_fields ''name'' = Some (lens AnName (\<lambda>x r. r\<lparr>AnName := x\<rparr>) dec_string)"
    by (simp_all add: field_decoder_plain anthropic_fields_def plain_name_def)
  have "CanHandle (anthropic_adapter id (\<lambda>j. [])) ?raw"
    by (simp add: anthropic_adapter_def read_anthropic_def unmarshal_def f lens_def)
  then have "RegistryVendor (default_adapters id (\<lambda>j. [])) ?raw = ''anthropic''"
    "\<not> list_all (\<lambda>a. \<not> CanHandle a ?raw) (rev (default_adapters id (\<lambda>j. [])))"
    by (simp_all add: default_adapters_def) (simp add: anthropic_adapter_def)
  then show ?thesis
    using registry_detects_vendor [of "rev (default_adapters id (\<lambda>j. []))" id "\<lambda>j. []" ?raw]
    by (auto split: sum.splits)
qed

section \<open>Statistics by group\<close>

text \<open>The records of a group, and its statistics.\<close>

definition records_of :: "stats_key \<Rightarrow> call_record list \<Rightarrow> call_record list" where
  "records_of k records = filter (\<lambda>r. record_key r = k) records"

definition stats_spec :: "call_record list \<Rightarrow> stats_key \<Rightarrow> tool_stats" where
  "stats_spec records k =
     (let rs = records_of k records in
      \<lparr>TsToolName = fst k, TsVendor = snd k, CallCount = int (length rs), ErrorCount = int (length (filter CrHasError rs)),
       CostUSDSum = sum_list (map (\<lambda>r. CostUSD (TcCost (CrTool r))) rs), P99Ms = P99 (map CrDurationMs rs)\<rparr>)"

lemma stats_buckets_snoc: "stats_buckets (rs @ [r]) = add_record (stats_buckets rs) r"
  by (simp add: stats_buckets_def)

lemma stats_buckets_eq:
  "stats_buckets records k =
     (if records_of k records = [] then None
      else Some ((stats_spec records k)\<lparr>P99Ms := 0\<rparr>, map CrDurationMs (records_of k records)))"
proof (induction records rule: rev_induct)
  case Nil
  then show ?case by (simp add: stats_buckets_def records_of_def)
next
  case (snoc r rs)
  then show ?case
    by (auto simp: stats_buckets_snoc add_record_def Let_def records_of_def stats_spec_def empty_bucket_def
        filter_empty_conv)
qed

lemma stats_buckets_dom: "dom (stats_buckets records) = record_key ` set records"
  by (auto simp: dom_def stats_buckets_eq records_of_def filter_empty_conv image_iff split: if_splits) metis

lemma calls_by_key:
  "finite K \<Longrightarrow> record_key ` set records \<subseteq> K \<Longrightarrow> (\<Sum>k \<in> K. length (records_of k records)) = length records"
proof (induction records)
  case (Cons r rs)
  have "(\<Sum>k \<in> K. length (records_of k (r # rs))) =
      (\<Sum>k \<in> K. (if k = record_key r then 1 else 0) + length (records_of k rs))"
    by (rule sum.cong) (auto simp: records_of_def)
  with Cons show ?case by (simp add: sum.distrib)
qed (simp add: records_of_def)

text \<open>The rank of the percentile, and what it bounds.\<close>

lemma P99_rank:
  assumes "ds \<noteq> []"
  defines "rank \<equiv> nat \<lfloor>real (length ds - 1) * (99 / 100)\<rfloor>"
  shows "P99 ds \<in> set ds" "Suc rank \<le> length (filter (\<lambda>d. d \<le> P99 ds) ds)"
    "length ds - rank \<le> length (filter (\<lambda>d. P99 ds \<le> d) ds)"
proof -
  let ?s = "sort ds"
  have r: "rank < length ds"
  proof -
    have "real (length ds - 1) * (99 / 100) \<le> real (length ds - 1)" by simp
    then have "\<lfloor>real (length ds - 1) * (99 / 100)\<rfloor> \<le> int (length ds - 1)" by linarith
    then show ?thesis using assms(1) by (cases ds) (auto simp: rank_def)
  qed
  have p: "P99 ds = ?s ! rank" using assms(1) by (simp add: P99_def rank_def Let_def)
  have len: "length (filter P ds) = length (filter P ?s)" for P
    by (metis mset_filter mset_sort size_mset)
  show "P99 ds \<in> set ds" using r p by (metis length_sort nth_mem set_sort)
  have "filter (\<lambda>d. d \<le> ?s ! rank) ?s = filter (\<lambda>d. d \<le> ?s ! rank) (take (Suc rank) ?s) @
      filter (\<lambda>d. d \<le> ?s ! rank) (drop (Suc rank) ?s)"
    by (metis append_take_drop_id filter_append)
  moreover have "filter (\<lambda>d. d \<le> ?s ! rank) (take (Suc rank) ?s) = take (Suc rank) ?s"
    using r by (intro filter_True) (auto simp: in_set_conv_nth intro!: sorted_nth_mono)
  ultimately show "Suc rank \<le> length (filter (\<lambda>d. d \<le> P99 ds) ds)"
    unfolding p len using r by simp
  have "filter (\<lambda>d. ?s ! rank \<le> d) ?s = filter (\<lambda>d. ?s ! rank \<le> d) (take rank ?s) @ filter (\<lambda>d. ?s ! rank \<le> d) (drop rank ?s)"
    by (metis append_take_drop_id filter_append)
  moreover have "filter (\<lambda>d. ?s ! rank \<le> d) (drop rank ?s) = drop rank ?s"
    using r by (intro filter_True) (auto simp: in_set_conv_nth intro!: sorted_nth_mono)
  ultimately show "length ds - rank \<le> length (filter (\<lambda>d. P99 ds \<le> d) ds)"
    unfolding p len by simp
qed

text \<open>
  Observation.  The aggregator, for every order of the buckets: one entry per tool and vendor that occurs,
  with the number of its calls and errors, the sum of its costs and its percentile; the counts add
  up to the number of records, and the percentile is one of the group's durations, with more than
  99 in 100 of the others not above it.
\<close>

theorem aggregate_groups:
  assumes "map_order ks (stats_buckets records)"
  shows "Aggregate ks records = map (stats_spec records) ks \<and> distinct ks \<and> set ks = record_key ` set records \<and>
    sum_list (map CallCount (Aggregate ks records)) = int (length records) \<and>
    list_all (\<lambda>k. let ds = map CrDurationMs (records_of k records); p = P99Ms (stats_spec records k) in
        p \<in> set ds \<and> real (length (filter (\<lambda>d. d \<le> p) ds)) > real (length ds - 1) * (99 / 100)) ks"
proof -
  have ks: "distinct ks" "set ks = record_key ` set records"
    using assms by (auto simp: map_order_def stats_buckets_dom)
  have ne: "records_of k records \<noteq> []" if "k \<in> set ks" for k
    using that ks(2) by (auto simp: records_of_def filter_empty_conv)
  have spec: "(case stats_buckets records k of None \<Rightarrow> fst (empty_bucket k) | Some b \<Rightarrow> (fst b)\<lparr>P99Ms := P99 (snd b)\<rparr>) =
      stats_spec records k" if "k \<in> set ks" for k
    using ne [OF that] by (simp add: stats_buckets_eq stats_spec_def Let_def)
  then have agg: "Aggregate ks records = map (stats_spec records) ks" by (simp add: Aggregate_def)
  have "sum_list (map CallCount (Aggregate ks records)) = (\<Sum>k \<in> set ks. int (length (records_of k records)))"
    unfolding agg by (simp add: sum_list_distinct_conv_sum_set [OF ks(1)] stats_spec_def Let_def o_def)
  also have "\<dots> = int (\<Sum>k \<in> set ks. length (records_of k records))" by simp
  also have "\<dots> = int (length records)" by (subst calls_by_key) (simp_all add: ks(2))
  finally have total: "sum_list (map CallCount (Aggregate ks records)) = int (length records)" .
  have "let ds = map CrDurationMs (records_of k records); p = P99Ms (stats_spec records k) in
      p \<in> set ds \<and> real (length (filter (\<lambda>d. d \<le> p) ds)) > real (length ds - 1) * (99 / 100)" if "k \<in> set ks" for k
  proof -
    let ?ds = "map CrDurationMs (records_of k records)"
    have d: "?ds \<noteq> []" using ne [OF that] by simp
    have "real (length ?ds - 1) * (99 / 100) < of_int \<lfloor>real (length ?ds - 1) * (99 / 100)\<rfloor> + 1" by linarith
    also have "\<dots> = real (Suc (nat \<lfloor>real (length ?ds - 1) * (99 / 100)\<rfloor>))" by simp
    also have "\<dots> \<le> real (length (filter (\<lambda>d. d \<le> P99 ?ds) ?ds))" using P99_rank(2) [OF d] by (simp only: of_nat_le_iff)
    finally show ?thesis using P99_rank(1) [OF d] by (simp add: stats_spec_def Let_def)
  qed
  with agg ks total show ?thesis by (simp add: list_all_iff)
qed

definition demo_record :: "string \<Rightarrow> u64 \<Rightarrow> call_record" where
  "demo_record nm d = \<lparr>CrTool = zero_tool_call\<lparr>TcName := nm\<rparr>, CrDurationMs = d, CrHasError = True\<rparr>"

theorem aggregate_groups_witness:
  "map ErrorCount (Aggregate [(''b'', []), (''a'', [])] [demo_record ''a'' 5, demo_record ''b'' 2, demo_record ''a'' 3]) = [1, 2]"
proof -
  let ?rs = "[demo_record ''a'' 5, demo_record ''b'' 2, demo_record ''a'' 3]" and ?ks = "[(''b'', []), (''a'', [])] :: stats_key list"
  have "map_order ?ks (stats_buckets ?rs)"
    unfolding map_order_def stats_buckets_dom by (auto simp: record_key_def demo_record_def zero_tool_call_def)
  from aggregate_groups [OF this] show ?thesis
    by (simp add: stats_spec_def records_of_def record_key_def demo_record_def zero_tool_call_def Let_def)
qed

end
