(* ===== verification/Tool_Sinks.thy ===== *)
theory Tool_Sinks
  imports Tool_Calls
begin

text \<open>
  Where tool calls go (\<^verbatim>\<open>tool-call-analyzer\<close>): the topic of normalised calls and the fallback topic
  (\<^verbatim>\<open>pkg/kafka\<close>), the table \<^verbatim>\<open>tool_calls\<close> behind the HTTP interface of ClickHouse (\<^verbatim>\<open>pkg/clickhouse\<close>),
  the ingest endpoint of LensAI (\<^verbatim>\<open>pkg/lensai\<close>), and the two commands that read the table back
  (\<^verbatim>\<open>cmd/traceforge\<close>).

  A Kafka topic is the list of its messages; a send has an outcome given by the environment.  An
  exchange with ClickHouse has an answer, if any, and says whether the row was stored: a request that
  failed or ran into its deadline may have been carried out.  Times are arguments, and so is the
  layout of a timestamp.
\<close>

section \<open>Publisher\<close>

record kafka_message =
  MsgTopic :: string
  MsgKey :: string
  MsgValue :: json

definition enc_cost :: "cost_estimate \<Rightarrow> json" where
  "enc_cost c =
     JObj [(''input_tokens'', JInt (InputTokens c)), (''output_tokens'', JInt (OutputTokens c)),
       (''model_name'', JStr (CostModelName c)), (''cost_usd'', enc_float (CostUSD c))]"

definition enc_retries :: "retry_meta \<Rightarrow> json" where
  "enc_retries r =
     JObj [(''retry_count'', JInt (RetryCount r)), (''attempt_cost_usd'', enc_float (AttemptCostUSD r)),
       (''total_cost_usd'', enc_float (TotalCostUSD r)), (''last_error_msg'', JStr (LastErrorMsg r)),
       (''retry_reason'', JStr (RetryReason r))]"

definition enc_tool_call :: "tool_call \<Rightarrow> json" where
  "enc_tool_call tc =
     JObj [(''id'', JStr (TcID tc)), (''trace_id'', JStr (TcTraceID tc)), (''span_id'', JStr (TcSpanID tc)),
       (''name'', JStr (TcName tc)), (''vendor'', JStr (TcVendor tc)), (''category'', JStr (TcCategory tc)),
       (''input_json'', JStr (TcInputJSON tc)), (''output_json'', JStr (TcOutputJSON tc)),
       (''started_at_ns'', JInt (TcStartedAtNs tc)), (''finished_at_ns'', JInt (TcFinishedAtNs tc)),
       (''duration_ms'', JInt (TcDurationMs tc)), (''cost'', enc_cost (TcCost tc)), (''retries'', enc_retries (TcRetries tc))]"

definition DefaultTopic :: string where "DefaultTopic = ''tools.normalized.v1''"
definition FallbackTopic :: string where "FallbackTopic = ''tool-spans''"

datatype kafka_error = NoBrokers | CreateFailed | SendFailed

text \<open>\<open>dial\<close> tells whether a producer for the brokers could be created; the result is the topic.\<close>

definition NewPublisher :: "(string list \<Rightarrow> bool) \<Rightarrow> string list \<Rightarrow> string \<Rightarrow> kafka_error + string" where
  "NewPublisher dial brokers topic =
     (if brokers = [] then Inl NoBrokers
      else if \<not> dial brokers then Inl CreateFailed
      else Inr (if topic = [] then DefaultTopic else topic))"

text \<open>A send: \<open>None\<close> for success, else whether the message was stored although an error was reported.\<close>

type_synonym send_outcome = "bool option"

definition send_message :: "send_outcome \<Rightarrow> kafka_message \<Rightarrow> kafka_message list \<Rightarrow> bool \<times> kafka_message list" where
  "send_message env msg q =
     (case env of
        None \<Rightarrow> (True, q @ [msg])
      | Some stored \<Rightarrow> (False, if stored then q @ [msg] else q))"

definition Publish :: "send_outcome \<Rightarrow> string \<Rightarrow> tool_call \<Rightarrow> kafka_message list \<Rightarrow> bool \<times> kafka_message list" where
  "Publish env topic tc q =
     send_message env
       \<lparr>MsgTopic = topic, MsgKey = (if TcTraceID tc = [] then TcID tc else TcTraceID tc), MsgValue = enc_tool_call tc\<rparr> q"

section \<open>Rows\<close>

record tool_row =
  RwTraceID :: string
  RwToolID :: string
  RwToolName :: string
  RwVendor :: string
  RwCategory :: string
  RwModelName :: string
  RwInputTokens :: int
  RwOutputTokens :: int
  RwCostUSD :: real
  RwDurationMs :: u64
  RwTraceDurationMs :: u64
  RwHasError :: "8 word"
  RwStatus :: string
  RwTimestamp :: string

definition boolToUint8 :: "bool \<Rightarrow> 8 word" where
  "boolToUint8 b = (if b then 1 else 0)"

definition row_of :: "tool_call \<Rightarrow> u64 \<Rightarrow> u64 \<Rightarrow> bool \<Rightarrow> string \<Rightarrow> string \<Rightarrow> tool_row" where
  "row_of tc durationMs traceDurationMs hasError status now =
     \<lparr>RwTraceID = TcTraceID tc, RwToolID = TcID tc, RwToolName = TcName tc, RwVendor = TcVendor tc,
      RwCategory = TcCategory tc, RwModelName = CostModelName (TcCost tc), RwInputTokens = InputTokens (TcCost tc),
      RwOutputTokens = OutputTokens (TcCost tc), RwCostUSD = CostUSD (TcCost tc), RwDurationMs = durationMs,
      RwTraceDurationMs = traceDurationMs, RwHasError = boolToUint8 hasError, RwStatus = status, RwTimestamp = now\<rparr>"

section \<open>Fallback producer\<close>

record span_event =
  SeRow :: tool_row
  SeBufferedAtUnixMs :: int
  SeBufferReason :: string

definition row_fields :: "tool_row \<Rightarrow> (string \<times> json) list" where
  "row_fields r =
     [(''trace_id'', JStr (RwTraceID r)), (''tool_id'', JStr (RwToolID r)), (''tool_name'', JStr (RwToolName r)),
      (''vendor'', JStr (RwVendor r)), (''category'', JStr (RwCategory r)), (''model_name'', JStr (RwModelName r)),
      (''input_tokens'', JInt (RwInputTokens r)), (''output_tokens'', JInt (RwOutputTokens r)),
      (''cost_usd'', enc_float (RwCostUSD r)), (''duration_ms'', enc_word (RwDurationMs r)),
      (''trace_duration_ms'', enc_word (RwTraceDurationMs r)), (''has_error'', enc_word (RwHasError r)),
      (''status'', JStr (RwStatus r)), (''timestamp'', JStr (RwTimestamp r))]"

definition enc_span_event :: "span_event \<Rightarrow> json" where
  "enc_span_event ev =
     JObj (row_fields (SeRow ev) @ [(''buffered_at_unix_ms'', JInt (SeBufferedAtUnixMs ev)), (''buffer_reason'', JStr (SeBufferReason ev))])"

definition rowToSpanEvent :: "int \<Rightarrow> tool_row \<Rightarrow> string \<Rightarrow> span_event" where
  "rowToSpanEvent now_ms r reason = \<lparr>SeRow = r, SeBufferedAtUnixMs = now_ms, SeBufferReason = reason\<rparr>"

definition NewFallback :: "(string list \<Rightarrow> bool) \<Rightarrow> string list \<Rightarrow> string \<Rightarrow> kafka_error + string" where
  "NewFallback dial brokers topic =
     (if brokers = [] then Inl NoBrokers
      else if \<not> dial brokers then Inl CreateFailed
      else Inr (if topic = [] then FallbackTopic else topic))"

definition parse_brokers :: "string \<Rightarrow> string list" where
  "parse_brokers s = filter (\<lambda>b. b \<noteq> []) (map trim_space (split_on (CHR '','') s))"

text \<open>\<open>Inr None\<close> when the environment asks for no fallback.\<close>

definition NewFallbackFromEnv :: "(string list \<Rightarrow> bool) \<Rightarrow> string \<Rightarrow> string \<Rightarrow> kafka_error + string option" where
  "NewFallbackFromEnv dial kafka_brokers kafka_topic =
     (if trim_space kafka_brokers = [] then Inr None
      else
        let brokers = parse_brokers kafka_brokers in
        if brokers = [] then Inr None
        else case NewFallback dial brokers kafka_topic of Inl e \<Rightarrow> Inl e | Inr topic \<Rightarrow> Inr (Some topic))"

definition SendSpan :: "send_outcome \<Rightarrow> int \<Rightarrow> string \<Rightarrow> bool \<Rightarrow> span_event \<Rightarrow> kafka_message list \<Rightarrow> bool \<times> kafka_message list" where
  "SendSpan env now_ms topic cancelled ev q =
     (if cancelled then (False, q)
      else
        let ev = (if SeBufferedAtUnixMs ev = 0 then ev\<lparr>SeBufferedAtUnixMs := now_ms\<rparr> else ev)
        in send_message env \<lparr>MsgTopic = topic, MsgKey = RwToolID (SeRow ev), MsgValue = enc_span_event ev\<rparr> q)"

section \<open>ClickHouse writer\<close>

record ch_exchange =
  ChStatus :: "int option"
  ChStored :: bool
  ChDeadline :: bool

text \<open>What the service documents: an answer 200 means that the row is stored.\<close>

definition ch_honest :: "ch_exchange \<Rightarrow> bool" where
  "ch_honest x \<longleftrightarrow> (ChStatus x = Some 200 \<longrightarrow> ChStored x)"

definition doInsert :: "ch_exchange \<Rightarrow> tool_row \<Rightarrow> tool_row list \<Rightarrow> bool \<times> tool_row list" where
  "doInsert x r table = (ChStatus x = Some 200, if ChStored x then table @ [r] else table)"

record insert_env =
  ie_exchange :: ch_exchange
  ie_send :: send_outcome
  ie_now :: string
  ie_now_ms :: int

text \<open>The table and the fallback topic; \<open>fallback\<close> is the topic of the wired producer.\<close>

definition InsertCall ::
  "insert_env \<Rightarrow> string option \<Rightarrow> tool_call \<Rightarrow> u64 \<Rightarrow> u64 \<Rightarrow> bool \<Rightarrow> string \<Rightarrow>
     tool_row list \<times> kafka_message list \<Rightarrow> bool \<times> tool_row list \<times> kafka_message list" where
  "InsertCall env fallback tc durationMs traceDurationMs hasError status st =
     (let r = row_of tc durationMs traceDurationMs hasError status (ie_now env);
          (ok, table) = doInsert (ie_exchange env) r (fst st)
      in case fallback of
           None \<Rightarrow> (ok, table, snd st)
         | Some topic \<Rightarrow>
             if ok then (True, table, snd st)
             else
               let reason = (if ChDeadline (ie_exchange env) then ''clickhouse_timeout'' else ''clickhouse_error'');
                   (sent, q) = SendSpan (ie_send env) (ie_now_ms env) topic False (rowToSpanEvent (ie_now_ms env) r reason) (snd st)
               in (sent, table, q))"

section \<open>LensAI\<close>

record tool_lens_event =
  LeEventID :: string
  LeTenantID :: string
  LeModelID :: string
  LeTraceID :: string
  LeTimestampUnixMs :: u64
  LeLatencyMs :: u32
  LePromptTokens :: u32
  LeCompletionTokens :: u32
  LeCostUSD :: real
  LeStatus :: string
  LeRequestID :: string
  LeSource :: string

definition ToolEvent :: "int \<Rightarrow> tool_call \<Rightarrow> string \<Rightarrow> bool \<Rightarrow> string \<Rightarrow> tool_lens_event" where
  "ToolEvent now_ms tc tenantID hasError status =
     \<lparr>LeEventID = TcID tc, LeTenantID = tenantID,
      LeModelID = (if CostModelName (TcCost tc) = [] then TcName tc else CostModelName (TcCost tc)),
      LeTraceID = TcTraceID tc,
      LeTimestampUnixMs = (if 0 < TcFinishedAtNs tc then word_of_int (tdiv (TcFinishedAtNs tc) (10 ^ 6)) else word_of_int now_ms),
      LeLatencyMs = (if 0 < TcDurationMs tc then word_of_int (TcDurationMs tc) else 0),
      LePromptTokens = word_of_int (InputTokens (TcCost tc)), LeCompletionTokens = word_of_int (OutputTokens (TcCost tc)),
      LeCostUSD = CostUSD (TcCost tc),
      LeStatus = (if status = [] then (if hasError then ''error'' else ''success'') else status),
      LeRequestID = TcSpanID tc, LeSource = ''tool_call''\<rparr>"

text \<open>An exchange with the endpoint: no answer and whether the batch was taken, or the status.\<close>

datatype ingest_reply = NoReply bool | Reply int

definition InsertToolEvent ::
  "ingest_reply \<Rightarrow> int \<Rightarrow> tool_call \<Rightarrow> string \<Rightarrow> bool \<Rightarrow> string \<Rightarrow> tool_lens_event list \<Rightarrow> bool \<times> tool_lens_event list" where
  "InsertToolEvent reply now_ms tc tenantID hasError status posted =
     (if tenantID = [] then (False, posted)
      else
        let evt = ToolEvent now_ms tc tenantID hasError status in
        case reply of
          NoReply taken \<Rightarrow> (False, if taken then posted @ [evt] else posted)
        | Reply code \<Rightarrow> if code = 200 \<or> code = 202 then (True, posted @ [evt]) else (False, posted))"

section \<open>A buffered row can be recovered\<close>

definition zero_row :: tool_row where
  "zero_row = row_of zero_tool_call 0 0 False [] []"

text \<open>The struct of the row with its JSON tags, as \<^verbatim>\<open>encoding/json\<close> decodes it.\<close>

definition tool_row_fields :: "tool_row fields" where
  "tool_row_fields =
     [(''trace_id'', lens RwTraceID (\<lambda>x r. r\<lparr>RwTraceID := x\<rparr>) dec_string),
      (''tool_id'', lens RwToolID (\<lambda>x r. r\<lparr>RwToolID := x\<rparr>) dec_string),
      (''tool_name'', lens RwToolName (\<lambda>x r. r\<lparr>RwToolName := x\<rparr>) dec_string),
      (''vendor'', lens RwVendor (\<lambda>x r. r\<lparr>RwVendor := x\<rparr>) dec_string),
      (''category'', lens RwCategory (\<lambda>x r. r\<lparr>RwCategory := x\<rparr>) dec_string),
      (''model_name'', lens RwModelName (\<lambda>x r. r\<lparr>RwModelName := x\<rparr>) dec_string),
      (''input_tokens'', lens RwInputTokens (\<lambda>x r. r\<lparr>RwInputTokens := x\<rparr>) dec_int64),
      (''output_tokens'', lens RwOutputTokens (\<lambda>x r. r\<lparr>RwOutputTokens := x\<rparr>) dec_int64),
      (''cost_usd'', lens RwCostUSD (\<lambda>x r. r\<lparr>RwCostUSD := x\<rparr>) dec_float),
      (''duration_ms'', lens RwDurationMs (\<lambda>x r. r\<lparr>RwDurationMs := x\<rparr>) dec_uint),
      (''trace_duration_ms'', lens RwTraceDurationMs (\<lambda>x r. r\<lparr>RwTraceDurationMs := x\<rparr>) dec_uint),
      (''has_error'', lens RwHasError (\<lambda>x r. r\<lparr>RwHasError := x\<rparr>) dec_uint),
      (''status'', lens RwStatus (\<lambda>x r. r\<lparr>RwStatus := x\<rparr>) dec_string),
      (''timestamp'', lens RwTimestamp (\<lambda>x r. r\<lparr>RwTimestamp := x\<rparr>) dec_string)]"

text \<open>Go's \<^verbatim>\<open>int\<close> on the platforms of the services.\<close>

definition go_int :: "int \<Rightarrow> bool" where
  "go_int n \<longleftrightarrow> - (2 ^ 63) \<le> n \<and> n < 2 ^ 63"

lemma dec_int64_go_int [simp]: "go_int n \<Longrightarrow> dec_int64 (JInt n) x = Some n"
  by (simp add: go_int_def)

lemma tool_row_lookup [simp]:
  "field_decoder tool_row_fields ''trace_id'' = Some (lens RwTraceID (\<lambda>x r. r\<lparr>RwTraceID := x\<rparr>) dec_string)"
  "field_decoder tool_row_fields ''tool_id'' = Some (lens RwToolID (\<lambda>x r. r\<lparr>RwToolID := x\<rparr>) dec_string)"
  "field_decoder tool_row_fields ''tool_name'' = Some (lens RwToolName (\<lambda>x r. r\<lparr>RwToolName := x\<rparr>) dec_string)"
  "field_decoder tool_row_fields ''vendor'' = Some (lens RwVendor (\<lambda>x r. r\<lparr>RwVendor := x\<rparr>) dec_string)"
  "field_decoder tool_row_fields ''category'' = Some (lens RwCategory (\<lambda>x r. r\<lparr>RwCategory := x\<rparr>) dec_string)"
  "field_decoder tool_row_fields ''model_name'' = Some (lens RwModelName (\<lambda>x r. r\<lparr>RwModelName := x\<rparr>) dec_string)"
  "field_decoder tool_row_fields ''input_tokens'' = Some (lens RwInputTokens (\<lambda>x r. r\<lparr>RwInputTokens := x\<rparr>) dec_int64)"
  "field_decoder tool_row_fields ''output_tokens'' = Some (lens RwOutputTokens (\<lambda>x r. r\<lparr>RwOutputTokens := x\<rparr>) dec_int64)"
  "field_decoder tool_row_fields ''cost_usd'' = Some (lens RwCostUSD (\<lambda>x r. r\<lparr>RwCostUSD := x\<rparr>) dec_float)"
  "field_decoder tool_row_fields ''duration_ms'' = Some (lens RwDurationMs (\<lambda>x r. r\<lparr>RwDurationMs := x\<rparr>) dec_uint)"
  "field_decoder tool_row_fields ''trace_duration_ms'' = Some (lens RwTraceDurationMs (\<lambda>x r. r\<lparr>RwTraceDurationMs := x\<rparr>) dec_uint)"
  "field_decoder tool_row_fields ''has_error'' = Some (lens RwHasError (\<lambda>x r. r\<lparr>RwHasError := x\<rparr>) dec_uint)"
  "field_decoder tool_row_fields ''status'' = Some (lens RwStatus (\<lambda>x r. r\<lparr>RwStatus := x\<rparr>) dec_string)"
  "field_decoder tool_row_fields ''timestamp'' = Some (lens RwTimestamp (\<lambda>x r. r\<lparr>RwTimestamp := x\<rparr>) dec_string)"
  "field_decoder tool_row_fields ''buffered_at_unix_ms'' = None" "field_decoder tool_row_fields ''buffer_reason'' = None"
  by (simp_all add: field_decoder_plain tool_row_fields_def plain_name_def)

lemma span_event_recovers:
  assumes "go_int (RwInputTokens (SeRow ev))" "go_int (RwOutputTokens (SeRow ev))"
  shows "unmarshal (dec_struct tool_row_fields) (Some (enc_span_event ev)) zero_row = Some (SeRow ev)"
  using assms by (simp add: unmarshal_def enc_span_event_def row_fields_def lens_def del: dec_int64.simps)

section \<open>The writer drops nothing\<close>

text \<open>
  C21.  An insert with a fallback, whatever the exchange and the send do (with an acknowledged row
  stored): it reports success only when the row is in the table or a message under the tool's id is
  in the fallback topic from which the very row can be decoded again; it reports an error exactly
  when both the write and the send failed; and it adds nothing but that row and that message.
  Without a fallback the table's answer is reported.
\<close>

theorem insert_drops_nothing:
  assumes "ch_honest (ie_exchange env)" "go_int (InputTokens (TcCost tc))" "go_int (OutputTokens (TcCost tc))"
  shows "case InsertCall env fallback tc d td err status (table, q) of (ok, table', q') \<Rightarrow>
    let r = row_of tc d td err status (ie_now env) in
    (ok \<longleftrightarrow> ChStatus (ie_exchange env) = Some 200 \<or> fallback \<noteq> None \<and> ie_send env = None) \<and>
    (\<exists>rows msgs. table' = table @ rows \<and> q' = q @ msgs \<and> rows \<in> {[], [r]} \<and>
       (msgs = [] \<or> (\<exists>m. msgs = [m] \<and> fallback = Some (MsgTopic m) \<and> MsgKey m = TcID tc \<and>
          unmarshal (dec_struct tool_row_fields) (Some (MsgValue m)) zero_row = Some r)) \<and>
       (if ok then rows = [r] \<or> msgs \<noteq> [] else True))"
proof -
  define r where "r = row_of tc d td err status (ie_now env)"
  have ranges: "go_int (RwInputTokens r)" "go_int (RwOutputTokens r)" using assms(2,3) by (simp_all add: r_def row_of_def)
  have rec: "unmarshal (dec_struct tool_row_fields) (Some (enc_span_event ev)) zero_row = Some r" if "SeRow ev = r" for ev
    using span_event_recovers [of ev] that ranges by simp
  have k: "RwToolID r = TcID tc" by (simp add: r_def row_of_def)
  have stored: "ChStatus (ie_exchange env) = Some 200 \<Longrightarrow> ChStored (ie_exchange env)" using assms(1) by (simp add: ch_honest_def)
  show ?thesis
    using stored rec k
    by (cases fallback; cases "ie_send env"; cases "ChStatus (ie_exchange env) = Some 200"; cases "ChStored (ie_exchange env)")
      (auto simp: InsertCall_def doInsert_def SendSpan_def send_message_def rowToSpanEvent_def Let_def r_def [symmetric])
qed

definition demo_call :: tool_call where
  "demo_call = zero_tool_call\<lparr>TcID := ''call_1'', TcName := ''run_sql''\<rparr>"

definition demo_insert :: insert_env where
  "demo_insert = \<lparr>ie_exchange = \<lparr>ChStatus = None, ChStored = True, ChDeadline = True\<rparr>, ie_send = None, ie_now = ''now'', ie_now_ms = 7\<rparr>"

theorem insert_drops_nothing_witness:
  "fst (InsertCall demo_insert (Some FallbackTopic) demo_call 5 9 False ''ok'' ([], []))"
proof -
  have "ch_honest (ie_exchange demo_insert)" "go_int (InputTokens (TcCost demo_call))" "go_int (OutputTokens (TcCost demo_call))"
    by (simp_all add: ch_honest_def demo_insert_def go_int_def demo_call_def zero_tool_call_def)
  from insert_drops_nothing [OF this, where fallback = "Some FallbackTopic" and d = 5 and td = 9 and err = False and
      status = "''ok''" and table = "[]" and q = "[]"] show ?thesis
    by (simp add: Let_def split: prod.splits) (simp add: demo_insert_def)
qed

end
