(* ===== verification/Tool_Command.thy ===== *)
theory Tool_Command
  imports Tool_Sinks
begin

text \<open>
  The commands of the tool-call analyzer (\<^verbatim>\<open>tool-call-analyzer/cmd/traceforge\<close>): \<^verbatim>\<open>graph\<close> builds the
  dependency graph of a trace from the rows of ClickHouse and prints a report or the graph in DOT
  (\<^verbatim>\<open>graph.go\<close>), \<^verbatim>\<open>dual-write\<close> posts the cost of the same rows to LensAI (\<^verbatim>\<open>dualwrite.go\<close>).

  The service is a function from the text of a query to its answer.  The verb \<^verbatim>\<open>%q\<close> is the argument
  \<open>quote\<close>.  The printed report is the list of its lines.
\<close>

section \<open>Reading rows\<close>

definition double_quotes :: "string \<Rightarrow> string" where
  "double_quotes s = concat (map (\<lambda>c. if of_char c = (39 :: nat) then [c, c] else [c]) s)"

definition sq :: string where "sq = [char_of (39 :: nat)]"

definition spans_query :: "string \<Rightarrow> string" where
  "spans_query traceID =
     ''SELECT trace_id, tool_id, tool_name, vendor, duration_ms, trace_duration_ms, has_error FROM tool_calls WHERE trace_id = '' @
     sq @ double_quotes traceID @ sq @ '' FORMAT JSON''"

definition calls_query :: "string \<Rightarrow> string" where
  "calls_query traceID =
     ''SELECT tool_id, tool_name, vendor, model_name, input_tokens, output_tokens, cost_usd, duration_ms, has_error, status '' @
     ''FROM tool_calls WHERE trace_id = '' @ sq @ double_quotes traceID @ sq @ '' ORDER BY timestamp ASC FORMAT JSON''"

text \<open>An answer: the status and the body, or \<open>None\<close> when the request failed.\<close>

type_synonym query_service = "string \<Rightarrow> (int \<times> payload) option"

datatype fetch_error = RequestFailed | BadStatus int | BadBody

definition fetch_rows :: "query_service \<Rightarrow> string \<Rightarrow> 'r fields \<Rightarrow> 'r \<Rightarrow> fetch_error + 'r list" where
  "fetch_rows service query fs zero =
     (case service query of
        None \<Rightarrow> Inl RequestFailed
      | Some (code, body) \<Rightarrow>
          if code \<noteq> 200 then Inl (BadStatus code)
          else (case unmarshal (dec_struct [(''data'', dec_slice (dec_struct fs) zero)]) body [] of
                  None \<Rightarrow> Inl BadBody
                | Some rows \<Rightarrow> Inr rows))"

record graph_row =
  ChTraceID :: string
  ChToolID :: string
  ChToolName :: string
  ChVendor :: string
  ChDurationMs :: u64
  ChTraceDurationMs :: u64
  ChHasError :: int

definition zero_graph_row :: graph_row where
  "zero_graph_row =
     \<lparr>ChTraceID = [], ChToolID = [], ChToolName = [], ChVendor = [], ChDurationMs = 0, ChTraceDurationMs = 0, ChHasError = 0\<rparr>"

definition graph_row_fields :: "graph_row fields" where
  "graph_row_fields =
     [(''trace_id'', lens ChTraceID (\<lambda>x r. r\<lparr>ChTraceID := x\<rparr>) dec_string),
      (''tool_id'', lens ChToolID (\<lambda>x r. r\<lparr>ChToolID := x\<rparr>) dec_string),
      (''tool_name'', lens ChToolName (\<lambda>x r. r\<lparr>ChToolName := x\<rparr>) dec_string),
      (''vendor'', lens ChVendor (\<lambda>x r. r\<lparr>ChVendor := x\<rparr>) dec_string),
      (''duration_ms'', lens ChDurationMs (\<lambda>x r. r\<lparr>ChDurationMs := x\<rparr>) dec_uint),
      (''trace_duration_ms'', lens ChTraceDurationMs (\<lambda>x r. r\<lparr>ChTraceDurationMs := x\<rparr>) dec_uint),
      (''has_error'', lens ChHasError (\<lambda>x r. r\<lparr>ChHasError := x\<rparr>) dec_int64)]"

definition span_of_row :: "graph_row \<Rightarrow> span_record" where
  "span_of_row r =
     \<lparr>SrSpanID = ChToolID r, SrParentSpanID = [], SrToolName = ChToolName r, SrVendor = ChVendor r,
      SrDurationMs = ChDurationMs r, SrTraceDurationMs = ChTraceDurationMs r, SrHasError = (ChHasError r \<noteq> 0)\<rparr>"

definition fetchSpans :: "query_service \<Rightarrow> string \<Rightarrow> fetch_error + span_record list" where
  "fetchSpans service traceID =
     (case fetch_rows service (spans_query traceID) graph_row_fields zero_graph_row of
        Inl e \<Rightarrow> Inl e
      | Inr rows \<Rightarrow> Inr (map span_of_row rows))"

record tool_call_row =
  TrToolID :: string
  TrToolName :: string
  TrVendor :: string
  TrModelName :: string
  TrInputTokens :: int
  TrOutputTokens :: int
  TrCostUSD :: real
  TrDurationMs :: u64
  TrHasError :: int
  TrStatus :: string

definition zero_tool_call_row :: tool_call_row where
  "zero_tool_call_row =
     \<lparr>TrToolID = [], TrToolName = [], TrVendor = [], TrModelName = [], TrInputTokens = 0, TrOutputTokens = 0, TrCostUSD = 0,
      TrDurationMs = 0, TrHasError = 0, TrStatus = []\<rparr>"

definition tool_call_row_fields :: "tool_call_row fields" where
  "tool_call_row_fields =
     [(''tool_id'', lens TrToolID (\<lambda>x r. r\<lparr>TrToolID := x\<rparr>) dec_string),
      (''tool_name'', lens TrToolName (\<lambda>x r. r\<lparr>TrToolName := x\<rparr>) dec_string),
      (''vendor'', lens TrVendor (\<lambda>x r. r\<lparr>TrVendor := x\<rparr>) dec_string),
      (''model_name'', lens TrModelName (\<lambda>x r. r\<lparr>TrModelName := x\<rparr>) dec_string),
      (''input_tokens'', lens TrInputTokens (\<lambda>x r. r\<lparr>TrInputTokens := x\<rparr>) dec_int64),
      (''output_tokens'', lens TrOutputTokens (\<lambda>x r. r\<lparr>TrOutputTokens := x\<rparr>) dec_int64),
      (''cost_usd'', lens TrCostUSD (\<lambda>x r. r\<lparr>TrCostUSD := x\<rparr>) dec_float),
      (''duration_ms'', lens TrDurationMs (\<lambda>x r. r\<lparr>TrDurationMs := x\<rparr>) dec_uint),
      (''has_error'', lens TrHasError (\<lambda>x r. r\<lparr>TrHasError := x\<rparr>) dec_int64),
      (''status'', lens TrStatus (\<lambda>x r. r\<lparr>TrStatus := x\<rparr>) dec_string)]"

definition fetchToolCalls :: "query_service \<Rightarrow> string \<Rightarrow> fetch_error + tool_call_row list" where
  "fetchToolCalls service traceID = fetch_rows service (calls_query traceID) tool_call_row_fields zero_tool_call_row"

definition row_tool_call :: "tool_call_row \<Rightarrow> string \<Rightarrow> tool_call" where
  "row_tool_call r traceID =
     zero_tool_call\<lparr>TcID := TrToolID r, TcTraceID := traceID, TcName := TrToolName r, TcVendor := TrVendor r,
       TcDurationMs := sint (TrDurationMs r),
       TcCost := \<lparr>InputTokens = TrInputTokens r, OutputTokens = TrOutputTokens r, CostModelName = TrModelName r,
                  CostUSD = TrCostUSD r\<rparr>\<rparr>"

section \<open>Dual write\<close>

text \<open>The loop from call \<open>n\<close> on: \<open>Inl\<close> the tool id of the row that failed.\<close>

fun dual_write_rows ::
  "(nat \<Rightarrow> ingest_reply \<times> int) \<Rightarrow> string \<Rightarrow> string \<Rightarrow> nat \<Rightarrow> tool_call_row list \<Rightarrow> tool_lens_event list \<Rightarrow>
     (string + nat) \<times> tool_lens_event list" where
  "dual_write_rows env traceID tenantID n [] posted = (Inr n, posted)"
| "dual_write_rows env traceID tenantID n (r # rs) posted =
     (case InsertToolEvent (fst (env n)) (snd (env n)) (row_tool_call r traceID) tenantID (TrHasError r = 1) (TrStatus r) posted of
        (False, posted') \<Rightarrow> (Inl (TrToolID r), posted')
      | (True, posted') \<Rightarrow> dual_write_rows env traceID tenantID (Suc n) rs posted')"

datatype dual_write_result = Exit1 | DryRun "tool_lens_event list" | Wrote nat

definition runDualWrite ::
  "query_service \<Rightarrow> (nat \<Rightarrow> ingest_reply \<times> int) \<Rightarrow> string \<Rightarrow> string \<Rightarrow> bool \<Rightarrow> dual_write_result \<times> tool_lens_event list" where
  "runDualWrite service env traceID tenantID dryRun =
     (if traceID = [] then (Exit1, [])
      else if tenantID = [] then (Exit1, [])
      else case fetchToolCalls service traceID of
        Inl e \<Rightarrow> (Exit1, [])
      | Inr rows \<Rightarrow>
          if rows = [] then (Exit1, [])
          else if dryRun then
            (DryRun (map (\<lambda>(n, r). ToolEvent (snd (env n)) (row_tool_call r traceID) tenantID (TrHasError r = 1) (TrStatus r))
               (enumerate 0 rows)), [])
          else case dual_write_rows env traceID tenantID 0 rows [] of
            (Inl i, posted) \<Rightarrow> (Exit1, posted)
          | (Inr n, posted) \<Rightarrow> (Wrote n, posted))"

section \<open>Graph report\<close>

definition sanitizeDOTID :: "string \<Rightarrow> string" where
  "sanitizeDOTID s = map (\<lambda>c. if c = CHR ''-'' \<or> c = CHR ''.'' then CHR ''_'' else c) s"

definition node_or_zero :: "dependency_graph \<Rightarrow> string \<Rightarrow> graph_node" where
  "node_or_zero g i =
     (case Nodes g i of None \<Rightarrow> \<lparr>NodeSpanID = [], NodeToolName = [], NodeVendor = [], NodeDurationMs = 0\<rparr> | Some n \<Rightarrow> n)"

definition DQ :: string where "DQ = [char_of (34 :: nat)]"

definition ToDOT :: "(string \<Rightarrow> string) \<Rightarrow> string list \<Rightarrow> dependency_graph \<Rightarrow> string list" where
  "ToDOT quote keys g =
     (let ids = sort keys in
      [''digraph trace_'' @ sanitizeDOTID (GraphTraceID g) @ '' {'',
       ''  label='' @ DQ @ ''Trace '' @ GraphTraceID g @ DQ @ '';'', ''  rankdir=TB;''] @
      map (\<lambda>i. let n = node_or_zero g i in
        ''  '' @ quote i @ '' [label='' @ DQ @ NodeToolName n @ [char_of (92 :: nat)] @ ''n'' @ NodeVendor n @
        [char_of (92 :: nat)] @ ''n'' @ itoa (uint (NodeDurationMs n)) @ ''ms'' @ DQ @ ''];'') ids @
      concat (map (\<lambda>p. map (\<lambda>c. ''  '' @ quote p @ '' -> '' @ quote c @ '';'') (sort (Children g p))) ids) @ [''}''])"

definition order_line :: "dependency_graph \<Rightarrow> nat \<Rightarrow> string \<Rightarrow> string" where
  "order_line g i spanID =
     (let n = node_or_zero g spanID in
      ''  '' @ itoa (int i + 1) @ ''. ['' @ take 8 spanID @ ''] '' @ NodeToolName n @ '' ('' @ NodeVendor n @ '') '' @
      itoa (uint (NodeDurationMs n)) @ ''ms'')"

definition n1_line :: "n1_finding \<Rightarrow> string" where
  "n1_line f =
     ''  '' @ map char_of [226, 154, 160 :: nat] @ ''  '' @ N1ToolName f @ '' called '' @ itoa (N1Count f) @ '' times '' @
     map char_of [226, 128, 148 :: nat] @ '' possible N+1 pattern''"

text \<open>\<open>None\<close> when the search for a cycle does not return.\<close>

definition printTextReport :: "string list \<Rightarrow> string list \<Rightarrow> dependency_graph \<Rightarrow> int \<Rightarrow> string list option" where
  "printTextReport ids tools g minN1 =
     (case HasCycle ids g of
        None \<Rightarrow> None
      | Some hasCycle \<Rightarrow>
          (case (if hasCycle then Some [] else
                 case TopologicalSort ids g of
                   None \<Rightarrow> None
                 | Some (Inl e) \<Rightarrow> Some []
                 | Some (Inr order) \<Rightarrow>
                     Some (''Execution order:'' # map (\<lambda>(i, spanID). order_line g i spanID) (enumerate 0 order) @ [[]])) of
             None \<Rightarrow> None
           | Some order_lines \<Rightarrow>
               let findings = DetectN1 ids tools g minN1 in
               Some ([''=== TraceForge Graph Report ==='', ''Trace ID : '' @ GraphTraceID g, ''Nodes    : '' @ itoa (int (length ids)),
                   ''Cycle    : '' @ (if hasCycle then ''true'' else ''false''), []] @ order_lines @
                 (if findings = [] then [''N+1 check: clean (no tool called >= '' @ itoa minN1 @ '' times)'']
                  else (''N+1 alerts (threshold='' @ itoa minN1 @ ''):'') # map n1_line findings))))"

datatype graph_result = GraphExit1 | Printed "string list option"

definition runGraph ::
  "(string \<Rightarrow> string) \<Rightarrow> (string \<Rightarrow> string) \<Rightarrow> query_service \<Rightarrow> (dependency_graph \<Rightarrow> string list) \<Rightarrow> (dependency_graph \<Rightarrow> string list) \<Rightarrow>
     string \<Rightarrow> int \<Rightarrow> string \<Rightarrow> graph_result" where
  "runGraph lower quote service ids tools traceID minN1 format =
     (if traceID = [] then GraphExit1
      else case fetchSpans service traceID of
        Inl e \<Rightarrow> GraphExit1
      | Inr spans \<Rightarrow>
          if spans = [] then GraphExit1
          else let g = Build traceID spans in
            if lower format = ''dot'' then Printed (Some (ToDOT quote (ids g) g))
            else Printed (printTextReport (ids g) (tools g) g minN1))"

section \<open>Dual write\<close>

definition accepted_reply :: "ingest_reply \<Rightarrow> bool" where
  "accepted_reply r \<longleftrightarrow> (case r of NoReply _ \<Rightarrow> False | Reply code \<Rightarrow> code = 200 \<or> code = 202)"

definition row_event :: "(nat \<Rightarrow> ingest_reply \<times> int) \<Rightarrow> string \<Rightarrow> string \<Rightarrow> nat \<times> tool_call_row \<Rightarrow> tool_lens_event" where
  "row_event env traceID tenantID = (\<lambda>(n, r).
     ToolEvent (snd (env n)) (row_tool_call r traceID) tenantID (TrHasError r = 1) (TrStatus r))"

text \<open>The number of rows accepted before the first that is not.\<close>

fun accepted_rows :: "(nat \<Rightarrow> ingest_reply \<times> int) \<Rightarrow> nat \<Rightarrow> 'r list \<Rightarrow> nat" where
  "accepted_rows env n [] = 0"
| "accepted_rows env n (r # rs) = (if accepted_reply (fst (env n)) then Suc (accepted_rows env (Suc n) rs) else 0)"

lemma accepted_rows_le: "accepted_rows env n rs \<le> length rs"
  by (induction env n rs rule: accepted_rows.induct) auto

lemma InsertToolEvent_cases:
  assumes "tenantID \<noteq> []"
  shows "InsertToolEvent reply now tc tenantID err status posted =
    (if accepted_reply reply then (True, posted @ [ToolEvent now tc tenantID err status])
     else (False, posted @ (if reply = NoReply True then [ToolEvent now tc tenantID err status] else [])))"
  using assms by (cases reply) (auto simp: InsertToolEvent_def accepted_reply_def Let_def)

lemma dual_write_rows_eq:
  assumes "tenantID \<noteq> []"
  shows "dual_write_rows env traceID tenantID n rs posted =
    (let k = accepted_rows env n rs; evs = map (row_event env traceID tenantID) (enumerate n rs) in
     if k = length rs then (Inr (n + k), posted @ evs)
     else (Inl (TrToolID (rs ! k)), posted @ take (k + (if fst (env (n + k)) = NoReply True then 1 else 0)) evs))"
proof (induction rs arbitrary: n posted)
  case (Cons r rs)
  show ?case
  proof (cases "accepted_reply (fst (env n))")
    case True
    then show ?thesis by (simp add: InsertToolEvent_cases [OF assms] Cons Let_def row_event_def)
  next
    case False
    then show ?thesis by (simp add: InsertToolEvent_cases [OF assms] Let_def row_event_def)
  qed
qed simp

text \<open>
  Observation.  The dual write of a trace with calls: the events are posted in the order of the rows; the run
  succeeds exactly when all are accepted and then has posted each once; a refused one ends the run,
  after the events before it (and the refused one itself when its answer was lost).  A dry run shows
  the same events and posts nothing.  Every event belongs to the tenant and trace and has a status,
  and its time is the time of the dual write, not of the call.
\<close>

theorem dual_write_in_order:
  assumes "traceID \<noteq> []" "tenantID \<noteq> []" "fetchToolCalls service traceID = Inr rows" "rows \<noteq> []"
  shows "let evs = map (row_event env traceID tenantID) (enumerate 0 rows); k = accepted_rows env 0 rows in
    runDualWrite service env traceID tenantID False =
      (if k = length rows then (Wrote (length rows), evs)
       else (Exit1, take (k + (if fst (env k) = NoReply True then 1 else 0)) evs)) \<and>
    runDualWrite service env traceID tenantID True = (DryRun evs, []) \<and>
    list_all (\<lambda>e. LeTenantID e = tenantID \<and> LeTraceID e = traceID \<and> LeStatus e \<noteq> [] \<and> LeSource e = ''tool_call'') evs \<and>
    map LeCostUSD evs = map TrCostUSD rows \<and>
    map LeTimestampUnixMs evs = map (\<lambda>n. word_of_int (snd (env n))) [0..<length rows]"
proof -
  let ?evs = "map (row_event env traceID tenantID) (enumerate 0 rows)"
  have "map LeTimestampUnixMs ?evs = map (\<lambda>n. word_of_int (snd (env n))) [0..<length rows]"
    by (rule nth_equalityI) (simp_all add: row_event_def nth_enumerate_eq ToolEvent_def row_tool_call_def zero_tool_call_def)
  moreover have "map LeCostUSD ?evs = map TrCostUSD rows"
    by (rule nth_equalityI) (simp_all add: row_event_def nth_enumerate_eq ToolEvent_def row_tool_call_def)
  moreover have "list_all (\<lambda>e. LeTenantID e = tenantID \<and> LeTraceID e = traceID \<and> LeStatus e \<noteq> [] \<and> LeSource e = ''tool_call'') ?evs"
    by (auto simp: list_all_iff row_event_def ToolEvent_def row_tool_call_def split: if_splits)
  moreover have "runDualWrite service env traceID tenantID True = (DryRun ?evs, [])"
    using assms by (simp add: runDualWrite_def row_event_def)
  moreover have "runDualWrite service env traceID tenantID False =
      (if accepted_rows env 0 rows = length rows then (Wrote (length rows), ?evs)
       else (Exit1, take (accepted_rows env 0 rows + (if fst (env (accepted_rows env 0 rows)) = NoReply True then 1 else 0)) ?evs))"
    using assms by (simp add: runDualWrite_def dual_write_rows_eq Let_def)
  ultimately show ?thesis by (simp only: Let_def)
qed

section \<open>Rows read back\<close>

text \<open>
  The answer of the service to the two queries: the columns asked for, with 64-bit integers printed
  by \<open>num\<close>, among other fields of the document.
\<close>

definition calls_answer :: "(u64 \<Rightarrow> json) \<Rightarrow> tool_row list \<Rightarrow> json" where
  "calls_answer num rows =
     JObj [(''meta'', JArr []), (''data'', JArr (map (\<lambda>r. JObj
       [(''tool_id'', JStr (RwToolID r)), (''tool_name'', JStr (RwToolName r)), (''vendor'', JStr (RwVendor r)),
        (''model_name'', JStr (RwModelName r)), (''input_tokens'', JInt (RwInputTokens r)), (''output_tokens'', JInt (RwOutputTokens r)),
        (''cost_usd'', enc_float (RwCostUSD r)), (''duration_ms'', num (RwDurationMs r)), (''has_error'', enc_word (RwHasError r)),
        (''status'', JStr (RwStatus r))]) rows)), (''rows'', JInt (int (length rows)))]"

definition spans_answer :: "(u64 \<Rightarrow> json) \<Rightarrow> tool_row list \<Rightarrow> json" where
  "spans_answer num rows =
     JObj [(''meta'', JArr []), (''data'', JArr (map (\<lambda>r. JObj
       [(''trace_id'', JStr (RwTraceID r)), (''tool_id'', JStr (RwToolID r)), (''tool_name'', JStr (RwToolName r)),
        (''vendor'', JStr (RwVendor r)), (''duration_ms'', num (RwDurationMs r)), (''trace_duration_ms'', num (RwTraceDurationMs r)),
        (''has_error'', enc_word (RwHasError r))]) rows)), (''rows'', JInt (int (length rows)))]"

definition call_row_of :: "tool_row \<Rightarrow> tool_call_row" where
  "call_row_of r =
     \<lparr>TrToolID = RwToolID r, TrToolName = RwToolName r, TrVendor = RwVendor r, TrModelName = RwModelName r,
      TrInputTokens = RwInputTokens r, TrOutputTokens = RwOutputTokens r, TrCostUSD = RwCostUSD r,
      TrDurationMs = RwDurationMs r, TrHasError = uint (RwHasError r), TrStatus = RwStatus r\<rparr>"

definition span_of_tool_row :: "tool_row \<Rightarrow> span_record" where
  "span_of_tool_row r =
     \<lparr>SrSpanID = RwToolID r, SrParentSpanID = [], SrToolName = RwToolName r, SrVendor = RwVendor r,
      SrDurationMs = RwDurationMs r, SrTraceDurationMs = RwTraceDurationMs r, SrHasError = (RwHasError r \<noteq> 0)\<rparr>"

text \<open>
  How the service prints the \<^verbatim>\<open>UInt64\<close> columns: as strings with the setting
  \<^verbatim>\<open>output_format_json_quote_64bit_integers\<close>, which is on by default in the releases that are deployed, else as numbers.
\<close>

definition print_u64 :: "bool \<Rightarrow> u64 \<Rightarrow> json" where
  "print_u64 quoted w = (if quoted then JStr (itoa (uint w)) else enc_word w)"

text \<open>
  The service over a table, under either setting: it answers the first query with the rows of the
  trace by ascending time, those of one time in any order, and the second, which asks for no order, with
  the rows in any order.
\<close>

definition trace_rows :: "tool_row list \<Rightarrow> string \<Rightarrow> tool_row list \<Rightarrow> bool" where
  "trace_rows table t rows \<longleftrightarrow> mset rows = mset (filter (\<lambda>r. RwTraceID r = t) table)"

definition table_service :: "bool \<Rightarrow> tool_row list \<Rightarrow> string \<Rightarrow> tool_row list \<Rightarrow> tool_row list \<Rightarrow> query_service \<Rightarrow> bool" where
  "table_service quoted table t calls spans service \<longleftrightarrow>
     trace_rows table t calls \<and> sorted (map RwTimestamp calls) \<and> trace_rows table t spans \<and>
     service (calls_query t) = Some (200, Some (calls_answer (print_u64 quoted) calls)) \<and>
     service (spans_query t) = Some (200, Some (spans_answer (print_u64 quoted) spans))"

lemma trace_rows_set: "trace_rows table t rows \<Longrightarrow> set rows = {r \<in> set table. RwTraceID r = t}"
  unfolding trace_rows_def by (drule arg_cong [of _ _ set_mset]) auto

lemma data_lookup [simp]:
  "field_decoder [(''data'', d)] ''data'' = Some d" "field_decoder [(''data'', d)] ''meta'' = None"
  "field_decoder [(''data'', d)] ''rows'' = None"
  by (simp_all add: field_decoder_plain plain_name_def)

lemma graph_row_fields_lookup [simp]:
  "field_decoder graph_row_fields ''trace_id'' = Some (lens ChTraceID (\<lambda>x r. r\<lparr>ChTraceID := x\<rparr>) dec_string)"
  "field_decoder graph_row_fields ''tool_id'' = Some (lens ChToolID (\<lambda>x r. r\<lparr>ChToolID := x\<rparr>) dec_string)"
  "field_decoder graph_row_fields ''tool_name'' = Some (lens ChToolName (\<lambda>x r. r\<lparr>ChToolName := x\<rparr>) dec_string)"
  "field_decoder graph_row_fields ''vendor'' = Some (lens ChVendor (\<lambda>x r. r\<lparr>ChVendor := x\<rparr>) dec_string)"
  "field_decoder graph_row_fields ''duration_ms'' = Some (lens ChDurationMs (\<lambda>x r. r\<lparr>ChDurationMs := x\<rparr>) dec_uint)"
  "field_decoder graph_row_fields ''trace_duration_ms'' = Some (lens ChTraceDurationMs (\<lambda>x r. r\<lparr>ChTraceDurationMs := x\<rparr>) dec_uint)"
  "field_decoder graph_row_fields ''has_error'' = Some (lens ChHasError (\<lambda>x r. r\<lparr>ChHasError := x\<rparr>) dec_int64)"
  by (simp_all add: field_decoder_plain graph_row_fields_def plain_name_def)

lemma tool_call_row_fields_lookup [simp]:
  "field_decoder tool_call_row_fields ''tool_id'' = Some (lens TrToolID (\<lambda>x r. r\<lparr>TrToolID := x\<rparr>) dec_string)"
  "field_decoder tool_call_row_fields ''tool_name'' = Some (lens TrToolName (\<lambda>x r. r\<lparr>TrToolName := x\<rparr>) dec_string)"
  "field_decoder tool_call_row_fields ''vendor'' = Some (lens TrVendor (\<lambda>x r. r\<lparr>TrVendor := x\<rparr>) dec_string)"
  "field_decoder tool_call_row_fields ''model_name'' = Some (lens TrModelName (\<lambda>x r. r\<lparr>TrModelName := x\<rparr>) dec_string)"
  "field_decoder tool_call_row_fields ''input_tokens'' = Some (lens TrInputTokens (\<lambda>x r. r\<lparr>TrInputTokens := x\<rparr>) dec_int64)"
  "field_decoder tool_call_row_fields ''output_tokens'' = Some (lens TrOutputTokens (\<lambda>x r. r\<lparr>TrOutputTokens := x\<rparr>) dec_int64)"
  "field_decoder tool_call_row_fields ''cost_usd'' = Some (lens TrCostUSD (\<lambda>x r. r\<lparr>TrCostUSD := x\<rparr>) dec_float)"
  "field_decoder tool_call_row_fields ''duration_ms'' = Some (lens TrDurationMs (\<lambda>x r. r\<lparr>TrDurationMs := x\<rparr>) dec_uint)"
  "field_decoder tool_call_row_fields ''has_error'' = Some (lens TrHasError (\<lambda>x r. r\<lparr>TrHasError := x\<rparr>) dec_int64)"
  "field_decoder tool_call_row_fields ''status'' = Some (lens TrStatus (\<lambda>x r. r\<lparr>TrStatus := x\<rparr>) dec_string)"
  by (simp_all add: field_decoder_plain tool_call_row_fields_def plain_name_def)

lemma dec_has_error: "dec_int64 (enc_word (w :: 8 word)) x = Some (uint w)"
proof -
  have a: "0 \<le> uint w" and b: "uint w < 256" using uint_bounded [of w] by simp_all
  have "go_int (uint w)"
    unfolding go_int_def by (rule conjI, rule order_trans [OF _ a], simp, rule less_trans [OF b], simp)
  then show ?thesis by (simp add: enc_word_def del: dec_int64.simps)
qed

lemma fetchToolCalls_table:
  assumes "table_service False table t calls spans service" "\<forall>r \<in> set table. go_int (RwInputTokens r) \<and> go_int (RwOutputTokens r)"
  shows "fetchToolCalls service t = Inr (map call_row_of calls)"
proof -
  have sub: "set calls \<subseteq> set table" using assms(1) by (auto simp: table_service_def dest: trace_rows_set)
  let ?enc = "\<lambda>r. JObj
       [(''tool_id'', JStr (RwToolID r)), (''tool_name'', JStr (RwToolName r)), (''vendor'', JStr (RwVendor r)),
        (''model_name'', JStr (RwModelName r)), (''input_tokens'', JInt (RwInputTokens r)), (''output_tokens'', JInt (RwOutputTokens r)),
        (''cost_usd'', enc_float (RwCostUSD r)), (''duration_ms'', enc_word (RwDurationMs r)), (''has_error'', enc_word (RwHasError r)),
        (''status'', JStr (RwStatus r))]"
  have row: "dec_struct tool_call_row_fields (?enc r) zero_tool_call_row = Some (call_row_of r)"
    if "go_int (RwInputTokens r)" "go_int (RwOutputTokens r)" for r
    using that by (simp add: lens_def call_row_of_def zero_tool_call_row_def dec_has_error del: dec_int64.simps)
  have "dec_elems (dec_struct tool_call_row_fields) zero_tool_call_row (map ?enc rs) = Some (map call_row_of rs)"
    if "\<forall>r \<in> set rs. go_int (RwInputTokens r) \<and> go_int (RwOutputTokens r)" for rs
    using that by (induction rs) (simp_all add: row del: dec_struct.simps)
  then have "dec_elems (dec_struct tool_call_row_fields) zero_tool_call_row (map ?enc calls) = Some (map call_row_of calls)"
    using assms(2) sub by auto
  then show ?thesis
    using assms(1) by (simp add: fetchToolCalls_def fetch_rows_def table_service_def print_u64_def calls_answer_def unmarshal_def)
qed

lemma fetchSpans_table:
  assumes "table_service False table t calls spans service"
  shows "fetchSpans service t = Inr (map span_of_tool_row spans)"
proof -
  let ?enc = "\<lambda>r. JObj
       [(''trace_id'', JStr (RwTraceID r)), (''tool_id'', JStr (RwToolID r)), (''tool_name'', JStr (RwToolName r)),
        (''vendor'', JStr (RwVendor r)), (''duration_ms'', enc_word (RwDurationMs r)), (''trace_duration_ms'', enc_word (RwTraceDurationMs r)),
        (''has_error'', enc_word (RwHasError r))]"
  have row: "dec_struct graph_row_fields (?enc r) zero_graph_row =
      Some \<lparr>ChTraceID = RwTraceID r, ChToolID = RwToolID r, ChToolName = RwToolName r, ChVendor = RwVendor r,
            ChDurationMs = RwDurationMs r, ChTraceDurationMs = RwTraceDurationMs r, ChHasError = uint (RwHasError r)\<rparr>" for r
    by (simp add: lens_def zero_graph_row_def dec_has_error del: dec_int64.simps)
  have "map_option (map span_of_row) (dec_elems (dec_struct graph_row_fields) zero_graph_row (map ?enc rs)) = Some (map span_of_tool_row rs)" for rs
    by (induction rs) (auto simp: row span_of_row_def span_of_tool_row_def unsigned_eq_0_iff simp del: dec_struct.simps)
  from this [of spans] show ?thesis
    using assms by (auto simp: fetchSpans_def fetch_rows_def table_service_def print_u64_def spans_answer_def unmarshal_def)
qed

lemma fetch_quoted:
  assumes "table_service True table t calls spans service" "filter (\<lambda>r. RwTraceID r = t) table \<noteq> []"
    and "\<forall>r \<in> set table. go_int (RwInputTokens r) \<and> go_int (RwOutputTokens r)"
  shows "fetchToolCalls service t = Inl BadBody" "fetchSpans service t = Inl BadBody"
proof -
  have rows: "trace_rows table t calls" "trace_rows table t spans" using assms(1) by (simp_all add: table_service_def)
  then obtain r rs r' rs' where first: "calls = r # rs" "spans = r' # rs'"
    using assms(2) by (cases calls; cases spans) (auto simp: trace_rows_def)
  then have "r \<in> set table" using trace_rows_set [OF rows(1)] by auto
  with assms(3) have g: "go_int (RwInputTokens r)" "go_int (RwOutputTokens r)" by auto
  show "fetchToolCalls service t = Inl BadBody" "fetchSpans service t = Inl BadBody"
    using assms(1) g
    by (simp_all add: table_service_def print_u64_def first fetchToolCalls_def fetchSpans_def fetch_rows_def unmarshal_def
        calls_answer_def spans_answer_def lens_def zero_tool_call_row_def zero_graph_row_def del: dec_int64.simps)
qed

text \<open>What the event of a stored row carries.\<close>

definition event_of_row :: "string \<Rightarrow> string \<Rightarrow> tool_lens_event \<Rightarrow> tool_row \<Rightarrow> bool" where
  "event_of_row t tenantID e r \<longleftrightarrow>
     LeEventID e = RwToolID r \<and> LeCostUSD e = RwCostUSD r \<and> LeTraceID e = t \<and> LeTenantID e = tenantID \<and>
     LeModelID e = (if RwModelName r = [] then RwToolName r else RwModelName r) \<and>
     LePromptTokens e = word_of_int (RwInputTokens r) \<and> LeCompletionTokens e = word_of_int (RwOutputTokens r) \<and>
     LeStatus e = (if RwStatus r \<noteq> [] then RwStatus r else if RwHasError r = 1 then ''error'' else ''success'')"

lemma row_events:
  "list_all2 (event_of_row t tenantID) (map (row_event env t tenantID) (enumerate n (map call_row_of rows))) rows"
proof -
  have "uint w = 1 \<longleftrightarrow> w = 1" for w :: "8 word"
    using uint_1_eq [where 'a = 8] by (metis word_uint_eqI)
  then show ?thesis
    by (simp add: list_all2_conv_all_nth event_of_row_def row_event_def nth_enumerate_eq ToolEvent_def row_tool_call_def call_row_of_def)
qed

text \<open>
  C39.  The costs of the stored calls of a trace on their way to LensAI, for either way of printing
  \<^verbatim>\<open>UInt64\<close> columns and any answers of LensAI.  With quoted integers, the default of the deployed
  ClickHouse, a trace that has rows is never dual-written: the command fails and posts nothing.  With
  plain integers it posts one event per row, by ascending time, with the row's tool id, cost, model (or
  tool) name and token counts and the row's status if it has one, up to the first that is not
  accepted (which may itself have arrived when its answer was lost); it succeeds exactly when all are
  accepted.
\<close>

theorem stored_costs_reach_lensai:
  assumes "table_service quoted table t calls spans service"
    and "\<forall>r \<in> set table. go_int (RwInputTokens r) \<and> go_int (RwOutputTokens r)"
    and "t \<noteq> []" "tenantID \<noteq> []" "filter (\<lambda>r. RwTraceID r = t) table \<noteq> []"
  shows "case runDualWrite service env t tenantID False of (res, posted) \<Rightarrow>
    if quoted then res = Exit1 \<and> posted = []
    else let k = accepted_rows env 0 calls in
      mset calls = mset (filter (\<lambda>r. RwTraceID r = t) table) \<and> sorted (map RwTimestamp calls) \<and>
      res = (if k = length calls then Wrote k else Exit1) \<and>
      list_all2 (event_of_row t tenantID) posted
        (if k = length calls then calls else take (k + (if fst (env k) = NoReply True then 1 else 0)) calls)"
proof (cases quoted)
  case True
  with assms(1) have "fetchToolCalls service t = Inl BadBody" using fetch_quoted(1) [OF _ assms(5,2)] by simp
  with True assms(3,4) show ?thesis by (simp add: runDualWrite_def)
next
  case False
  let ?evs = "map (row_event env t tenantID) (enumerate 0 (map call_row_of calls))"
  have rows: "mset calls = mset (filter (\<lambda>r. RwTraceID r = t) table)" "sorted (map RwTimestamp calls)"
    using assms(1) by (simp_all add: table_service_def trace_rows_def)
  then have "calls \<noteq> []" using assms(5) by auto
  have "accepted_rows env n (map call_row_of rs) = accepted_rows env n rs" for n rs by (induction rs arbitrary: n) auto
  then have "runDualWrite service env t tenantID False =
      (if accepted_rows env 0 calls = length calls then (Wrote (length calls), ?evs)
       else (Exit1, take (accepted_rows env 0 calls + (if fst (env (accepted_rows env 0 calls)) = NoReply True then 1 else 0)) ?evs))"
    using False assms \<open>calls \<noteq> []\<close> by (simp add: runDualWrite_def fetchToolCalls_table dual_write_rows_eq Let_def)
  then show ?thesis
    using False rows row_events [of t tenantID env 0 calls] by (simp add: Let_def list_all2_takeI del: take_map)
qed

text \<open>
  Observation.  When the service prints 64-bit integers as strings, as its JSON format does unless told
  otherwise, neither command can read a trace that has rows.
\<close>

theorem quoted_integers_refused:
  assumes "table_service True table t calls spans service" "filter (\<lambda>r. RwTraceID r = t) table \<noteq> []"
    and "\<forall>r \<in> set table. go_int (RwInputTokens r) \<and> go_int (RwOutputTokens r)"
  shows "fetchToolCalls service t = Inl BadBody \<and> fetchSpans service t = Inl BadBody"
  using fetch_quoted [OF assms] by simp

definition demo_rows :: "tool_row list" where
  "demo_rows = [row_of (demo_call\<lparr>TcTraceID := ''t''\<rparr>) 5 9 True [] ''now'']"

definition demo_service :: "bool \<Rightarrow> query_service" where
  "demo_service quoted q =
     Some (200, Some (if q = calls_query ''t'' then calls_answer (print_u64 quoted) demo_rows else spans_answer (print_u64 quoted) demo_rows))"

lemma queries_differ: "calls_query t \<noteq> spans_query t"
  by (simp add: calls_query_def spans_query_def)

lemma demo_table_service: "table_service quoted demo_rows ''t'' demo_rows demo_rows (demo_service quoted)"
  using queries_differ [of "''t''"]
  by (auto simp: table_service_def trace_rows_def demo_service_def demo_rows_def row_of_def)

lemma demo_rows_facts:
  "\<forall>r \<in> set demo_rows. go_int (RwInputTokens r) \<and> go_int (RwOutputTokens r)"
  "filter (\<lambda>r. RwTraceID r = ''t'') demo_rows = demo_rows" "demo_rows \<noteq> []"
  by (simp_all add: demo_rows_def row_of_def demo_call_def zero_tool_call_def go_int_def)

theorem dual_write_in_order_witness:
  "runDualWrite (demo_service False) (\<lambda>n. (Reply 500, 3)) ''t'' ''acme'' False = (Exit1, [])"
proof -
  have "fetchToolCalls (demo_service False) ''t'' = Inr (map call_row_of demo_rows)"
    using fetchToolCalls_table [OF demo_table_service demo_rows_facts(1)] demo_rows_facts(2) by simp
  from dual_write_in_order [OF _ _ this, where tenantID = "''acme''" and env = "\<lambda>n. (Reply 500, 3)"] show ?thesis
    by (simp add: demo_rows_facts(3) Let_def) (simp add: demo_rows_def accepted_reply_def)
qed

theorem stored_costs_reach_lensai_witness:
  "fst (runDualWrite (demo_service False) (\<lambda>n. (Reply 202, 3)) ''t'' ''acme'' False) = Wrote 1 \<and>
   runDualWrite (demo_service True) (\<lambda>n. (Reply 202, 3)) ''t'' ''acme'' False = (Exit1, [])"
  using stored_costs_reach_lensai [OF demo_table_service [of False] demo_rows_facts(1), where tenantID = "''acme''" and env = "\<lambda>n. (Reply 202, 3)"]
    stored_costs_reach_lensai [OF demo_table_service [of True] demo_rows_facts(1), where tenantID = "''acme''" and env = "\<lambda>n. (Reply 202, 3)"]
  by (simp add: demo_rows_facts accepted_reply_def split: prod.splits) (simp add: demo_rows_def accepted_reply_def Let_def)

theorem quoted_integers_refused_witness:
  "fetchSpans (demo_service True) ''t'' = Inl BadBody"
  using quoted_integers_refused [OF demo_table_service _ demo_rows_facts(1)] demo_rows_facts by simp

section \<open>The report\<close>

lemma kahn_no_edges: "(\<forall>i. ch i = []) \<Longrightarrow> kahn ch (deg, q, res) = Some (deg, [], res @ q)"
  unfolding kahn_def by (induction q arbitrary: res) (subst while_option_unfold; simp)+

lemma Build_no_parents:
  assumes "\<forall>s \<in> set spans. SrParentSpanID s = []"
  shows "Children (Build t spans) i = []" "Parents (Build t spans) i = []" "GraphTraceID (Build t spans) = t"
proof -
  have "fold add_edge ss g = g" if "\<forall>s \<in> set ss. SrParentSpanID s = []" for ss g
    using that by (induction ss arbitrary: g) (auto simp: add_edge_def Let_def)
  then have "Build t spans = fold add_node spans \<lparr>GraphTraceID = t, Nodes = Map.empty, Children = (\<lambda>_. []), Parents = (\<lambda>_. [])\<rparr>"
    using assms by (simp add: Build_def Let_def)
  moreover have "GraphTraceID (fold add_node ss g) = GraphTraceID g" for ss g
    by (induction ss arbitrary: g) (simp_all add: add_node_def)
  ultimately show "Children (Build t spans) i = []" "Parents (Build t spans) i = []" "GraphTraceID (Build t spans) = t"
    by (simp_all add: fold_add_node)
qed

lemma flat_order:
  assumes "\<forall>s \<in> set spans. SrParentSpanID s = []" "map_order ids (Nodes (Build t spans))"
  shows "HasCycle ids (Build t spans) = Some False" "TopologicalSort ids (Build t spans) = Some (Inr (sort ids))"
proof -
  note flat = Build_no_parents [OF assms(1)]
  have "edges (Build t spans) = {}" by (simp add: edges_def flat)
  then show c: "HasCycle ids (Build t spans) = Some False"
    using HasCycle_iff [OF wf_Build assms(2)] by (simp add: acyclic_def)
  have "roots ids (Build t spans) = sort ids" by (simp add: roots_def in_degrees_def flat)
  then show "TopologicalSort ids (Build t spans) = Some (Inr (sort ids))"
    using c by (simp add: TopologicalSort_def kahn_no_edges flat)
qed

text \<open>
  Observation.  The text report of a stored trace: it always comes out, reports no cycle, and lists every tool
  id of the trace once in ascending order, each with the tool, vendor and duration of the last row
  of that id in the answer of the service, which has to print plain integers.
\<close>

theorem graph_report_lists_trace:
  assumes "table_service False table t calls stored service" "t \<noteq> []" "lower format \<noteq> ''dot''"
    and "filter (\<lambda>r. RwTraceID r = t) table \<noteq> []"
    and "\<forall>g. finite (dom (Nodes g)) \<longrightarrow> map_order (ids g) (Nodes g)"
  shows "\<exists>g n1. runGraph lower quote service ids tools t minN1 format =
      Printed (Some ([''=== TraceForge Graph Report ==='', ''Trace ID : '' @ t,
          ''Nodes    : '' @ itoa (int (card (RwToolID ` {r \<in> set table. RwTraceID r = t}))), ''Cycle    : false'', [],
          ''Execution order:''] @ map (\<lambda>(i, spanID). order_line g i spanID)
            (enumerate 0 (sorted_list_of_set (RwToolID ` {r \<in> set table. RwTraceID r = t}))) @ [[]] @ n1)) \<and>
      g = Build t (map span_of_tool_row stored)"
proof -
  define spans where "spans = map span_of_tool_row stored"
  have rows: "trace_rows table t stored" using assms(1) by (simp add: table_service_def)
  define g where "g = Build t spans"
  have flat: "\<forall>s \<in> set spans. SrParentSpanID s = []" by (simp add: spans_def span_of_tool_row_def)
  have o: "map_order (ids g) (Nodes g)" using assms(5) by (simp add: g_def dom_Nodes_Build)
  have dom: "set (ids g) = RwToolID ` {r \<in> set table. RwTraceID r = t}"
    using o by (simp add: map_order_def g_def dom_Nodes_Build spans_def span_of_tool_row_def image_image trace_rows_set [OF rows])
  have sorted: "sort (ids g) = sorted_list_of_set (RwToolID ` {r \<in> set table. RwTraceID r = t})"
    using o unfolding map_order_def dom [symmetric]
    by (metis sorted_list_of_set_sort_remdups distinct_remdups_id)
  have len: "length (ids g) = card (RwToolID ` {r \<in> set table. RwTraceID r = t})"
    using o unfolding map_order_def dom [symmetric] by (metis distinct_card)
  have "fetchSpans service t = Inr spans" by (simp add: fetchSpans_table [OF assms(1)] spans_def)
  moreover have "spans \<noteq> []" using assms(4) rows by (auto simp: spans_def trace_rows_def)
  ultimately have "runGraph lower quote service ids tools t minN1 format = Printed (printTextReport (ids g) (tools g) g minN1)"
    using assms(2,3) by (simp add: runGraph_def g_def Let_def)
  then show ?thesis
    using flat_order [OF flat o [unfolded g_def]] Build_no_parents(3) [OF flat, of t]
    by (intro exI [of _ g]) (simp add: printTextReport_def g_def [symmetric] sorted len Let_def spans_def [symmetric])
qed

theorem graph_report_lists_trace_witness:
  "\<exists>lines. runGraph id id (demo_service False) (\<lambda>g. sorted_list_of_set (dom (Nodes g))) (\<lambda>g. []) ''t'' 3 ''text'' =
     Printed (Some lines)"
  using graph_report_lists_trace [OF demo_table_service, where lower = id and format = "''text''" and quote = id and
      ids = "\<lambda>g. sorted_list_of_set (dom (Nodes g))" and tools = "\<lambda>g. []" and ?minN1.0 = 3]
  by (auto simp: demo_rows_facts map_order_def)

text \<open>
  Observation.  LangChain calls carry no id, so the calls of a trace that come from the LangChain adapter are
  one node of the graph however many there are, and the check for repeated calls finds nothing for
  any threshold above one.
\<close>

theorem langchain_calls_collapse:
  assumes "list_all2 (\<lambda>raw tc. ParseCall (langchain_adapter lower raw_text) raw = Inr tc) raws tcs" "tcs \<noteq> []"
    and "g = Build t (map (\<lambda>tc. span_of_tool_row (row_of (tc\<lparr>TcTraceID := t\<rparr>) d td err status now)) tcs)"
    and "map_order ids (Nodes g)" "map_order tools (tool_counts ids g)" "1 < minN1"
  shows "dom (Nodes g) = {[]} \<and> DetectN1 ids tools g minN1 = []"
proof -
  have id: "TcID tc = []" if "ParseCall (langchain_adapter lower raw_text) raw = Inr tc" for raw tc
    using that by (auto simp: langchain_adapter_def zero_tool_call_def split: option.splits if_splits)
  have "TcID tc = []" if "tc \<in> set tcs" for tc
    using assms(1) that id by (auto simp: list_all2_conv_all_nth in_set_conv_nth)
  then have "TcID ` set tcs = {[]}" using assms(2) by (cases tcs) auto
  then have dom: "dom (Nodes g) = {[]}"
    by (simp add: assms(3) dom_Nodes_Build image_image span_of_tool_row_def row_of_def)
  have "card {i \<in> dom (Nodes g). tool_of g i = tl} \<le> 1" for tl
    by (rule order_trans [OF card_mono [of "{[]}"]]) (auto simp: dom)
  then have "\<not> minN1 \<le> calls_of g tl" for tl using assms(6) by (simp add: not_le order_le_less_trans [of _ 1])
  then have "n1_spec g minN1 = {}" by (simp add: n1_spec_def del: tool_of.simps)
  then show ?thesis using dom DetectN1_set(1) [OF assms(4,5), of minN1] by simp
qed

definition demo_action :: raw_bytes where
  "demo_action = Some (Some (JObj [(''tool'', JStr ''search'')]))"

theorem langchain_calls_collapse_witness:
  "\<exists>tc. ParseCall (langchain_adapter id (\<lambda>j. [])) demo_action = Inr tc \<and>
     dom (Nodes (Build ''t'' (replicate 3 (span_of_tool_row (row_of (tc\<lparr>TcTraceID := ''t''\<rparr>) 1 1 False [] []))))) = {[]}"
proof -
  have f: "field_decoder langchain_fields ''tool'' = Some (lens LcTool (\<lambda>x r. r\<lparr>LcTool := x\<rparr>) dec_string)"
    by (simp add: field_decoder_plain langchain_fields_def plain_name_def)
  obtain tc where tc: "ParseCall (langchain_adapter id (\<lambda>j. [])) demo_action = Inr tc"
    by (simp add: langchain_adapter_def demo_action_def read_langchain_def unmarshal_def f lens_def)
  define g where "g = Build ''t'' (map (\<lambda>tc. span_of_tool_row (row_of (tc\<lparr>TcTraceID := ''t''\<rparr>) 1 1 False [] [])) [tc, tc, tc])"
  have fin: "finite (dom (Nodes g))" by (simp add: g_def dom_Nodes_Build)
  define ids where "ids = sorted_list_of_set (dom (Nodes g))"
  define tools where "tools = sorted_list_of_set (dom (tool_counts ids g))"
  have ids: "map_order ids (Nodes g)" using fin by (simp add: map_order_def ids_def)
  have "dom (tool_counts ids g) \<subseteq> tool_of g ` set ids"
  proof
    fix x assume "x \<in> dom (tool_counts ids g)"
    then have "card {i \<in> dom (Nodes g). tool_of g i = x} \<noteq> 0"
      by (auto simp: tool_counts_calls [OF ids] simp del: tool_of.simps split: if_splits)
    then obtain i where "i \<in> dom (Nodes g)" "tool_of g i = x" by (metis (mono_tags, lifting) card.empty empty_Collect_eq)
    with ids show "x \<in> tool_of g ` set ids" by (auto simp: map_order_def simp del: tool_of.simps)
  qed
  then have "finite (dom (tool_counts ids g))" by (rule finite_subset) simp
  then have "map_order tools (tool_counts ids g)" by (simp add: map_order_def tools_def)
  from langchain_calls_collapse [OF _ _ g_def ids this, of id "\<lambda>j. []" "[demo_action, demo_action, demo_action]" 2] tc
  show ?thesis by (auto simp: g_def numeral_3_eq_3)
qed

end
