(* ===== verification/Tool_Main.thy ===== *)
theory Tool_Main
  imports Tool_Command Go_Flag
begin

text \<open>
  The command line of the tool-call analyzer (\<^verbatim>\<open>tool-call-analyzer/cmd/traceforge/main.go\<close> and the flags of
  \<^verbatim>\<open>graph.go\<close> and \<^verbatim>\<open>dualwrite.go\<close>): the dispatch on the command, the flags with their defaults from the
  environment, and the exit codes.  A flag set of these commands exits on errors: with code 0 when help
  is asked for, with code 2 otherwise.  Services are found by their URL; the integer flag is parsed by
  an argument.
\<close>

section \<open>Flags\<close>

definition envOrDefault :: "environ \<Rightarrow> string \<Rightarrow> string \<Rightarrow> string" where
  "envOrDefault vars key dflt = (let v = Getenv vars key in if v \<noteq> [] then v else dflt)"

record graph_flags =
  gf_trace :: string
  gf_min_n1 :: int
  gf_format :: string
  gf_clickhouse :: string

definition graph_flag_set :: "(string \<Rightarrow> int option) \<Rightarrow> graph_flags flag_set" where
  "graph_flag_set pint =
     [(''trace-id'', string_flag (\<lambda>v f. f\<lparr>gf_trace := v\<rparr>)),
      (''min-n1-count'', parsed_flag pint (\<lambda>v f. f\<lparr>gf_min_n1 := v\<rparr>)),
      (''format'', string_flag (\<lambda>v f. f\<lparr>gf_format := v\<rparr>)),
      (''clickhouse-url'', string_flag (\<lambda>v f. f\<lparr>gf_clickhouse := v\<rparr>))]"

definition graph_defaults :: "environ \<Rightarrow> graph_flags" where
  "graph_defaults vars =
     \<lparr>gf_trace = [], gf_min_n1 = 3, gf_format = ''text'',
      gf_clickhouse = envOrDefault vars ''CLICKHOUSE_URL'' ''http://localhost:8123''\<rparr>"

record dual_flags =
  df_trace :: string
  df_tenant :: string
  df_clickhouse :: string
  df_lensai :: string
  df_dry_run :: bool

definition dual_flag_set :: "dual_flags flag_set" where
  "dual_flag_set =
     [(''trace-id'', string_flag (\<lambda>v f. f\<lparr>df_trace := v\<rparr>)),
      (''tenant-id'', string_flag (\<lambda>v f. f\<lparr>df_tenant := v\<rparr>)),
      (''clickhouse-url'', string_flag (\<lambda>v f. f\<lparr>df_clickhouse := v\<rparr>)),
      (''lensai-url'', string_flag (\<lambda>v f. f\<lparr>df_lensai := v\<rparr>)),
      (''dry-run'', parsed_flag ParseBool (\<lambda>v f. f\<lparr>df_dry_run := v\<rparr>))]"

definition dual_defaults :: "environ \<Rightarrow> dual_flags" where
  "dual_defaults vars =
     \<lparr>df_trace = [], df_tenant = [],
      df_clickhouse = envOrDefault vars ''CLICKHOUSE_URL'' ''http://localhost:8123'',
      df_lensai = envOrDefault vars ''LENSAI_INGEST_URL'' ''http://localhost:8080/ingest'', df_dry_run = False\<rparr>"

section \<open>Dispatch\<close>

record tool_world =
  tw_vars :: environ
  tw_parse_int :: "string \<Rightarrow> int option"
  tw_lower :: "string \<Rightarrow> string"
  tw_quote :: "string \<Rightarrow> string"
  tw_clickhouse :: "string \<Rightarrow> query_service"
  tw_lensai :: "string \<Rightarrow> nat \<Rightarrow> ingest_reply \<times> int"
  tw_ids :: "dependency_graph \<Rightarrow> string list"
  tw_tools :: "dependency_graph \<Rightarrow> string list"

datatype tool_result = ToolExit int | GraphOut "string list option" | ShownEvents "tool_lens_event list" | ReportLine string

fun flag_exit :: "flag_error \<Rightarrow> int" where
  "flag_exit HelpRequested = 0"
| "flag_exit BadUsage = 2"

definition graph_command :: "tool_world \<Rightarrow> string list \<Rightarrow> tool_result" where
  "graph_command w args =
     (case parse_args [] (graph_flag_set (tw_parse_int w)) args (graph_defaults (tw_vars w)) of
        Inl e \<Rightarrow> ToolExit (flag_exit e)
      | Inr f \<Rightarrow>
          (case runGraph (tw_lower w) (tw_quote w) (tw_clickhouse w (gf_clickhouse f)) (tw_ids w) (tw_tools w)
                  (gf_trace f) (gf_min_n1 f) (gf_format f) of
             GraphExit1 \<Rightarrow> ToolExit 1
           | Printed ls \<Rightarrow> GraphOut ls))"

definition dual_write_report :: "dual_flags \<Rightarrow> nat \<Rightarrow> string" where
  "dual_write_report f n =
     ''dual-wrote '' @ itoa (int n) @ '' tool call(s) for trace-id='' @ df_trace f @ '' tenant-id='' @ df_tenant f @ '' to '' @ df_lensai f"

definition dual_write_command :: "tool_world \<Rightarrow> string list \<Rightarrow> tool_result \<times> tool_lens_event list" where
  "dual_write_command w args =
     (case parse_args [''dry-run''] dual_flag_set args (dual_defaults (tw_vars w)) of
        Inl e \<Rightarrow> (ToolExit (flag_exit e), [])
      | Inr f \<Rightarrow>
          (case runDualWrite (tw_clickhouse w (df_clickhouse f)) (tw_lensai w (df_lensai f)) (df_trace f) (df_tenant f) (df_dry_run f) of
             (Exit1, posted) \<Rightarrow> (ToolExit 1, posted)
           | (DryRun evs, posted) \<Rightarrow> (ShownEvents evs, posted)
           | (Wrote n, posted) \<Rightarrow> (ReportLine (dual_write_report f n), posted)))"

text \<open>The arguments without the name of the program: the result and the events posted to LensAI.\<close>

definition tool_main :: "tool_world \<Rightarrow> string list \<Rightarrow> tool_result \<times> tool_lens_event list" where
  "tool_main w args =
     (case args of
        [] \<Rightarrow> (ToolExit 1, [])
      | cmd # rest \<Rightarrow>
          if cmd = ''graph'' then (graph_command w rest, [])
          else if cmd = ''dual-write'' then dual_write_command w rest
          else (ToolExit 1, []))"

section \<open>The dual write command\<close>

lemma dual_flags_known:
  "map_of dual_flag_set ''trace-id'' = Some (string_flag (\<lambda>v f. f\<lparr>df_trace := v\<rparr>))"
  "map_of dual_flag_set ''tenant-id'' = Some (string_flag (\<lambda>v f. f\<lparr>df_tenant := v\<rparr>))"
  "map_of dual_flag_set ''lensai-url'' = Some (string_flag (\<lambda>v f. f\<lparr>df_lensai := v\<rparr>))"
  "map_of dual_flag_set ''dry-run'' = Some (parsed_flag ParseBool (\<lambda>v f. f\<lparr>df_dry_run := v\<rparr>))"
  by (simp_all add: dual_flag_set_def)

lemma dual_flag_names: "flag_name ''trace-id''" "flag_name ''tenant-id''" "flag_name ''lensai-url''" "flag_name ''dry-run''"
  by (simp_all add: flag_name_def)

lemmas dual_spellings =
  parse_args_spellings(1) [OF dual_flag_names(1) dual_flags_known(1), simplified]
  parse_args_spellings(1) [OF dual_flag_names(2) dual_flags_known(2), simplified]
  parse_args_spellings(1) [OF dual_flag_names(3) dual_flags_known(3), simplified]
  parse_args_spellings(3) [OF dual_flag_names(4) dual_flags_known(4), simplified]

lemma dual_args_parsed:
  "parse_args [''dry-run''] dual_flag_set ([''--trace-id'', t, ''--tenant-id'', u] @ rest) f =
     parse_args [''dry-run''] dual_flag_set rest (f\<lparr>df_trace := t, df_tenant := u\<rparr>)"
  "parse_args [''dry-run''] dual_flag_set (''--dry-run'' # rest) f = parse_args [''dry-run''] dual_flag_set rest (f\<lparr>df_dry_run := True\<rparr>)"
  "parse_args [''dry-run''] dual_flag_set [''--lensai-url'', url] f = Inr (f\<lparr>df_lensai := url\<rparr>)"
  by (simp_all add: dual_spellings string_flag_def parsed_flag_def ParseBool_def)

text \<open>
  Observation.  The dual write from the command line.  For a trace with calls in the ClickHouse of the
  environment: with \<^verbatim>\<open>--lensai-url\<close> the events go to that service in the order of the rows; the run
  reports the number of rows exactly when all were accepted, and else exits with code 1 after the
  events before the refused one (and that one, when only its answer was lost).  After \<^verbatim>\<open>--dry-run\<close> the
  same events are shown and nothing is posted.
\<close>

theorem dual_write_from_command_line:
  assumes "traceID \<noteq> []" "tenantID \<noteq> []" "rows \<noteq> []"
    and "fetchToolCalls (tw_clickhouse w (envOrDefault (tw_vars w) ''CLICKHOUSE_URL'' ''http://localhost:8123'')) traceID = Inr rows"
  shows "let env = tw_lensai w url; evs = map (row_event env traceID tenantID) (enumerate 0 rows); k = accepted_rows env 0 rows in
    tool_main w [''dual-write'', ''--trace-id'', traceID, ''--tenant-id'', tenantID, ''--lensai-url'', url] =
      (if k = length rows
       then (ReportLine (''dual-wrote '' @ itoa (int (length rows)) @ '' tool call(s) for trace-id='' @ traceID @ '' tenant-id='' @ tenantID @
               '' to '' @ url), evs)
       else (ToolExit 1, take (k + (if fst (env k) = NoReply True then 1 else 0)) evs)) \<and>
    tool_main w [''dual-write'', ''--trace-id'', traceID, ''--tenant-id'', tenantID, ''--dry-run'', ''--lensai-url'', url] =
      (ShownEvents evs, [])"
  using assms by (simp add: tool_main_def dual_write_command_def dual_args_parsed [simplified] dual_defaults_def runDualWrite_def
      dual_write_rows_eq dual_write_report_def row_event_def Let_def)

definition demo_tool_world :: tool_world where
  "demo_tool_world =
     \<lparr>tw_vars = Map.empty, tw_parse_int = Atoi, tw_lower = (\<lambda>s. s), tw_quote = (\<lambda>s. s), tw_clickhouse = (\<lambda>_. demo_service False),
      tw_lensai = (\<lambda>_ n. (Reply 202, 3)), tw_ids = (\<lambda>_. []), tw_tools = (\<lambda>_. [])\<rparr>"

theorem dual_write_from_command_line_witness:
  "\<exists>evs. length evs = 1 \<and>
     tool_main demo_tool_world [''dual-write'', ''--trace-id'', ''t'', ''--tenant-id'', ''acme'', ''--lensai-url'', ''u''] =
       (ReportLine (''dual-wrote '' @ itoa 1 @ '' tool call(s) for trace-id=t tenant-id=acme to u''), evs) \<and>
     tool_main demo_tool_world [''dual-write'', ''--trace-id'', ''t'', ''--tenant-id'', ''acme'', ''--dry-run'', ''--lensai-url'', ''u''] =
       (ShownEvents evs, [])"
proof -
  let ?rows = "map call_row_of demo_rows"
  have fetch: "fetchToolCalls (demo_service False) ''t'' = Inr ?rows"
    using fetchToolCalls_table [OF demo_table_service demo_rows_facts(1)] demo_rows_facts(2) by simp
  have len: "length demo_rows = 1" by (simp add: demo_rows_def)
  have "accepted_rows (\<lambda>n. (Reply 202, 3)) 0 ?rows = 1" by (simp add: demo_rows_def accepted_reply_def)
  with dual_write_from_command_line [where w = demo_tool_world and rows = ?rows and traceID = "''t''" and tenantID = "''acme''" and url = "''u''"]
    fetch len demo_rows_facts(3)
  show ?thesis
    by (intro exI [of _ "map (row_event (\<lambda>n. (Reply 202, 3)) ''t'' ''acme'') (enumerate 0 ?rows)"]) (simp add: demo_tool_world_def Let_def)
qed

end
