(* ===== verification/Spec2Isabelle.thy ===== *)
theory Spec2Isabelle
  imports Consumer_Config Budget_Command Budget_Admin Flag_Daemon Call_Graph
    Trace_Collector Trace_Pipeline Prompt_Stack Replay_Command Cache_Command Bench_Report Tool_Main
begin

text \<open>
  This library verifies the Go services of infra-ai-streaming, a platform for telemetry of LLM
  inference.  The services are separate programs that meet in shared infrastructure (Kafka,
  ClickHouse, Redis, etcd, Postgres and the ingest endpoint of LensAI).  Each has a group of
  theories; every theory opens with the files it models.

  \<^bold>\<open>The parts and their theories.\<close>

  \<^item> \<^verbatim>\<open>consumer\<close> reads batches of inference events from Kafka, writes them to ClickHouse in batches,
    falls back to a dead-letter topic or a Redis list, and detects latency anomalies.
    \<open>Circuit_Breaker\<close> (breaker.go), \<open>Inference_Event\<close> (event.go, row.go), \<open>Overflow_Buffer\<close>
    (overflow.go), \<open>Dead_Letter\<close> (dlq.go), \<open>Batch_Writer\<close>, \<open>Handoff\<close> and \<open>Drain\<close> (writer.go),
    \<open>Latency_Anomaly\<close> (zscore.go), \<open>Kafka_Reader\<close> (reader.go, anomalies.go), \<open>Consumer_Config\<close> (config.go,
    the ticker loop of writer.go and main.go).  The goroutines of the
    writer are the actions of a step relation, so that the theorems hold for every interleaving of
    accepts, flushes and drains.  Main results: a committed record is stored, dead-lettered or
    buffered; an \<^verbatim>\<open>Accept\<close> returns only after its events were handed off; the breaker's answer as a
    function of its history; the detector equals its definition on the plain list of latencies; the
    drain loop ends when the dead-letter topic accepts everything or ClickHouse is healthy and the ids
    are usable; a shutdown leaves nothing in the buffer unless one of the flushes that
    \<^verbatim>\<open>Accept\<close> starts in the background is still in flight, in which case the last flush is skipped; every
    setting can be given through the environment.

  \<^item> \<^verbatim>\<open>cost-budget-enforcer\<close> counts tokens per tenant in sliding windows and passes, alerts,
    degrades or blocks.  \<open>Budget_Config\<close>, \<open>Budget_Store\<close> (the Lua script and the alert flags),
    \<open>Budget_Enforcer\<close>, \<open>Budget_Gateway\<close> (gateway and middleware), \<open>Budget_Command\<close> (stubgateway, the
    command around the gateway), \<open>Budget_Admin\<close> (admin API and audit trail).  Main results: the decision is the classification of the weighted usage of the history
    of calls; one alert per window, as long as the window in nanoseconds fits 64 bits; a failing store blocks what the configuration says; a run of the
    command keeps every tenant within its budget; an admin
    change is applied and audited or rolled back, whatever other requests do between the two steps.

  \<^item> \<^verbatim>\<open>distributed-flagd\<close> keeps feature flags in etcd and serves them over gRPC, HTTP and a
    Kubernetes controller.  \<open>Flag_Store\<close>, \<open>Flag_Eval\<close>, \<open>Flag_Server\<close>, \<open>Flag_Reconciler\<close>, \<open>Flag_Http\<close>,
    \<open>Flag_Cli\<close> (the rest of the Go client, flagctl and the audit topic), \<open>Flag_Daemon\<close> (the process: REST,
    gRPC, watcher, streams, flagctl and the controller over one etcd).  Main results: rollouts are sticky
    and exact on hash buckets; streams deliver updates in order, and under every interleaving of the
    writers a client converges to the stored flags as long as nothing is deleted, no queue overflows and no update
    falls between its snapshot and its subscription;
    the controller refines the replay of its watch events; a flag created by the client is read back
    when its name survives the URL that the client builds; a kill switch routes every user of its tenant,
    except while etcd cannot be read.

  \<^item> \<^verbatim>\<open>tool-call-analyzer\<close>: \<open>Call_Graph\<close> (the dependency graph of a trace, its topological sort, which
    terminates and is correct for every order of the Go maps, and the detection of repeated calls),
    \<open>Tool_Calls\<close> (adapters of the vendors, registry, statistics), \<open>Tool_Sinks\<close> (Kafka, ClickHouse with
    its fallback, LensAI), \<open>Tool_Command\<close> (the commands that read the table back) and \<open>Tool_Main\<close> (their
    flags and the dispatch).  Main results:
    an insert drops nothing it reports as done; which stored costs reach LensAI, under either way of
    printing 64-bit integers; the registry's answer does not depend on its order.

  \<^item> \<^verbatim>\<open>traceforge\<close> collects spans of agent runs.  \<open>Trace_Span\<close>, \<open>Trace_Sampling\<close> (samplers and
    redaction), \<open>Trace_Export\<close> (OTLP and the ingest handler), \<open>Trace_Collector\<close> (the collector process with
    its routes and metrics), \<open>Trace_Sdk\<close> (the Go SDK), \<open>Trace_Consumer\<close>
    (Kafka to ClickHouse), \<open>Trace_Pipeline\<close> (the transports of the SDK, the process of the consumer and
    what it makes of the spans of the SDK).  Main results: which spans survive sampling; the collector forwards
    exactly them and counts them exactly over any sequence of requests; a claim offers
    every batch to the database once, and stores exactly those whose transaction takes effect.

  \<^item> \<^verbatim>\<open>prompt-fingerprinter\<close>: \<open>Prompt_Fingerprint\<close> (normal form, rules, admin API) and \<open>Prompt_Stack\<close>
    (the two-tier cache).  Main results: two requests share a key exactly when they agree up to white
    space; a second-tier hit is a first-tier hit afterwards when Redis acknowledged the
    backfill, for a client whose reads and writes may fail.

  \<^item> \<^verbatim>\<open>agent-replay-engine\<close>: \<open>Replay_Log\<close> (event log, faults, mocker), \<open>Replay_Run\<close> (batch and streaming
    replay, comparison), \<open>Replay_Export\<close> (archives, retention, object store), \<open>Replay_Command\<close> (the
    command line and the MinIO store, a second interpretation of \<open>object_store\<close>).  Main results: streaming
    and batch replay agree on a trace whose events are in order, among those of other traces; what is
    written is read back unless a line exceeds the scanner's limit; a complete log replays to its recorded output; the comparison reports
    the first divergence; an export verifies.

  \<^item> \<^verbatim>\<open>agent-benchmark-runner\<close>: \<open>Bench_Run\<close> (tasks, grading, comparison, the goroutines of a batch as a
    step relation, summary, subprocess, rows and event) and \<open>Bench_Report\<close> (report, timeline, flame
    graph, landing page, the command).  No batch gets stuck, every one can end without cancellation, and each repetition's result is
    at its own index, skipped only after a cancellation; the confidence interval contains the pass rate; the drawings mark the
    first difference and fit their frame.

  \<^item> \<^verbatim>\<open>semantic-cache-engine\<close>: \<open>Cache_Store\<close> (embedder, table, worker), \<open>Cache_Lookup\<close> (thresholds, lookup,
    events, feedback, rates), \<open>Cache_Eval\<close> (similarity, threshold sweep, load test), \<open>Cache_Command\<close> (the
    commands).  Main results:
    the worker keeps the first response of each key and is idempotent; what it stored is a hit; a
    hit belongs to the tenant that asked, and is by hash, above the threshold, or of a similarity that
    is not a number; embeddings are returned in input order.

  \<open>Prelude\<close> holds what all of them share (outcomes that may panic, Go's string functions and integer
  division, decimal numerals, iteration order of maps), \<open>Go_Json\<close> the decoding and encoding of JSON
  documents by \<^verbatim>\<open>encoding/json\<close>, \<open>Go_Flag\<close> command lines by \<^verbatim>\<open>flag\<close>, the environment and \<^verbatim>\<open>strconv\<close>.

  \<^bold>\<open>Interfaces.\<close>  Where the code programs against a Go interface, the interface is a locale whose laws
  are what the caller relies on, the lemmas of the caller are proved inside the locale, and the
  implementation of the repository interprets it: \<open>overflow_buffer\<close>, \<open>dead_letter\<close>, \<open>writer_sinks\<close> and
  \<open>event_sink\<close> for the consumer, \<open>budget_store\<close>, \<open>flag_store\<close>, \<open>redis_client\<close>, \<open>object_store\<close>,
  \<open>entry_writer\<close>, \<open>text_embedder\<close> and their union \<open>cache_worker\<close>, \<open>cache_reader\<close> and its extension
  \<open>exact_reader\<close>, \<open>tool_adapter\<close> and \<open>adapter_registry\<close>.

  \<^bold>\<open>Conventions.\<close>  State is passed explicitly in records; an operation returns its result and the new
  state.  Errors are values of \<open>option\<close> or sum types, panics the constructor \<open>Panic\<close>.  Every call of
  the environment (a Redis command, a database statement, an HTTP exchange, a Kafka produce) has an
  outcome given by a function on the number of the call, so that each theorem covers every pattern
  of failures, including errors reported although the call took effect.  Functions that range over
  a Go map take the order of the keys as a list, and the theorems hold for every order.  Clocks are
  arguments.  \<^verbatim>\<open>uint32\<close>, \<^verbatim>\<open>uint64\<close> and hashes are words; \<^verbatim>\<open>int64\<close> is \<^typ>\<open>int\<close> with the wrap-around written
  out where a sum or product can overflow; \<^verbatim>\<open>float64\<close> is \<^typ>\<open>real\<close>, without rounding and
  infinities; only the similarity of the semantic cache, where the code compares it, can be NaN.

  \<^bold>\<open>Fuel and termination.\<close>  Loops over data are structural or have a measure on the length of what is
  left.  The depth-first search of \<open>Call_Graph\<close> takes one unit of fuel per node, which is enough because
  a node is entered once.  The drain loop of the writer may run for ever; it takes fuel for the
  number of rounds, and the theorems say how much is enough when the events find a sink, and that no
  amount is when both sinks are down.

  \<^bold>\<open>Not modelled.\<close>  Text of JSON documents, SHA-256, zstd, the Unicode tables, the text of a float and
  the index scan of pgvector, and the parsers of integer, float and duration flags, are arguments of the definitions that use them.  Third-party clients
  (franz-go, clickhouse-go, go-redis, etcd, pgx, MinIO, gRPC) appear as the environments described
  above.  Mutexes are left out: each method that holds its lock is one step.  Of the
  processes, the flags, settings, exit codes and standard output of the commands are modelled, and
  standard error, log output, metrics registries, timeouts of HTTP servers and the waiting for signals
  are not.  The second etcd client of distributed-flagd is an unused copy of the first.
  The ingestion gateway is Rust, and the SDKs in other languages, dashboards, deployment files
  and generated gRPC code are outside the Go packages verified here.
\<close>

end
